(* ===== verification/Umm_Prelude.thy ===== *)
theory Umm_Prelude
  imports Main "HOL-Library.Word"
begin

text \<open>
  The prelude of the development: the machine integers, the result type of the fallible
  operations with its sequencing, the guarded loops, the bit fields of the C++ unions and
  the automation collections the component theories add their facts to.
\<close>

unbundle bit_operations_syntax

section \<open>Collections\<close>

named_theorems res_simps \<open>inversion of the sequencing of fallible operations\<close>
named_theorems bf_simps \<open>reading and writing bit fields\<close>
named_theorems pte_simps \<open>fields of page table entries\<close>
named_theorems mach_simps \<open>reading the machine after an update\<close>
named_theorems sys_simps \<open>unfolding of the slot operations\<close>

section \<open>Machine integers\<close>

type_synonym u8 = "8 word"
type_synonym u16 = "16 word"
type_synonym u32 = "32 word"
type_synonym u64 = "64 word"

section \<open>Fallible operations\<close>

text \<open>
  How a call ends when it does not return: a failed \<open>kassert\<close> (the checks of a debug
  build), a \<open>kbugon\<close> that fired, a call of \<open>kabort\<close>, a \<open>while (1)\<close>, an exception
  of the C++ library that nobody catches, or behaviour that is not defined: of C++ (a null
  pointer dereferenced, an index out of range, \<open>front()\<close> of an empty container) or of an
  EbbRT object used against its contract (a promise that is set twice).
\<close>

datatype kerr = KAssert | KBug | KAbort | Hang | Uncaught | Undef

type_synonym 'a res = "kerr + 'a"

definition and_then :: "'a res \<Rightarrow> ('a \<Rightarrow> 'b res) \<Rightarrow> 'b res" where
  "and_then m f = (case m of Inl e \<Rightarrow> Inl e | Inr x \<Rightarrow> f x)"

definition kassert :: "bool \<Rightarrow> 'a res \<Rightarrow> 'a res" where
  "kassert b m = (if b then m else Inl KAssert)"

definition kbugon :: "bool \<Rightarrow> 'a res \<Rightarrow> 'a res" where
  "kbugon b m = (if b then Inl KBug else m)"

lemma and_then_Inr [simp]: "and_then (Inr x) f = f x"
  by (simp add: and_then_def)

lemma and_then_Inl [simp]: "and_then (Inl e) f = Inl e"
  by (simp add: and_then_def)

lemma and_then_eq_Inr [res_simps]:
  "and_then m f = Inr y \<longleftrightarrow> (\<exists>x. m = Inr x \<and> f x = Inr y)"
  by (cases m) auto

lemma and_then_eq_Inl:
  "and_then m f = Inl e \<longleftrightarrow> m = Inl e \<or> (\<exists>x. m = Inr x \<and> f x = Inl e)"
  by (cases m) auto

lemma and_then_cong [fundef_cong]:
  "m = m' \<Longrightarrow> (\<And>x. m' = Inr x \<Longrightarrow> f x = g x) \<Longrightarrow> and_then m f = and_then m' g"
  by (cases m') auto

lemma kassert_True [simp]: "kassert True m = m"
  by (simp add: kassert_def)

lemma kassert_False [simp]: "kassert False m = Inl KAssert"
  by (simp add: kassert_def)

lemma kassert_eq_Inr [res_simps]: "kassert b m = Inr y \<longleftrightarrow> b \<and> m = Inr y"
  by (simp add: kassert_def)

lemma kbugon_True [simp]: "kbugon True m = Inl KBug"
  by (simp add: kbugon_def)

lemma kbugon_False [simp]: "kbugon False m = m"
  by (simp add: kbugon_def)

lemma kbugon_eq_Inr [res_simps]: "kbugon b m = Inr y \<longleftrightarrow> \<not> b \<and> m = Inr y"
  by (simp add: kbugon_def)

section \<open>Loops that may fail\<close>

text \<open>\<open>foldR f xs s\<close> is the loop \<open>for x in xs: s = f(x, s)\<close>; the first failure ends it.\<close>

primrec foldR :: "('x \<Rightarrow> 's \<Rightarrow> 's res) \<Rightarrow> 'x list \<Rightarrow> 's \<Rightarrow> 's res" where
  "foldR f [] s = Inr s"
| "foldR f (x # xs) s = and_then (f x s) (foldR f xs)"

lemma and_then_return [simp]: "and_then m Inr = m"
  by (cases m) auto

lemma foldR_single: "foldR f [x] = f x"
proof
  fix s show "foldR f [x] s = f x s" by (cases "f x s") auto
qed

lemma foldR_append: "foldR f (xs @ ys) s = and_then (foldR f xs s) (foldR f ys)"
proof (induction xs arbitrary: s)
  case (Cons x xs)
  then show ?case by (cases "f x s") auto
qed simp

lemma foldR_concat:
  "foldR f (concat xss) s = foldR (\<lambda>xs. foldR f xs) xss s"
proof (induction xss arbitrary: s)
  case (Cons xs xss)
  have "foldR f (concat xss) = foldR (\<lambda>xs. foldR f xs) xss" using Cons by blast
  then show ?case by (simp add: foldR_append)
qed simp

lemma foldR_map: "foldR f (map g xs) s = foldR (\<lambda>x. f (g x)) xs s"
proof (induction xs arbitrary: s)
  case (Cons x xs)
  then have "foldR f (map g xs) = foldR (\<lambda>x. f (g x)) xs" by blast
  then show ?case by simp
qed simp

lemma foldR_cong [fundef_cong]:
  assumes "xs = ys" "s = t" "\<And>x s. x \<in> set ys \<Longrightarrow> f x s = g x s"
  shows "foldR f xs s = foldR g ys t"
  using assms(3) unfolding assms(1,2)
proof (induction ys arbitrary: t)
  case (Cons y ys)
  then show ?case by (cases "g y t") auto
qed simp

text \<open>Two loops whose bodies agree wherever an invariant holds that the bodies keep.\<close>

lemma foldR_cong_inv:
  assumes "I s"
    and "\<And>x s. x \<in> set xs \<Longrightarrow> I s \<Longrightarrow> f x s = g x s"
    and "\<And>x s s'. x \<in> set xs \<Longrightarrow> I s \<Longrightarrow> g x s = Inr s' \<Longrightarrow> I s'"
  shows "foldR f xs s = foldR g xs s"
  using assms
proof (induction xs arbitrary: s)
  case (Cons x xs)
  show ?case
  proof (cases "g x s")
    case (Inr s')
    with Cons.prems have "I s'" by (meson list.set_intros(1))
    then have "foldR f xs s' = foldR g xs s'"
      by (rule Cons.IH) (meson Cons.prems(2,3) list.set_intros(2))+
    with Cons.prems Inr show ?thesis by simp
  qed (use Cons.prems in simp)
qed simp

lemma foldR_inv:
  assumes "foldR f xs s = Inr s'" "I s"
    and "\<And>x s s'. x \<in> set xs \<Longrightarrow> I s \<Longrightarrow> f x s = Inr s' \<Longrightarrow> I s'"
  shows "I s'"
  using assms
proof (induction xs arbitrary: s)
  case (Cons x xs)
  then obtain s1 where "f x s = Inr s1" "foldR f xs s1 = Inr s'"
    by (auto simp: and_then_eq_Inr)
  moreover have "I s1" using Cons.prems \<open>f x s = Inr s1\<close> by auto
  ultimately show ?case using Cons by (meson list.set_intros(2))
qed simp

text \<open>Total correctness of a loop: an invariant indexed by the part already processed.\<close>

lemma foldR_prefix:
  assumes "I [] s"
    and "\<And>done x rest s. xs = done @ x # rest \<Longrightarrow> I done s \<Longrightarrow>
           \<exists>s'. f x s = Inr s' \<and> I (done @ [x]) s'"
  shows "\<exists>s'. foldR f xs s = Inr s' \<and> I xs s'"
proof -
  have "\<exists>s'. foldR f (take n xs) s = Inr s' \<and> I (take n xs) s'" if "n \<le> length xs" for n
    using that
  proof (induction n)
    case 0
    with assms(1) show ?case by simp
  next
    case (Suc n)
    then obtain s1 where s1: "foldR f (take n xs) s = Inr s1" "I (take n xs) s1" by auto
    have split: "xs = take n xs @ xs ! n # drop (Suc n) xs"
      using Suc.prems by (simp add: id_take_nth_drop)
    from assms(2)[OF split s1(2)] obtain s2 where
      "f (xs ! n) s1 = Inr s2" "I (take n xs @ [xs ! n]) s2" by blast
    with s1(1) Suc.prems show ?case by (simp add: take_Suc_conv_app_nth foldR_append)
  qed
  from this[of "length xs"] show ?thesis by simp
qed

lemma foldR_skip:
  assumes "\<And>x. x \<in> set xs \<Longrightarrow> f x s = Inr s"
  shows "foldR f xs s = Inr s"
  using assms by (induction xs) auto

text \<open>A scan in which only one entry does anything, as of a table with one entry.\<close>

lemma foldR_upt_single:
  assumes "i < n" "\<And>j s. j < n \<Longrightarrow> j \<noteq> i \<Longrightarrow> P s \<Longrightarrow> f j s = Inr s" "P s"
    and "\<And>s'. f i s = Inr s' \<Longrightarrow> P s'"
  shows "foldR f [0..<n] s = f i s"
proof -
  have split: "[0..<n] = [0..<i] @ i # [Suc i..<n]"
    using assms(1) by (metis le_add1 less_imp_add_positive plus_nat.add_0 upt_add_eq_append upt_rec)
  have "foldR f [0..<i] s = Inr s"
    using assms(1-3) by (intro foldR_skip) auto
  moreover have "foldR f [Suc i..<n] s' = Inr s'" if "P s'" for s'
    using that assms(2) by (intro foldR_skip) auto
  ultimately show ?thesis
    using assms(4) unfolding split by (cases "f i s") (auto simp: foldR_append)
qed

lemma concat_map_upt_single:
  assumes "i < n" "\<And>j. j < n \<Longrightarrow> j \<noteq> i \<Longrightarrow> f j = []"
  shows "concat (map f [0..<n]) = f i"
proof -
  have split: "[0..<n] = [0..<i] @ i # [Suc i..<n]"
    using assms(1) by (metis le_add1 less_imp_add_positive plus_nat.add_0 upt_add_eq_append upt_rec)
  have nil: "concat (map f js) = []" if "\<forall>j \<in> set js. j < n \<and> j \<noteq> i" for js
    using that assms(2) by auto
  show ?thesis
    using assms(1) nil[of "[0..<i]"] nil[of "[Suc i..<n]"] unfolding split
    by (simp del: concat_eq_Nil_conv)
qed

section \<open>Bit fields\<close>

text \<open>
  A C++ bit field of \<open>n\<close> bits whose lowest bit is bit \<open>p\<close> of the word: reading it
  gives its value, writing it truncates the value to \<open>n\<close> bits and keeps the other bits.
\<close>

definition bf_get :: "nat \<Rightarrow> nat \<Rightarrow> 'a::len word \<Rightarrow> 'a word" where
  "bf_get p n w = take_bit n (drop_bit p w)"

definition bf_set :: "nat \<Rightarrow> nat \<Rightarrow> 'a::len word \<Rightarrow> 'a word \<Rightarrow> 'a word" where
  "bf_set p n v w = (w AND NOT (push_bit p (mask n))) OR push_bit p (take_bit n v)"

lemma bit_bf_get [bf_simps]: "bit (bf_get p n w) k \<longleftrightarrow> k < n \<and> bit w (p + k)"
  by (simp add: bf_get_def bit_take_bit_iff bit_drop_bit_eq)

lemma bit_bf_set [bf_simps]:
  "bit (bf_set p n v (w :: 'a::len word)) k \<longleftrightarrow>
     k < LENGTH('a) \<and> (if p \<le> k \<and> k < p + n then bit v (k - p) else bit w k)"
  unfolding bf_set_def
  by (auto simp: bit_or_iff bit_and_iff bit_not_iff bit_push_bit_iff bit_mask_iff bit_take_bit_iff
      dest: bit_imp_le_length)

lemma bf_get_set_same [bf_simps]:
  "p + n \<le> LENGTH('a) \<Longrightarrow> bf_get p n (bf_set p n v (w :: 'a::len word)) = take_bit n v"
  by (rule bit_word_eqI) (auto simp: bit_bf_get bit_bf_set bit_take_bit_iff)

lemma bf_get_set_other [bf_simps]:
  "p + n \<le> q \<or> q + m \<le> p \<Longrightarrow> bf_get p n (bf_set q m v (w :: 'a::len word)) = bf_get p n w"
  by (rule bit_word_eqI) (auto simp: bit_bf_get bit_bf_set dest: bit_imp_le_length)

lemma bf_get_zero [simp]: "bf_get p n 0 = 0"
  by (simp add: bf_get_def)

lemma bf_get_bound: "unat (bf_get p n (w :: 'a::len word)) < 2 ^ n"
proof -
  have "unat (bf_get p n w) = take_bit n (unat (drop_bit p w))"
    by (simp add: bf_get_def unsigned_take_bit_eq)
  then show ?thesis by (simp add: take_bit_nat_less_exp)
qed

section \<open>Lists\<close>

lemma in_set_upt_512 [simp]: "i \<in> set [0..<n] \<longleftrightarrow> i < n"
  by simp

lemma distinct_remove1_iff: "distinct xs \<Longrightarrow> x \<in> set (remove1 y xs) \<longleftrightarrow> x \<in> set xs \<and> x \<noteq> y"
  by auto

lemma length_filter_concat:
  "length (filter P (concat xss)) = sum_list (map (\<lambda>xs. length (filter P xs)) xss)"
  by (induction xss) auto

lemma distinct_concat_upt:
  assumes "\<And>i. i < n \<Longrightarrow> distinct (f i)"
    and "\<And>i j. i < n \<Longrightarrow> j < n \<Longrightarrow> i \<noteq> j \<Longrightarrow> set (f i) \<inter> set (f j) = {}"
  shows "distinct (concat (map f [0..<n]))"
  using assms
proof (induction n)
  case (Suc n)
  have "set (f i) \<inter> set (f n) = {}" if "i < n" for i by (rule Suc.prems(2)) (use that in auto)
  then have "(\<Union>i \<in> {0..<n}. set (f i)) \<inter> set (f n) = {}" by fastforce
  moreover have "distinct (concat (map f [0..<n]))" by (rule Suc.IH) (use Suc.prems in auto)
  ultimately show ?case using Suc.prems(1)[of n] by simp
qed simp

end
