(* ===== verification/Umm_Pte.thy ===== *)
theory Umm_Pte
  imports Umm_Prelude
begin

text \<open>
  Page table entries and linear addresses at the bit level: the unions \<open>simple_pte\<close> and
  \<open>lin_addr\<close> of \<^verbatim>\<open>src/src/UmPgTblMgr.h\<close> and their operations of
  \<^verbatim>\<open>src/src/UmPgTblMgr.cc\<close>. Both are a 64-bit word with several bit-field
  interpretations, so both are \<open>u64\<close> here and a field is a \<open>bf_get\<close> or a \<open>bit\<close> of it.
\<close>

section \<open>Constants\<close>

definition SMALL_PG_SHIFT :: nat where "SMALL_PG_SHIFT = 12"
definition MED_PG_SHIFT :: nat where "MED_PG_SHIFT = 21"
definition LG_PG_SHIFT :: nat where "LG_PG_SHIFT = 30"

definition NO_LEVEL :: nat where "NO_LEVEL = 0"
definition TBL_LEVEL :: nat where "TBL_LEVEL = 1"
definition DIR_LEVEL :: nat where "DIR_LEVEL = 2"
definition PDPT_LEVEL :: nat where "PDPT_LEVEL = 3"
definition PML4_LEVEL :: nat where "PML4_LEVEL = 4"

definition orders :: "nat list" where "orders = [0, 0, 9, 18]"

definition pgShifts :: "nat list" where
  "pgShifts = [0, SMALL_PG_SHIFT, MED_PG_SHIFT, LG_PG_SHIFT]"

definition pgBytes :: "u64 list" where
  "pgBytes = [0, push_bit SMALL_PG_SHIFT 1, push_bit MED_PG_SHIFT 1, push_bit LG_PG_SHIFT 1]"

definition SLOT_PML4_NUM :: nat where "SLOT_PML4_NUM = 0x180"

lemmas level_defs = NO_LEVEL_def TBL_LEVEL_def DIR_LEVEL_def PDPT_LEVEL_def PML4_LEVEL_def
lemmas shift_defs = SMALL_PG_SHIFT_def MED_PG_SHIFT_def LG_PG_SHIFT_def

section \<open>Page table entries\<close>

text \<open>The fields of \<open>decompCommon\<close>; the one-bit fields are booleans.\<close>

definition pte_SEL :: "u64 \<Rightarrow> bool" where "pte_SEL e = bit e 0"
definition pte_RW :: "u64 \<Rightarrow> bool" where "pte_RW e = bit e 1"
definition pte_US :: "u64 \<Rightarrow> bool" where "pte_US e = bit e 2"
definition pte_A :: "u64 \<Rightarrow> bool" where "pte_A e = bit e 5"
definition pte_DIRTY :: "u64 \<Rightarrow> bool" where "pte_DIRTY e = bit e 6"
definition pte_MAPS :: "u64 \<Rightarrow> bool" where "pte_MAPS e = bit e 7"
definition pte_XD :: "u64 \<Rightarrow> bool" where "pte_XD e = bit e 63"
definition pte_PG_TBL_ADDR :: "u64 \<Rightarrow> u64" where "pte_PG_TBL_ADDR e = bf_get 12 40 e"
definition pte_PAGE_NUMBER_4K :: "u64 \<Rightarrow> u64" where "pte_PAGE_NUMBER_4K e = bf_get 12 40 e"
definition pte_PAGE_NUMBER_2M :: "u64 \<Rightarrow> u64" where "pte_PAGE_NUMBER_2M e = bf_get 21 31 e"
definition pte_PAGE_NUMBER_1G :: "u64 \<Rightarrow> u64" where "pte_PAGE_NUMBER_1G e = bf_get 30 22 e"

lemmas pte_field_defs = pte_SEL_def pte_RW_def pte_US_def pte_A_def pte_DIRTY_def pte_MAPS_def
  pte_XD_def pte_PG_TBL_ADDR_def pte_PAGE_NUMBER_4K_def pte_PAGE_NUMBER_2M_def
  pte_PAGE_NUMBER_1G_def

subsection \<open>Predicates on an entry\<close>

text \<open>\<open>exists\<close> is a keyword of the logic; the model calls it \<open>pte_exists\<close>.\<close>

definition pte_exists :: "u64 \<Rightarrow> bool" where "pte_exists e = pte_SEL e"
definition isWritable :: "u64 \<Rightarrow> bool" where "isWritable e = pte_RW e"
definition isReadOnly :: "u64 \<Rightarrow> bool" where "isReadOnly e = (\<not> pte_RW e)"
definition isDirty :: "u64 \<Rightarrow> bool" where "isDirty e = pte_DIRTY e"
definition isAccessed :: "u64 \<Rightarrow> bool" where "isAccessed e = pte_A e"

definition isLeaf :: "u64 \<Rightarrow> nat \<Rightarrow> bool" where
  "isLeaf e lvl = (if lvl = TBL_LEVEL then True else if pte_MAPS e then True else False)"

lemma isLeaf_1 [simp]: "isLeaf e (Suc 0)" and isLeaf_above: "lvl \<noteq> 1 \<Longrightarrow> isLeaf e lvl = pte_MAPS e"
  by (auto simp: isLeaf_def TBL_LEVEL_def)

lemma not_exists_0 [simp]: "\<not> pte_exists 0"
  by (simp add: pte_exists_def pte_SEL_def)

subsection \<open>The address an entry holds\<close>

definition pageTabEntToAddr :: "u64 \<Rightarrow> nat \<Rightarrow> u64 res" where
  "pageTabEntToAddr e lvl =
     (if lvl = PML4_LEVEL then Inr (push_bit SMALL_PG_SHIFT (pte_PG_TBL_ADDR e))
      else if lvl = PDPT_LEVEL then
        (if pte_MAPS e then Inr (push_bit LG_PG_SHIFT (pte_PAGE_NUMBER_1G e))
         else Inr (push_bit SMALL_PG_SHIFT (pte_PG_TBL_ADDR e)))
      else if lvl = DIR_LEVEL then
        (if pte_MAPS e then Inr (push_bit MED_PG_SHIFT (pte_PAGE_NUMBER_2M e))
         else Inr (push_bit SMALL_PG_SHIFT (pte_PG_TBL_ADDR e)))
      else if lvl = TBL_LEVEL then Inr (push_bit SMALL_PG_SHIFT (pte_PAGE_NUMBER_4K e))
      else Inl KAssert)"

definition pageTabEntToPFN :: "u64 \<Rightarrow> nat \<Rightarrow> u64 res" where
  "pageTabEntToPFN e lvl = and_then (pageTabEntToAddr e lvl) (\<lambda>a. Inr (drop_bit 12 a))"

definition cr3ToAddr :: "u64 \<Rightarrow> u64" where
  "cr3ToAddr e = push_bit SMALL_PG_SHIFT (pte_PG_TBL_ADDR e)"

text \<open>The 4K frame or table address of an entry that maps no large page.\<close>

definition ent_addr :: "u64 \<Rightarrow> u64" where
  "ent_addr e = push_bit 12 (bf_get 12 40 e)"

lemma pageTabEntToAddr_small:
  "1 \<le> lvl \<Longrightarrow> lvl \<le> 4 \<Longrightarrow> lvl = 1 \<or> \<not> pte_MAPS e \<or> lvl = 4 \<Longrightarrow>
   pageTabEntToAddr e lvl = Inr (ent_addr e)"
  by (auto simp: pageTabEntToAddr_def level_defs shift_defs ent_addr_def pte_field_defs)

lemma pageTabEntToAddr_fails_iff: "pageTabEntToAddr e lvl = Inl x \<longleftrightarrow> x = KAssert \<and> (lvl = 0 \<or> 4 < lvl)"
  by (auto simp: pageTabEntToAddr_def level_defs)

lemma cr3ToAddr_eq: "cr3ToAddr e = ent_addr e"
  by (simp add: cr3ToAddr_def ent_addr_def shift_defs pte_field_defs)

subsection \<open>Writing an entry\<close>

definition clearPTE :: "u64 \<Rightarrow> u64" where "clearPTE e = 0"

definition pte_build :: "u64 \<Rightarrow> bool \<Rightarrow> bool \<Rightarrow> bool \<Rightarrow> bool \<Rightarrow> bool \<Rightarrow> u64" where
  "pte_build tab dirty acc rw us xd =
     bf_set 12 40 (drop_bit 12 tab)
       (bf_set 63 1 (of_bool xd)
         (bf_set 6 1 (of_bool dirty)
           (bf_set 5 1 (of_bool acc)
             (bf_set 2 1 (of_bool us)
               (bf_set 1 1 (of_bool rw)
                 (bf_set 0 1 1 0))))))"

definition setPte :: "u64 \<Rightarrow> bool \<Rightarrow> bool \<Rightarrow> bool \<Rightarrow> bool \<Rightarrow> bool \<Rightarrow> u64 res" where
  "setPte tab dirty acc rw us xd =
     kassert (tab mod push_bit 12 1 = 0) (Inr (pte_build tab dirty acc rw us xd))"

text \<open>A page address that an entry can hold: 4K aligned and below \<open>2 ^ 52\<close>.\<close>

definition pg_ok :: "u64 \<Rightarrow> bool" where
  "pg_ok a \<longleftrightarrow> (\<forall>k < 12. \<not> bit a k) \<and> (\<forall>k. 52 \<le> k \<longrightarrow> \<not> bit a k)"

lemma pg_ok_iff: "pg_ok a \<longleftrightarrow> take_bit 12 a = 0 \<and> drop_bit 52 a = 0"
proof -
  have low: "take_bit 12 a = 0 \<longleftrightarrow> (\<forall>k < 12. \<not> bit a k)"
    by (auto simp: bit_eq_iff bit_take_bit_iff)
  have "drop_bit 52 a = 0 \<longleftrightarrow> (\<forall>k. \<not> bit a (52 + k))"
    by (auto simp: bit_eq_iff bit_drop_bit_eq) (drule_tac x = k in spec, use bit_imp_le_length in fastforce)
  also have "\<dots> \<longleftrightarrow> (\<forall>k \<ge> 52. \<not> bit a k)" by (metis le_add1 le_Suc_ex)
  finally show ?thesis by (simp add: pg_ok_def low)
qed

lemma pte_build_fields [pte_simps]:
  "pte_SEL (pte_build tab dirty acc rw us xd)"
  "pte_RW (pte_build tab dirty acc rw us xd) = rw"
  "pte_US (pte_build tab dirty acc rw us xd) = us"
  "pte_A (pte_build tab dirty acc rw us xd) = acc"
  "pte_DIRTY (pte_build tab dirty acc rw us xd) = dirty"
  "pte_XD (pte_build tab dirty acc rw us xd) = xd"
  "\<not> pte_MAPS (pte_build tab dirty acc rw us xd)"
  by (simp_all add: pte_build_def pte_field_defs bit_bf_set bit_of_bool_iff)

lemma pte_exists_build [pte_simps]: "pte_exists (pte_build tab dirty acc rw us xd)"
  by (simp add: pte_exists_def pte_simps)

lemma bit_ent_addr: "bit (ent_addr e) k \<longleftrightarrow> 12 \<le> k \<and> k < 52 \<and> bit e k"
  by (auto simp: ent_addr_def bit_push_bit_iff bit_bf_get dest: bit_imp_le_length)

lemma pg_ok_ent_addr [simp]: "pg_ok (ent_addr e)"
  by (simp add: pg_ok_def bit_ent_addr)

lemma ent_addr_build [pte_simps]: "pg_ok tab \<Longrightarrow> ent_addr (pte_build tab dirty acc rw us xd) = tab"
proof (rule bit_word_eqI)
  fix k assume ok: "pg_ok tab" and "k < LENGTH(64)"
  have "bit (ent_addr (pte_build tab dirty acc rw us xd)) k \<longleftrightarrow> 12 \<le> k \<and> k < 52 \<and> bit tab k"
    by (auto simp: bit_ent_addr pte_build_def bit_bf_set bit_drop_bit_eq)
  then show "bit (ent_addr (pte_build tab dirty acc rw us xd)) k \<longleftrightarrow> bit tab k"
    using ok unfolding pg_ok_def by (metis not_le)
qed

lemma mod_4096_iff [simp]: "(a :: u64) mod 4096 = 0 \<longleftrightarrow> (\<forall>k < 12. \<not> bit a k)"
proof -
  have "a mod 4096 = take_bit 12 a"
    by (simp add: take_bit_eq_mod)
  then show ?thesis
    by (auto simp: bit_eq_iff bit_take_bit_iff)
qed

lemma setPte_ok: "pg_ok tab \<Longrightarrow> setPte tab dirty acc rw us xd = Inr (pte_build tab dirty acc rw us xd)"
  by (simp add: setPte_def pg_ok_def)

lemma setPte_unaligned: "(\<exists>k < 12. bit tab k) \<Longrightarrow> setPte tab dirty acc rw us xd = Inl KAssert"
  by (auto simp: setPte_def kassert_def)

section \<open>Linear addresses\<close>

text \<open>
  \<open>lin_addr::operator[]\<close> drops the page offset, shifts right by nine bits \<open>idx - 1\<close> times
  (its loop runs no times for \<open>idx = 0\<close>) and keeps nine bits.
\<close>

primrec shr9_loop :: "nat \<Rightarrow> u64 \<Rightarrow> u64" where
  "shr9_loop 0 tmp = tmp"
| "shr9_loop (Suc n) tmp = shr9_loop n (drop_bit 9 tmp)"

definition lin_index :: "u64 \<Rightarrow> nat \<Rightarrow> nat" where
  "lin_index raw idx = unat (shr9_loop (idx - 1) (drop_bit 12 raw) AND (push_bit 9 1 - 1))"

lemma shr9_loop_eq: "shr9_loop n tmp = drop_bit (9 * n) tmp"
  by (induction n arbitrary: tmp) (auto simp: algebra_simps)

lemma lin_index_eq: "lin_index raw idx = unat (bf_get (12 + 9 * (idx - 1)) 9 raw)"
proof -
  have m: "push_bit 9 1 - 1 = (mask 9 :: u64)" by (simp add: mask_eq_exp_minus_1 push_bit_eq_mult)
  show ?thesis
    unfolding lin_index_def bf_get_def m shr9_loop_eq
    by (simp add: take_bit_eq_mask add.commute)
qed

lemma lin_index_bound [simp]: "lin_index raw idx < 512"
  using bf_get_bound[of _ 9 raw] unfolding lin_index_eq by simp

text \<open>The page an address lies in, \<open>Pfn::Down(a).ToAddr()\<close>.\<close>

definition pfn_down :: "u64 \<Rightarrow> u64" where
  "pfn_down a = a AND NOT (mask 12)"

lemma bit_pfn_down [bf_simps]: "bit (pfn_down a) k \<longleftrightarrow> 12 \<le> k \<and> bit a k"
  by (auto simp: pfn_down_def bit_and_iff bit_not_iff bit_mask_iff dest: bit_imp_le_length)

lemma pfn_down_idem [simp]: "pfn_down (pfn_down a) = pfn_down a"
  by (rule bit_word_eqI) (auto simp: bit_pfn_down)

text \<open>
  The copy walkers rebuild the address of a page from the indices that led to it. An index
  at or above \<open>0x100\<close> in the top table makes the address canonical (its upper 16 bits set).
\<close>

definition reconstructLinAddrPgFromOffsets :: "(nat \<Rightarrow> u64) \<Rightarrow> u64" where
  "reconstructLinAddrPgFromOffsets idx =
     (let la = bf_set 12 9 (idx TBL_LEVEL)
                 (bf_set 21 9 (idx DIR_LEVEL)
                   (bf_set 30 9 (idx PDPT_LEVEL)
                     (bf_set 39 9 (idx PML4_LEVEL) 0)))
      in if 0x100 \<le> idx PML4_LEVEL then la OR push_bit 48 0xffff else la)"

definition canonical :: "u64 \<Rightarrow> bool" where
  "canonical a \<longleftrightarrow> (\<forall>k. 48 \<le> k \<and> k < 64 \<longrightarrow> bit a k = bit a 47)"

lemma bit_hi16: "bit (0xffff000000000000 :: int) k \<longleftrightarrow> 48 \<le> k \<and> k < 64"
proof -
  have "(0xffff000000000000 :: int) = push_bit 48 (mask 16)"
    by (simp add: mask_eq_exp_minus_1 push_bit_eq_mult)
  then show ?thesis by (simp only: bit_push_bit_iff bit_mask_iff) auto
qed

lemma bit_reconstruct:
  assumes "\<And>l. l < 5 \<Longrightarrow> unat (idx l) < 512"
  shows "bit (reconstructLinAddrPgFromOffsets idx) k \<longleftrightarrow>
     (if k < 12 then False else if k < 21 then bit (idx 1) (k - 12)
      else if k < 30 then bit (idx 2) (k - 21) else if k < 39 then bit (idx 3) (k - 30)
      else if k < 48 then bit (idx 4) (k - 39) else k < 64 \<and> 0x100 \<le> idx 4)"
  unfolding reconstructLinAddrPgFromOffsets_def Let_def level_defs
  by (auto simp: bit_or_iff bit_bf_set bit_push_bit_iff bit_hi16)

lemma ge_256_iff_bit8: "unat (i :: u64) < 512 \<Longrightarrow> 0x100 \<le> i \<longleftrightarrow> bit i 8"
proof -
  assume "unat i < 512"
  have "bit i 8 \<longleftrightarrow> bit (unat i) 8" by (simp add: bit_unsigned_iff)
  then have "bit i 8 \<longleftrightarrow> odd (unat i div 256)" by (simp add: bit_iff_odd)
  moreover have "unat i div 256 = (if 256 \<le> unat i then 1 else 0)"
    using \<open>unat i < 512\<close> by (auto intro: div_nat_eqI)
  ultimately show ?thesis by (auto simp: word_le_nat_alt)
qed

definition lin_indices :: "u64 \<Rightarrow> nat \<Rightarrow> u64" where
  "lin_indices va l = of_nat (lin_index va l)"

lemma lin_indices_eq: "lin_indices va l = bf_get (12 + 9 * (l - 1)) 9 va"
  by (simp add: lin_indices_def lin_index_eq)

lemma unat_lin_indices [simp]: "unat (lin_indices va l) = lin_index va l"
  by (simp add: lin_indices_eq lin_index_eq)

lemma bit_lin_indices: "bit (lin_indices va l) k \<longleftrightarrow> k < 9 \<and> bit va (12 + 9 * (l - 1) + k)"
  by (simp add: lin_indices_eq bit_bf_get)

text \<open>Splitting a canonical address into indices and rebuilding it gives its page.\<close>

lemma reconstruct_lin_indices:
  assumes "canonical va"
  shows "reconstructLinAddrPgFromOffsets (lin_indices va) = pfn_down va"
proof (rule bit_word_eqI)
  fix k assume "k < LENGTH(64)"
  have top: "0x100 \<le> lin_indices va 4 \<longleftrightarrow> bit va 47"
    by (subst ge_256_iff_bit8) (simp_all add: bit_lin_indices)
  have "bit va k = bit va 47" if "48 \<le> k"
    using assms that \<open>k < LENGTH(64)\<close> by (simp add: canonical_def)
  then show "bit (reconstructLinAddrPgFromOffsets (lin_indices va)) k = bit (pfn_down va) k"
    using \<open>k < LENGTH(64)\<close>
    by (subst bit_reconstruct) (auto simp: bit_lin_indices bit_pfn_down top)
qed

text \<open>The indices of a rebuilt address are the ones it was built from.\<close>

lemma lin_index_reconstruct:
  assumes "\<And>l. l < 5 \<Longrightarrow> unat (idx l) < 512" "1 \<le> l" "l \<le> 4"
  shows "lin_index (reconstructLinAddrPgFromOffsets idx) l = unat (idx l)"
proof -
  have "idx l = take_bit 9 (idx l)"
    using assms by (simp add: word_unat_eq_iff unsigned_take_bit_eq take_bit_nat_eq_self)
  then have small: "\<not> bit (idx l) k" if "9 \<le> k" for k
    using that by (metis bit_take_bit_iff not_less)
  have "bf_get (12 + 9 * (l - 1)) 9 (reconstructLinAddrPgFromOffsets idx) = idx l"
  proof (rule bit_word_eqI)
    fix k
    consider "l = 1" | "l = 2" | "l = 3" | "l = 4" using assms by linarith
    then show "bit (bf_get (12 + 9 * (l - 1)) 9 (reconstructLinAddrPgFromOffsets idx)) k = bit (idx l) k"
      using small[of k]
      by cases (auto simp: bit_bf_get bit_reconstruct[OF assms(1)])
  qed
  then show ?thesis by (simp add: lin_index_eq)
qed

text \<open>Two addresses with the same indices on levels 1 to 4 lie in the same page, if canonical.\<close>

lemma canonical_page_eq:
  assumes "canonical va" "canonical vb" "\<And>l. 1 \<le> l \<Longrightarrow> l \<le> 4 \<Longrightarrow> lin_index va l = lin_index vb l"
  shows "pfn_down va = pfn_down vb"
proof -
  have "lin_indices va l = lin_indices vb l" if "l \<in> {1, 2, 3, 4}" for l
    using assms(3) that by (auto simp: lin_indices_def)
  then have "reconstructLinAddrPgFromOffsets (lin_indices va)
      = reconstructLinAddrPgFromOffsets (lin_indices vb)"
    by (simp add: reconstructLinAddrPgFromOffsets_def level_defs)
  then show ?thesis using assms by (simp add: reconstruct_lin_indices)
qed

section \<open>Splicing the page offset\<close>

text \<open>
  \<open>injectOffset\<close> declares a \<open>lin_addr pa\<close> without a value, writes its offset field and
  returns it: the other bits are those of the uninitialised variable, \<open>junk\<close> here. For a
  level the switch does not name nothing is written.
\<close>

definition injectOffset :: "u64 \<Rightarrow> u64 \<Rightarrow> nat \<Rightarrow> u64" where
  "injectOffset junk la lvl =
     (if lvl = PDPT_LEVEL then bf_set 0 30 (bf_get 0 30 la) junk
      else if lvl = DIR_LEVEL then bf_set 0 21 (bf_get 0 21 la) junk
      else if lvl = TBL_LEVEL then bf_set 0 12 (bf_get 0 12 la) junk
      else junk)"

end
