(* ===== verification/Umm_Machine.thy ===== *)
theory Umm_Machine
  imports Umm_Pte
begin

text \<open>
  The machine the page-table code runs on: physical memory, the control and debug
  registers it touches, and the answers of EbbRT's page allocator.

  Memory is a store of 8-byte cells, indexed by the byte address of the cell; EbbRT maps
  physical memory one to one, so a \<open>simple_pte *\<close> is the address of a cell. Pointer
  arithmetic \<open>root + i\<close> is \<open>pte_at root i\<close>.

  \<open>ebbrt::page_allocator\<close> is not part of this repository. Its answers are an input of the
  model: \<open>answers\<close> lists what the next calls of \<open>Alloc\<close> return (an empty list is the
  answer \<open>Pfn::None()\<close>), and \<open>freed\<close> records the calls of \<open>Free\<close> in order, as pairs
  of the page and its order. What the code relies on (pages aligned, not in use) is a
  hypothesis of the lemmas that need it.
\<close>

section \<open>State\<close>

datatype tlb_op = FlushAll | Invlpg u64

record mach =
  mem :: "u64 \<Rightarrow> u64"
  cr3 :: u64
  answers :: "u64 list"
  freed :: "(u64 \<times> nat) list"
  tlb_log :: "tlb_op list"
  dr0 :: u64
  dr7 :: u64

definition pte_at :: "u64 \<Rightarrow> nat \<Rightarrow> u64" where
  "pte_at root i = root + 8 * of_nat i"

definition ld :: "mach \<Rightarrow> u64 \<Rightarrow> u64" where "ld m a = mem m a"

definition st :: "u64 \<Rightarrow> u64 \<Rightarrow> mach \<Rightarrow> mach" where
  "st a v m = m\<lparr>mem := (mem m)(a := v)\<rparr>"

definition in_range :: "u64 \<Rightarrow> u64 \<Rightarrow> u64 \<Rightarrow> bool" where
  "in_range p n a \<longleftrightarrow> a - p < n"

definition memset0 :: "u64 \<Rightarrow> u64 \<Rightarrow> mach \<Rightarrow> mach" where
  "memset0 p n m = m\<lparr>mem := (\<lambda>a. if in_range p n a then 0 else mem m a)\<rparr>"

definition memcpy :: "u64 \<Rightarrow> u64 \<Rightarrow> u64 \<Rightarrow> mach \<Rightarrow> mach" where
  "memcpy dst src n m =
     m\<lparr>mem := (\<lambda>a. if in_range dst n a then mem m (src + (a - dst)) else mem m a)\<rparr>"

section \<open>Page allocator and translation caches\<close>

text \<open>\<open>auto page = page_allocator->Alloc(); kbugon(page == Pfn::None());\<close>\<close>

definition page_alloc :: "mach \<Rightarrow> (u64 \<times> mach) res" where
  "page_alloc m = (case answers m of [] \<Rightarrow> Inl KBug | p # ps \<Rightarrow> Inr (p, m\<lparr>answers := ps\<rparr>))"

definition page_free :: "u64 \<Rightarrow> nat \<Rightarrow> mach \<Rightarrow> mach" where
  "page_free p ord m = m\<lparr>freed := freed m @ [(p, ord)]\<rparr>"

definition flushTranslationCaches :: "mach \<Rightarrow> mach" where
  "flushTranslationCaches m = m\<lparr>tlb_log := tlb_log m @ [FlushAll]\<rparr>"

definition invlpg :: "u64 \<Rightarrow> mach \<Rightarrow> mach" where
  "invlpg a m = m\<lparr>tlb_log := tlb_log m @ [Invlpg a]\<rparr>"

definition getPML4Root :: "mach \<Rightarrow> u64" where
  "getPML4Root m = cr3ToAddr (cr3 m)"

definition kSlotPML4Offset :: nat where "kSlotPML4Offset = 0x180"

definition getSlotRoot :: "mach \<Rightarrow> u64" where
  "getSlotRoot m = pte_at (getPML4Root m) kSlotPML4Offset"

lemmas mach_defs = ld_def st_def memset0_def memcpy_def page_free_def
  flushTranslationCaches_def invlpg_def

lemma mach_sel [mach_simps]:
  "mem (st a v m) = (mem m)(a := v)" "cr3 (st a v m) = cr3 m" "answers (st a v m) = answers m"
  "freed (st a v m) = freed m" "tlb_log (st a v m) = tlb_log m"
  "cr3 (memset0 p n m) = cr3 m" "answers (memset0 p n m) = answers m"
  "freed (memset0 p n m) = freed m" "tlb_log (memset0 p n m) = tlb_log m"
  "cr3 (memcpy d s n m) = cr3 m" "answers (memcpy d s n m) = answers m"
  "freed (memcpy d s n m) = freed m" "tlb_log (memcpy d s n m) = tlb_log m"
  "mem (page_free p k m) = mem m" "cr3 (page_free p k m) = cr3 m"
  "answers (page_free p k m) = answers m"
  "mem (flushTranslationCaches m) = mem m" "cr3 (flushTranslationCaches m) = cr3 m"
  "answers (flushTranslationCaches m) = answers m"
  "mem (invlpg a m) = mem m" "cr3 (invlpg a m) = cr3 m" "answers (invlpg a m) = answers m"
  by (simp_all add: mach_defs)

lemma page_alloc_eq_Inr [res_simps]:
  "page_alloc m = Inr r \<longleftrightarrow> (\<exists>p ps. answers m = p # ps \<and> r = (p, m\<lparr>answers := ps\<rparr>))"
  by (auto simp: page_alloc_def split: list.splits)

section \<open>Cells of a page\<close>

lemma unat_eq_of_nat_small: "i < 512 \<Longrightarrow> unat (of_nat i :: u64) = i"
  by (simp add: unsigned_of_nat take_bit_nat_eq_self)

lemma bit_cell_offset: "i < 512 \<Longrightarrow> bit (8 * of_nat i :: u64) k \<Longrightarrow> k < 12"
proof -
  assume "i < 512" and b: "bit (8 * of_nat i :: u64) k"
  have "8 * of_nat i = (push_bit 3 (of_nat i) :: u64)" by (simp add: push_bit_eq_mult)
  with b have "3 \<le> k" "bit (of_nat i :: u64) (k - 3)" by (simp_all only: bit_push_bit_iff)
  moreover have "take_bit 9 (of_nat i :: u64) = of_nat i" using \<open>i < 512\<close>
    by (simp add: word_unat_eq_iff unsigned_take_bit_eq unat_eq_of_nat_small take_bit_nat_eq_self)
  ultimately have "k - 3 < 9" by (metis bit_take_bit_iff)
  then show ?thesis by simp
qed

lemma add_low_bits:
  assumes "pg_ok p" "\<And>k. bit d k \<Longrightarrow> k < 12"
  shows "p + d = p OR d"
  using assms by (intro disjunctive_add_eq_or bit_word_eqI)
     (auto simp: bit_and_iff pg_ok_def)

lemma pfn_down_add:
  assumes "pg_ok p" "\<And>k. bit d k \<Longrightarrow> k < 12"
  shows "pfn_down (p + d) = p"
proof -
  have "pfn_down (p OR d) = p"
    using assms by (intro bit_word_eqI) (auto simp: bit_pfn_down bit_or_iff pg_ok_def intro: leI dest!: assms(2))
  then show ?thesis by (simp add: add_low_bits[OF assms])
qed

lemma pfn_down_pte_at [simp]: "pg_ok root \<Longrightarrow> i < 512 \<Longrightarrow> pfn_down (pte_at root i) = root"
  unfolding pte_at_def by (rule pfn_down_add) (auto dest: bit_cell_offset)

lemma pte_at_inject [simp]:
  assumes "pg_ok r" "pg_ok r'" "i < 512" "j < 512"
  shows "pte_at r i = pte_at r' j \<longleftrightarrow> r = r' \<and> i = j"
proof
  assume eq: "pte_at r i = pte_at r' j"
  then have r: "r = r'" using assms by (metis pfn_down_pte_at)
  with eq have "(8 * of_nat i :: u64) = 8 * of_nat j" by (simp add: pte_at_def)
  then have "unat (8 * of_nat i :: u64) = unat (8 * of_nat j :: u64)" by simp
  then have "8 * i = 8 * j" using assms by (simp add: unat_word_ariths unat_eq_of_nat_small)
  then show "r = r' \<and> i = j" using r by simp
qed simp

lemma small_bits: "(d :: u64) < 4096 \<longleftrightarrow> (\<forall>k. bit d k \<longrightarrow> k < 12)"
proof
  assume "d < 4096"
  then have "take_bit 12 d = d"
    by (simp add: word_unat_eq_iff unsigned_take_bit_eq take_bit_nat_eq_self word_less_nat_alt)
  then show "\<forall>k. bit d k \<longrightarrow> k < 12" by (metis bit_take_bit_iff)
next
  assume "\<forall>k. bit d k \<longrightarrow> k < 12"
  then have "take_bit 12 d = d" by (intro bit_word_eqI) (auto simp: bit_take_bit_iff)
  then have "unat d = take_bit 12 (unat d)" by (metis unsigned_take_bit_eq)
  also have "\<dots> < 4096" using take_bit_nat_less_exp[of 12 "unat d"] by simp
  finally show "d < 4096" by (simp add: word_less_nat_alt)
qed

lemma in_page_iff:
  assumes "pg_ok p"
  shows "in_range p 4096 a \<longleftrightarrow> pfn_down a = p"
proof
  assume "in_range p 4096 a"
  then have "\<And>k. bit (a - p) k \<Longrightarrow> k < 12" by (auto simp: in_range_def small_bits)
  then have "pfn_down (p + (a - p)) = p" by (rule pfn_down_add[OF assms])
  then show "pfn_down a = p" by simp
next
  assume p: "pfn_down a = p"
  have "p OR take_bit 12 a = a"
    by (rule bit_word_eqI) (auto simp: p[symmetric] bit_or_iff bit_pfn_down bit_take_bit_iff)
  moreover have "p + take_bit 12 a = p OR take_bit 12 a"
    by (rule add_low_bits[OF assms]) (simp add: bit_take_bit_iff)
  ultimately have "a - p = take_bit 12 a" by (metis add_diff_cancel_left')
  then show "in_range p 4096 a" by (auto simp: in_range_def small_bits bit_take_bit_iff)
qed

lemma in_page_pte_at [simp]:
  "pg_ok p \<Longrightarrow> pg_ok r \<Longrightarrow> i < 512 \<Longrightarrow> in_range p 4096 (pte_at r i) \<longleftrightarrow> r = p"
  by (simp add: in_page_iff)

text \<open>Clearing or filling one page leaves the cells of the others alone.\<close>

lemma mem_memset0 [mach_simps]:
  "pg_ok p \<Longrightarrow> pg_ok r \<Longrightarrow> i < 512 \<Longrightarrow>
     mem (memset0 p 4096 m) (pte_at r i) = (if r = p then 0 else mem m (pte_at r i))"
  by (simp add: memset0_def)

lemma mem_memcpy [mach_simps]:
  "pg_ok d \<Longrightarrow> pg_ok r \<Longrightarrow> i < 512 \<Longrightarrow>
     mem (memcpy d s 4096 m) (pte_at r i) = (if r = d then mem m (pte_at s i) else mem m (pte_at r i))"
  by (auto simp: memcpy_def) (simp add: pte_at_def)

lemma mem_st [mach_simps]:
  "pg_ok t \<Longrightarrow> pg_ok r \<Longrightarrow> i < 512 \<Longrightarrow> j < 512 \<Longrightarrow>
     mem (st (pte_at t j) v m) (pte_at r i) = (if r = t \<and> i = j then v else mem m (pte_at r i))"
  by (auto simp: st_def)

lemma mem_set_answers [mach_simps]: "mem (m\<lparr>answers := ps\<rparr>) = mem m"
  by simp

section \<open>Concrete machines\<close>

text \<open>A machine with the given memory and allocator answers, for evaluating the model on examples.\<close>

definition mach_of :: "(u64 \<Rightarrow> u64) \<Rightarrow> u64 list \<Rightarrow> mach" where
  "mach_of h ps = \<lparr>mem = h, cr3 = 0, answers = ps, freed = [], tlb_log = [], dr0 = 0, dr7 = 0\<rparr>"

lemma mach_of_sel [simp]:
  "mem (mach_of h ps) = h" "answers (mach_of h ps) = ps" "cr3 (mach_of h ps) = 0"
  "freed (mach_of h ps) = []"
  by (simp_all add: mach_of_def)

lemma pg_ok_of_nat [simp]: "n < 2 ^ 40 \<Longrightarrow> pg_ok (push_bit 12 (of_nat n))"
proof -
  assume "n < 2 ^ 40"
  then have "take_bit 40 n = n" by (simp add: take_bit_nat_eq_self)
  then have "\<not> bit n k" if "40 \<le> k" for k using that by (metis bit_take_bit_iff not_less)
  then show ?thesis by (auto simp: pg_ok_def bit_push_bit_iff bit_of_nat_iff)
qed

end
