(* ===== verification/Umm_Traverse.thy ===== *)
theory Umm_Traverse
  imports Umm_Machine
begin

text \<open>
  The general traversal of \<^verbatim>\<open>src/src/UmPgTblMgr.cc\<close>: \<open>traversePageTable\<close> scans the 512
  entries of a table, calls the client's functions and recurses into sub-tables. The
  client's functions work on a state of their own and on the machine.

  The list \<open>visits\<close> is the specification: the calls a traversal makes, in order. The main
  lemma says that a traversal whose functions leave memory alone is the loop over it.
\<close>

section \<open>Following an entry\<close>

definition nextTableOrFrame :: "mach \<Rightarrow> u64 \<Rightarrow> nat \<Rightarrow> nat \<Rightarrow> u64 res" where
  "nextTableOrFrame m pg_tbl_start pg_tbl_offset lvl =
     (let pte = ld m (pte_at pg_tbl_start pg_tbl_offset)
      in kassert (pte_exists pte) (pageTabEntToAddr pte lvl))"

lemma nextTableOrFrame_small:
  "pte_exists (mem m (pte_at r i)) \<Longrightarrow> 1 \<le> lvl \<Longrightarrow> lvl \<le> 4 \<Longrightarrow>
     lvl = 1 \<or> lvl = 4 \<or> \<not> pte_MAPS (mem m (pte_at r i)) \<Longrightarrow>
   nextTableOrFrame m r i lvl = Inr (ent_addr (mem m (pte_at r i)))"
  by (auto simp: nextTableOrFrame_def ld_def Let_def pageTabEntToAddr_small)

lemma nextTableOrFrame_0 [simp]: "nextTableOrFrame m r i 0 = Inl KAssert"
  by (simp add: nextTableOrFrame_def Let_def pageTabEntToAddr_def level_defs kassert_def)

section \<open>The traversal\<close>

type_synonym 'c tstate = "'c \<times> mach"
type_synonym 'c predicateFn = "u64 \<Rightarrow> nat \<Rightarrow> 'c tstate \<Rightarrow> (bool \<times> 'c tstate) res"
type_synonym 'c leafFn = "u64 \<Rightarrow> nat \<Rightarrow> 'c tstate \<Rightarrow> 'c tstate res"
type_synonym 'c afterRecFn = "u64 \<Rightarrow> u64 \<Rightarrow> nat \<Rightarrow> 'c tstate \<Rightarrow> 'c tstate res"

definition nullBRFn :: "'c leafFn" where "nullBRFn curPte lvl s = Inr s"
definition nullARFn :: "'c afterRecFn" where "nullARFn childPte curPte lvl s = Inr s"
definition nullLFn :: "'c leafFn" where "nullLFn = nullBRFn"
definition nullBRetFn :: "'c leafFn" where "nullBRetFn = nullBRFn"

lemma null_fns:
  "nullBRFn a l s = Inr s" "nullARFn a b l s = Inr s"
  "nullLFn a l s = Inr s" "nullBRetFn a l s = Inr s"
  by (simp_all add: nullBRFn_def nullARFn_def nullLFn_def nullBRetFn_def)

text \<open>The body of the loop over the entries of the table \<open>root\<close>; \<open>rec\<close> is the recursive call.\<close>

definition visit_entry ::
  "'c predicateFn \<Rightarrow> 'c leafFn \<Rightarrow> 'c afterRecFn \<Rightarrow> 'c leafFn \<Rightarrow> (u64 \<Rightarrow> 'c tstate \<Rightarrow> 'c tstate res) \<Rightarrow>
     nat \<Rightarrow> u64 \<Rightarrow> nat \<Rightarrow> 'c tstate \<Rightarrow> 'c tstate res" where
  "visit_entry P BR AR L rec lvl root i s =
     (let curPte = pte_at root i in
      and_then (P curPte lvl s) (\<lambda>(go, s1).
        if \<not> go then Inr s1
        else if isLeaf (ld (snd s1) curPte) lvl then L curPte lvl s1
        else and_then (BR curPte lvl s1) (\<lambda>s2.
             and_then (nextTableOrFrame (snd s2) root i lvl) (\<lambda>childRoot.
             and_then (rec childRoot s2) (\<lambda>s3. AR childRoot curPte lvl s3)))))"

text \<open>
  At level 0, which no caller uses, an entry that is not a leaf fails in
  \<open>nextTableOrFrame\<close>, so the recursive call below it is never made.
\<close>

primrec traversePageTable ::
  "'c predicateFn \<Rightarrow> 'c leafFn \<Rightarrow> 'c afterRecFn \<Rightarrow> 'c leafFn \<Rightarrow> 'c leafFn \<Rightarrow>
     nat \<Rightarrow> u64 \<Rightarrow> 'c tstate \<Rightarrow> 'c tstate res" where
  "traversePageTable P BR AR L BRET 0 root s =
     and_then (foldR (visit_entry P BR AR L (\<lambda>_ _. Inl KAssert) 0 root) [0..<512] s) (BRET root 0)"
| "traversePageTable P BR AR L BRET (Suc l) root s =
     and_then (foldR (visit_entry P BR AR L (traversePageTable P BR AR L BRET l) (Suc l) root) [0..<512] s)
       (BRET root (Suc l))"

definition existsPred :: "'c predicateFn" where
  "existsPred curPte lvl s = Inr (pte_exists (ld (snd s) curPte), s)"

definition accessedPred :: "'c predicateFn" where
  "accessedPred curPte lvl s =
     (let e = ld (snd s) curPte in Inr (pte_exists e \<and> isAccessed e, s))"

definition traverseValidPages ::
  "nat \<Rightarrow> u64 \<Rightarrow> 'c leafFn \<Rightarrow> 'c afterRecFn \<Rightarrow> 'c leafFn \<Rightarrow> 'c leafFn \<Rightarrow> 'c tstate \<Rightarrow> 'c tstate res" where
  "traverseValidPages lvl root BR AR L BRET = traversePageTable existsPred BR AR L BRET lvl root"

definition traverseAccessedPages ::
  "nat \<Rightarrow> u64 \<Rightarrow> 'c leafFn \<Rightarrow> 'c leafFn \<Rightarrow> 'c tstate \<Rightarrow> 'c tstate res" where
  "traverseAccessedPages lvl root L BRET =
     traversePageTable accessedPred nullBRFn nullARFn L BRET lvl root"

section \<open>The calls a traversal makes\<close>

datatype visit = VLeaf u64 nat | VRet u64 nat

primrec visits :: "(u64 \<Rightarrow> bool) \<Rightarrow> (u64 \<Rightarrow> u64) \<Rightarrow> nat \<Rightarrow> u64 \<Rightarrow> visit list" where
  "visits p h 0 root = []"
| "visits p h (Suc l) root =
     concat (map (\<lambda>i. let a = pte_at root i; e = h a in
        if \<not> p e then [] else if isLeaf e (Suc l) then [VLeaf a (Suc l)]
        else visits p h l (ent_addr e)) [0..<512]) @ [VRet root (Suc l)]"

fun run_visit :: "'c leafFn \<Rightarrow> 'c leafFn \<Rightarrow> visit \<Rightarrow> 'c tstate \<Rightarrow> 'c tstate res" where
  "run_visit L BRET (VLeaf a lvl) = L a lvl"
| "run_visit L BRET (VRet a lvl) = BRET a lvl"

text \<open>Functions that leave memory alone.\<close>

definition keeps_mem :: "('c tstate \<Rightarrow> 'c tstate res) \<Rightarrow> bool" where
  "keeps_mem f \<longleftrightarrow> (\<forall>s s'. f s = Inr s' \<longrightarrow> mem (snd s') = mem (snd s))"

lemma keeps_memD: "keeps_mem f \<Longrightarrow> f s = Inr s' \<Longrightarrow> mem (snd s') = mem (snd s)"
  by (simp add: keeps_mem_def del: split_paired_All)

lemma foldR_keeps_mem:
  "(\<And>x. x \<in> set xs \<Longrightarrow> keeps_mem (f x)) \<Longrightarrow> keeps_mem (foldR f xs)"
proof (induction xs)
  case (Cons x xs)
  then have "keeps_mem (f x)" "keeps_mem (foldR f xs)" by auto
  then show ?case unfolding keeps_mem_def by (auto simp: and_then_eq_Inr)
qed (simp add: keeps_mem_def)

lemma run_visit_keeps_mem:
  "(\<And>a l. keeps_mem (L a l)) \<Longrightarrow> (\<And>a l. keeps_mem (B a l)) \<Longrightarrow> keeps_mem (run_visit L B v)"
  by (cases v) auto

text \<open>A predicate that only reads the entry, and only follows entries that exist.\<close>

definition reads_entry :: "'c predicateFn \<Rightarrow> (u64 \<Rightarrow> bool) \<Rightarrow> bool" where
  "reads_entry P p \<longleftrightarrow>
     (\<forall>a lvl s. P a lvl s = Inr (p (mem (snd s) a), s)) \<and> (\<forall>e. p e \<longrightarrow> pte_exists e)"

lemma reads_existsPred: "reads_entry existsPred pte_exists"
  by (simp add: reads_entry_def existsPred_def ld_def)

lemma reads_accessedPred: "reads_entry accessedPred (\<lambda>e. pte_exists e \<and> isAccessed e)"
  by (simp add: reads_entry_def accessedPred_def ld_def Let_def)

theorem traverse_eq_visits:
  assumes P: "reads_entry P p" and L: "\<And>a l. keeps_mem (L a l)" and B: "\<And>a l. keeps_mem (B a l)"
    and "lvl \<le> 4" "0 < lvl" "mem (snd s) = h"
  shows "traversePageTable P nullBRFn nullARFn L B lvl root s
           = foldR (run_visit L B) (visits p h lvl root) s"
  using assms(4-6)
proof (induction lvl arbitrary: root s)
  case (Suc l)
  let ?rec = "traversePageTable P nullBRFn nullARFn L B l"
  let ?vs = "\<lambda>i. let a = pte_at root i; e = h a in
        if \<not> p e then [] else if isLeaf e (Suc l) then [VLeaf a (Suc l)] else visits p h l (ent_addr e)"
  let ?g = "\<lambda>i. foldR (run_visit L B) (?vs i)"
  have keep: "keeps_mem (?g i)" for i
    by (rule foldR_keeps_mem) (rule run_visit_keeps_mem[OF L B])
  have step: "visit_entry P nullBRFn nullARFn L ?rec (Suc l) root i t = ?g i t"
    if t: "mem (snd t) = h" for i t
  proof -
    have Pt: "P (pte_at root i) (Suc l) t = Inr (p (h (pte_at root i)), t)"
      using P t by (simp add: reads_entry_def del: split_paired_All)
    show ?thesis
    proof (cases "p (h (pte_at root i)) \<and> \<not> isLeaf (h (pte_at root i)) (Suc l)")
      case True
      then have "l \<noteq> 0" by (cases l) auto
      moreover have "pte_exists (h (pte_at root i))" using P True by (simp add: reads_entry_def)
      moreover have "\<not> pte_MAPS (h (pte_at root i))"
        using True by (auto simp: isLeaf_def split: if_splits)
      ultimately have nx: "nextTableOrFrame (snd t) root i (Suc l) = Inr (ent_addr (h (pte_at root i)))"
        using Suc.prems t by (subst nextTableOrFrame_small) auto
      have "?rec (ent_addr (h (pte_at root i))) t
              = foldR (run_visit L B) (visits p h l (ent_addr (h (pte_at root i)))) t"
        by (rule Suc.IH) (use Suc.prems \<open>l \<noteq> 0\<close> t in auto)
      then show ?thesis
        using True Pt nx t
        by (simp add: visit_entry_def Let_def ld_def null_fns(1))
           (cases "foldR (run_visit L B) (visits p h l (ent_addr (h (pte_at root i)))) t";
            simp add: null_fns(2))
    next
      case False
      then show ?thesis
        using Pt t by (auto simp: visit_entry_def Let_def ld_def split: sum.split)
           (cases "L (pte_at root i) (Suc l) t"; simp)
    qed
  qed
  have "foldR (visit_entry P nullBRFn nullARFn L ?rec (Suc l) root) [0..<512] s
          = foldR ?g [0..<512] s"
  proof (rule foldR_cong_inv[where I = "\<lambda>t. mem (snd t) = h"])
    show "mem (snd s) = h" by (rule Suc.prems)
  next
    fix i and t :: "'a tstate" assume "mem (snd t) = h"
    then show "visit_entry P nullBRFn nullARFn L ?rec (Suc l) root i t = ?g i t" by (rule step)
  next
    fix i and t t' :: "'a tstate" assume "mem (snd t) = h" "?g i t = Inr t'"
    then show "mem (snd t') = h" using keeps_memD[OF keep] by metis
  qed
  then show ?case by (simp add: foldR_append foldR_concat foldR_map foldR_single)
qed simp

end
