(* ===== verification/Umm_PgTree.thy ===== *)
theory Umm_PgTree
  imports Umm_Traverse
begin

text \<open>
  The abstract view of a page table: the tree below a root at a level, read off memory. A
  root of 0 is the null pointer, the empty tree. \<open>pt_lookup\<close> is the specification the
  mapping operations are measured against: the leaf entry a translation through the given
  indices ends at, if the entries on the way exist. \<open>tbls\<close> are the pages that hold the
  tables of the tree and \<open>wf_pt\<close> says that they form a tree of 4K mappings: aligned, no
  table reached twice, no large page.
\<close>

section \<open>Tables, well-formedness and lookup\<close>

primrec tbls :: "(u64 \<Rightarrow> u64) \<Rightarrow> nat \<Rightarrow> u64 \<Rightarrow> u64 set" where
  "tbls h 0 root = {}"
| "tbls h (Suc l) root =
     (if root = 0 then {} else insert root
       (\<Union>i \<in> {..<512}. let e = h (pte_at root i) in if pte_exists e then tbls h l (ent_addr e) else {}))"

primrec wf_pt :: "(u64 \<Rightarrow> u64) \<Rightarrow> nat \<Rightarrow> u64 \<Rightarrow> bool" where
  "wf_pt h 0 root = True"
| "wf_pt h (Suc l) root =
     (root = 0 \<or> pg_ok root \<and>
       (\<forall>i < 512. let e = h (pte_at root i) in
          pte_exists e \<and> 0 < l \<longrightarrow>
            \<not> pte_MAPS e \<and> ent_addr e \<noteq> 0 \<and> wf_pt h l (ent_addr e) \<and>
            root \<notin> tbls h l (ent_addr e) \<and>
            (\<forall>j < 512. let e' = h (pte_at root j) in
               j \<noteq> i \<and> pte_exists e' \<longrightarrow> tbls h l (ent_addr e) \<inter> tbls h l (ent_addr e') = {})))"

primrec pt_lookup :: "(u64 \<Rightarrow> u64) \<Rightarrow> nat \<Rightarrow> u64 \<Rightarrow> (nat \<Rightarrow> nat) \<Rightarrow> u64 option" where
  "pt_lookup h 0 root ix = None"
| "pt_lookup h (Suc l) root ix =
     (if root = 0 then None
      else let e = h (pte_at root (ix (Suc l))) in
        if \<not> pte_exists e then None
        else if isLeaf e (Suc l) then Some e
        else pt_lookup h l (ent_addr e) ix)"

text \<open>The entries of a table that lead on are accessed, all the way down.\<close>

primrec acc_below :: "(u64 \<Rightarrow> u64) \<Rightarrow> nat \<Rightarrow> u64 \<Rightarrow> bool" where
  "acc_below h 0 root = True"
| "acc_below h (Suc l) root =
     (\<forall>i < 512. let e = h (pte_at root i) in
        0 < l \<and> pte_exists e \<longrightarrow> isAccessed e \<and> acc_below h l (ent_addr e))"

definition same_cells :: "(u64 \<Rightarrow> u64) \<Rightarrow> (u64 \<Rightarrow> u64) \<Rightarrow> u64 set \<Rightarrow> bool" where
  "same_cells h h' T \<longleftrightarrow> (\<forall>t \<in> T. \<forall>i < 512. pg_ok t \<longrightarrow> h' (pte_at t i) = h (pte_at t i))"

lemma same_cellsD: "same_cells h h' T \<Longrightarrow> t \<in> T \<Longrightarrow> pg_ok t \<Longrightarrow> i < 512 \<Longrightarrow> h' (pte_at t i) = h (pte_at t i)"
  by (simp add: same_cells_def)

lemma same_cells_refl [simp]: "same_cells h h T"
  by (simp add: same_cells_def)

lemma same_cells_mono: "same_cells h h' T \<Longrightarrow> S \<subseteq> T \<Longrightarrow> same_cells h h' S"
  by (auto simp: same_cells_def)

lemma same_cells_trans: "same_cells h h' T \<Longrightarrow> same_cells h' h'' T \<Longrightarrow> same_cells h h'' T"
  by (simp add: same_cells_def)

lemma tbls_null [simp]: "tbls h l 0 = {}"
  by (cases l) auto

lemma wf_pt_null [simp]: "wf_pt h l 0"
  by (cases l) auto

lemma pt_lookup_null [simp]: "pt_lookup h l 0 ix = None"
  by (cases l) auto

lemma root_in_tbls: "root \<noteq> 0 \<Longrightarrow> 0 < l \<Longrightarrow> root \<in> tbls h l root"
  by (cases l) auto

lemma wf_pt_pg_ok: "wf_pt h l root \<Longrightarrow> 0 < l \<Longrightarrow> root \<noteq> 0 \<Longrightarrow> pg_ok root"
  by (cases l) auto

lemma wf_pt_entry:
  assumes "wf_pt h (Suc l) root" "root \<noteq> 0" "0 < l" "i < 512" "pte_exists (h (pte_at root i))"
  shows "\<not> pte_MAPS (h (pte_at root i))" "ent_addr (h (pte_at root i)) \<noteq> 0"
    "wf_pt h l (ent_addr (h (pte_at root i)))" "root \<notin> tbls h l (ent_addr (h (pte_at root i)))"
    "\<And>j. j < 512 \<Longrightarrow> j \<noteq> i \<Longrightarrow> pte_exists (h (pte_at root j)) \<Longrightarrow>
       tbls h l (ent_addr (h (pte_at root i))) \<inter> tbls h l (ent_addr (h (pte_at root j))) = {}"
  using assms by (auto simp: Let_def)

lemma tbls_pg_ok: "wf_pt h l root \<Longrightarrow> t \<in> tbls h l root \<Longrightarrow> pg_ok t \<and> t \<noteq> 0"
proof (induction l arbitrary: root)
  case (Suc l)
  then have nz: "root \<noteq> 0" by auto
  from Suc.prems consider "t = root" | i where "i < 512" "pte_exists (h (pte_at root i))"
      "t \<in> tbls h l (ent_addr (h (pte_at root i)))"
    using nz by (auto simp: Let_def split: if_splits)
  then show ?case
  proof cases
    case 1
    then show ?thesis using Suc.prems nz by auto
  next
    case 2
    then have "0 < l" by (cases l) auto
    then show ?thesis using Suc.IH 2 wf_pt_entry(3)[OF Suc.prems(1) nz] by blast
  qed
qed simp

lemma child_tbls_subset:
  assumes "i < 512" "root \<noteq> 0" "pte_exists (h (pte_at root i))"
  shows "tbls h l (ent_addr (h (pte_at root i))) \<subseteq> tbls h (Suc l) root"
  using assms by (fastforce simp: Let_def)

text \<open>A tree depends on the cells of its own tables only.\<close>

lemma tree_frame:
  assumes "wf_pt h l root" "same_cells h h' (tbls h l root)"
  shows "tbls h' l root = tbls h l root" "wf_pt h' l root"
    and "(\<And>j. ix j < 512) \<Longrightarrow> pt_lookup h' l root ix = pt_lookup h l root ix"
    and "root \<noteq> 0 \<Longrightarrow> acc_below h' l root = acc_below h l root"
proof -
  have "tbls h' l root = tbls h l root \<and> wf_pt h' l root \<and> (root \<noteq> 0 \<longrightarrow> acc_below h' l root = acc_below h l root) \<and>
      (\<forall>ix. (\<forall>j. ix j < 512) \<longrightarrow> pt_lookup h' l root ix = pt_lookup h l root ix)"
    using assms
  proof (induction l arbitrary: root)
    case (Suc l)
    show ?case
    proof (cases "root = 0")
      case False
      then have ok: "pg_ok root" using Suc.prems by auto
      have cell: "h' (pte_at root i) = h (pte_at root i)" if "i < 512" for i
        using Suc.prems(2) that ok False by (intro same_cellsD) auto
      have child: "tbls h' l (ent_addr (h (pte_at root i))) = tbls h l (ent_addr (h (pte_at root i)))
          \<and> wf_pt h' l (ent_addr (h (pte_at root i))) \<and>
          (ent_addr (h (pte_at root i)) \<noteq> 0 \<longrightarrow>
             acc_below h' l (ent_addr (h (pte_at root i))) = acc_below h l (ent_addr (h (pte_at root i)))) \<and> (\<forall>ix. (\<forall>j. ix j < 512) \<longrightarrow>
             pt_lookup h' l (ent_addr (h (pte_at root i))) ix = pt_lookup h l (ent_addr (h (pte_at root i))) ix)"
        if "i < 512" "pte_exists (h (pte_at root i))" for i
      proof (cases "l = 0")
        case False
        have "tbls h l (ent_addr (h (pte_at root i))) \<subseteq> tbls h (Suc l) root"
          using child_tbls_subset[where h = h] that \<open>root \<noteq> 0\<close> by blast
        then have "same_cells h h' (tbls h l (ent_addr (h (pte_at root i))))"
          by (rule same_cells_mono[OF Suc.prems(2)])
        moreover have "wf_pt h l (ent_addr (h (pte_at root i)))"
          using wf_pt_entry(3)[OF Suc.prems(1) \<open>root \<noteq> 0\<close> _ that] False by blast
        ultimately show ?thesis using Suc.IH by blast
      qed simp
      have t: "tbls h' (Suc l) root = tbls h (Suc l) root"
        using False cell child by (auto simp: Let_def)
      moreover have "wf_pt h' (Suc l) root"
        using ok cell child wf_pt_entry[OF Suc.prems(1) False] by (simp add: Let_def)
      moreover have "acc_below h' (Suc l) root = acc_below h (Suc l) root"
        using cell child wf_pt_entry(2)[OF Suc.prems(1) False] by (simp add: Let_def)
      moreover have "pt_lookup h' (Suc l) root ix = pt_lookup h (Suc l) root ix" if "\<forall>j. ix j < 512" for ix
        using that cell child by (auto simp: Let_def)
      ultimately show ?thesis by blast
    qed simp
  qed simp
  then show "tbls h' l root = tbls h l root" "wf_pt h' l root"
    "(\<And>j. ix j < 512) \<Longrightarrow> pt_lookup h' l root ix = pt_lookup h l root ix"
    "root \<noteq> 0 \<Longrightarrow> acc_below h' l root = acc_below h l root" by auto
qed

text \<open>
  Replacing the sub-tree below one entry: if the new sub-tree is well formed and its tables
  are those of the old one and pages \<open>N\<close> that were not in the tree, the tree stays well
  formed, gains the tables \<open>N\<close>, and only lookups through that entry change.
\<close>

lemma replace_child:
  assumes wf: "wf_pt h (Suc l) root" and nz: "root \<noteq> 0" and l: "0 < l" and i: "i < 512"
    and c: "wf_pt h' l c" "c \<noteq> 0"
    and e: "pte_exists (h' (pte_at root i))" "\<not> pte_MAPS (h' (pte_at root i))" "ent_addr (h' (pte_at root i)) = c"
    and C: "C = (if pte_exists (h (pte_at root i)) then tbls h l (ent_addr (h (pte_at root i))) else {})"
    and T: "tbls h' l c = C \<union> N" and N: "N \<inter> tbls h (Suc l) root = {}"
    and frame: "\<And>t j. pg_ok t \<Longrightarrow> j < 512 \<Longrightarrow> t \<notin> tbls h' l c \<Longrightarrow> \<not> (t = root \<and> j = i) \<Longrightarrow>
                  h' (pte_at t j) = h (pte_at t j)"
  shows "wf_pt h' (Suc l) root" "tbls h' (Suc l) root = tbls h (Suc l) root \<union> N"
    and "(\<And>j. ix j < 512) \<Longrightarrow> pt_lookup h' (Suc l) root ix
           = (if ix (Suc l) = i then pt_lookup h' l c ix else pt_lookup h (Suc l) root ix)"
    and "acc_below h (Suc l) root \<Longrightarrow> acc_below h' l c \<Longrightarrow> isAccessed (h' (pte_at root i)) \<Longrightarrow> acc_below h' (Suc l) root"
proof -
  have ok: "pg_ok root" using wf nz by auto
  have rootC: "root \<notin> C" using wf_pt_entry(4)[OF wf nz l i] by (auto simp: C)
  have rootN: "root \<notin> N" using N nz by auto
  have root': "root \<notin> tbls h' l c" using rootC rootN T by auto
  have cell: "h' (pte_at root j) = h (pte_at root j)" if "j < 512" "j \<noteq> i" for j
    using frame[OF ok] that root' by auto
  have sub: "tbls h l (ent_addr (h (pte_at root j))) \<subseteq> tbls h (Suc l) root"
    if "j < 512" "pte_exists (h (pte_at root j))" for j
    using child_tbls_subset that nz by blast
  have CdisjE: "tbls h' l c \<inter> tbls h l (ent_addr (h (pte_at root j))) = {}"
    if "j < 512" "j \<noteq> i" "pte_exists (h (pte_at root j))" for j
    using wf_pt_entry(5)[OF wf nz l i _ that] sub[OF that(1,3)] N by (auto simp: T C)
  have old: "tbls h' l (ent_addr (h (pte_at root j))) = tbls h l (ent_addr (h (pte_at root j)))"
      "wf_pt h' l (ent_addr (h (pte_at root j)))"
      "(\<And>k. ix k < 512) \<Longrightarrow> pt_lookup h' l (ent_addr (h (pte_at root j))) ix
         = pt_lookup h l (ent_addr (h (pte_at root j))) ix"
      "acc_below h' l (ent_addr (h (pte_at root j))) = acc_below h l (ent_addr (h (pte_at root j)))"
    if j: "j < 512" "j \<noteq> i" "pte_exists (h (pte_at root j))" for j ix
  proof -
    have wfj: "wf_pt h l (ent_addr (h (pte_at root j)))" using wf_pt_entry(3)[OF wf nz l] j by blast
    have "root \<notin> tbls h l (ent_addr (h (pte_at root j)))" using wf_pt_entry(4)[OF wf nz l] j by blast
    then have "same_cells h h' (tbls h l (ent_addr (h (pte_at root j))))"
      unfolding same_cells_def using frame CdisjE[OF j] by blast
    from tree_frame[OF wfj this] show "tbls h' l (ent_addr (h (pte_at root j))) = tbls h l (ent_addr (h (pte_at root j)))"
      "wf_pt h' l (ent_addr (h (pte_at root j)))"
      "(\<And>k. ix k < 512) \<Longrightarrow> pt_lookup h' l (ent_addr (h (pte_at root j))) ix
         = pt_lookup h l (ent_addr (h (pte_at root j))) ix" by auto
    show "acc_below h' l (ent_addr (h (pte_at root j))) = acc_below h l (ent_addr (h (pte_at root j)))"
      using tree_frame(4)[OF wfj \<open>same_cells _ _ _\<close>] wf_pt_entry(2)[OF wf nz l] j by blast
  qed
  have sets: "(let x = h' (pte_at root j) in if pte_exists x then tbls h' l (ent_addr x) else {})
      = (let x = h (pte_at root j) in if pte_exists x then tbls h l (ent_addr x) else {}) \<union> (if j = i then N else {})"
    if "j < 512" for j
    using that e T C cell[of j] old(1)[of j] by (cases "j = i") (auto simp: Let_def)
  have "(\<Union>j \<in> {..<512}. let x = h' (pte_at root j) in if pte_exists x then tbls h' l (ent_addr x) else {})
      = (\<Union>j \<in> {..<512}. let x = h (pte_at root j) in if pte_exists x then tbls h l (ent_addr x) else {}) \<union> N"
  proof -
    have "(\<Union>j \<in> {..<512}. let x = h' (pte_at root j) in if pte_exists x then tbls h' l (ent_addr x) else {})
      = (\<Union>j \<in> {..<512}. (let x = h (pte_at root j) in if pte_exists x then tbls h l (ent_addr x) else {})
           \<union> (if j = i then N else {}))"
      by (rule SUP_cong) (use sets in auto)
    also have "\<dots> = (\<Union>j \<in> {..<512}. let x = h (pte_at root j) in if pte_exists x then tbls h l (ent_addr x) else {}) \<union> N"
      using i by (auto split: if_splits)
    finally show ?thesis .
  qed
  then show T': "tbls h' (Suc l) root = tbls h (Suc l) root \<union> N"
    using nz by (simp only: tbls.simps if_False) blast
  have ent: "\<not> pte_MAPS (h' (pte_at root j)) \<and> ent_addr (h' (pte_at root j)) \<noteq> 0 \<and>
        wf_pt h' l (ent_addr (h' (pte_at root j))) \<and> root \<notin> tbls h' l (ent_addr (h' (pte_at root j)))"
    if "j < 512" "pte_exists (h' (pte_at root j))" for j
    using that e c root' cell[of j] old[of j] wf_pt_entry[OF wf nz l, of j] by (cases "j = i") auto
  have disj: "tbls h' l (ent_addr (h' (pte_at root j))) \<inter> tbls h' l (ent_addr (h' (pte_at root k))) = {}"
    if "j < 512" "k < 512" "k \<noteq> j" "pte_exists (h' (pte_at root j))" "pte_exists (h' (pte_at root k))" for j k
    using that e cell[of j] cell[of k] old(1)[of j] old(1)[of k] CdisjE[of j] CdisjE[of k]
      wf_pt_entry(5)[OF wf nz l, of j k]
    by (cases "j = i"; cases "k = i") (auto simp: Int_commute)
  show "wf_pt h' (Suc l) root"
    using ok ent disj by (simp add: Let_def)
  show "acc_below h' (Suc l) root"
    if a: "acc_below h (Suc l) root" "acc_below h' l c" "isAccessed (h' (pte_at root i))"
  proof -
    have "isAccessed (h' (pte_at root j)) \<and> acc_below h' l (ent_addr (h' (pte_at root j)))"
      if "j < 512" "pte_exists (h' (pte_at root j))" for j
      using that a e cell[of j] old(4)[of j] l by (cases "j = i") (auto simp: Let_def)
    then show ?thesis by (simp add: Let_def)
  qed
  show "pt_lookup h' (Suc l) root ix = (if ix (Suc l) = i then pt_lookup h' l c ix else pt_lookup h (Suc l) root ix)"
    if "\<And>j. ix j < 512"
  proof (cases "ix (Suc l) = i")
    case True
    then show ?thesis using nz e l by (simp add: Let_def isLeaf_above)
  next
    case False
    then show ?thesis using nz that cell[of "ix (Suc l)"] old(3)[of "ix (Suc l)" ix] by (simp add: Let_def)
  qed
qed

text \<open>From here on a tree is opened level by level only where a proof asks for it.\<close>

declare tbls.simps(2) [simp del] wf_pt.simps(2) [simp del] pt_lookup.simps(2) [simp del]

lemmas pt_simps = tbls.simps(2) wf_pt.simps(2) pt_lookup.simps(2)

lemma pt_Suc_root: "root \<noteq> 0 \<Longrightarrow> root \<in> tbls h (Suc l) root"
  "wf_pt h (Suc l) root \<Longrightarrow> root \<noteq> 0 \<Longrightarrow> pg_ok root"
  by (auto simp: pt_simps)

section \<open>Leaf cells\<close>

text \<open>The cell of the leaf entry at the end of a path.\<close>

primrec leaf_at :: "(u64 \<Rightarrow> u64) \<Rightarrow> nat \<Rightarrow> u64 \<Rightarrow> (nat \<Rightarrow> nat) \<Rightarrow> u64 option" where
  "leaf_at h 0 root ix = None"
| "leaf_at h (Suc l) root ix =
     (if root = 0 then None
      else let a = pte_at root (ix (Suc l)) in
        if \<not> pte_exists (h a) then None
        else if isLeaf (h a) (Suc l) then Some a
        else leaf_at h l (ent_addr (h a)) ix)"

lemma pt_lookup_leaf_at: "pt_lookup h l root ix = map_option h (leaf_at h l root ix)"
  by (induction l arbitrary: root) (auto simp: Let_def pt_simps)

lemma leaf_at_cong: "(\<And>k. 0 < k \<Longrightarrow> k \<le> l \<Longrightarrow> ix k = ix' k) \<Longrightarrow> leaf_at h l root ix = leaf_at h l root ix'"
  by (induction l arbitrary: root) (auto simp: Let_def)

lemma wf_isLeaf:
  "wf_pt h (Suc l) root \<Longrightarrow> root \<noteq> 0 \<Longrightarrow> i < 512 \<Longrightarrow> pte_exists (h (pte_at root i)) \<Longrightarrow>
     isLeaf (h (pte_at root i)) (Suc l) \<longleftrightarrow> l = 0"
  using wf_pt_entry(1)[of h l root i] by (cases "l = 0") (auto simp: isLeaf_above)

text \<open>
  The table owns the frames it may write: two writable leaves never share a frame, and no
  such frame is one of its tables.
\<close>

definition owns_frames :: "(u64 \<Rightarrow> u64) \<Rightarrow> nat \<Rightarrow> u64 \<Rightarrow> bool" where
  "owns_frames h lvl root \<longleftrightarrow>
     (\<forall>ix a. (\<forall>j. ix j < 512) \<longrightarrow> leaf_at h lvl root ix = Some a \<longrightarrow> pte_RW (h a) \<longrightarrow>
        ent_addr (h a) \<notin> tbls h lvl root \<and>
        (\<forall>jx b. (\<forall>j. jx j < 512) \<longrightarrow> leaf_at h lvl root jx = Some b \<longrightarrow> pte_RW (h b) \<longrightarrow>
           ent_addr (h a) = ent_addr (h b) \<longrightarrow> a = b))"

lemma owns_framesD:
  assumes "owns_frames h lvl root" "\<forall>j. ix j < 512" "leaf_at h lvl root ix = Some a" "pte_RW (h a)"
  shows "ent_addr (h a) \<notin> tbls h lvl root"
    "\<forall>j. jx j < 512 \<Longrightarrow> leaf_at h lvl root jx = Some b \<Longrightarrow> pte_RW (h b) \<Longrightarrow> ent_addr (h a) = ent_addr (h b) \<Longrightarrow> a = b"
  using assms unfolding owns_frames_def by blast+

text \<open>
  Entries that keep whether they exist, what they lead to and whether they map a page: the
  tree stays the same whatever their other bits are.
\<close>

definition same_shape :: "(u64 \<Rightarrow> u64) \<Rightarrow> (u64 \<Rightarrow> u64) \<Rightarrow> bool" where
  "same_shape h h' \<longleftrightarrow> (\<forall>c. pte_exists (h' c) = pte_exists (h c) \<and> pte_MAPS (h' c) = pte_MAPS (h c) \<and> ent_addr (h' c) = ent_addr (h c))"

lemma same_shapeD:
  assumes "same_shape h h'"
  shows "pte_exists (h' c) = pte_exists (h c)" "pte_MAPS (h' c) = pte_MAPS (h c)" "ent_addr (h' c) = ent_addr (h c)"
    "isLeaf (h' c) l = isLeaf (h c) l"
  using assms by (simp_all add: same_shape_def isLeaf_def)

lemma same_shape_tree:
  assumes "same_shape h h'"
  shows "tbls h' l r = tbls h l r" "wf_pt h' l r = wf_pt h l r" "leaf_at h' l r ix = leaf_at h l r ix"
proof -
  show t: "tbls h' l r = tbls h l r" for l r
    by (induction l arbitrary: r) (simp_all add: pt_simps Let_def same_shapeD[OF assms] cong: if_cong)
  show "wf_pt h' l r = wf_pt h l r"
    by (induction l arbitrary: r) (simp_all add: pt_simps Let_def same_shapeD[OF assms] t cong: if_cong conj_cong imp_cong)
  show "leaf_at h' l r ix = leaf_at h l r ix"
    by (induction l arbitrary: r) (simp_all add: Let_def same_shapeD[OF assms] cong: if_cong)
qed

section \<open>Tables with one entry, for examples\<close>

definition only_entry :: "(u64 \<Rightarrow> u64) \<Rightarrow> u64 \<Rightarrow> nat \<Rightarrow> u64 \<Rightarrow> bool" where
  "only_entry h r k e \<longleftrightarrow> pg_ok r \<and> r \<noteq> 0 \<and> k < 512 \<and> h (pte_at r k) = e \<and>
     (\<forall>i < 512. i \<noteq> k \<longrightarrow> h (pte_at r i) = 0)"

lemma only_entryD:
  assumes "only_entry h r k e"
  shows "pg_ok r" "r \<noteq> 0" "k < 512" "h (pte_at r k) = e"
    "i < 512 \<Longrightarrow> pte_exists (h (pte_at r i)) \<longleftrightarrow> pte_exists e \<and> i = k"
proof -
  note I = assms[unfolded only_entry_def]
  show "pg_ok r" "r \<noteq> 0" "k < 512" and e: "h (pte_at r k) = e" using I by auto
  show "pte_exists (h (pte_at r i)) \<longleftrightarrow> pte_exists e \<and> i = k" if "i < 512"
  proof (cases "i = k")
    case False
    then show ?thesis using I that by simp
  qed (use e in simp)
qed

lemma only_entry_tbls:
  assumes "only_entry h r k e" "pte_exists e"
  shows "tbls h (Suc l) r = insert r (tbls h l (ent_addr e))"
proof -
  note D = only_entryD[OF assms(1)]
  have "(let x = h (pte_at r i) in if pte_exists x then tbls h l (ent_addr x) else {})
      = (if i = k then tbls h l (ent_addr e) else {})" if "i < 512" for i
    using D(4) D(5)[OF that] assms(2) by (auto simp: Let_def)
  then have "(\<Union>i \<in> {..<512}. let x = h (pte_at r i) in if pte_exists x then tbls h l (ent_addr x) else {})
      = (\<Union>i \<in> {..<512}. if i = k then tbls h l (ent_addr e) else {})" by (intro SUP_cong) auto
  also have "\<dots> = tbls h l (ent_addr e)" using D(3) by (auto split: if_splits)
  finally show ?thesis using D(2) by (simp add: tbls.simps(2))
qed

lemma only_entry_wf:
  assumes "only_entry h r k e" "pte_exists e"
    "0 < l \<Longrightarrow> \<not> pte_MAPS e \<and> ent_addr e \<noteq> 0 \<and> wf_pt h l (ent_addr e) \<and> r \<notin> tbls h l (ent_addr e)"
  shows "wf_pt h (Suc l) r"
  using only_entryD(1,4)[OF assms(1)] only_entryD(5)[OF assms(1)] assms(3)
  by (simp add: wf_pt.simps(2) Let_def)

lemma only_entry_lookup:
  assumes "only_entry h r k e" "pte_exists e" "ix (Suc l) < 512"
  shows "pt_lookup h (Suc l) r ix = (if ix (Suc l) \<noteq> k then None
     else if isLeaf e (Suc l) then Some e else pt_lookup h l (ent_addr e) ix)"
  using only_entryD(2,4)[OF assms(1)] only_entryD(5)[OF assms(1,3)] assms(2)
  by (simp add: pt_lookup.simps(2) Let_def)


text \<open>Three tables at \<open>0x1000\<close>, \<open>0x2000\<close>, \<open>0x3000\<close> and one leaf \<open>e\<close> at the indices 1, 2, 3.\<close>

definition small_tree :: "u64 \<Rightarrow> u64 \<Rightarrow> u64" where
  "small_tree e = (\<lambda>_. 0)(pte_at 0x1000 1 := pte_build 0x2000 False True True True False,
     pte_at 0x2000 2 := pte_build 0x3000 False True True True False, pte_at 0x3000 3 := e)"

lemma pg_ok_small: "pg_ok 0x1000" "pg_ok 0x2000" "pg_ok 0x3000" "pg_ok 0x4000" "pg_ok 0x5000"
    "pg_ok 0x6000" "pg_ok 0x7000" "pg_ok 0x8000" "pg_ok 0x9000"
  by (simp_all add: pg_ok_iff)

lemma small_tree_only:
  "only_entry (small_tree e) 0x1000 1 (pte_build 0x2000 False True True True False)"
  "only_entry (small_tree e) 0x2000 2 (pte_build 0x3000 False True True True False)"
  "only_entry (small_tree e) 0x3000 3 e"
  by (simp_all add: only_entry_def small_tree_def pg_ok_small)

lemma small_tree_tbls:
  assumes "pte_exists e"
  shows "tbls (small_tree e) (Suc 0) 0x3000 = {0x3000}"
    "tbls (small_tree e) (Suc (Suc 0)) 0x2000 = {0x2000, 0x3000}"
    "tbls (small_tree e) (Suc (Suc (Suc 0))) 0x1000 = {0x1000, 0x2000, 0x3000}"
  by (simp_all add: only_entry_tbls[OF small_tree_only(3) assms] only_entry_tbls[OF small_tree_only(2)]
      only_entry_tbls[OF small_tree_only(1)] pte_simps pg_ok_small)

lemma small_tree_wf:
  assumes "pte_exists e"
  shows "wf_pt (small_tree e) 3 0x1000"
proof -
  have "wf_pt (small_tree e) (Suc 0) 0x3000" by (rule only_entry_wf[OF small_tree_only(3) assms]) simp
  then have "wf_pt (small_tree e) (Suc (Suc 0)) 0x2000"
    by (intro only_entry_wf[OF small_tree_only(2)]) (simp_all add: pte_simps pg_ok_small small_tree_tbls[OF assms])
  then have "wf_pt (small_tree e) (Suc (Suc (Suc 0))) 0x1000"
    by (intro only_entry_wf[OF small_tree_only(1)]) (simp_all add: pte_simps pg_ok_small small_tree_tbls[OF assms])
  then show ?thesis by (simp add: numeral_3_eq_3)
qed

lemma small_tree_lookup:
  assumes "pte_exists e" "\<And>j. ix j < 512"
  shows "pt_lookup (small_tree e) 3 0x1000 ix = (if ix 3 = 1 \<and> ix 2 = 2 \<and> ix 1 = 3 then Some e else None)"
proof -
  have "pt_lookup (small_tree e) (Suc (Suc (Suc 0))) 0x1000 ix
      = (if ix (Suc (Suc (Suc 0))) = 1 \<and> ix (Suc (Suc 0)) = 2 \<and> ix (Suc 0) = 3 then Some e else None)"
    using assms by (simp add: only_entry_lookup[OF small_tree_only(3)] only_entry_lookup[OF small_tree_only(2)]
      only_entry_lookup[OF small_tree_only(1)] pte_simps pg_ok_small isLeaf_above)
  then show ?thesis by (simp add: numeral_3_eq_3 numeral_2_eq_2)
qed

lemma only_entry_leaf_at:
  assumes "only_entry h r k e" "pte_exists e" "ix (Suc l) < 512"
  shows "leaf_at h (Suc l) r ix = (if ix (Suc l) \<noteq> k then None
     else if isLeaf e (Suc l) then Some (pte_at r k) else leaf_at h l (ent_addr e) ix)"
  using only_entryD(2,4)[OF assms(1)] only_entryD(5)[OF assms(1,3)] assms(2)
  by (simp add: Let_def)

lemma small_tree_leaf_at:
  assumes "pte_exists e" "\<And>j. ix j < 512"
  shows "leaf_at (small_tree e) 3 0x1000 ix
     = (if ix 3 = 1 \<and> ix 2 = 2 \<and> ix 1 = 3 then Some (pte_at 0x3000 3) else None)"
proof -
  have "leaf_at (small_tree e) (Suc (Suc (Suc 0))) 0x1000 ix
      = (if ix (Suc (Suc (Suc 0))) = 1 \<and> ix (Suc (Suc 0)) = 2 \<and> ix (Suc 0) = 3 then Some (pte_at 0x3000 3) else None)"
    using assms by (simp add: only_entry_leaf_at[OF small_tree_only(3)] only_entry_leaf_at[OF small_tree_only(2)]
      only_entry_leaf_at[OF small_tree_only(1)] pte_simps pg_ok_small isLeaf_above del: leaf_at.simps)
  then show ?thesis by (simp only: numeral_3_eq_3 numeral_2_eq_2 One_nat_def)
qed

end
