(* ===== verification/Umm_Map.thy ===== *)
theory Umm_Map
  imports Umm_PgTree
begin

text \<open>
  The mapping operations of \<^verbatim>\<open>src/src/UmPgTblMgr.cc\<close>: \<open>mapIntoPgTbl\<close> and its helper,
  which map a physical page at a linear address and create the tables on the way, and
  \<open>findAndSetPTECOW\<close>, the same code with another leaf, which shares the page of an
  existing entry read-only. Both are instances of \<open>install\<close>, which has the leaf's value as
  a function of the machine at the time the leaf is written.
\<close>

section \<open>Operations\<close>

definition new_table :: "mach \<Rightarrow> (u64 \<times> mach) res" where
  "new_table m = and_then (page_alloc m) (\<lambda>(p, m1). Inr (p, memset0 p (pgBytes ! TBL_LEVEL) m1))"

definition install_body ::
  "(u64 \<Rightarrow> mach \<Rightarrow> (u64 \<times> mach) res) \<Rightarrow> (mach \<Rightarrow> u64 res) \<Rightarrow> u64 \<Rightarrow> nat \<Rightarrow> nat \<Rightarrow> nat \<Rightarrow>
     u64 \<Rightarrow> mach \<Rightarrow> (u64 \<times> mach) res" where
  "install_body rec leaf virt rootLvl mapLvl cur root m =
     kassert (mapLvl \<le> rootLvl) (kassert (cur \<le> rootLvl)
     (kassert (rootLvl \<le> PML4_LEVEL \<and> TBL_LEVEL \<le> rootLvl) (kassert (mapLvl \<le> PDPT_LEVEL)
     (and_then (if root = 0 then new_table m else Inr (root, m)) (\<lambda>(root, m).
        let pte_ptr = pte_at root (lin_index virt cur) in
        if cur = mapLvl then and_then (leaf m) (\<lambda>e. Inr (root, st pte_ptr e m))
        else if pte_exists (ld m pte_ptr) then
          and_then (nextTableOrFrame m pte_ptr 0 cur) (\<lambda>child.
          and_then (rec child m) (\<lambda>(_, m1). Inr (root, m1)))
        else
          and_then (rec 0 m) (\<lambda>(ret, m1).
          and_then (setPte ret False True True True False) (\<lambda>e. Inr (root, st pte_ptr e m1))))))))"

text \<open>
  The recursion is on the current level. Below level 0 the code's \<open>unsigned char\<close> wraps to
  255 and the recursive call fails its second check.
\<close>

primrec install ::
  "(mach \<Rightarrow> u64 res) \<Rightarrow> u64 \<Rightarrow> nat \<Rightarrow> nat \<Rightarrow> nat \<Rightarrow> u64 \<Rightarrow> mach \<Rightarrow> (u64 \<times> mach) res" where
  "install leaf virt rootLvl mapLvl 0 =
     install_body (\<lambda>_ _. Inl KAssert) leaf virt rootLvl mapLvl 0"
| "install leaf virt rootLvl mapLvl (Suc c) =
     install_body (install leaf virt rootLvl mapLvl c) leaf virt rootLvl mapLvl (Suc c)"

definition mapIntoPgTblHelper ::
  "u64 \<Rightarrow> u64 \<Rightarrow> u64 \<Rightarrow> nat \<Rightarrow> nat \<Rightarrow> nat \<Rightarrow> bool \<Rightarrow> bool \<Rightarrow> bool \<Rightarrow> mach \<Rightarrow> (u64 \<times> mach) res" where
  "mapIntoPgTblHelper root phys virt rootLvl mapLvl curLvl writeFault rdPerm execDisable m =
     install (\<lambda>_. setPte phys writeFault True rdPerm True execDisable) virt rootLvl mapLvl curLvl root m"

definition mapIntoPgTbl ::
  "u64 \<Rightarrow> u64 \<Rightarrow> u64 \<Rightarrow> nat \<Rightarrow> nat \<Rightarrow> nat \<Rightarrow> bool \<Rightarrow> bool \<Rightarrow> bool \<Rightarrow> mach \<Rightarrow> (u64 \<times> mach) res" where
  "mapIntoPgTbl root phys virt rootLvl mapLvl curLvl writeFault rdPerm execDisable m =
     mapIntoPgTblHelper root phys virt rootLvl mapLvl curLvl writeFault rdPerm execDisable m"

definition findAndSetPTECOW ::
  "u64 \<Rightarrow> u64 \<Rightarrow> u64 \<Rightarrow> nat \<Rightarrow> nat \<Rightarrow> nat \<Rightarrow> mach \<Rightarrow> (u64 \<times> mach) res" where
  "findAndSetPTECOW root origPte virt rootLvl mapLvl curLvl m =
     install (\<lambda>m. and_then (pageTabEntToAddr (ld m origPte) TBL_LEVEL)
                     (\<lambda>a. setPte a True True False True False))
       virt rootLvl mapLvl curLvl root m"

section \<open>Specification\<close>

text \<open>What the code relies on of the allocator: the next \<open>n\<close> pages are usable and not in use.\<close>

definition fresh_pages :: "nat \<Rightarrow> mach \<Rightarrow> u64 set \<Rightarrow> bool" where
  "fresh_pages n m T \<longleftrightarrow>
     n \<le> length (answers m) \<and> distinct (take n (answers m)) \<and>
     (\<forall>p \<in> set (take n (answers m)). pg_ok p \<and> p \<noteq> 0 \<and> p \<notin> T)"

definition same_path :: "nat \<Rightarrow> u64 \<Rightarrow> (nat \<Rightarrow> nat) \<Rightarrow> bool" where
  "same_path cur virt ix \<longleftrightarrow> (\<forall>l \<in> {1..cur}. ix l = lin_index virt l)"

text \<open>
  Mapping the entry \<open>e\<close> at \<open>virt\<close> in the tree \<open>root\<close> of \<open>m\<close> ended in the tree \<open>root'\<close> of
  \<open>m'\<close>: the first \<open>n\<close> answers of the allocator became tables, the lookup at \<open>virt\<close> gives
  \<open>e\<close>, every other lookup is as before, interior entries stay accessed, and no cell outside
  the tree changed.
\<close>

definition installed :: "u64 \<Rightarrow> u64 \<Rightarrow> nat \<Rightarrow> u64 \<Rightarrow> mach \<Rightarrow> u64 \<Rightarrow> mach \<Rightarrow> nat \<Rightarrow> bool" where
  "installed e virt cur root m root' m' n \<longleftrightarrow>
     n \<le> cur \<and> m' = m\<lparr>mem := mem m', answers := drop n (answers m)\<rparr> \<and>
     root' \<noteq> 0 \<and> (root \<noteq> 0 \<longrightarrow> root' = root) \<and>
     wf_pt (mem m') cur root' \<and>
     (root = 0 \<or> acc_below (mem m) cur root \<longrightarrow> acc_below (mem m') cur root') \<and>
     tbls (mem m') cur root' = tbls (mem m) cur root \<union> set (take n (answers m)) \<and>
     (\<forall>ix. (\<forall>j. ix j < 512) \<longrightarrow> pt_lookup (mem m') cur root' ix =
        (if same_path cur virt ix then Some e else pt_lookup (mem m) cur root ix)) \<and>
     (\<forall>t j. pg_ok t \<longrightarrow> j < 512 \<longrightarrow> t \<notin> tbls (mem m') cur root' \<longrightarrow>
        mem m' (pte_at t j) = mem m (pte_at t j))"

text \<open>The leaf's value does not depend on what \<open>install\<close> itself writes before the leaf.\<close>

definition leaf_stable :: "(mach \<Rightarrow> u64 res) \<Rightarrow> mach \<Rightarrow> u64 set \<Rightarrow> u64 \<Rightarrow> bool" where
  "leaf_stable leaf m F e \<longleftrightarrow>
     (\<forall>m'. (\<forall>t j. pg_ok t \<longrightarrow> j < 512 \<longrightarrow> t \<notin> F \<longrightarrow> mem m' (pte_at t j) = mem m (pte_at t j)) \<longrightarrow>
        leaf m' = Inr e)"

lemma installedD:
  assumes "installed e virt cur root m root' m' n"
  shows "n \<le> cur" "answers m' = drop n (answers m)" "root' \<noteq> 0" "root \<noteq> 0 \<Longrightarrow> root' = root"
    "wf_pt (mem m') cur root'"
    "tbls (mem m') cur root' = tbls (mem m) cur root \<union> set (take n (answers m))"
    "m' = m\<lparr>mem := mem m', answers := drop n (answers m)\<rparr>"
    "(\<And>j. ix j < 512) \<Longrightarrow> pt_lookup (mem m') cur root' ix =
        (if same_path cur virt ix then Some e else pt_lookup (mem m) cur root ix)"
    "root = 0 \<or> acc_below (mem m) cur root \<Longrightarrow> acc_below (mem m') cur root'"
    "pg_ok t \<Longrightarrow> j < 512 \<Longrightarrow> t \<notin> tbls (mem m') cur root' \<Longrightarrow> mem m' (pte_at t j) = mem m (pte_at t j)"
proof -
  note I = assms[unfolded installed_def]
  have eq: "m' = m\<lparr>mem := mem m', answers := drop n (answers m)\<rparr>" using I by blast
  show "m' = m\<lparr>mem := mem m', answers := drop n (answers m)\<rparr>" by (rule eq)
  show "answers m' = drop n (answers m)" using arg_cong[OF eq, of answers] by simp
qed (use assms[unfolded installed_def] in blast)+

lemma fresh_pages_0 [simp]: "fresh_pages 0 m T"
  by (simp add: fresh_pages_def)

lemma fresh_pages_SucD:
  assumes "fresh_pages (Suc n) m T"
  obtains p ps where "answers m = p # ps" "pg_ok p" "p \<noteq> 0" "p \<notin> T"
    "\<And>m1. answers m1 = ps \<Longrightarrow> fresh_pages n m1 (insert p T)"
  using assms unfolding fresh_pages_def by (cases "answers m") auto

lemma fresh_pages_mono:
  assumes "fresh_pages n m T" "k \<le> n" "S \<subseteq> T"
  shows "fresh_pages k m S"
proof -
  have k: "take k (answers m) = take k (take n (answers m))" using assms by (simp add: min_def)
  have "distinct (take k (answers m))"
    unfolding k by (rule distinct_take) (use assms(1) in \<open>auto simp only: fresh_pages_def\<close>)
  moreover have "set (take k (answers m)) \<subseteq> set (take n (answers m))"
    unfolding k by (rule set_take_subset)
  ultimately show ?thesis using assms unfolding fresh_pages_def by auto
qed

lemma empty_table:
  assumes "pg_ok p" "p \<noteq> 0" "\<And>i. i < 512 \<Longrightarrow> h (pte_at p i) = 0"
  shows "wf_pt h (Suc l) p" "tbls h (Suc l) p = {p}"
    "(\<And>j. ix j < 512) \<Longrightarrow> pt_lookup h (Suc l) p ix = None" "acc_below h (Suc l) p"
  using assms by (auto simp: Let_def pt_simps)

section \<open>Correctness of the mapping\<close>

text \<open>One level up: from the sub-tree below the entry of \<open>virt\<close> to the tree.\<close>

lemma installed_lift:
  assumes wf: "wf_pt (mem m) (Suc c) root" and nz: "root \<noteq> 0" and c: "0 < c"
    and i: "i = lin_index virt (Suc c)"
    and child: "child = (if pte_exists (mem m (pte_at root i)) then ent_addr (mem m (pte_at root i)) else 0)"
    and inst: "installed e virt c child m c' m1 n"
    and fresh: "fresh_pages c m (tbls (mem m) (Suc c) root)"
    and m2: "m2 = m\<lparr>mem := mem m2, answers := drop n (answers m)\<rparr>"
      "\<And>t j. pg_ok t \<Longrightarrow> j < 512 \<Longrightarrow> mem m2 (pte_at t j) =
         (if t = root \<and> j = i \<and> \<not> pte_exists (mem m (pte_at root i))
          then pte_build c' False True True True False else mem m1 (pte_at t j))"
  shows "installed e virt (Suc c) root m root m2 n"
proof -
  let ?h = "mem m" and ?h1 = "mem m1" and ?h2 = "mem m2" and ?N = "set (take n (answers m))"
  let ?C = "if pte_exists (?h (pte_at root i)) then tbls ?h c (ent_addr (?h (pte_at root i))) else {}"
  note I = inst[unfolded installed_def]
  have ib: "i < 512" by (simp add: i)
  have ok: "pg_ok root" by (rule pt_Suc_root(2)[OF wf nz])
  have "n \<le> c" "c' \<noteq> 0" using I by auto
  have fresh_n: "fresh_pages n m (tbls ?h (Suc c) root)" by (rule fresh_pages_mono[OF fresh \<open>n \<le> c\<close>]) simp
  then have N: "?N \<inter> tbls ?h (Suc c) root = {}" by (auto simp: fresh_pages_def)
  have T1: "tbls ?h1 c c' = ?C \<union> ?N" using I by (simp add: child)
  have "root \<notin> ?C" using wf_pt_entry(4)[OF wf nz c ib] by auto
  then have r1: "root \<notin> tbls ?h1 c c'" using N pt_Suc_root(1)[OF nz] T1 by blast
  have ok1: "pg_ok t" if "t \<in> tbls ?h1 c c'" for t using tbls_pg_ok that I by blast
  have "same_cells ?h1 ?h2 (tbls ?h1 c c')" using m2(2) r1 by (auto simp: same_cells_def)
  note fr = tree_frame[OF _ this]
  have acc2: "acc_below ?h2 c c' = acc_below ?h1 c c'" using fr(4) I \<open>c' \<noteq> 0\<close> by blast
  have wf2: "wf_pt ?h2 c c'" and T2: "tbls ?h2 c c' = ?C \<union> ?N"
    and lk2: "(\<And>j. ix j < 512) \<Longrightarrow> pt_lookup ?h2 c c' ix = pt_lookup ?h1 c c' ix" for ix
    using fr I T1 by auto
  have frame1: "?h1 (pte_at t j) = ?h (pte_at t j)" if "pg_ok t" "j < 512" "t \<notin> tbls ?h1 c c'" for t j
    using I that by auto
  have ex: "pte_exists (?h2 (pte_at root i)) \<and> \<not> pte_MAPS (?h2 (pte_at root i)) \<and> ent_addr (?h2 (pte_at root i)) = c'"
  proof (cases "pte_exists (?h (pte_at root i))")
    case True
    then have e1: "ent_addr (?h (pte_at root i)) \<noteq> 0" "\<not> pte_MAPS (?h (pte_at root i))"
      using wf_pt_entry(1,2)[OF wf nz c ib] by auto
    moreover have "c' = child" using I e1 True child by auto
    moreover have "?h2 (pte_at root i) = ?h (pte_at root i)" using m2(2)[OF ok ib] frame1[OF ok ib r1] True by simp
    ultimately show ?thesis using True child by simp
  next
    case False
    have "c' \<in> tbls ?h1 c c'" using \<open>c' \<noteq> 0\<close> c by (rule root_in_tbls)
    then show ?thesis using m2(2)[OF ok ib] ok1 False by (auto simp: pte_simps)
  qed
  have frame2: "?h2 (pte_at t j) = ?h (pte_at t j)"
    if "pg_ok t" "j < 512" "t \<notin> tbls ?h2 c c'" "\<not> (t = root \<and> j = i)" for t j
    using that m2(2)[of t j] frame1[of t j] T1 T2 by auto
  note rc = replace_child[OF wf nz c ib wf2 \<open>c' \<noteq> 0\<close> _ _ _ refl T2 N]
  have W: "wf_pt ?h2 (Suc c) root" and TT: "tbls ?h2 (Suc c) root = tbls ?h (Suc c) root \<union> ?N"
    and LK: "(\<And>j. ix j < 512) \<Longrightarrow> pt_lookup ?h2 (Suc c) root ix =
       (if ix (Suc c) = i then pt_lookup ?h2 c c' ix else pt_lookup ?h (Suc c) root ix)" for ix
    using rc(1-3) ex frame2 by blast+
  have A: "acc_below ?h2 (Suc c) root" if a: "acc_below ?h (Suc c) root"
  proof -
    have "child = 0 \<or> acc_below ?h c child" "pte_exists (?h (pte_at root i)) \<Longrightarrow> isAccessed (?h (pte_at root i))"
      using a ib c by (auto simp: child Let_def)
    moreover have "isAccessed (?h2 (pte_at root i))"
    proof (cases "pte_exists (?h (pte_at root i))")
      case True
      then show ?thesis using calculation(2) m2(2)[OF ok ib] frame1[OF ok ib r1] by simp
    next
      case False
      then show ?thesis using m2(2)[OF ok ib] by (simp add: isAccessed_def pte_simps)
    qed
    ultimately show ?thesis using rc(4)[OF _ _ _ _ a] ex frame2 acc2 I by blast
  qed
  have lk: "pt_lookup ?h2 (Suc c) root ix =
      (if same_path (Suc c) virt ix then Some e else pt_lookup ?h (Suc c) root ix)"
    if b: "\<And>j. ix j < 512" for ix
  proof (cases "ix (Suc c) = i")
    case True
    have "pt_lookup ?h (Suc c) root ix = pt_lookup ?h c child ix"
      using True nz c child wf_pt_entry(1)[OF wf nz c ib] by (auto simp: Let_def isLeaf_above pt_simps)
    moreover have "same_path (Suc c) virt ix \<longleftrightarrow> same_path c virt ix"
      using True by (auto simp: same_path_def i le_Suc_eq)
    moreover have "pt_lookup ?h1 c c' ix = (if same_path c virt ix then Some e else pt_lookup ?h c child ix)"
      using I b by auto
    ultimately show ?thesis
      using True by (simp only: LK[of ix, OF b] lk2[of ix, OF b] if_True refl)
  next
    case False
    then have "\<not> same_path (Suc c) virt ix" by (auto simp: same_path_def i)
    then show ?thesis using False by (simp only: LK[of ix, OF b] if_False refl)
  qed
  have fr2: "?h2 (pte_at t j) = ?h (pte_at t j)" if "pg_ok t" "j < 512" "t \<notin> tbls ?h2 (Suc c) root" for t j
  proof -
    have "t \<noteq> root" using that(3) pt_Suc_root(1)[OF nz] by blast
    moreover have "tbls ?h2 c c' \<subseteq> tbls ?h2 (Suc c) root"
      using child_tbls_subset[OF ib nz, of ?h2 c] ex by auto
    ultimately show ?thesis using frame2 that by blast
  qed
  show ?thesis
    unfolding installed_def
  proof (intro conjI allI impI)
    show "m2 = m\<lparr>mem := mem m2, answers := drop n (answers m)\<rparr>" by (rule m2(1))
  qed (use \<open>n \<le> c\<close> nz W TT lk fr2 A in \<open>auto simp only: le_Suc_eq simp_thms\<close>)
qed

lemma install_step:
  assumes IH: "\<And>root m. wf_pt (mem m) c root \<Longrightarrow> 0 < c \<Longrightarrow> fresh_pages c m (tbls (mem m) c root) \<Longrightarrow>
      leaf_stable leaf m (set (take c (answers m))) e \<Longrightarrow>
      \<exists>root' m' n. install leaf virt rootLvl 1 c root m = Inr (root', m') \<and> installed e virt c root m root' m' n"
    and wf: "wf_pt (mem m) (Suc c) root" and nz: "root \<noteq> 0"
    and lv: "Suc c \<le> rootLvl" "rootLvl \<le> 4"
    and fresh: "fresh_pages c m (tbls (mem m) (Suc c) root)"
    and leaf: "leaf_stable leaf m (set (take c (answers m))) e" and e: "pte_exists e"
  shows "\<exists>m' n. n \<le> c \<and> install leaf virt rootLvl 1 (Suc c) root m = Inr (root, m') \<and>
           installed e virt (Suc c) root m root m' n"
proof (cases "c = 0")
  case True
  let ?a = "pte_at root (lin_index virt 1)"
  have ok: "pg_ok root" by (rule pt_Suc_root(2)[OF wf nz])
  have "leaf m = Inr e" using leaf by (simp add: leaf_stable_def)
  then have "install leaf virt rootLvl 1 (Suc c) root m = Inr (root, st ?a e m)"
    using True nz lv by (simp add: install_body_def level_defs)
  moreover have "installed e virt (Suc c) root m root (st ?a e m) 0"
    unfolding installed_def using True wf nz ok e
    by (auto simp: st_def same_path_def Let_def level_defs pt_simps)
  ultimately show ?thesis by blast
next
  case False
  let ?i = "lin_index virt (Suc c)"
  let ?a = "pte_at root ?i"
  have ok: "pg_ok root" by (rule pt_Suc_root(2)[OF wf nz])
  have c: "0 < c" using False by simp
  have i: "?i < 512" by simp
  define child where "child = (if pte_exists (mem m ?a) then ent_addr (mem m ?a) else 0)"
  have wfc: "wf_pt (mem m) c child"
    using wf_pt_entry(3)[OF wf nz c i] by (auto simp: child_def)
  have "tbls (mem m) c child \<subseteq> tbls (mem m) (Suc c) root"
    using child_tbls_subset[OF i nz, of "mem m" c] by (simp add: child_def)
  then have "fresh_pages c m (tbls (mem m) c child)" by (rule fresh_pages_mono[OF fresh order_refl])
  with IH[OF wfc c _ leaf] obtain c' m1 n where
    run: "install leaf virt rootLvl 1 c child m = Inr (c', m1)" and inst: "installed e virt c child m c' m1 n"
    by blast
  have n: "n \<le> c" "c' \<noteq> 0" "m1 = m\<lparr>mem := mem m1, answers := drop n (answers m)\<rparr>"
    and wf1: "wf_pt (mem m1) c c'"
    using inst by (auto simp: installed_def)
  have c'ok: "pg_ok c'" using wf_pt_pg_ok[OF wf1 c n(2)] .
  have a0: "pte_at ?a 0 = ?a" by (simp add: pte_at_def)
  define m2 where "m2 = (if pte_exists (mem m ?a) then m1 else st ?a (pte_build c' False True True True False) m1)"
  have "install leaf virt rootLvl 1 (Suc c) root m = Inr (root, m2)"
  proof (cases "pte_exists (mem m ?a)")
    case True
    then have "nextTableOrFrame m ?a 0 (Suc c) = Inr child"
      using wf_pt_entry(1)[OF wf nz c i] lv by (subst nextTableOrFrame_small) (auto simp: a0 child_def)
    then show ?thesis using True nz lv run False
      by (simp add: install_body_def level_defs ld_def Let_def m2_def)
  next
    case F: False
    then show ?thesis using nz lv run False setPte_ok[OF c'ok]
      by (simp add: install_body_def level_defs ld_def Let_def m2_def child_def)
  qed
  moreover have "installed e virt (Suc c) root m root m2 n"
  proof (rule installed_lift[OF wf nz c refl child_def inst fresh])
    show "m2 = m\<lparr>mem := mem m2, answers := drop n (answers m)\<rparr>"
      unfolding m2_def by (subst (1 2) n(3)) (simp add: st_def)
  qed (use ok in \<open>auto simp: m2_def mach_simps\<close>)
  ultimately show ?thesis using n(1) by blast
qed

lemma installed_from_null:
  assumes fresh: "answers m = p # ps" "pg_ok p" "p \<noteq> 0"
    and m1: "m1 = memset0 p 4096 (m\<lparr>answers := ps\<rparr>)"
    and inst: "installed e virt (Suc c) p m1 root' m' n" "n \<le> c"
  shows "installed e virt (Suc c) 0 m root' m' (Suc n)"
proof -
  note I = inst(1)[unfolded installed_def]
  have z: "mem m1 (pte_at p i) = 0" if "i < 512" for i using fresh that by (simp add: m1 mach_simps)
  note E = empty_table[OF fresh(2,3), of "mem m1", OF z]
  have r: "root' = p" using I fresh by auto
  have T: "tbls (mem m') (Suc c) root' = insert p (set (take n ps))"
    using I E(2) by (simp add: m1 mach_simps)
  have "mem m' (pte_at t j) = mem m (pte_at t j)" if "pg_ok t" "j < 512" "t \<notin> tbls (mem m') (Suc c) root'" for t j
  proof -
    have "mem m' (pte_at t j) = mem m1 (pte_at t j)" using I that by blast
    then show ?thesis using that fresh T by (simp add: m1 mach_simps)
  qed
  moreover have "pt_lookup (mem m') (Suc c) root' ix = (if same_path (Suc c) virt ix then Some e else None)"
    if "\<And>j. ix j < 512" for ix
    using I that E(3)[of ix, OF _ that] by simp
  moreover have "m' = m\<lparr>mem := mem m', answers := drop (Suc n) (answers m)\<rparr>"
  proof -
    have "m' = m1\<lparr>mem := mem m', answers := drop n (answers m1)\<rparr>" using I by blast
    then show ?thesis by (simp add: m1 mach_defs fresh(1))
  qed
  ultimately show ?thesis
    unfolding installed_def
  proof (intro conjI)
    show "Suc n \<le> Suc c" "root' \<noteq> 0" "0 \<noteq> 0 \<longrightarrow> root' = 0" "wf_pt (mem m') (Suc c) root'"
      using I inst(2) by auto
    show "0 = 0 \<or> acc_below (mem m) (Suc c) 0 \<longrightarrow> acc_below (mem m') (Suc c) root'"
      using I E(4) by blast
    show "tbls (mem m') (Suc c) root' = tbls (mem m) (Suc c) 0 \<union> set (take (Suc n) (answers m))"
      using T fresh(1) by simp
  qed simp_all
qed

theorem install_ok:
  assumes "wf_pt (mem m) cur root" "0 < cur" "cur \<le> rootLvl" "rootLvl \<le> 4"
    and "fresh_pages cur m (tbls (mem m) cur root)"
    and "leaf_stable leaf m (set (take cur (answers m))) e" "pte_exists e"
  shows "\<exists>root' m' n. install leaf virt rootLvl 1 cur root m = Inr (root', m') \<and>
           installed e virt cur root m root' m' n"
  using assms
proof (induction cur arbitrary: root m)
  case (Suc c)
  have IH: "\<exists>root' m' n. install leaf virt rootLvl 1 c root m = Inr (root', m') \<and> installed e virt c root m root' m' n"
    if "wf_pt (mem m) c root" "0 < c" "fresh_pages c m (tbls (mem m) c root)"
      "leaf_stable leaf m (set (take c (answers m))) e" for root m
    using Suc.IH[OF that(1,2) _ _ that(3,4)] Suc.prems by simp
  show ?case
  proof (cases "root = 0")
    case False
    have "fresh_pages c m (tbls (mem m) (Suc c) root)" using Suc.prems fresh_pages_mono by simp
    moreover have "leaf_stable leaf m (set (take c (answers m))) e"
    proof -
      have "set (take c (answers m)) \<subseteq> set (take (Suc c) (answers m))" by (simp add: set_take_subset_set_take)
      then show ?thesis using Suc.prems(6) unfolding leaf_stable_def by blast
    qed
    ultimately show ?thesis
      using install_step[where leaf = leaf and rootLvl = rootLvl and virt = virt, OF IH Suc.prems(1) False] Suc.prems by blast
  next
    case True
    obtain p ps where p: "answers m = p # ps" "pg_ok p" "p \<noteq> 0"
        and fr: "\<And>m1. answers m1 = ps \<Longrightarrow> fresh_pages c m1 (insert p (tbls (mem m) (Suc c) root))"
      by (rule fresh_pages_SucD[OF Suc.prems(5)]) blast
    have p4: "fresh_pages c (memset0 p 4096 (m\<lparr>answers := ps\<rparr>)) {p}"
      using fr[of "memset0 p 4096 (m\<lparr>answers := ps\<rparr>)"] True by (simp add: mach_simps)
    let ?m1 = "memset0 p 4096 (m\<lparr>answers := ps\<rparr>)"
    have z: "mem ?m1 (pte_at p i) = 0" if "i < 512" for i using p that by (simp add: mach_simps)
    note E = empty_table[OF p(2,3), of "mem ?m1", OF z]
    have nt: "new_table m = Inr (p, ?m1)"
      by (simp add: new_table_def page_alloc_def p pgBytes_def TBL_LEVEL_def SMALL_PG_SHIFT_def)
    have "leaf_stable leaf ?m1 (set (take c ps)) e"
      unfolding leaf_stable_def
    proof (intro allI impI)
      fix m' :: mach assume *: "\<forall>t j. pg_ok t \<longrightarrow> j < 512 \<longrightarrow> t \<notin> set (take c ps) \<longrightarrow> mem m' (pte_at t j) = mem ?m1 (pte_at t j)"
      show "leaf m' = Inr e"
        using Suc.prems(6) * p unfolding leaf_stable_def by (simp add: mach_simps)
    qed
    moreover have "answers ?m1 = ps" by (simp add: mach_simps)
    ultimately obtain m' n where n: "n \<le> c" and
      run: "install leaf virt rootLvl 1 (Suc c) p ?m1 = Inr (p, m')" and
      inst: "installed e virt (Suc c) p ?m1 p m' n"
      using install_step[where leaf = leaf and rootLvl = rootLvl and virt = virt, OF IH E(1) p(3)] E(2) p4 Suc.prems by auto
    have "install leaf virt rootLvl 1 (Suc c) root m = Inr (p, m')"
      using run nt True p(3) by (simp add: install_body_def)
    moreover have "installed e virt (Suc c) root m p m' (Suc n)"
      using installed_from_null[OF p(1-3) refl inst n] True by simp
    ultimately show ?thesis by blast
  qed
qed simp

section \<open>Properties\<close>

lemma install_from_null_no_pages:
  assumes "length (answers m) < cur" "cur \<le> rootLvl" "rootLvl \<le> 4"
  shows "install leaf virt rootLvl 1 cur 0 m = Inl KBug"
  using assms
proof (induction cur arbitrary: m)
  case (Suc c)
  have lv: "1 \<le> rootLvl" using Suc.prems by simp
  show ?case
  proof (cases "answers m")
    case Nil
    then show ?thesis using Suc.prems lv
      by (simp add: install_body_def level_defs new_table_def page_alloc_def)
  next
    case (Cons p ps)
    let ?m1 = "memset0 p 4096 (m\<lparr>answers := ps\<rparr>)"
    have c: "0 < c" "length (answers ?m1) < c" using Cons Suc.prems by (auto simp: mach_simps)
    have "(8 * of_nat (lin_index virt (Suc c)) :: u64) < 4096"
      using lin_index_bound by (simp add: small_bits) (metis bit_cell_offset lin_index_bound)
    then have "mem ?m1 (pte_at p (lin_index virt (Suc c))) = 0"
      by (simp add: memset0_def in_range_def pte_at_def)
    moreover have "install leaf virt rootLvl 1 c 0 ?m1 = Inl KBug" using Suc.IH c Suc.prems by simp
    ultimately show ?thesis
      using Suc.prems lv Cons c
      by (cases "p = 0")
        (auto simp: install_body_def level_defs new_table_def page_alloc_def ld_def Let_def
          pgBytes_def SMALL_PG_SHIFT_def)
  qed
qed simp

lemma setPte_not_bug: "setPte a d ac w ex xd \<noteq> Inl KBug"
  by (auto simp: setPte_def Let_def kassert_def split: if_splits)

lemma install_from_null_enough:
  assumes "cur \<le> length (answers m)" "0 < cur" "cur \<le> rootLvl" "rootLvl \<le> 4" "\<And>m. leaf m \<noteq> Inl KBug"
  shows "install leaf virt rootLvl 1 cur 0 m \<noteq> Inl KBug"
  using assms(1-4)
proof (induction cur arbitrary: m)
  case (Suc c)
  have lv: "1 \<le> rootLvl" using Suc.prems by simp
  obtain p ps where p: "answers m = p # ps" using Suc.prems by (cases "answers m") auto
  let ?m1 = "memset0 p 4096 (m\<lparr>answers := ps\<rparr>)"
  have z: "mem ?m1 (pte_at p (lin_index virt (Suc c))) = 0"
  proof -
    have "(8 * of_nat (lin_index virt (Suc c)) :: u64) < 4096"
      using lin_index_bound by (simp add: small_bits) (metis bit_cell_offset lin_index_bound)
    then show ?thesis by (simp add: memset0_def in_range_def pte_at_def)
  qed
  have "install leaf virt rootLvl 1 (Suc c) 0 m =
      (if c = 0 then and_then (leaf ?m1) (\<lambda>e. Inr (p, st (pte_at p (lin_index virt 1)) e ?m1))
       else and_then (install leaf virt rootLvl 1 c 0 ?m1) (\<lambda>(ret, m1).
         and_then (setPte ret False True True True False) (\<lambda>e. Inr (p, st (pte_at p (lin_index virt (Suc c))) e m1))))"
    using Suc.prems lv p z
    by (simp add: install_body_def level_defs new_table_def page_alloc_def ld_def Let_def pgBytes_def SMALL_PG_SHIFT_def)
  moreover have "install leaf virt rootLvl 1 c 0 ?m1 \<noteq> Inl KBug" if "c \<noteq> 0"
    using Suc.IH[of ?m1] Suc.prems p that by (simp add: mach_simps)
  ultimately show ?case using assms(5) setPte_not_bug by (auto simp: and_then_def split: sum.splits)
qed simp

text \<open>The tables that are missing on the way to the entry of an address.\<close>

primrec missing :: "(u64 \<Rightarrow> u64) \<Rightarrow> nat \<Rightarrow> u64 \<Rightarrow> u64 \<Rightarrow> nat" where
  "missing h 0 root virt = 0"
| "missing h (Suc l) root virt =
     (if root = 0 then Suc l
      else let e = h (pte_at root (lin_index virt (Suc l))) in
        if l = 0 then 0 else if \<not> pte_exists e then l else missing h l (ent_addr e) virt)"

lemma install_bug_iff:
  assumes "wf_pt (mem m) cur root" "0 < cur" "cur \<le> rootLvl" "rootLvl \<le> 4" "\<And>m. leaf m \<noteq> Inl KBug"
  shows "install leaf virt rootLvl 1 cur root m = Inl KBug \<longleftrightarrow> length (answers m) < missing (mem m) cur root virt"
  using assms(1-4)
proof (induction cur arbitrary: root)
  case (Suc c)
  have null: "install leaf virt rootLvl 1 n 0 m = Inl KBug \<longleftrightarrow> length (answers m) < n" if "0 < n" "n \<le> rootLvl" for n
    using install_from_null_no_pages[OF _ that(2) assms(4), of m leaf virt]
      install_from_null_enough[OF _ that assms(4,5), where m = m and virt = virt]
    by (cases "length (answers m) < n") (simp_all del: install.simps)
  let ?a = "pte_at root (lin_index virt (Suc c))"
  have lv: "1 \<le> rootLvl" "Suc c \<le> rootLvl" "rootLvl \<le> 4" using Suc.prems by simp_all
  consider "root = 0" | "root \<noteq> 0" "c = 0" | "root \<noteq> 0" "0 < c" "\<not> pte_exists (mem m ?a)" | "root \<noteq> 0" "0 < c" "pte_exists (mem m ?a)"
    by blast
  then show ?case
  proof cases
    case 1
    then show ?thesis using null[of "Suc c"] lv by (simp del: install.simps)
  next
    case 2
    then show ?thesis using lv assms(5) by (auto simp: install_body_def level_defs Let_def and_then_def split: sum.splits)
  next
    case 3
    then have "install leaf virt rootLvl 1 (Suc c) root m = and_then (install leaf virt rootLvl 1 c 0 m) (\<lambda>(ret, m1).
        and_then (setPte ret False True True True False) (\<lambda>e. Inr (root, st ?a e m1)))"
      using lv by (simp add: install_body_def level_defs ld_def Let_def)
    then have "install leaf virt rootLvl 1 (Suc c) root m = Inl KBug \<longleftrightarrow> install leaf virt rootLvl 1 c 0 m = Inl KBug"
      using setPte_not_bug by (auto simp: and_then_def split: sum.splits)
    then show ?thesis using null[of c] 3 lv by (simp del: install.simps add: Let_def)
  next
    case 4
    let ?e = "mem m ?a"
    have a0: "pte_at ?a 0 = ?a" by (simp add: pte_at_def)
    note E = wf_pt_entry[OF Suc.prems(1) 4(1,2) lin_index_bound 4(3)]
    have "nextTableOrFrame m ?a 0 (Suc c) = Inr (ent_addr ?e)"
      using E(1) lv by (subst nextTableOrFrame_small) (auto simp: a0 4)
    then have "install leaf virt rootLvl 1 (Suc c) root m =
        and_then (install leaf virt rootLvl 1 c (ent_addr ?e) m) (\<lambda>(_, m1). Inr (root, m1))"
      using 4 lv by (simp add: install_body_def level_defs ld_def Let_def)
    then have "install leaf virt rootLvl 1 (Suc c) root m = Inl KBug \<longleftrightarrow> install leaf virt rootLvl 1 c (ent_addr ?e) m = Inl KBug"
      by (auto simp: and_then_def split: sum.splits)
    then show ?thesis using Suc.IH[of "ent_addr ?e"] E(3) 4 lv by (simp del: install.simps add: Let_def)
  qed
qed simp

text \<open>
  C19. Mapping a page-aligned physical page at an address, below a root at any level, succeeds
  with at most one new table per level: afterwards a translation of the address ends at an
  entry for that page with the permissions asked for, every other translation is unchanged,
  the tree is well formed, an existing root stays the root, and no memory but the tree's
  tables and the newly allocated pages is written.
\<close>

theorem mapIntoPgTbl_correct:
  assumes "wf_pt (mem m) lvl root" "1 \<le> lvl" "lvl \<le> rootLvl" "rootLvl \<le> 4"
    and "fresh_pages lvl m (tbls (mem m) lvl root)" "pg_ok phys"
  shows "\<exists>root' m'. mapIntoPgTbl root phys virt rootLvl 1 lvl wrFault rdPerm xd m = Inr (root', m') \<and>
     wf_pt (mem m') lvl root' \<and> (root \<noteq> 0 \<longrightarrow> root' = root) \<and>
     tbls (mem m') lvl root' \<subseteq> tbls (mem m) lvl root \<union> set (take lvl (answers m)) \<and>
     (\<forall>ix. (\<forall>j. ix j < 512) \<longrightarrow> pt_lookup (mem m') lvl root' ix =
        (if same_path lvl virt ix then Some (pte_build phys wrFault True rdPerm True xd)
         else pt_lookup (mem m) lvl root ix)) \<and>
     (\<forall>t j. pg_ok t \<longrightarrow> j < 512 \<longrightarrow> t \<notin> tbls (mem m') lvl root' \<longrightarrow> mem m' (pte_at t j) = mem m (pte_at t j))"
proof -
  let ?e = "pte_build phys wrFault True rdPerm True xd"
  have "leaf_stable (\<lambda>_. setPte phys wrFault True rdPerm True xd) m (set (take lvl (answers m))) ?e"
    by (simp add: leaf_stable_def setPte_ok assms(6))
  from install_ok[OF assms(1) _ assms(3-5) this pte_exists_build, of virt] assms(2) obtain root' m' n where
    run: "install (\<lambda>_. setPte phys wrFault True rdPerm True xd) virt rootLvl 1 lvl root m = Inr (root', m')"
    and inst: "installed ?e virt lvl root m root' m' n" by auto
  have "set (take n (answers m)) \<subseteq> set (take lvl (answers m))"
    using installedD(1)[OF inst] by (rule set_take_subset_set_take)
  then show ?thesis
    using run installedD[OF inst]
    by (intro exI[of _ root'] exI[of _ m']) (auto simp: mapIntoPgTbl_def mapIntoPgTblHelper_def)
qed

theorem mapIntoPgTbl_correct_witness:
  "\<exists>root' m'. mapIntoPgTbl 0 0x9000 0xFFFFC00000403000 3 1 3 True True False
       (mach_of (\<lambda>_. 0) [0x1000, 0x2000, 0x3000]) = Inr (root', m') \<and>
     pt_lookup (mem m') 3 root' (lin_index 0xFFFFC00000403000) = Some (pte_build 0x9000 True True True True False)"
proof -
  let ?m = "mach_of (\<lambda>_. 0) [0x1000, 0x2000, 0x3000]"
  have "fresh_pages 3 ?m (tbls (mem ?m) 3 0)" by (simp add: fresh_pages_def pg_ok_small)
  from mapIntoPgTbl_correct[OF _ _ _ _ this, where virt = "0xFFFFC00000403000" and rootLvl = 3
      and phys = "0x9000" and wrFault = True and rdPerm = True and xd = False]
  obtain root' m' where "mapIntoPgTbl 0 0x9000 0xFFFFC00000403000 3 1 3 True True False ?m = Inr (root', m')"
    and look: "\<forall>ix. (\<forall>j. ix j < 512) \<longrightarrow> pt_lookup (mem m') 3 root' ix =
        (if same_path 3 0xFFFFC00000403000 ix then Some (pte_build 0x9000 True True True True False)
         else pt_lookup (mem ?m) 3 0 ix)"
    by (simp add: pg_ok_small del: mach_of_sel) blast
  then show ?thesis
    using look[rule_format, of "lin_index 0xFFFFC00000403000"] by (auto simp: same_path_def)
qed

text \<open>
  C20. Sharing a page: \<open>findAndSetPTECOW\<close> maps the frame of an existing entry at an address,
  dirty, accessed, user and never writable, with the same guarantees as a mapping. The
  entry it reads may lie in any table that is not one of the pages the allocator hands out.
\<close>

theorem findAndSetPTECOW_correct:
  assumes "wf_pt (mem m) lvl root" "1 \<le> lvl" "lvl \<le> rootLvl" "rootLvl \<le> 4"
    and "fresh_pages lvl m (tbls (mem m) lvl root)"
    and "pg_ok t" "i < 512" "t \<notin> set (take lvl (answers m))"
  shows "\<exists>root' m'. findAndSetPTECOW root (pte_at t i) virt rootLvl 1 lvl m = Inr (root', m') \<and>
     wf_pt (mem m') lvl root' \<and> (root \<noteq> 0 \<longrightarrow> root' = root) \<and>
     (\<forall>ix. (\<forall>j. ix j < 512) \<longrightarrow> pt_lookup (mem m') lvl root' ix =
        (if same_path lvl virt ix then Some (pte_build (ent_addr (mem m (pte_at t i))) True True False True False)
         else pt_lookup (mem m) lvl root ix)) \<and>
     (\<forall>t j. pg_ok t \<longrightarrow> j < 512 \<longrightarrow> t \<notin> tbls (mem m') lvl root' \<longrightarrow> mem m' (pte_at t j) = mem m (pte_at t j))"
proof -
  let ?leaf = "\<lambda>m. and_then (pageTabEntToAddr (ld m (pte_at t i)) TBL_LEVEL) (\<lambda>a. setPte a True True False True False)"
  let ?e = "pte_build (ent_addr (mem m (pte_at t i))) True True False True False"
  have "leaf_stable ?leaf m (set (take lvl (answers m))) ?e"
    using assms(6-8) by (simp add: leaf_stable_def ld_def pageTabEntToAddr_small TBL_LEVEL_def setPte_ok)
  from install_ok[OF assms(1) _ assms(3-5) this pte_exists_build, of virt] assms(2) obtain root' m' n where
    run: "install ?leaf virt rootLvl 1 lvl root m = Inr (root', m')"
    and inst: "installed ?e virt lvl root m root' m' n" by auto
  then show ?thesis
    using run installedD[OF inst] by (intro exI[of _ root'] exI[of _ m']) (simp add: findAndSetPTECOW_def)
qed

theorem findAndSetPTECOW_correct_witness:
  "\<exists>root' m'. findAndSetPTECOW 0 (pte_at 0x3000 3) 0xFFFFC00000403000 3 1 3
       (mach_of (small_tree (pte_build 0x4000 True True True True False)) [0x5000, 0x6000, 0x7000]) = Inr (root', m') \<and>
     pt_lookup (mem m') 3 root' (lin_index 0xFFFFC00000403000) = Some (pte_build 0x4000 True True False True False)"
proof -
  let ?e = "pte_build 0x4000 True True True True False"
  let ?m = "mach_of (small_tree ?e) [0x5000, 0x6000, 0x7000]"
  have cell: "mem ?m (pte_at 0x3000 3) = ?e" using small_tree_only(3)[of ?e] by (simp add: only_entry_def)
  have "fresh_pages 3 ?m (tbls (mem ?m) 3 0)" by (simp add: fresh_pages_def pg_ok_small)
  from findAndSetPTECOW_correct[OF _ _ _ _ this, where virt = "0xFFFFC00000403000" and rootLvl = 3
      and t = "0x3000" and i = 3]
  obtain root' m' where "findAndSetPTECOW 0 (pte_at 0x3000 3) 0xFFFFC00000403000 3 1 3 ?m = Inr (root', m')"
    and look: "\<forall>ix. (\<forall>j. ix j < 512) \<longrightarrow> pt_lookup (mem m') 3 root' ix =
        (if same_path 3 0xFFFFC00000403000 ix then Some (pte_build (ent_addr ?e) True True False True False)
         else pt_lookup (mem ?m) 3 0 ix)"
    unfolding cell by (simp add: pg_ok_small) blast
  then show ?thesis
    using look[rule_format, of "lin_index 0xFFFFC00000403000"]
    by (auto simp: same_path_def pte_simps pg_ok_small)
qed

text \<open>
  C37. Out of memory: mapping an address in a well-formed tree ends in the \<open>kbugon\<close> after
  \<open>Alloc\<close> exactly when the allocator has fewer pages left than tables are missing on the way to
  the entry: one for each level below a null root, those below the first entry that does not
  exist, and none on a path that is there.
\<close>

theorem mapIntoPgTbl_out_of_pages:
  assumes "wf_pt (mem m) lvl root" "1 \<le> lvl" "lvl \<le> rootLvl" "rootLvl \<le> 4"
  shows "mapIntoPgTbl root phys virt rootLvl 1 lvl wrFault rdPerm xd m = Inl KBug \<longleftrightarrow>
     length (answers m) < missing (mem m) lvl root virt"
  unfolding mapIntoPgTbl_def mapIntoPgTblHelper_def
  by (rule install_bug_iff) (use assms setPte_not_bug in simp_all)

text \<open>A null root with two pages left, and a path that is there with none.\<close>

theorem mapIntoPgTbl_out_of_pages_witness:
  "mapIntoPgTbl 0 0x9000 0xFFFFC00000403000 3 1 3 True True False (mach_of (\<lambda>_. 0) [0x1000, 0x2000]) = Inl KBug \<and>
   mapIntoPgTbl 0x3000 0x9000 0x3000 1 1 1 True True False
     (mach_of (small_tree (pte_build 0x4000 True True True True False)) []) \<noteq> Inl KBug"
proof -
  let ?m = "mach_of (small_tree (pte_build 0x4000 True True True True False)) []"
  have "wf_pt (mem ?m) 1 0x3000" by (simp add: pg_ok_small pt_simps)
  from mapIntoPgTbl_out_of_pages[OF this, of 1 "0x9000" "0x3000" True True False] show ?thesis
    using mapIntoPgTbl_out_of_pages[of "mach_of (\<lambda>_. 0) [0x1000, 0x2000]" 3 0 3 "0x9000" "0xFFFFC00000403000" True True False]
    by (simp add: numeral_3_eq_3 pt_simps Let_def)
qed

end
