(* ===== verification/Umm_Copy.thy ===== *)
theory Umm_Copy
  imports Umm_Map
begin

text \<open>
  The copy walkers of \<^verbatim>\<open>src/src/UmPgTblMgr.cc\<close>: \<open>walkPgTblCOW\<close> shares every dirty page
  read-only with the copy, \<open>walkPgTblCopyDirty\<close> copies every dirty page, and
  \<open>walkPgTblCopyDirtyCOW\<close> copies the dirty writable pages and shares the dirty read-only
  ones. The three helpers are one walk, \<open>copy_walk\<close>, with three leaf functions. The walk
  threads the array of indices, as the code does, and rebuilds from it the address a leaf
  is mapped at.
\<close>

section \<open>Operations\<close>

definition copyDirtyPage :: "u64 \<Rightarrow> nat \<Rightarrow> mach \<Rightarrow> (u64 \<times> mach) res" where
  "copyDirtyPage src lvl m =
     and_then (page_alloc m) (\<lambda>(page_addr, m1).
       Inr (page_addr, memcpy page_addr src (push_bit (pgShifts ! lvl) 1) m1))"

type_synonym copyLeafFn = "nat \<Rightarrow> (nat \<Rightarrow> u64) \<Rightarrow> u64 \<Rightarrow> u64 \<times> mach \<Rightarrow> (u64 \<times> mach) res"

text \<open>Copy the page behind the entry at \<open>pte\<close> and map the copy; share the page read-only.\<close>

definition deep_leaf :: copyLeafFn where
  "deep_leaf lvl idx pte = (\<lambda>(copy, m).
     and_then (pageTabEntToAddr (ld m pte) lvl) (\<lambda>backing.
     and_then (copyDirtyPage backing lvl m) (\<lambda>(phys, m1).
       mapIntoPgTbl copy phys (reconstructLinAddrPgFromOffsets idx) PDPT_LEVEL lvl PDPT_LEVEL
         True True False m1)))"

definition share_leaf :: copyLeafFn where
  "share_leaf lvl idx pte = (\<lambda>(copy, m).
     findAndSetPTECOW copy pte (reconstructLinAddrPgFromOffsets idx) PDPT_LEVEL lvl PDPT_LEVEL m)"

definition copyDirty_leaf :: copyLeafFn where
  "copyDirty_leaf lvl idx pte s =
     (if pte_DIRTY (ld (snd s) pte) then deep_leaf lvl idx pte s else Inr s)"

definition copyDirtyCOW_leaf :: copyLeafFn where
  "copyDirtyCOW_leaf lvl idx pte s =
     (if pte_DIRTY (ld (snd s) pte)
      then (if pte_RW (ld (snd s) pte) then deep_leaf lvl idx pte s else share_leaf lvl idx pte s)
      else Inr s)"

definition cow_leaf :: copyLeafFn where
  "cow_leaf lvl idx pte s =
     (if pte_DIRTY (ld (snd s) pte) then share_leaf lvl idx pte s else Inr s)"

text \<open>The state of a walk: the copy's root, the index array and the machine.\<close>

type_synonym cstate = "u64 \<times> (nat \<Rightarrow> u64) \<times> mach"

definition copy_entry ::
  "copyLeafFn \<Rightarrow> (u64 \<Rightarrow> cstate \<Rightarrow> cstate res) \<Rightarrow> nat \<Rightarrow> u64 \<Rightarrow> nat \<Rightarrow> cstate \<Rightarrow> cstate res" where
  "copy_entry L rec lvl root i = (\<lambda>(copy, idx, m).
     let pte = pte_at root i in
     if \<not> pte_exists (ld m pte) then Inr (copy, idx, m)
     else let idx = idx(lvl := of_nat i) in
       if isLeaf (ld m pte) lvl then
         kassert (lvl = 1) (and_then (L lvl idx pte (copy, m)) (\<lambda>(copy, m). Inr (copy, idx, m)))
       else and_then (nextTableOrFrame m root i lvl) (\<lambda>t. rec t (copy, idx, m)))"

primrec copy_walk :: "copyLeafFn \<Rightarrow> nat \<Rightarrow> u64 \<Rightarrow> cstate \<Rightarrow> cstate res" where
  "copy_walk L 0 root = foldR (copy_entry L (\<lambda>_ _. Inl KAssert) 0 root) [0..<512]"
| "copy_walk L (Suc l) root = foldR (copy_entry L (copy_walk L l) (Suc l) root) [0..<512]"

definition walkPgTblCopyDirtyHelper :: "u64 \<Rightarrow> nat \<Rightarrow> cstate \<Rightarrow> cstate res" where
  "walkPgTblCopyDirtyHelper root lvl = copy_walk copyDirty_leaf lvl root"

definition walkPgTblCopyDirtyCOWHelper :: "u64 \<Rightarrow> nat \<Rightarrow> cstate \<Rightarrow> cstate res" where
  "walkPgTblCopyDirtyCOWHelper root lvl = copy_walk copyDirtyCOW_leaf lvl root"

definition walkPgTblCOWHelper :: "u64 \<Rightarrow> nat \<Rightarrow> cstate \<Rightarrow> cstate res" where
  "walkPgTblCOWHelper root lvl = copy_walk cow_leaf lvl root"

text \<open>\<open>uint64_t idx[5] = {0}; idx[4] = SLOT_PML4_NUM;\<close>\<close>

definition slot_idx :: "nat \<Rightarrow> u64" where
  "slot_idx = (\<lambda>_. 0)(PML4_LEVEL := of_nat SLOT_PML4_NUM)"

definition walkPgTblCOW :: "u64 \<Rightarrow> u64 \<Rightarrow> nat \<Rightarrow> mach \<Rightarrow> (u64 \<times> mach) res" where
  "walkPgTblCOW root copy lvl m =
     and_then (walkPgTblCOWHelper root lvl (copy, slot_idx, m)) (\<lambda>(copy, _, m). Inr (copy, m))"

definition walkPgTblCopyDirtyCOW :: "u64 \<Rightarrow> u64 \<Rightarrow> nat \<Rightarrow> mach \<Rightarrow> (u64 \<times> mach) res" where
  "walkPgTblCopyDirtyCOW root copy lvl m =
     and_then (walkPgTblCopyDirtyCOWHelper root lvl (copy, slot_idx, m)) (\<lambda>(copy, _, m). Inr (copy, m))"

definition walkPgTblCopyDirty :: "u64 \<Rightarrow> u64 \<Rightarrow> nat \<Rightarrow> mach \<Rightarrow> (u64 \<times> mach) res" where
  "walkPgTblCopyDirty root copy lvl m =
     and_then (walkPgTblCopyDirtyHelper root lvl (copy, slot_idx, m)) (\<lambda>(copy, _, m). Inr (copy, m))"

text \<open>The overload without a level starts at the slot's PDPT when the root is null.\<close>

definition getSlotPDPTRoot :: "mach \<Rightarrow> u64 res" where
  "getSlotPDPTRoot m =
     (let root = getPML4Root m in
      kassert (pte_exists (ld m (pte_at root SLOT_PML4_NUM))) (nextTableOrFrame m root SLOT_PML4_NUM 4))"

definition walkPgTblCopyDirty_slot :: "u64 \<Rightarrow> u64 \<Rightarrow> mach \<Rightarrow> (u64 \<times> mach) res" where
  "walkPgTblCopyDirty_slot root copy m =
     and_then (if root = 0 then getSlotPDPTRoot m else Inr root) (\<lambda>root.
       and_then (walkPgTblCopyDirtyHelper root 3 (copy, slot_idx, m)) (\<lambda>(copy, _, m). Inr (copy, m)))"

section \<open>The leaves of a tree\<close>

text \<open>The leaves a walk meets, in order: the address rebuilt from the indices and the entry's cell.\<close>

primrec leaves :: "(u64 \<Rightarrow> u64) \<Rightarrow> nat \<Rightarrow> u64 \<Rightarrow> (nat \<Rightarrow> u64) \<Rightarrow> (u64 \<times> u64) list" where
  "leaves h 0 root idx = []"
| "leaves h (Suc l) root idx =
     concat (map (\<lambda>i. let a = pte_at root i; idx' = idx(Suc l := of_nat i) in
        if \<not> pte_exists (h a) then []
        else if isLeaf (h a) (Suc l) then [(reconstructLinAddrPgFromOffsets idx', a)]
        else leaves h l (ent_addr (h a)) idx') [0..<512])"

lemma reconstruct_cong:
  "(\<And>l. 1 \<le> l \<Longrightarrow> l \<le> 4 \<Longrightarrow> idx l = idx' l) \<Longrightarrow>
   reconstructLinAddrPgFromOffsets idx = reconstructLinAddrPgFromOffsets idx'"
  by (simp add: reconstructLinAddrPgFromOffsets_def level_defs)

text \<open>The indices below the current level are overwritten before they are used.\<close>

lemma leaves_cong:
  assumes "wf_pt h lvl root" "root \<noteq> 0" "\<And>l. lvl < l \<Longrightarrow> idx l = idx' l"
  shows "leaves h lvl root idx = leaves h lvl root idx'"
  using assms
proof (induction lvl arbitrary: root idx idx')
  case (Suc l)
  have "(let a = pte_at root i; idx' = idx(Suc l := of_nat i) in
        if \<not> pte_exists (h a) then []
        else if isLeaf (h a) (Suc l) then [(reconstructLinAddrPgFromOffsets idx', a)]
        else leaves h l (ent_addr (h a)) idx')
    = (let a = pte_at root i; idx' = idx'(Suc l := of_nat i) in
        if \<not> pte_exists (h a) then []
        else if isLeaf (h a) (Suc l) then [(reconstructLinAddrPgFromOffsets idx', a)]
        else leaves h l (ent_addr (h a)) idx')" if i: "i < 512" for i
  proof (cases "pte_exists (h (pte_at root i))")
    case True
    note lf = wf_isLeaf[OF Suc.prems(1,2) i True]
    show ?thesis
    proof (cases "l = 0")
      case True
      have "reconstructLinAddrPgFromOffsets (idx(Suc l := of_nat i))
              = reconstructLinAddrPgFromOffsets (idx'(Suc l := of_nat i))"
        by (rule reconstruct_cong) (use True Suc.prems(3) in auto)
      then show ?thesis using lf True by (simp add: Let_def)
    next
      case F: False
      have "leaves h l (ent_addr (h (pte_at root i))) (idx(Suc l := of_nat i))
              = leaves h l (ent_addr (h (pte_at root i))) (idx'(Suc l := of_nat i))"
        by (rule Suc.IH) (use F True Suc.prems wf_pt_entry[OF Suc.prems(1,2) _ i True] in auto)
      then show ?thesis using lf F by (simp add: Let_def)
    qed
  qed simp
  then show ?case
    unfolding leaves.simps by (intro arg_cong[where f = concat] map_cong) auto
qed simp

text \<open>The list depends on the tables' cells only.\<close>

lemma leaves_frame:
  assumes "wf_pt h lvl root" "root \<noteq> 0" "same_cells h h' (tbls h lvl root)"
  shows "leaves h' lvl root idx = leaves h lvl root idx"
  using assms
proof (induction lvl arbitrary: root idx)
  case (Suc l)
  have cell: "h' (pte_at root i) = h (pte_at root i)" if "i < 512" for i
    using same_cellsD[OF Suc.prems(3) pt_Suc_root(1)[OF Suc.prems(2)] pt_Suc_root(2)[OF Suc.prems(1,2)] that] by simp
  have sub: "leaves h' l (ent_addr (h (pte_at root i))) idx' = leaves h l (ent_addr (h (pte_at root i))) idx'"
    if i: "i < 512" and ex: "pte_exists (h (pte_at root i))" and lf: "\<not> isLeaf (h (pte_at root i)) (Suc l)" for i idx'
  proof (rule Suc.IH)
    have "0 < l" using wf_isLeaf[OF Suc.prems(1,2) i ex] lf by auto
    then show "wf_pt h l (ent_addr (h (pte_at root i)))" "ent_addr (h (pte_at root i)) \<noteq> 0"
      using wf_pt_entry[OF Suc.prems(1,2) _ i ex] by auto
    show "same_cells h h' (tbls h l (ent_addr (h (pte_at root i))))"
      using Suc.prems(3) child_tbls_subset[where h = h and l = l and root = root, OF i Suc.prems(2) ex]
      by (auto simp: same_cells_def)
  qed
  show ?case
    unfolding leaves.simps by (intro arg_cong[where f = concat] map_cong) (auto simp: cell sub Let_def)
qed simp

text \<open>A leaf of the list is the leaf the indices of its address lead to.\<close>

lemma leaves_sound:
  assumes "wf_pt h lvl root" "root \<noteq> 0" "lvl \<le> 4" "\<And>l. l < 5 \<Longrightarrow> unat (idx l) < 512"
    and "(v, a) \<in> set (leaves h lvl root idx)"
  shows "(\<forall>l. lvl < l \<and> l \<le> 4 \<longrightarrow> lin_index v l = unat (idx l)) \<and>
     (\<exists>t \<in> tbls h lvl root. \<exists>i < 512. a = pte_at t i) \<and>
     (\<forall>ix. same_path lvl v ix \<longrightarrow> leaf_at h lvl root ix = Some a)"
  using assms
proof (induction lvl arbitrary: root idx)
  case (Suc l)
  from Suc.prems(5) obtain i where i: "i < 512" and ex: "pte_exists (h (pte_at root i))"
    and va: "(v, a) \<in> set (if isLeaf (h (pte_at root i)) (Suc l)
        then [(reconstructLinAddrPgFromOffsets (idx(Suc l := of_nat i)), pte_at root i)]
        else leaves h l (ent_addr (h (pte_at root i))) (idx(Suc l := of_nat i)))"
    by (auto simp: Let_def split: if_splits)
  let ?idx = "idx(Suc l := of_nat i)"
  have b: "unat (?idx k) < 512" if "k < 5" for k
    using Suc.prems(4) that i by (auto simp: unat_eq_of_nat_small)
  have ui: "unat (of_nat i :: u64) = i" using i by (rule unat_eq_of_nat_small)
  note lf = wf_isLeaf[OF Suc.prems(1,2) i ex]
  have root: "root \<in> tbls h (Suc l) root" using Suc.prems(2) by (rule pt_Suc_root)
  show ?case
  proof (cases "l = 0")
    case True
    then have v: "v = reconstructLinAddrPgFromOffsets ?idx" and a: "a = pte_at root i"
      using va lf by auto
    have "lin_index v k = unat (?idx k)" if "1 \<le> k" "k \<le> 4" for k
      unfolding v using b that by (rule lin_index_reconstruct)
    then show ?thesis using True root i a ex Suc.prems(2) lf ui
      by (auto simp: same_path_def Let_def)
  next
    case False
    have in': "(v, a) \<in> set (leaves h l (ent_addr (h (pte_at root i))) ?idx)" using va lf False by simp
    have IH: "(\<forall>k. l < k \<and> k \<le> 4 \<longrightarrow> lin_index v k = unat (?idx k)) \<and>
     (\<exists>t \<in> tbls h l (ent_addr (h (pte_at root i))). \<exists>j < 512. a = pte_at t j) \<and>
     (\<forall>ix. same_path l v ix \<longrightarrow> leaf_at h l (ent_addr (h (pte_at root i))) ix = Some a)"
      by (rule Suc.IH[OF _ _ _ b in']) (use False Suc.prems(3) wf_pt_entry[OF Suc.prems(1,2) _ i ex] in auto)
    have top: "lin_index v (Suc l) = i" using IH Suc.prems(3) ui by auto
    have "leaf_at h (Suc l) root ix = Some a" if "same_path (Suc l) v ix" for ix
    proof -
      have "ix (Suc l) = i" "same_path l v ix" using that top by (auto simp: same_path_def)
      then show ?thesis using IH ex lf False Suc.prems(2) by (simp add: Let_def)
    qed
    moreover have "\<exists>t \<in> tbls h (Suc l) root. \<exists>j < 512. a = pte_at t j"
      using IH child_tbls_subset[where h = h and l = l and root = root, OF i Suc.prems(2) ex] by blast
    moreover have "lin_index v k = unat (idx k)" if "Suc l < k" "k \<le> 4" for k
      using IH that by auto
    ultimately show ?thesis by blast
  qed
qed simp

lemma leaves_complete:
  assumes "wf_pt h lvl root" "root \<noteq> 0" "lvl \<le> 4" "\<And>l. l < 5 \<Longrightarrow> unat (idx l) < 512"
    and "leaf_at h lvl root ix = Some a" "\<And>j. ix j < 512"
  shows "\<exists>v. (v, a) \<in> set (leaves h lvl root idx) \<and> same_path lvl v ix"
  using assms
proof (induction lvl arbitrary: root idx)
  case (Suc l)
  let ?i = "ix (Suc l)"
  let ?idx = "idx(Suc l := of_nat ?i)"
  have i: "?i < 512" by (rule Suc.prems)
  have ui: "unat (of_nat ?i :: u64) = ?i" using i by (rule unat_eq_of_nat_small)
  have b: "unat (?idx k) < 512" if "k < 5" for k
    using Suc.prems(4) that i by (auto simp: unat_eq_of_nat_small)
  have ex: "pte_exists (h (pte_at root ?i))" using Suc.prems(2,5) by (auto simp: Let_def split: if_splits)
  note lf = wf_isLeaf[OF Suc.prems(1,2) i ex]
  show ?case
  proof (cases "l = 0")
    case True
    then have a: "a = pte_at root ?i" using Suc.prems(2,5) lf ex by (simp add: Let_def)
    let ?v = "reconstructLinAddrPgFromOffsets ?idx"
    have "lin_index ?v 1 = unat (?idx 1)" using b by (rule lin_index_reconstruct) auto
    then have "same_path (Suc l) ?v ix" using True ui by (simp add: same_path_def)
    moreover have "(?v, a) \<in> set (leaves h (Suc l) root idx)"
      using i ex lf True a by (auto simp: Let_def intro!: bexI[of _ ?i])
    ultimately show ?thesis by blast
  next
    case False
    have "leaf_at h l (ent_addr (h (pte_at root ?i))) ix = Some a"
      using Suc.prems(2,5) ex lf False by (simp add: Let_def)
    moreover have "wf_pt h l (ent_addr (h (pte_at root ?i)))" "ent_addr (h (pte_at root ?i)) \<noteq> 0" "l \<le> 4"
      using False Suc.prems(3) wf_pt_entry[OF Suc.prems(1,2) _ i ex] by auto
    ultimately obtain v where
      v: "(v, a) \<in> set (leaves h l (ent_addr (h (pte_at root ?i))) ?idx)" "same_path l v ix"
      using Suc.IH[of _ ?idx, OF _ _ _ b _ Suc.prems(6)] by blast
    have "lin_index v (Suc l) = unat (?idx (Suc l))"
      using leaves_sound[where idx = ?idx, OF _ _ _ b v(1)] False Suc.prems(3) wf_pt_entry[OF Suc.prems(1,2) _ i ex] by simp
    then have "same_path (Suc l) v ix" using v(2) ui by (auto simp: same_path_def le_Suc_eq)
    moreover have "(v, a) \<in> set (leaves h (Suc l) root idx)"
      using i ex lf False v(1) by (auto simp: Let_def intro!: bexI[of _ ?i])
    ultimately show ?thesis by blast
  qed
qed simp

section \<open>The walk as a loop over the leaves\<close>

text \<open>
  The contract between the walk and its leaf function: \<open>good ks s\<close> says that the leaves
  \<open>ks\<close> may still be processed in the state \<open>s\<close>; a leaf function that is called on the
  next of them returns, keeps the contract, and never touches the tables \<open>T\<close> the walk reads.
\<close>

locale leaf_visitor =
  fixes L :: copyLeafFn
    and good :: "(u64 \<times> u64) list \<Rightarrow> u64 \<times> mach \<Rightarrow> bool"
    and h :: "u64 \<Rightarrow> u64"
    and T :: "u64 set"
  assumes visit: "\<And>idx a ks s. good ((reconstructLinAddrPgFromOffsets idx, a) # ks) s \<Longrightarrow>
      \<exists>s'. L 1 idx a s = Inr s' \<and> good ks s'"
    and reads: "\<And>ks s. good ks s \<Longrightarrow> same_cells h (mem (snd s)) T"
begin

definition entry_leaves :: "nat \<Rightarrow> u64 \<Rightarrow> (nat \<Rightarrow> u64) \<Rightarrow> nat \<Rightarrow> (u64 \<times> u64) list" where
  "entry_leaves l root idx i =
     (let a = pte_at root i; idx' = idx(Suc l := of_nat i) in
        if \<not> pte_exists (h a) then []
        else if isLeaf (h a) (Suc l) then [(reconstructLinAddrPgFromOffsets idx', a)]
        else leaves h l (ent_addr (h a)) idx')"

definition above_eq :: "nat \<Rightarrow> (nat \<Rightarrow> u64) \<Rightarrow> (nat \<Rightarrow> u64) \<Rightarrow> bool" where
  "above_eq l idx idx' \<longleftrightarrow> (\<forall>k > l. idx k = idx' k)"

lemma entry_step:
  assumes rec: "\<And>root idx copy m rest. wf_pt h l root \<Longrightarrow> root \<noteq> 0 \<Longrightarrow> l \<le> 4 \<Longrightarrow> 0 < l \<Longrightarrow> tbls h l root \<subseteq> T \<Longrightarrow>
      good (leaves h l root idx @ rest) (copy, m) \<Longrightarrow>
      \<exists>copy' idx' m'. copy_walk L l root (copy, idx, m) = Inr (copy', idx', m') \<and>
        above_eq l idx idx' \<and> good rest (copy', m')"
    and wf: "wf_pt h (Suc l) root" "root \<noteq> 0" "Suc l \<le> 4" and T: "tbls h (Suc l) root \<subseteq> T"
    and i: "i < 512" and idx: "above_eq (Suc l) idx idx1"
    and good: "good (entry_leaves l root idx i @ rest) (copy, m)"
  shows "\<exists>copy' idx' m'. copy_entry L (copy_walk L l) (Suc l) root i (copy, idx1, m) = Inr (copy', idx', m') \<and>
        above_eq (Suc l) idx idx' \<and> good rest (copy', m')"
proof -
  let ?a = "pte_at root i"
  have "root \<in> T" using T pt_Suc_root(1)[OF wf(2)] by blast
  then have cell: "mem m ?a = h ?a"
    using same_cellsD[OF reads[OF good] _ pt_Suc_root(2)[OF wf(1,2)] i] by simp
  show ?thesis
  proof (cases "pte_exists (h ?a)")
    case False
    then show ?thesis using good idx cell by (simp add: copy_entry_def ld_def Let_def entry_leaves_def)
  next
    case True
    note lf = wf_isLeaf[OF wf(1,2) i True]
    let ?idx1 = "idx1(Suc l := of_nat i)"
    show ?thesis
    proof (cases "l = 0")
      case l0: True
      have "reconstructLinAddrPgFromOffsets (idx(Suc l := of_nat i)) = reconstructLinAddrPgFromOffsets ?idx1"
        by (rule reconstruct_cong) (use l0 idx in \<open>auto simp: above_eq_def\<close>)
      then have "good ((reconstructLinAddrPgFromOffsets ?idx1, ?a) # rest) (copy, m)"
        using good True lf l0 by (simp add: entry_leaves_def Let_def)
      from visit[OF this] obtain s' where s': "L 1 ?idx1 ?a (copy, m) = Inr s'" "good rest s'" by blast
      moreover obtain copy' m' where "s' = (copy', m')" by (cases s')
      moreover have "above_eq (Suc l) idx ?idx1" using idx by (simp add: above_eq_def)
      ultimately show ?thesis
        using True lf l0 cell by (simp add: copy_entry_def ld_def Let_def)
    next
      case F: False
      have ent: "wf_pt h l (ent_addr (h ?a))" "ent_addr (h ?a) \<noteq> 0" "\<not> pte_MAPS (h ?a)"
        using F wf_pt_entry[OF wf(1,2) _ i True] by auto
      have "leaves h l (ent_addr (h ?a)) (idx(Suc l := of_nat i)) = leaves h l (ent_addr (h ?a)) ?idx1"
        by (rule leaves_cong[OF ent(1,2)]) (use idx in \<open>auto simp: above_eq_def\<close>)
      then have "good (leaves h l (ent_addr (h ?a)) ?idx1 @ rest) (copy, m)"
        using good True lf F by (simp add: entry_leaves_def Let_def)
      moreover have "tbls h l (ent_addr (h ?a)) \<subseteq> T"
        using T child_tbls_subset[where h = h and l = l and root = root, OF i wf(2) True] by blast
      ultimately obtain copy' idx' m' where
        run: "copy_walk L l (ent_addr (h ?a)) (copy, ?idx1, m) = Inr (copy', idx', m')"
          "above_eq l ?idx1 idx'" "good rest (copy', m')"
        using rec[OF ent(1,2)] wf(3) F by (metis Suc_leD gr0I)
      have "nextTableOrFrame m root i (Suc l) = Inr (ent_addr (h ?a))"
        using True ent(3) wf(3) cell by (subst nextTableOrFrame_small) auto
      moreover have "above_eq (Suc l) idx idx'" using run(2) idx
        unfolding above_eq_def by (metis Suc_lessD fun_upd_other nat_neq_iff)
      ultimately show ?thesis
        using True lf F cell run by (simp add: copy_entry_def ld_def Let_def)
    qed
  qed
qed

lemma walk_leaves:
  assumes "wf_pt h lvl root" "root \<noteq> 0" "lvl \<le> 4" "0 < lvl" "tbls h lvl root \<subseteq> T"
    and "good (leaves h lvl root idx @ rest) (copy, m)"
  shows "\<exists>copy' idx' m'. copy_walk L lvl root (copy, idx, m) = Inr (copy', idx', m') \<and>
           above_eq lvl idx idx' \<and> good rest (copy', m')"
  using assms
proof (induction lvl arbitrary: root idx copy m rest)
  case (Suc l)
  define I where "I dn s \<longleftrightarrow> (case s of (copy, idx', m) \<Rightarrow> above_eq (Suc l) idx idx' \<and>
      (\<exists>todo. [0..<512] = dn @ todo \<and>
         good (concat (map (entry_leaves l root idx) todo) @ rest) (copy, m)))" for dn and s :: cstate
  have "\<exists>s'. foldR (copy_entry L (copy_walk L l) (Suc l) root) [0..<512] (copy, idx, m) = Inr s' \<and> I [0..<512] s'"
  proof (rule foldR_prefix)
    show "I [] (copy, idx, m)"
      using Suc.prems(6) by (simp add: I_def above_eq_def entry_leaves_def[abs_def])
  next
    fix dn i todo and s :: cstate
    assume split: "[0..<512] = dn @ i # todo" and I: "I dn s"
    obtain copy idx' m where s: "s = (copy, idx', m)" by (cases s)
    have i: "i < 512" using arg_cong[OF split, of set] by auto
    from I split have g: "good (entry_leaves l root idx i @ (concat (map (entry_leaves l root idx) todo) @ rest)) (copy, m)"
      and ab: "above_eq (Suc l) idx idx'" by (auto simp: I_def s)
    have "\<exists>copy2 idx2 m2. copy_entry L (copy_walk L l) (Suc l) root i (copy, idx', m) = Inr (copy2, idx2, m2) \<and>
        above_eq (Suc l) idx idx2 \<and> good (concat (map (entry_leaves l root idx) todo) @ rest) (copy2, m2)"
      by (rule entry_step[OF _ Suc.prems(1,2,3,5) i ab g]) (rule Suc.IH)
    then show "\<exists>s'. copy_entry L (copy_walk L l) (Suc l) root i s = Inr s' \<and> I (dn @ [i]) s'"
      using split by (auto simp: I_def s)
  qed
  then show ?case by (auto simp: I_def)
qed simp

end

section \<open>What a copy is\<close>

text \<open>
  The entry \<open>e'\<close> of the copy stands for the dirty entry \<open>e\<close> of the source: a deep copy maps
  a page of its own (one of \<open>P\<close>) with the contents the source's page had, writable and
  dirty; a shared entry maps the source's page read-only and dirty.
\<close>

definition copied :: "(u64 \<Rightarrow> bool) \<Rightarrow> (u64 \<Rightarrow> u64) \<Rightarrow> u64 set \<Rightarrow> (u64 \<Rightarrow> u64) \<Rightarrow> u64 \<Rightarrow> u64 \<Rightarrow> bool" where
  "copied deep h0 P h e e' \<longleftrightarrow>
     (if deep e
      then \<exists>p \<in> P. e' = pte_build p True True True True False \<and>
             (\<forall>j < 512. h (pte_at p j) = h0 (pte_at (ent_addr e) j))
      else e' = pte_build (ent_addr e) True True False True False)"

definition copy_leaf :: "(u64 \<Rightarrow> bool) \<Rightarrow> copyLeafFn" where
  "copy_leaf deep lvl idx pte s =
     (if pte_DIRTY (ld (snd s) pte)
      then (if deep (ld (snd s) pte) then deep_leaf lvl idx pte s else share_leaf lvl idx pte s)
      else Inr s)"

lemma copy_leaf_eqs:
  "copyDirty_leaf = copy_leaf (\<lambda>_. True)" "copyDirtyCOW_leaf = copy_leaf pte_RW"
  "cow_leaf = copy_leaf (\<lambda>_. False)"
  by (auto simp: fun_eq_iff copy_leaf_def copyDirty_leaf_def copyDirtyCOW_leaf_def cow_leaf_def)

text \<open>
  The invariant of a copy in progress. \<open>h0\<close> is the memory at the start, \<open>T\<close> and \<open>D\<close> the
  source's tables and data pages, \<open>old\<close> what the copy mapped before, \<open>dn\<close> the leaves
  already visited, \<open>P\<close> the pages allocated for contents.
\<close>

definition owned_in :: "u64 set \<Rightarrow> (u64 \<Rightarrow> u64) \<Rightarrow> u64 \<Rightarrow> bool" where
  "owned_in P h copy \<longleftrightarrow>
     (\<forall>ix e. (\<forall>j. ix j < 512) \<longrightarrow> pt_lookup h 3 copy ix = Some e \<longrightarrow> pte_RW e \<longrightarrow> ent_addr e \<in> P \<and>
        (\<forall>jx e'. (\<forall>j. jx j < 512) \<longrightarrow> pt_lookup h 3 copy jx = Some e' \<longrightarrow> pte_RW e' \<longrightarrow>
           ent_addr e = ent_addr e' \<longrightarrow> (\<forall>l \<in> {1..3}. ix l = jx l)))"

lemma owned_inD:
  assumes "owned_in P h copy" "\<forall>j. ix j < 512" "pt_lookup h 3 copy ix = Some e" "pte_RW e"
  shows "ent_addr e \<in> P"
    "\<forall>j. jx j < 512 \<Longrightarrow> pt_lookup h 3 copy jx = Some e' \<Longrightarrow> pte_RW e' \<Longrightarrow> ent_addr e = ent_addr e' \<Longrightarrow>
       \<forall>l \<in> {1..3}. ix l = jx l"
  using assms unfolding owned_in_def by blast+

lemma owned_in_install:
  assumes own: "owned_in P h copy"
    and look: "\<And>ix. (\<And>j. ix j < 512) \<Longrightarrow> pt_lookup h' 3 copy' ix = (if same_path 3 v ix then Some e else pt_lookup h 3 copy ix)"
    and e: "pte_RW e \<Longrightarrow> ent_addr e \<in> P \<and>
       (\<forall>ix x. (\<forall>j. ix j < 512) \<longrightarrow> pt_lookup h 3 copy ix = Some x \<longrightarrow> pte_RW x \<longrightarrow> ent_addr x \<noteq> ent_addr e)"
  shows "owned_in P h' copy'"
  unfolding owned_in_def
proof (intro allI impI conjI)
  fix ix x assume ix: "\<forall>j. ix j < 512" "pt_lookup h' 3 copy' ix = Some x" "pte_RW x"
  show "ent_addr x \<in> P"
    using look[of ix] ix e owned_inD(1)[OF own, of ix x] by (auto split: if_splits)
  fix jx y assume jx: "\<forall>j. jx j < 512" "pt_lookup h' 3 copy' jx = Some y" "pte_RW y" "ent_addr x = ent_addr y"
  show "\<forall>l \<in> {1..3}. ix l = jx l"
  proof (cases "same_path 3 v ix \<and> same_path 3 v jx")
    case True
    then show ?thesis by (simp add: same_path_def)
  next
    case False
    show ?thesis
    proof (cases "same_path 3 v ix \<or> same_path 3 v jx")
      case True
      then show ?thesis using look[of ix] look[of jx] ix jx e False by (metis option.inject)
    next
      case no: False
      then show ?thesis
        using look[of ix] look[of jx] ix jx owned_inD(2)[OF own, of ix x jx y] by simp
    qed
  qed
qed

definition copy_inv :: "(u64 \<Rightarrow> bool) \<Rightarrow> (u64 \<Rightarrow> u64) \<Rightarrow> u64 set \<Rightarrow> ((nat \<Rightarrow> nat) \<Rightarrow> u64 option) \<Rightarrow>
    (u64 \<times> u64) list \<Rightarrow> u64 set \<Rightarrow> u64 \<Rightarrow> mach \<Rightarrow> bool" where
  "copy_inv deep h0 S old dn P copy m \<longleftrightarrow>
     (wf_pt (mem m) 3 copy \<and> (copy = 0 \<or> acc_below (mem m) 3 copy) \<and> owned_in P (mem m) copy) \<and>
     (tbls (mem m) 3 copy \<union> P) \<inter> S = {} \<and> P \<inter> tbls (mem m) 3 copy = {} \<and> (\<forall>p \<in> P. pg_ok p) \<and>
     (\<forall>t j. pg_ok t \<longrightarrow> j < 512 \<longrightarrow> t \<notin> tbls (mem m) 3 copy \<union> P \<longrightarrow>
        mem m (pte_at t j) = h0 (pte_at t j)) \<and>
     (\<forall>(v, a) \<in> set dn. pte_DIRTY (h0 a) \<longrightarrow>
        (\<exists>e'. copied deep h0 P (mem m) (h0 a) e' \<and>
          (\<forall>ix. (\<forall>j. ix j < 512) \<longrightarrow> same_path 3 v ix \<longrightarrow> pt_lookup (mem m) 3 copy ix = Some e'))) \<and>
     (\<forall>ix. (\<forall>j. ix j < 512) \<longrightarrow> (\<forall>(v, a) \<in> set dn. pte_DIRTY (h0 a) \<longrightarrow> \<not> same_path 3 v ix) \<longrightarrow>
        pt_lookup (mem m) 3 copy ix = old ix)"

lemma copy_invD:
  assumes "copy_inv deep h0 S old dn P copy m"
  shows "wf_pt (mem m) 3 copy" "(tbls (mem m) 3 copy \<union> P) \<inter> S = {}" "P \<inter> tbls (mem m) 3 copy = {}"
    "\<And>p. p \<in> P \<Longrightarrow> pg_ok p"
    "\<And>t j. pg_ok t \<Longrightarrow> j < 512 \<Longrightarrow> t \<notin> tbls (mem m) 3 copy \<union> P \<Longrightarrow> mem m (pte_at t j) = h0 (pte_at t j)"
    "\<And>v a. (v, a) \<in> set dn \<Longrightarrow> pte_DIRTY (h0 a) \<Longrightarrow>
        (\<exists>e'. copied deep h0 P (mem m) (h0 a) e' \<and>
          (\<forall>ix. (\<forall>j. ix j < 512) \<longrightarrow> same_path 3 v ix \<longrightarrow> pt_lookup (mem m) 3 copy ix = Some e'))"
    "\<And>ix. (\<And>j. ix j < 512) \<Longrightarrow> (\<And>v a. (v, a) \<in> set dn \<Longrightarrow> pte_DIRTY (h0 a) \<Longrightarrow> \<not> same_path 3 v ix) \<Longrightarrow>
        pt_lookup (mem m) 3 copy ix = old ix"
    "copy = 0 \<or> acc_below (mem m) 3 copy" "owned_in P (mem m) copy"
proof -
  note i1 = assms[unfolded copy_inv_def]
  note i2 = i1[THEN conjunct2] note i3 = i2[THEN conjunct2] note i4 = i3[THEN conjunct2]
  note i5 = i4[THEN conjunct2] note i6 = i5[THEN conjunct2] note i7 = i6[THEN conjunct2]
  show "wf_pt (mem m) 3 copy" "(tbls (mem m) 3 copy \<union> P) \<inter> S = {}" "P \<inter> tbls (mem m) 3 copy = {}"
    using i1[THEN conjunct1, THEN conjunct1] i2[THEN conjunct1] i3[THEN conjunct1] .
  show "copy = 0 \<or> acc_below (mem m) 3 copy" "owned_in P (mem m) copy" using i1[THEN conjunct1] by blast+
  show "\<And>p. p \<in> P \<Longrightarrow> pg_ok p" using i4[THEN conjunct1] by blast
  show "\<And>t j. pg_ok t \<Longrightarrow> j < 512 \<Longrightarrow> t \<notin> tbls (mem m) 3 copy \<union> P \<Longrightarrow> mem m (pte_at t j) = h0 (pte_at t j)"
    using i5[THEN conjunct1] by blast
  show "\<And>v a. (v, a) \<in> set dn \<Longrightarrow> pte_DIRTY (h0 a) \<Longrightarrow>
        (\<exists>e'. copied deep h0 P (mem m) (h0 a) e' \<and>
          (\<forall>ix. (\<forall>j. ix j < 512) \<longrightarrow> same_path 3 v ix \<longrightarrow> pt_lookup (mem m) 3 copy ix = Some e'))"
    using i6[THEN conjunct1] by blast
  show "\<And>ix. (\<And>j. ix j < 512) \<Longrightarrow> (\<And>v a. (v, a) \<in> set dn \<Longrightarrow> pte_DIRTY (h0 a) \<Longrightarrow> \<not> same_path 3 v ix) \<Longrightarrow>
        pt_lookup (mem m) 3 copy ix = old ix"
    using i7 by (auto split: prod.splits)
qed

definition same_idx :: "u64 \<Rightarrow> u64 \<Rightarrow> bool" where
  "same_idx v v' \<longleftrightarrow> (\<forall>l \<in> {1..3}. lin_index v l = lin_index v' l)"

lemma same_path_same_idx: "same_path 3 v ix \<Longrightarrow> same_path 3 v' ix \<longleftrightarrow> same_idx v v'"
  by (auto simp: same_path_def same_idx_def)

lemma copied_frame:
  assumes "copied deep h0 P h e e'" "\<And>p j. p \<in> P \<Longrightarrow> j < 512 \<Longrightarrow> h' (pte_at p j) = h (pte_at p j)" "P \<subseteq> Q"
  shows "copied deep h0 Q h' e e'"
proof (cases "deep e")
  case True
  then obtain p where "p \<in> P" "e' = pte_build p True True True True False"
    "\<forall>j < 512. h (pte_at p j) = h0 (pte_at (ent_addr e) j)" using assms(1) by (auto simp: copied_def)
  then show ?thesis using assms(2,3) True unfolding copied_def by (simp only: if_True) (metis subsetD)
qed (use assms(1) in \<open>simp add: copied_def\<close>)

text \<open>A leaf that is not dirty changes nothing.\<close>

lemma copy_inv_skip:
  "copy_inv deep h0 S old dn P copy m \<Longrightarrow> \<not> pte_DIRTY (h0 a) \<Longrightarrow>
     copy_inv deep h0 S old (dn @ [(v, a)]) P copy m"
  unfolding copy_inv_def by simp

lemma copy_inv_install:
  assumes inv: "copy_inv deep h0 S old dn P copy m"
    and inst: "installed e' v 3 copy m copy' m' n"
    and fresh: "fresh_pages 3 m (S \<union> tbls (mem m) 3 copy \<union> P)"
    and paths: "\<And>v' a'. (v', a') \<in> set dn \<Longrightarrow> same_idx v v' \<Longrightarrow> a' = a"
    and cp: "pte_DIRTY (h0 a)" "copied deep h0 P (mem m) (h0 a) e'"
    and new: "pte_RW e' \<Longrightarrow> ent_addr e' \<in> P \<and>
       (\<forall>ix x. (\<forall>j. ix j < 512) \<longrightarrow> pt_lookup (mem m) 3 copy ix = Some x \<longrightarrow> pte_RW x \<longrightarrow> ent_addr x \<noteq> ent_addr e')"
  shows "copy_inv deep h0 S old (dn @ [(v, a)]) P copy' m'"
proof -
  note I = inst[unfolded installed_def]
  note D = copy_invD[OF inv]
  let ?N = "set (take n (answers m))" and ?T = "tbls (mem m) 3 copy" and ?T' = "tbls (mem m') 3 copy'"
  have "n \<le> 3" using I by auto
  then have "fresh_pages n m (S \<union> ?T \<union> P)" by (rule fresh_pages_mono[OF fresh _ order_refl])
  then have N: "?N \<inter> (S \<union> ?T \<union> P) = {}" by (auto simp: fresh_pages_def)
  have T': "?T' = ?T \<union> ?N" using I by blast
  have cells: "mem m' (pte_at t j) = mem m (pte_at t j)" if "pg_ok t" "j < 512" "t \<notin> ?T'" for t j
    using I that by blast
  have keep: "copied deep h0 P (mem m') e x" if "copied deep h0 P (mem m) e x" for e x
    using that by (rule copied_frame) (use cells D(3,4) N T' in blast)+
  have look: "pt_lookup (mem m') 3 copy' ix = (if same_path 3 v ix then Some e' else pt_lookup (mem m) 3 copy ix)"
    if "\<And>j. ix j < 512" for ix using I that by blast
  show ?thesis
    unfolding copy_inv_def
  proof (intro conjI)
    show "wf_pt (mem m') 3 copy'" using I by blast
    show "copy' = 0 \<or> acc_below (mem m') 3 copy'" using I D(8) by blast
    show "owned_in P (mem m') copy'" by (rule owned_in_install[OF D(9) look new]) auto
    show "(?T' \<union> P) \<inter> S = {}" using D(2) N T' by blast
    show "P \<inter> ?T' = {}" using D(3) N T' by blast
    show "\<forall>p \<in> P. pg_ok p" using D(4) by blast
    show "\<forall>t j. pg_ok t \<longrightarrow> j < 512 \<longrightarrow> t \<notin> ?T' \<union> P \<longrightarrow> mem m' (pte_at t j) = h0 (pte_at t j)"
      using cells D(5) T' by simp
    show "\<forall>(v', a') \<in> set (dn @ [(v, a)]). pte_DIRTY (h0 a') \<longrightarrow>
        (\<exists>x. copied deep h0 P (mem m') (h0 a') x \<and>
          (\<forall>ix. (\<forall>j. ix j < 512) \<longrightarrow> same_path 3 v' ix \<longrightarrow> pt_lookup (mem m') 3 copy' ix = Some x))"
    proof clarify
      fix v' a' assume in': "(v', a') \<in> set (dn @ [(v, a)])" and d: "pte_DIRTY (h0 a')"
      show "\<exists>x. copied deep h0 P (mem m') (h0 a') x \<and>
          (\<forall>ix. (\<forall>j. ix j < 512) \<longrightarrow> same_path 3 v' ix \<longrightarrow> pt_lookup (mem m') 3 copy' ix = Some x)"
      proof (cases "same_idx v v'")
        case True
        then have "a' = a" using in' paths by auto
        moreover have "same_path 3 v ix" if "same_path 3 v' ix" for ix
          using that True by (auto simp: same_path_def same_idx_def)
        ultimately show ?thesis using look keep[OF cp(2)] by auto
      next
        case False
        then have "(v', a') \<in> set dn" using in' by (auto simp: same_idx_def)
        from D(6)[OF this d] obtain x where x: "copied deep h0 P (mem m) (h0 a') x"
          "\<And>ix. (\<And>j. ix j < 512) \<Longrightarrow> same_path 3 v' ix \<Longrightarrow> pt_lookup (mem m) 3 copy ix = Some x" by blast
        have "\<not> same_path 3 v ix" if "same_path 3 v' ix" for ix
          using that False unfolding same_path_def same_idx_def by metis
        then show ?thesis using look keep[OF x(1)] x(2) by auto
      qed
    qed
    show "\<forall>ix. (\<forall>j. ix j < 512) \<longrightarrow>
        (\<forall>(v', a') \<in> set (dn @ [(v, a)]). pte_DIRTY (h0 a') \<longrightarrow> \<not> same_path 3 v' ix) \<longrightarrow>
        pt_lookup (mem m') 3 copy' ix = old ix"
    proof (intro allI impI)
      fix ix :: "nat \<Rightarrow> nat"
      assume b: "\<forall>j. ix j < 512"
        and n: "\<forall>(v', a') \<in> set (dn @ [(v, a)]). pte_DIRTY (h0 a') \<longrightarrow> \<not> same_path 3 v' ix"
      have "pt_lookup (mem m) 3 copy ix = old ix" by (rule D(7)) (use b n in auto)
      then show "pt_lookup (mem m') 3 copy' ix = old ix" using look b n cp(1) by auto
    qed
  qed
qed

lemma copy_inv_new_page:
  assumes inv: "copy_inv deep h0 S old dn P copy m"
    and p: "pg_ok p" "p \<notin> S \<union> tbls (mem m) 3 copy \<union> P"
    and m1: "\<And>t j. pg_ok t \<Longrightarrow> j < 512 \<Longrightarrow> t \<noteq> p \<Longrightarrow> mem m1 (pte_at t j) = mem m (pte_at t j)"
  shows "copy_inv deep h0 S old dn (insert p P) copy m1 \<and> tbls (mem m1) 3 copy = tbls (mem m) 3 copy"
proof -
  note D = copy_invD[OF inv]
  have "same_cells (mem m) (mem m1) (tbls (mem m) 3 copy)" using m1 p by (auto simp: same_cells_def)
  note F = tree_frame[OF D(1) this]
  have keep: "copied deep h0 (insert p P) (mem m1) e x" if "copied deep h0 P (mem m) e x" for e x
    using that by (rule copied_frame) (use m1 D(4) p in auto)
  have "copy_inv deep h0 S old dn (insert p P) copy m1"
    unfolding copy_inv_def F(1)
  proof (intro conjI)
    show "\<forall>(v, a) \<in> set dn. pte_DIRTY (h0 a) \<longrightarrow>
        (\<exists>x. copied deep h0 (insert p P) (mem m1) (h0 a) x \<and>
          (\<forall>ix. (\<forall>j. ix j < 512) \<longrightarrow> same_path 3 v ix \<longrightarrow> pt_lookup (mem m1) 3 copy ix = Some x))"
    proof clarify
      fix v a assume "(v, a) \<in> set dn" "pte_DIRTY (h0 a)"
      from D(6)[OF this] obtain x where x: "copied deep h0 P (mem m) (h0 a) x"
        "\<And>ix. (\<And>j. ix j < 512) \<Longrightarrow> same_path 3 v ix \<Longrightarrow> pt_lookup (mem m) 3 copy ix = Some x" by blast
      show "\<exists>x. copied deep h0 (insert p P) (mem m1) (h0 a) x \<and>
          (\<forall>ix. (\<forall>j. ix j < 512) \<longrightarrow> same_path 3 v ix \<longrightarrow> pt_lookup (mem m1) 3 copy ix = Some x)"
        using keep[OF x(1)] x(2) F(3) by auto
    qed
    show "\<forall>ix. (\<forall>j. ix j < 512) \<longrightarrow>
        (\<forall>(v, a) \<in> set dn. pte_DIRTY (h0 a) \<longrightarrow> \<not> same_path 3 v ix) \<longrightarrow> pt_lookup (mem m1) 3 copy ix = old ix"
    proof (intro allI impI)
      fix ix :: "nat \<Rightarrow> nat"
      assume b: "\<forall>j. ix j < 512" and "\<forall>(v, a) \<in> set dn. pte_DIRTY (h0 a) \<longrightarrow> \<not> same_path 3 v ix"
      then have "pt_lookup (mem m) 3 copy ix = old ix" by (intro D(7)) auto
      then show "pt_lookup (mem m1) 3 copy ix = old ix" using F(3) b by simp
    qed
    show "copy = 0 \<or> acc_below (mem m1) 3 copy" using D(8) F(4) by blast
    show "owned_in (insert p P) (mem m1) copy"
      using D(9) F(3) unfolding owned_in_def by auto
  qed (use F(2) D(2-5) p m1 in auto)
  with F(1) show ?thesis by blast
qed

lemma fresh_pages_drop:
  assumes "fresh_pages N m X" "answers m' = drop k (answers m)" "k + n \<le> N"
    "Y \<subseteq> X \<union> set (take k (answers m))"
  shows "fresh_pages n m' Y"
proof -
  have "fresh_pages (k + n) m X" using assms(1,3) by (rule fresh_pages_mono) simp
  then have a: "k + n \<le> length (answers m)" "distinct (take k (answers m) @ take n (drop k (answers m)))"
    "\<And>p. p \<in> set (take n (drop k (answers m))) \<Longrightarrow> pg_ok p \<and> p \<noteq> 0 \<and> p \<notin> X"
    by (auto simp: fresh_pages_def take_add)
  then show ?thesis using assms(2,4) by (auto simp: fresh_pages_def)
qed

lemma copy_step:
  assumes inv: "copy_inv deep h0 S old dn P copy m"
    and fresh: "fresh_pages 4 m (S \<union> tbls (mem m) 3 copy \<union> P)"
    and a: "a = pte_at t i" "t \<in> S" "pg_ok t" "i < 512"
    and data: "pte_DIRTY (h0 a) \<Longrightarrow> ent_addr (h0 a) \<in> S"
    and v: "v = reconstructLinAddrPgFromOffsets idx"
    and paths: "\<And>v' a'. (v', a') \<in> set dn \<Longrightarrow> same_idx v v' \<Longrightarrow> a' = a"
  shows "\<exists>copy' m' P' k. copy_leaf deep 1 idx a (copy, m) = Inr (copy', m') \<and>
     copy_inv deep h0 S old (dn @ [(v, a)]) P' copy' m' \<and> k \<le> 4 \<and> answers m' = drop k (answers m) \<and>
     tbls (mem m') 3 copy' \<union> P' \<subseteq> tbls (mem m) 3 copy \<union> P \<union> set (take k (answers m))"
proof -
  note D = copy_invD[OF inv]
  have cell: "mem m a = h0 a" unfolding a(1) by (rule D(5)[OF a(3,4)]) (use D(2) a(2) in blast)
  consider (clean) "\<not> pte_DIRTY (h0 a)" | (share) "pte_DIRTY (h0 a)" "\<not> deep (h0 a)"
    | (deep) "pte_DIRTY (h0 a)" "deep (h0 a)" by blast
  then show ?thesis
  proof cases
    case clean
    have "copy_leaf deep 1 idx a (copy, m) = Inr (copy, m)" using clean cell by (simp add: copy_leaf_def ld_def)
    moreover have "copy_inv deep h0 S old (dn @ [(v, a)]) P copy m" by (rule copy_inv_skip[OF inv clean])
    ultimately show ?thesis by (intro exI[of _ copy] exI[of _ m] exI[of _ P] exI[of _ 0]) simp
  next
    case share
    let ?e = "pte_build (ent_addr (h0 a)) True True False True False"
    let ?leaf = "\<lambda>m. and_then (pageTabEntToAddr (ld m a) TBL_LEVEL) (\<lambda>b. setPte b True True False True False)"
    have f3: "fresh_pages 3 m (S \<union> tbls (mem m) 3 copy \<union> P)" by (rule fresh_pages_mono[OF fresh]) simp_all
    have "t \<notin> set (take 3 (answers m))" using f3 a(2) by (auto simp: fresh_pages_def)
    then have "leaf_stable ?leaf m (set (take 3 (answers m))) ?e"
      unfolding leaf_stable_def using a cell
      by (auto simp: ld_def pageTabEntToAddr_small TBL_LEVEL_def setPte_ok)
    moreover have "fresh_pages 3 m (tbls (mem m) 3 copy)" by (rule fresh_pages_mono[OF f3]) auto
    ultimately obtain copy' m' n where
      run: "install ?leaf v 3 1 3 copy m = Inr (copy', m')" and inst: "installed ?e v 3 copy m copy' m' n"
      using install_ok[OF D(1), of 3 ?leaf ?e v] by (auto simp: pte_simps)
    have "copy_leaf deep 1 idx a (copy, m) = Inr (copy', m')"
      using share cell run by (simp add: copy_leaf_def ld_def share_leaf_def findAndSetPTECOW_def level_defs v)
    moreover have "copied deep h0 P (mem m) (h0 a) ?e" using share by (simp add: copied_def)
    then have "copy_inv deep h0 S old (dn @ [(v, a)]) P copy' m'"
      using copy_inv_install[OF inv inst f3] paths share(1) by (simp add: pte_simps)
    moreover have "n \<le> 3" "answers m' = drop n (answers m)"
      "tbls (mem m') 3 copy' = tbls (mem m) 3 copy \<union> set (take n (answers m))"
      using installedD(1,2,6)[OF inst] .
    ultimately show ?thesis
      by (intro exI[of _ copy'] exI[of _ m'] exI[of _ P] exI[of _ n]) auto
  next
    case deep
    have "fresh_pages (Suc 3) m (S \<union> tbls (mem m) 3 copy \<union> P)" using fresh by simp
    then obtain p ps where p: "answers m = p # ps" "pg_ok p" "p \<noteq> 0" "p \<notin> S \<union> tbls (mem m) 3 copy \<union> P"
      and fr: "\<And>m1. answers m1 = ps \<Longrightarrow> fresh_pages 3 m1 (insert p (S \<union> tbls (mem m) 3 copy \<union> P))"
      by (rule fresh_pages_SucD) blast
    let ?e = "pte_build p True True True True False"
    let ?m1 = "memcpy p (ent_addr (h0 a)) 4096 (m\<lparr>answers := ps\<rparr>)"
    have m1: "mem ?m1 (pte_at q j) = mem m (pte_at q j)" if "pg_ok q" "j < 512" "q \<noteq> p" for q j
      using that p(2) by (simp add: mach_simps)
    note N = copy_inv_new_page[OF inv p(2,4), of ?m1, OF m1]
    have N1: "copy_inv deep h0 S old dn (insert p P) copy ?m1"
      and N2: "tbls (mem ?m1) 3 copy = tbls (mem m) 3 copy" using N by auto
    have ans: "answers ?m1 = ps" by (simp add: mach_simps)
    have f3: "fresh_pages 3 ?m1 (S \<union> tbls (mem ?m1) 3 copy \<union> insert p P)"
      using fr[OF ans] by (simp add: N2 insert_commute)
    have "leaf_stable (\<lambda>_. setPte p True True True True False) ?m1 (set (take 3 (answers ?m1))) ?e"
      by (simp add: leaf_stable_def setPte_ok p)
    moreover have "fresh_pages 3 ?m1 (tbls (mem ?m1) 3 copy)" by (rule fresh_pages_mono[OF f3]) auto
    ultimately obtain copy' m' n where
      run: "install (\<lambda>_. setPte p True True True True False) v 3 1 3 copy ?m1 = Inr (copy', m')"
      and inst: "installed ?e v 3 copy ?m1 copy' m' n"
      using install_ok[OF copy_invD(1)[OF N1], of 3 "\<lambda>_. setPte p True True True True False" ?e v]
      by (auto simp: pte_simps)
    have "copyDirtyPage (ent_addr (h0 a)) 1 m = Inr (p, ?m1)"
      by (simp add: copyDirtyPage_def page_alloc_def p pgShifts_def SMALL_PG_SHIFT_def)
    then have go: "copy_leaf deep 1 idx a (copy, m) = Inr (copy', m')"
      using deep cell run
      by (simp add: copy_leaf_def ld_def deep_leaf_def mapIntoPgTbl_def mapIntoPgTblHelper_def level_defs v
          pageTabEntToAddr_small)
    have "mem ?m1 (pte_at p j) = h0 (pte_at (ent_addr (h0 a)) j)" if "j < 512" for j
    proof -
      have "mem ?m1 (pte_at p j) = mem m (pte_at (ent_addr (h0 a)) j)"
        using that p(2) by (simp add: mach_simps)
      also have "\<dots> = h0 (pte_at (ent_addr (h0 a)) j)"
        by (rule D(5)) (use that data[OF deep(1)] D(2) in auto)
      finally show ?thesis .
    qed
    then have cp: "copied deep h0 (insert p P) (mem ?m1) (h0 a) ?e" using deep by (auto simp: copied_def)
    have new: "ent_addr ?e \<in> insert p P \<and>
       (\<forall>ix x. (\<forall>j. ix j < 512) \<longrightarrow> pt_lookup (mem ?m1) 3 copy ix = Some x \<longrightarrow> pte_RW x \<longrightarrow> ent_addr x \<noteq> ent_addr ?e)"
    proof -
      have "ent_addr x \<noteq> p" if "\<forall>j. ix j < 512" "pt_lookup (mem ?m1) 3 copy ix = Some x" "pte_RW x" for ix x
      proof -
        have "same_cells (mem m) (mem ?m1) (tbls (mem m) 3 copy)" using m1 p(4) by (auto simp: same_cells_def)
        then have "pt_lookup (mem m) 3 copy ix = Some x" using tree_frame(3)[OF D(1)] that(1,2) by metis
        then show ?thesis using owned_inD(1)[OF D(9) that(1) _ that(3)] p(4) by blast
      qed
      then show ?thesis by (simp add: pte_simps p(2))
    qed
    note go
    moreover have "copy_inv deep h0 S old (dn @ [(v, a)]) (insert p P) copy' m'"
      by (rule copy_inv_install[OF N1 inst f3 _ deep(1) cp new]) (rule paths)
    moreover have "n \<le> 3" "answers m' = drop n (answers ?m1)"
      "tbls (mem m') 3 copy' = tbls (mem ?m1) 3 copy \<union> set (take n (answers ?m1))"
      using installedD(1,2,6)[OF inst] .
    ultimately show ?thesis
      by (intro exI[of _ copy'] exI[of _ m'] exI[of _ "insert p P"] exI[of _ "Suc n"])
        (auto simp: N2 ans p(1))
  qed
qed

section \<open>The leaf functions keep the contract of the walk\<close>

definition src_ok :: "(u64 \<Rightarrow> u64) \<Rightarrow> u64 set \<Rightarrow> u64 set \<Rightarrow> (u64 \<times> u64) list \<Rightarrow> bool" where
  "src_ok h0 T S L \<longleftrightarrow> T \<subseteq> S \<and>
     (\<forall>(v, a) \<in> set L. (\<exists>t \<in> T. pg_ok t \<and> (\<exists>i < 512. a = pte_at t i)) \<and>
        (pte_DIRTY (h0 a) \<longrightarrow> ent_addr (h0 a) \<in> S)) \<and>
     (\<forall>(v, a) \<in> set L. \<forall>(v', a') \<in> set L. same_idx v v' \<longrightarrow> a' = a)"

definition copy_good :: "(u64 \<Rightarrow> bool) \<Rightarrow> (u64 \<Rightarrow> u64) \<Rightarrow> u64 set \<Rightarrow> u64 set \<Rightarrow> ((nat \<Rightarrow> nat) \<Rightarrow> u64 option) \<Rightarrow>
    (u64 \<times> u64) list \<Rightarrow> (u64 \<times> u64) list \<Rightarrow> u64 \<times> mach \<Rightarrow> bool" where
  "copy_good deep h0 T S old L ks = (\<lambda>(copy, m). src_ok h0 T S L \<and>
     (\<exists>dn P. L = dn @ ks \<and> copy_inv deep h0 S old dn P copy m \<and>
        fresh_pages (4 * length ks) m (S \<union> tbls (mem m) 3 copy \<union> P)))"

lemma copy_good_step:
  assumes "copy_good deep h0 T S old L ((reconstructLinAddrPgFromOffsets idx, a) # ks) (copy, m)"
  shows "\<exists>s'. copy_leaf deep 1 idx a (copy, m) = Inr s' \<and> copy_good deep h0 T S old L ks s'"
proof -
  let ?v = "reconstructLinAddrPgFromOffsets idx"
  from assms obtain dn P where src: "src_ok h0 T S L" and L: "L = dn @ (?v, a) # ks"
    and inv: "copy_inv deep h0 S old dn P copy m"
    and fr: "fresh_pages (4 * length ((?v, a) # ks)) m (S \<union> tbls (mem m) 3 copy \<union> P)"
    unfolding copy_good_def by blast
  have vL: "(?v, a) \<in> set L" using L by simp
  have paths: "a' = a" if "(v', a') \<in> set dn" "same_idx ?v v'" for v' a'
    using src vL that L unfolding src_ok_def by fastforce
  obtain t i where t: "t \<in> T" "pg_ok t" "i < 512" "a = pte_at t i"
    and data: "pte_DIRTY (h0 a) \<Longrightarrow> ent_addr (h0 a) \<in> S"
    using src vL unfolding src_ok_def by fast
  have tS: "t \<in> S" using t(1) src unfolding src_ok_def by blast
  have f4: "fresh_pages 4 m (S \<union> tbls (mem m) 3 copy \<union> P)" by (rule fresh_pages_mono[OF fr]) auto
  obtain copy' m' P' k where
    run: "copy_leaf deep 1 idx a (copy, m) = Inr (copy', m')"
    and inv': "copy_inv deep h0 S old (dn @ [(?v, a)]) P' copy' m'"
    and k: "k \<le> 4" "answers m' = drop k (answers m)"
      "tbls (mem m') 3 copy' \<union> P' \<subseteq> tbls (mem m) 3 copy \<union> P \<union> set (take k (answers m))"
    using copy_step[where idx = idx and deep = deep and old = old, OF inv f4 t(4) tS t(2,3) _ refl] data paths
    by blast
  have "fresh_pages (4 * length ks) m' (S \<union> tbls (mem m') 3 copy' \<union> P')"
    by (rule fresh_pages_drop[OF fr k(2)]) (use k in auto)
  then have "copy_good deep h0 T S old L ks (copy', m')"
    unfolding copy_good_def using src inv' L by (simp, intro exI conjI) auto
  with run show ?thesis by blast
qed

interpretation copier: leaf_visitor "copy_leaf deep" "copy_good deep h0 T S old L" h0 T
  for deep h0 T S old L
proof
  show "\<exists>s'. copy_leaf deep 1 idx a s = Inr s' \<and> copy_good deep h0 T S old L ks s'"
    if "copy_good deep h0 T S old L ((reconstructLinAddrPgFromOffsets idx, a) # ks) s" for idx a ks s
    using that by (cases s) (simp only: copy_good_step)
  show "same_cells h0 (mem (snd s)) T" if "copy_good deep h0 T S old L ks s" for ks s
  proof -
    obtain copy m where s: "s = (copy, m)" by (cases s)
    from that obtain dn P where "T \<subseteq> S" and inv: "copy_inv deep h0 S old dn P copy m"
      unfolding copy_good_def src_ok_def s by blast
    then show ?thesis using copy_invD(2,5)[OF inv] unfolding same_cells_def s by (simp add: subset_iff) blast
  qed
qed

section \<open>The whole copy\<close>

text \<open>The pages in use by the source: its tables and the pages its dirty entries map.\<close>

definition source_in :: "(u64 \<Rightarrow> u64) \<Rightarrow> u64 \<Rightarrow> u64 set \<Rightarrow> bool" where
  "source_in h root S \<longleftrightarrow> tbls h 3 root \<subseteq> S \<and>
     (\<forall>ix e. (\<forall>j. ix j < 512) \<longrightarrow> pt_lookup h 3 root ix = Some e \<longrightarrow> pte_DIRTY e \<longrightarrow> ent_addr e \<in> S)"

definition copy_budget :: "mach \<Rightarrow> u64 \<Rightarrow> nat" where
  "copy_budget m root = 4 * length (leaves (mem m) 3 root slot_idx)"

lemma slot_idx_small: "unat (slot_idx l) < 512"
  by (simp add: slot_idx_def SLOT_PML4_NUM_def)

lemma same_path_lin_index [simp]: "same_path lvl v (lin_index v)"
  by (simp add: same_path_def)

lemma leaves_src_ok:
  assumes "wf_pt h 3 root" "root \<noteq> 0" "source_in h root S"
  shows "src_ok h (tbls h 3 root) S (leaves h 3 root slot_idx)"
proof -
  note snd = leaves_sound[where idx = slot_idx, OF assms(1,2) _ slot_idx_small]
  have at: "leaf_at h 3 root ix = Some a" if "(v, a) \<in> set (leaves h 3 root slot_idx)" "same_path 3 v ix" for v a ix
    using snd that by auto
  show ?thesis
    unfolding src_ok_def
  proof (intro conjI)
    show "tbls h 3 root \<subseteq> S" using assms(3) by (simp add: source_in_def)
    show "\<forall>(v, a) \<in> set (leaves h 3 root slot_idx).
        (\<exists>t \<in> tbls h 3 root. pg_ok t \<and> (\<exists>i < 512. a = pte_at t i)) \<and> (pte_DIRTY (h a) \<longrightarrow> ent_addr (h a) \<in> S)"
    proof clarify
      fix v a assume va: "(v, a) \<in> set (leaves h 3 root slot_idx)"
      have "pt_lookup h 3 root (lin_index v) = Some (h a)" using at[OF va, of "lin_index v"]
        by (simp add: pt_lookup_leaf_at)
      then have "pte_DIRTY (h a) \<longrightarrow> ent_addr (h a) \<in> S"
        using assms(3) lin_index_bound unfolding source_in_def by blast
      moreover obtain t i where "t \<in> tbls h 3 root" "i < 512" "a = pte_at t i" using snd[OF _ va] by auto
      ultimately show "(\<exists>t \<in> tbls h 3 root. pg_ok t \<and> (\<exists>i < 512. a = pte_at t i)) \<and> (pte_DIRTY (h a) \<longrightarrow> ent_addr (h a) \<in> S)"
        using tbls_pg_ok[OF assms(1)] by blast
    qed
    show "\<forall>(v, a) \<in> set (leaves h 3 root slot_idx). \<forall>(v', a') \<in> set (leaves h 3 root slot_idx).
        same_idx v v' \<longrightarrow> a' = a"
    proof clarify
      fix v a v' a' assume va: "(v, a) \<in> set (leaves h 3 root slot_idx)" "(v', a') \<in> set (leaves h 3 root slot_idx)"
        and same: "same_idx v v'"
      have "same_path 3 v' (lin_index v)" using same by (simp add: same_path_def same_idx_def)
      then have "leaf_at h 3 root (lin_index v) = Some a'" by (rule at[OF va(2)])
      moreover have "leaf_at h 3 root (lin_index v) = Some a" by (rule at[OF va(1)]) simp
      ultimately show "a' = a" by simp
    qed
  qed
qed

lemma copy_walk_ok:
  assumes wf: "wf_pt (mem m) 3 root" "root \<noteq> 0" and src: "source_in (mem m) root S"
    and fr: "fresh_pages (copy_budget m root) m S"
  shows "\<exists>copy' idx' m' P. copy_walk (copy_leaf deep) 3 root (0, slot_idx, m) = Inr (copy', idx', m') \<and>
     copy_inv deep (mem m) S (\<lambda>_. None) (leaves (mem m) 3 root slot_idx) P copy' m'"
proof -
  let ?L = "leaves (mem m) 3 root slot_idx"
  let ?good = "copy_good deep (mem m) (tbls (mem m) 3 root) S (\<lambda>_. None) ?L"
  have "copy_inv deep (mem m) S (\<lambda>_. None) [] {} 0 m" by (simp add: copy_inv_def owned_in_def)
  then have "?good (?L @ []) (0, m)"
    using leaves_src_ok[OF wf src] fr unfolding copy_good_def copy_budget_def
    by (simp, intro exI[of _ "{}"]) simp
  from copier.walk_leaves[OF wf _ _ _ this] obtain copy' idx' m' where
    "copy_walk (copy_leaf deep) 3 root (0, slot_idx, m) = Inr (copy', idx', m')" "?good [] (copy', m')"
    by auto
  moreover from this(2) obtain P where
    "copy_inv deep (mem m) S (\<lambda>_. None) ?L P copy' m'" unfolding copy_good_def by auto
  ultimately show ?thesis by blast
qed

lemma copy_inv_lookup:
  assumes wf: "wf_pt h 3 root" "root \<noteq> 0"
    and inv: "copy_inv deep h S (\<lambda>_. None) (leaves h 3 root slot_idx) P copy' m'"
    and ix: "\<And>j. ix j < 512"
  shows "case pt_lookup h 3 root ix of
      Some e \<Rightarrow> if pte_DIRTY e then \<exists>e'. pt_lookup (mem m') 3 copy' ix = Some e' \<and> copied deep h P (mem m') e e'
                else pt_lookup (mem m') 3 copy' ix = None
    | None \<Rightarrow> pt_lookup (mem m') 3 copy' ix = None"
proof -
  have at: "leaf_at h 3 root ix = Some a" if "(v, a) \<in> set (leaves h 3 root slot_idx)" "same_path 3 v ix" for v a
    using leaves_sound[where idx = slot_idx, OF wf _ slot_idx_small that(1)] that(2) by auto
  show ?thesis
  proof (cases "\<exists>a. leaf_at h 3 root ix = Some a \<and> pte_DIRTY (h a)")
    case True
    then obtain a where a: "leaf_at h 3 root ix = Some a" "pte_DIRTY (h a)" by blast
    from leaves_complete[where idx = slot_idx, OF wf _ slot_idx_small a(1) ix] obtain v where
      v: "(v, a) \<in> set (leaves h 3 root slot_idx)" "same_path 3 v ix" by auto
    from copy_invD(6)[OF inv v(1) a(2)] v(2) ix obtain e' where
      "copied deep h P (mem m') (h a) e'" "pt_lookup (mem m') 3 copy' ix = Some e'" by blast
    moreover have "pt_lookup h 3 root ix = Some (h a)" using a(1) by (simp add: pt_lookup_leaf_at)
    ultimately show ?thesis using a(2) by auto
  next
    case False
    have "pt_lookup (mem m') 3 copy' ix = None"
      by (rule copy_invD(7)[OF inv]) (use ix False at in auto)
    then show ?thesis using False by (auto simp: pt_lookup_leaf_at split: option.splits)
  qed
qed

text \<open>A copy touches memory and the allocator, not the translation root.\<close>

lemma install_cr3: "install leaf virt rootLvl mapLvl cur root m = Inr (r, m') \<Longrightarrow> cr3 m' = cr3 m"
proof (induction cur arbitrary: root m r m')
  case 0
  then show ?case
    by (auto simp: install_body_def new_table_def Let_def and_then_eq_Inr kassert_eq_Inr page_alloc_eq_Inr mach_simps split: if_splits)
next
  case (Suc c)
  obtain root1 m1 where new: "(if root = 0 then new_table m else Inr (root, m)) = Inr (root1, m1)"
    and body: "install_body (install leaf virt rootLvl mapLvl c) leaf virt rootLvl mapLvl (Suc c) root1 m1 = Inr (r, m') \<or> root1 = 0"
    using Suc.prems by (auto simp: install_body_def Let_def and_then_eq_Inr kassert_eq_Inr)
  have "cr3 m1 = cr3 m"
    using new by (auto simp: new_table_def and_then_eq_Inr page_alloc_eq_Inr mach_simps split: if_splits)
  then show ?case using Suc.prems new
    by (auto simp: install_body_def Let_def and_then_eq_Inr kassert_eq_Inr mach_simps dest!: Suc.IH split: if_splits)
qed

lemma copy_leaf_cr3: "copy_leaf deep lvl idx pte (copy, m) = Inr (copy', m') \<Longrightarrow> cr3 m' = cr3 m"
  by (auto simp: copy_leaf_def deep_leaf_def share_leaf_def copyDirtyPage_def mapIntoPgTbl_def mapIntoPgTblHelper_def
      findAndSetPTECOW_def and_then_eq_Inr page_alloc_eq_Inr mach_simps dest!: install_cr3 split: if_splits)

lemma copy_walk_cr3: "copy_walk (copy_leaf deep) lvl root s = Inr s' \<Longrightarrow> cr3 (snd (snd s')) = cr3 (snd (snd s))"
proof (induction lvl arbitrary: root s s')
  case 0
  show ?case
    by (rule foldR_inv[OF 0[unfolded copy_walk.simps], of "\<lambda>x. cr3 (snd (snd x)) = cr3 (snd (snd s))"])
      (auto simp: copy_entry_def Let_def and_then_eq_Inr kassert_eq_Inr dest!: copy_leaf_cr3 split: if_splits)
next
  case (Suc l)
  show ?case
    by (rule foldR_inv[OF Suc.prems[unfolded copy_walk.simps], of "\<lambda>x. cr3 (snd (snd x)) = cr3 (snd (snd s))"])
      (auto simp: copy_entry_def Let_def and_then_eq_Inr kassert_eq_Inr dest!: copy_leaf_cr3 Suc.IH split: if_splits)
qed

section \<open>Properties\<close>

lemma only_entry_leaves:
  assumes "only_entry h r k e" "pte_exists e"
  shows "leaves h (Suc l) r idx = (let idx' = idx(Suc l := of_nat k) in
     if isLeaf e (Suc l) then [(reconstructLinAddrPgFromOffsets idx', pte_at r k)] else leaves h l (ent_addr e) idx')"
proof -
  note D = only_entryD[OF assms(1)]
  show ?thesis
    unfolding leaves.simps
    by (subst concat_map_upt_single[where i = k, OF D(3)]) (simp_all add: Let_def D(4) D(5) assms(2))
qed

lemma small_tree_leaves:
  assumes "pte_exists e"
  shows "leaves (small_tree e) 3 0x1000 idx =
     [(reconstructLinAddrPgFromOffsets (idx(3 := 1, 2 := 2, 1 := 3)), pte_at 0x3000 3)]"
proof -
  have "leaves (small_tree e) (Suc (Suc (Suc 0))) 0x1000 idx =
     [(reconstructLinAddrPgFromOffsets (idx(Suc (Suc (Suc 0)) := 1, Suc (Suc 0) := 2, Suc 0 := 3)), pte_at 0x3000 3)]"
    using assms by (simp add: only_entry_leaves[OF small_tree_only(3)] only_entry_leaves[OF small_tree_only(2)]
      only_entry_leaves[OF small_tree_only(1)] pte_simps pg_ok_small isLeaf_above del: leaves.simps)
  then show ?thesis by (simp only: numeral_3_eq_3 numeral_2_eq_2 One_nat_def)
qed

lemma small_tree_source:
  "pte_exists e \<Longrightarrow> source_in (small_tree e) 0x1000 {0x1000, 0x2000, 0x3000, ent_addr e}"
  by (auto simp: source_in_def small_tree_lookup numeral_3_eq_3[symmetric] small_tree_tbls(3)[unfolded numeral_3_eq_3[symmetric]]
      split: if_splits)

lemma owned_in_owns:
  assumes "owned_in P h copy" "P \<inter> tbls h 3 copy = {}"
  shows "owns_frames h 3 copy"
  unfolding owns_frames_def
proof (intro allI impI conjI)
  fix ix a assume a: "\<forall>j. ix j < 512" "leaf_at h 3 copy ix = Some a" "pte_RW (h a)"
  then have l: "pt_lookup h 3 copy ix = Some (h a)" by (simp add: pt_lookup_leaf_at)
  show "ent_addr (h a) \<notin> tbls h 3 copy" using owned_inD(1)[OF assms(1) a(1) l a(3)] assms(2) by blast
  fix jx b assume b: "\<forall>j. jx j < 512" "leaf_at h 3 copy jx = Some b" "pte_RW (h b)" "ent_addr (h a) = ent_addr (h b)"
  then have "pt_lookup h 3 copy jx = Some (h b)" by (simp add: pt_lookup_leaf_at)
  from owned_inD(2)[OF assms(1) a(1) l a(3) b(1) this b(3,4)] have "leaf_at h 3 copy ix = leaf_at h 3 copy jx"
    by (intro leaf_at_cong) auto
  then show "a = b" using a(2) b(2) by simp
qed

lemma copy_result:
  assumes "wf_pt (mem m) 3 root" "root \<noteq> 0" "source_in (mem m) root S"
    and "fresh_pages (copy_budget m root) m S"
  obtains copy' idx' m' P where
    "copy_walk (copy_leaf deep) 3 root (0, slot_idx, m) = Inr (copy', idx', m')"
    "wf_pt (mem m') 3 copy'" "copy' = 0 \<or> acc_below (mem m') 3 copy'" "owns_frames (mem m') 3 copy'"
    "tbls (mem m') 3 copy' \<inter> S = {}"
    "\<forall>t \<in> S. \<forall>j < 512. pg_ok t \<longrightarrow> mem m' (pte_at t j) = mem m (pte_at t j)"
    "\<And>p. p \<in> P \<Longrightarrow> pg_ok p \<and> p \<notin> S \<and> p \<notin> tbls (mem m') 3 copy'"
    "\<And>ix. (\<And>j. ix j < 512) \<Longrightarrow> case pt_lookup (mem m) 3 root ix of
        Some e \<Rightarrow> if pte_DIRTY e then \<exists>e'. pt_lookup (mem m') 3 copy' ix = Some e' \<and> copied deep (mem m) P (mem m') e e'
                  else pt_lookup (mem m') 3 copy' ix = None
      | None \<Rightarrow> pt_lookup (mem m') 3 copy' ix = None"
proof -
  from copy_walk_ok[OF assms, of deep] obtain copy' idx' m' P where
    run: "copy_walk (copy_leaf deep) 3 root (0, slot_idx, m) = Inr (copy', idx', m')"
    and inv: "copy_inv deep (mem m) S (\<lambda>_. None) (leaves (mem m) 3 root slot_idx) P copy' m'" by blast
  note D = copy_invD[OF inv]
  show thesis
  proof (rule that[OF run D(1,8)])
    show "owns_frames (mem m') 3 copy'" using owned_in_owns[OF D(9)] D(3) by blast
    show "tbls (mem m') 3 copy' \<inter> S = {}" using D(2) by blast
    show "\<forall>t \<in> S. \<forall>j < 512. pg_ok t \<longrightarrow> mem m' (pte_at t j) = mem m (pte_at t j)" using D(2,5) by blast
    show "pg_ok p \<and> p \<notin> S \<and> p \<notin> tbls (mem m') 3 copy'" if "p \<in> P" for p using D(2-4) that by blast
  qed (rule copy_inv_lookup[OF assms(1,2) inv])
qed

text \<open>
  What a snapshot is of a page: a private page with the same contents where the entry was
  writable, the shared frame, read-only, where it was not.
\<close>

definition snapshot_entry :: "(u64 \<Rightarrow> bool) \<Rightarrow> mach \<Rightarrow> u64 set \<Rightarrow> mach \<Rightarrow> u64 \<Rightarrow> u64 option \<Rightarrow> u64 option \<Rightarrow> bool" where
  "snapshot_entry deep m S m' copy e e' \<longleftrightarrow>
     (case e of
        None \<Rightarrow> e' = None
      | Some e \<Rightarrow>
          if \<not> pte_DIRTY e then e' = None
          else if deep e then
            (\<exists>p. pg_ok p \<and> p \<notin> S \<and> p \<notin> tbls (mem m') 3 copy \<and> e' = Some (pte_build p True True True True False) \<and>
               (\<forall>j < 512. mem m' (pte_at p j) = mem m (pte_at (ent_addr e) j)))
          else e' = Some (pte_build (ent_addr e) True True False True False))"

lemma snapshot_entryI:
  assumes "case e of
        Some e \<Rightarrow> if pte_DIRTY e then \<exists>x. e' = Some x \<and> copied deep (mem m) P (mem m') e x else e' = None
      | None \<Rightarrow> e' = None"
    and "\<And>p. p \<in> P \<Longrightarrow> pg_ok p \<and> p \<notin> S \<and> p \<notin> tbls (mem m') 3 copy"
  shows "snapshot_entry deep m S m' copy e e'"
proof (cases e)
  case (Some x)
  show ?thesis
  proof (cases "pte_DIRTY x \<and> deep x")
    case True
    then obtain p where "p \<in> P" "e' = Some (pte_build p True True True True False)"
      "\<forall>j < 512. mem m' (pte_at p j) = mem m (pte_at (ent_addr x) j)"
      using assms(1) Some by (auto simp: copied_def)
    then show ?thesis using assms(2) True Some unfolding snapshot_entry_def by auto
  next
    case False
    then show ?thesis using assms(1) Some by (auto simp: snapshot_entry_def copied_def split: if_splits)
  qed
qed (use assms(1) in \<open>simp add: snapshot_entry_def\<close>)

text \<open>What the three copies of a slot's tree have in common.\<close>

definition snapshot_of :: "(u64 \<Rightarrow> bool) \<Rightarrow> mach \<Rightarrow> u64 \<Rightarrow> u64 set \<Rightarrow> mach \<Rightarrow> u64 \<Rightarrow> bool" where
  "snapshot_of deep m root S m' copy \<longleftrightarrow>
     (wf_pt (mem m') 3 copy \<and> (copy = 0 \<or> acc_below (mem m') 3 copy) \<and> owns_frames (mem m') 3 copy) \<and>
     tbls (mem m') 3 copy \<inter> S = {} \<and>
     (\<forall>t \<in> S. \<forall>j < 512. pg_ok t \<longrightarrow> mem m' (pte_at t j) = mem m (pte_at t j)) \<and>
     (\<forall>ix. (\<forall>j. ix j < 512) \<longrightarrow>
        snapshot_entry deep m S m' copy (pt_lookup (mem m) 3 root ix) (pt_lookup (mem m') 3 copy ix))"

lemma copy_snapshot:
  assumes "wf_pt (mem m) 3 root" "root \<noteq> 0" "source_in (mem m) root S"
    and "fresh_pages (copy_budget m root) m S"
  shows "\<exists>copy' idx' m'. copy_walk (copy_leaf deep) 3 root (0, slot_idx, m) = Inr (copy', idx', m') \<and>
     snapshot_of deep m root S m' copy'"
proof (rule copy_result[OF assms, of deep])
  fix copy' idx' m' P
  assume R: "copy_walk (copy_leaf deep) 3 root (0, slot_idx, m) = Inr (copy', idx', m')"
    "wf_pt (mem m') 3 copy'" "copy' = 0 \<or> acc_below (mem m') 3 copy'" "owns_frames (mem m') 3 copy'"
    "tbls (mem m') 3 copy' \<inter> S = {}"
    "\<forall>t \<in> S. \<forall>j < 512. pg_ok t \<longrightarrow> mem m' (pte_at t j) = mem m (pte_at t j)"
    and P: "\<And>p. p \<in> P \<Longrightarrow> pg_ok p \<and> p \<notin> S \<and> p \<notin> tbls (mem m') 3 copy'"
    and look: "\<And>ix. (\<And>j. ix j < 512) \<Longrightarrow> case pt_lookup (mem m) 3 root ix of
        Some e \<Rightarrow> if pte_DIRTY e then \<exists>e'. pt_lookup (mem m') 3 copy' ix = Some e' \<and> copied deep (mem m) P (mem m') e e'
                  else pt_lookup (mem m') 3 copy' ix = None
      | None \<Rightarrow> pt_lookup (mem m') 3 copy' ix = None"
  have "snapshot_entry deep m S m' copy' (pt_lookup (mem m) 3 root ix) (pt_lookup (mem m') 3 copy' ix)"
    if "\<forall>j. ix j < 512" for ix by (rule snapshot_entryI[OF look P]) (use that in auto)
  then show ?thesis using R unfolding snapshot_of_def by (intro exI[of _ copy'] exI[of _ idx'] exI[of _ m']) blast
qed

text \<open>
  C7. A copy-on-write copy of a slot's page table (what \<open>UmPth::operator=\<close> runs) succeeds
  if the allocator has enough unused pages; the copy is a well-formed tree of tables of its
  own; it maps exactly the dirty pages of the source, at the same addresses, to the same
  frames, read-only, dirty and user; and no cell of a page in use by the source changes.
\<close>

theorem walkPgTblCOW_correct:
  assumes "wf_pt (mem m) 3 root" "root \<noteq> 0" "source_in (mem m) root S"
    and "fresh_pages (copy_budget m root) m S"
  shows "\<exists>copy' m'. walkPgTblCOW root 0 3 m = Inr (copy', m') \<and> wf_pt (mem m') 3 copy' \<and>
     tbls (mem m') 3 copy' \<inter> S = {} \<and>
     (\<forall>t \<in> S. \<forall>j < 512. pg_ok t \<longrightarrow> mem m' (pte_at t j) = mem m (pte_at t j)) \<and>
     (\<forall>ix. (\<forall>j. ix j < 512) \<longrightarrow> pt_lookup (mem m') 3 copy' ix =
        (case pt_lookup (mem m) 3 root ix of
           Some e \<Rightarrow> if pte_DIRTY e then Some (pte_build (ent_addr e) True True False True False) else None
         | None \<Rightarrow> None))"
proof -
  obtain copy' idx' m' where run: "copy_walk (copy_leaf (\<lambda>_. False)) 3 root (0, slot_idx, m) = Inr (copy', idx', m')"
    and snap: "snapshot_of (\<lambda>_. False) m root S m' copy'" using copy_snapshot[OF assms] by blast
  have "walkPgTblCOW root 0 3 m = Inr (copy', m')"
    by (simp add: walkPgTblCOW_def walkPgTblCOWHelper_def copy_leaf_eqs run)
  moreover have "pt_lookup (mem m') 3 copy' ix = (case pt_lookup (mem m) 3 root ix of
           Some e \<Rightarrow> if pte_DIRTY e then Some (pte_build (ent_addr e) True True False True False) else None
         | None \<Rightarrow> None)" if "\<forall>j. ix j < 512" for ix
  proof -
    have "snapshot_entry (\<lambda>_. False) m S m' copy' (pt_lookup (mem m) 3 root ix) (pt_lookup (mem m') 3 copy' ix)"
      using snap that unfolding snapshot_of_def by blast
    then show ?thesis by (auto simp: snapshot_entry_def split: option.splits if_splits)
  qed
  ultimately show ?thesis
    using snap unfolding snapshot_of_def by (intro exI[of _ copy'] exI[of _ m']) blast
qed

theorem walkPgTblCOW_correct_witness:
  "\<exists>copy' m'. walkPgTblCOW 0x1000 0 3 (mach_of (small_tree (pte_build 0x4000 True True True True False))
       [0x5000, 0x6000, 0x7000, 0x8000]) = Inr (copy', m') \<and>
     pt_lookup (mem m') 3 copy' (\<lambda>l. 4 - l) = Some (pte_build 0x4000 True True False True False)"
proof -
  let ?e = "pte_build 0x4000 True True True True False"
  let ?m = "mach_of (small_tree ?e) [0x5000, 0x6000, 0x7000, 0x8000]"
  have ex: "pte_exists ?e" by (simp add: pte_simps)
  have wf: "wf_pt (mem ?m) 3 0x1000" and src: "source_in (mem ?m) 0x1000 {0x1000, 0x2000, 0x3000, ent_addr ?e}"
    using small_tree_wf[OF ex] small_tree_source[OF ex] by simp_all
  have "fresh_pages (copy_budget ?m 0x1000) ?m {0x1000, 0x2000, 0x3000, ent_addr ?e}"
    by (simp add: copy_budget_def small_tree_leaves[OF ex] fresh_pages_def pg_ok_small pte_simps)
  with walkPgTblCOW_correct[OF wf _ src] obtain copy' m' where
    run: "walkPgTblCOW 0x1000 0 3 ?m = Inr (copy', m')" and
    look: "\<forall>ix. (\<forall>j. ix j < 512) \<longrightarrow> pt_lookup (mem m') 3 copy' ix = (case pt_lookup (mem ?m) 3 0x1000 ix of
           Some e \<Rightarrow> if pte_DIRTY e then Some (pte_build (ent_addr e) True True False True False) else None
         | None \<Rightarrow> None)" by (simp del: mach_of_sel) blast
  have "pt_lookup (mem m') 3 copy' (\<lambda>l. 4 - l) = Some (pte_build 0x4000 True True False True False)"
    using look[rule_format, of "\<lambda>l. 4 - l"] by (simp add: small_tree_lookup[OF ex] pte_simps pg_ok_small)
  with run show ?thesis by blast
qed


text \<open>
  C8. A snapshot (\<open>UmPth::copyInPages\<close>) of a slot's page table: dirty writable pages are
  copied to fresh pages with equal contents, mapped writable; dirty read-only pages are
  shared read-only; clean pages are left out; tables and copies are disjoint from every page
  in use by the source, none of whose cells changes.
\<close>

theorem walkPgTblCopyDirtyCOW_correct:
  assumes "wf_pt (mem m) 3 root" "root \<noteq> 0" "source_in (mem m) root S"
    and "fresh_pages (copy_budget m root) m S"
  shows "\<exists>copy' m'. walkPgTblCopyDirtyCOW root 0 3 m = Inr (copy', m') \<and> snapshot_of pte_RW m root S m' copy'"
  using copy_snapshot[OF assms, of "pte_RW"]
  by (auto simp: walkPgTblCopyDirtyCOW_def walkPgTblCopyDirtyCOWHelper_def copy_leaf_eqs)

lemma small_tree_copy_ready:
  fixes e :: u64
  assumes "pte_exists e" "ent_addr e = 0x4000"
  shows "wf_pt (mem (mach_of (small_tree e) [0x5000, 0x6000, 0x7000, 0x8000])) 3 0x1000"
    "source_in (mem (mach_of (small_tree e) [0x5000, 0x6000, 0x7000, 0x8000])) 0x1000 {0x1000, 0x2000, 0x3000, 0x4000}"
    "fresh_pages (copy_budget (mach_of (small_tree e) [0x5000, 0x6000, 0x7000, 0x8000]) 0x1000)
       (mach_of (small_tree e) [0x5000, 0x6000, 0x7000, 0x8000]) {0x1000, 0x2000, 0x3000, 0x4000}"
  using small_tree_wf[OF assms(1)] small_tree_source[OF assms(1)]
  by (simp_all add: assms(2) copy_budget_def small_tree_leaves[OF assms(1)] fresh_pages_def pg_ok_small)

theorem walkPgTblCopyDirtyCOW_correct_witness:
  "\<exists>copy' m' p. walkPgTblCopyDirtyCOW 0x1000 0 3 (mach_of (small_tree (pte_build 0x4000 True True True True False))
       [0x5000, 0x6000, 0x7000, 0x8000]) = Inr (copy', m') \<and> p \<noteq> 0x4000 \<and>
     pt_lookup (mem m') 3 copy' (\<lambda>l. 4 - l) = Some (pte_build p True True True True False)"
proof -
  let ?e = "pte_build 0x4000 True True True True False"
  let ?m = "mach_of (small_tree ?e) [0x5000, 0x6000, 0x7000, 0x8000]"
  have ex: "pte_exists ?e" "ent_addr ?e = 0x4000" by (simp_all add: pte_simps pg_ok_small)
  from walkPgTblCopyDirtyCOW_correct[OF small_tree_copy_ready(1)[OF ex] _ small_tree_copy_ready(2,3)[OF ex]]
  obtain copy' m' where run: "walkPgTblCopyDirtyCOW 0x1000 0 3 ?m = Inr (copy', m')" and
    look: "snapshot_of pte_RW ?m 0x1000 {0x1000, 0x2000, 0x3000, 0x4000} m' copy'" by (simp del: mach_of_sel) blast
  have "snapshot_entry pte_RW ?m {0x1000, 0x2000, 0x3000, 0x4000} m' copy' (Some ?e)
       (pt_lookup (mem m') 3 copy' (\<lambda>l. 4 - l))"
    using look[unfolded snapshot_of_def, THEN conjunct2, THEN conjunct2, THEN conjunct2,
        rule_format, of "\<lambda>l. 4 - l"] by (simp add: small_tree_lookup[OF ex(1)])
  then show ?thesis using run by (auto simp: snapshot_entry_def pte_simps)
qed

text \<open>
  C35. The deep copy (a build without copy-on-write) gives every dirty page of the source a
  fresh page with equal contents, mapped writable, and leaves the source alone.
\<close>

theorem walkPgTblCopyDirty_correct:
  assumes "wf_pt (mem m) 3 root" "root \<noteq> 0" "source_in (mem m) root S"
    and "fresh_pages (copy_budget m root) m S"
  shows "\<exists>copy' m'. walkPgTblCopyDirty root 0 3 m = Inr (copy', m') \<and> snapshot_of (\<lambda>_. True) m root S m' copy'"
  using copy_snapshot[OF assms, of "\<lambda>_. True"]
  by (auto simp: walkPgTblCopyDirty_def walkPgTblCopyDirtyHelper_def copy_leaf_eqs)

theorem walkPgTblCopyDirty_correct_witness:
  "\<exists>copy' m' p. walkPgTblCopyDirty 0x1000 0 3 (mach_of (small_tree (pte_build 0x4000 True True False True False))
       [0x5000, 0x6000, 0x7000, 0x8000]) = Inr (copy', m') \<and> p \<noteq> 0x4000 \<and>
     pt_lookup (mem m') 3 copy' (\<lambda>l. 4 - l) = Some (pte_build p True True True True False)"
proof -
  let ?e = "pte_build 0x4000 True True False True False"
  let ?m = "mach_of (small_tree ?e) [0x5000, 0x6000, 0x7000, 0x8000]"
  have ex: "pte_exists ?e" "ent_addr ?e = 0x4000" by (simp_all add: pte_simps pg_ok_small)
  from walkPgTblCopyDirty_correct[OF small_tree_copy_ready(1)[OF ex] _ small_tree_copy_ready(2,3)[OF ex]]
  obtain copy' m' where run: "walkPgTblCopyDirty 0x1000 0 3 ?m = Inr (copy', m')" and
    look: "snapshot_of (\<lambda>_. True) ?m 0x1000 {0x1000, 0x2000, 0x3000, 0x4000} m' copy'" by (simp del: mach_of_sel) blast
  have "snapshot_entry (\<lambda>_. True) ?m {0x1000, 0x2000, 0x3000, 0x4000} m' copy' (Some ?e)
       (pt_lookup (mem m') 3 copy' (\<lambda>l. 4 - l))"
    using look[unfolded snapshot_of_def, THEN conjunct2, THEN conjunct2, THEN conjunct2,
        rule_format, of "\<lambda>l. 4 - l"] by (simp add: small_tree_lookup[OF ex(1)])
  then show ?thesis using run by (auto simp: snapshot_entry_def pte_simps)
qed

end
