(* ===== verification/Umm_Free.thy ===== *)
theory Umm_Free
  imports Umm_PgTree "HOL-Library.Multiset"
begin

text \<open>
  Reclaiming a page table: \<open>freePageTableLamb\<close> of \<^verbatim>\<open>src/src/UmPgTblMgr.cc\<close> traverses the
  accessed entries, frees the frames of the writable leaves (the rule of ownership: only
  pages with write access belong to the table) and frees every table on the way back.
\<close>

section \<open>Operation\<close>

definition free_leafFn :: "unit leafFn" where
  "free_leafFn curPte lvl = (\<lambda>(u, m).
     let e = ld m curPte in
     if pte_RW e then
       and_then (pageTabEntToAddr e lvl) (\<lambda>a.
         if lvl < length orders
         then kassert (orders ! lvl = 0) (Inr (u, page_free (pfn_down a) (orders ! lvl) m))
         else Inl Undef)
     else Inr (u, m))"

definition free_bretFn :: "unit leafFn" where
  "free_bretFn root lvl = (\<lambda>(u, m). Inr (u, page_free (pfn_down root) 0 m))"

definition freePageTableLamb :: "u64 \<Rightarrow> nat \<Rightarrow> mach \<Rightarrow> mach res" where
  "freePageTableLamb root lvl m =
     and_then (traverseAccessedPages lvl root free_leafFn free_bretFn ((), m)) (\<lambda>s. Inr (snd s))"

section \<open>The pages freed\<close>

fun freed_by :: "(u64 \<Rightarrow> u64) \<Rightarrow> visit \<Rightarrow> u64 list" where
  "freed_by h (VLeaf a l) = (if pte_RW (h a) then [ent_addr (h a)] else [])"
| "freed_by h (VRet a l) = [a]"

definition frees :: "(u64 \<Rightarrow> u64) \<Rightarrow> visit list \<Rightarrow> u64 list" where
  "frees h vs = concat (map (freed_by h) vs)"

abbreviation acc_entry :: "u64 \<Rightarrow> bool" where
  "acc_entry e \<equiv> pte_exists e \<and> isAccessed e"

text \<open>Visits of a tree of 4K mappings: leaves at level 1, aligned tables.\<close>

fun small_visit :: "visit \<Rightarrow> bool" where
  "small_visit (VLeaf a l) = (l = 1)"
| "small_visit (VRet a l) = pg_ok a"

lemma pfn_down_pg_ok [simp]: "pg_ok a \<Longrightarrow> pfn_down a = a"
  by (rule bit_word_eqI) (auto simp: bit_pfn_down pg_ok_def simp flip: not_less)

lemma run_frees:
  assumes "\<And>v. v \<in> set vs \<Longrightarrow> small_visit v" "mem m = h"
  shows "foldR (run_visit free_leafFn free_bretFn) vs ((), m)
           = Inr ((), m\<lparr>freed := freed m @ map (\<lambda>p. (p, 0)) (frees h vs)\<rparr>)"
  using assms
proof (induction vs arbitrary: m)
  case Nil
  then show ?case by (simp add: frees_def)
next
  case (Cons v vs)
  have "run_visit free_leafFn free_bretFn v ((), m)
          = Inr ((), m\<lparr>freed := freed m @ map (\<lambda>p. (p, 0)) (freed_by h v)\<rparr>)"
    using Cons.prems(1)[of v] Cons.prems(2)
    by (cases v) (auto simp: free_leafFn_def free_bretFn_def ld_def page_free_def Let_def
        pageTabEntToAddr_small orders_def)
  then show ?case
    using Cons.IH[of "m\<lparr>freed := freed m @ map (\<lambda>p. (p, 0)) (freed_by h v)\<rparr>"] Cons.prems
    by (simp add: frees_def)
qed

lemma free_fns_keep_mem: "keeps_mem (free_leafFn a l)" "keeps_mem (free_bretFn a l)"
  by (auto simp: keeps_mem_def free_leafFn_def free_bretFn_def Let_def page_free_def kassert_def
      and_then_eq_Inr split: if_splits)

lemma freePageTableLamb_eq:
  assumes "\<And>v. v \<in> set (visits acc_entry (mem m) lvl root) \<Longrightarrow> small_visit v" "0 < lvl" "lvl \<le> 4"
  shows "freePageTableLamb root lvl m
     = Inr (m\<lparr>freed := freed m @ map (\<lambda>p. (p, 0)) (frees (mem m) (visits acc_entry (mem m) lvl root))\<rparr>)"
  using assms run_frees[of "visits acc_entry (mem m) lvl root" m "mem m"]
    traverse_eq_visits[where s = "((), m)" and h = "mem m" and lvl = lvl and root = root,
      OF reads_accessedPred free_fns_keep_mem(1) free_fns_keep_mem(2)]
  by (simp add: freePageTableLamb_def traverseAccessedPages_def)

section \<open>Visits of a well-formed tree\<close>

fun vrets :: "visit list \<Rightarrow> u64 list" where
  "vrets [] = []" | "vrets (VRet a l # vs) = a # vrets vs" | "vrets (VLeaf a l # vs) = vrets vs"

fun vleaves :: "visit list \<Rightarrow> u64 list" where
  "vleaves [] = []" | "vleaves (VLeaf a l # vs) = a # vleaves vs" | "vleaves (VRet a l # vs) = vleaves vs"

lemma vrets_append [simp]: "vrets (vs @ ws) = vrets vs @ vrets ws"
  by (induction vs rule: vrets.induct) auto

lemma vleaves_append [simp]: "vleaves (vs @ ws) = vleaves vs @ vleaves ws"
  by (induction vs rule: vleaves.induct) auto

lemma vrets_concat: "vrets (concat vss) = concat (map vrets vss)"
  by (induction vss) auto

lemma vleaves_concat: "vleaves (concat vss) = concat (map vleaves vss)"
  by (induction vss) auto

lemma mset_frees:
  "mset (frees h vs) = mset (vrets vs @ map (\<lambda>a. ent_addr (h a)) (filter (\<lambda>a. pte_RW (h a)) (vleaves vs)))"
proof (induction vs)
  case (Cons v vs)
  then show ?case by (cases v) (auto simp: frees_def)
qed (simp add: frees_def)

definition entry_visits :: "(u64 \<Rightarrow> u64) \<Rightarrow> nat \<Rightarrow> u64 \<Rightarrow> nat \<Rightarrow> visit list" where
  "entry_visits h l root i =
     (let e = h (pte_at root i) in
      if \<not> pte_exists e then []
      else if l = 0 then (if isAccessed e then [VLeaf (pte_at root i) 1] else [])
      else visits acc_entry h l (ent_addr e))"

lemma visits_wf:
  assumes "wf_pt h (Suc l) root" "root \<noteq> 0" "acc_below h (Suc l) root"
  shows "visits acc_entry h (Suc l) root = concat (map (entry_visits h l root) [0..<512]) @ [VRet root (Suc l)]"
proof -
  have "(let a = pte_at root i; e = h a in
        if \<not> acc_entry e then [] else if isLeaf e (Suc l) then [VLeaf a (Suc l)]
        else visits acc_entry h l (ent_addr e)) = entry_visits h l root i" if "i < 512" for i
    using wf_isLeaf[OF assms(1,2) that] assms(3) that by (auto simp: entry_visits_def Let_def)
  then show ?thesis
    unfolding visits.simps by (intro arg_cong[where f = "\<lambda>x. x @ _"] arg_cong[where f = concat] map_cong) auto
qed

lemma leaf_at_cell:
  "leaf_at h l root ix = Some a \<Longrightarrow> (\<And>j. ix j < 512) \<Longrightarrow> \<exists>t \<in> tbls h l root. \<exists>i < 512. a = pte_at t i"
proof (induction l arbitrary: root)
  case (Suc l)
  then have nz: "root \<noteq> 0" and ex: "pte_exists (h (pte_at root (ix (Suc l))))"
    by (auto simp: Let_def split: if_splits)
  show ?case
  proof (cases "isLeaf (h (pte_at root (ix (Suc l)))) (Suc l)")
    case True
    then show ?thesis using Suc.prems nz ex pt_Suc_root(1)[OF nz, of h l] by (auto simp: Let_def)
  next
    case False
    then have "leaf_at h l (ent_addr (h (pte_at root (ix (Suc l))))) ix = Some a"
      using Suc.prems(1) nz ex by (simp add: Let_def)
    from Suc.IH[OF this Suc.prems(2)] show ?thesis
      using child_tbls_subset[where h = h and l = l, OF Suc.prems(2) nz ex] by blast
  qed
qed simp

text \<open>What the induction below shows of a sub-tree.\<close>

definition visits_ok :: "(u64 \<Rightarrow> u64) \<Rightarrow> nat \<Rightarrow> u64 \<Rightarrow> bool" where
  "visits_ok h l root \<longleftrightarrow>
     (let vs = visits acc_entry h l root in
      set (vrets vs) = tbls h l root \<and> distinct (vrets vs) \<and> distinct (vleaves vs) \<and>
      set (vleaves vs) = {a. isAccessed (h a) \<and> (\<exists>ix. (\<forall>j. ix j < 512) \<and> leaf_at h l root ix = Some a)} \<and>
      (\<forall>v \<in> set vs. small_visit v))"

lemma visits_okD:
  assumes "visits_ok h l root"
  shows "set (vrets (visits acc_entry h l root)) = tbls h l root" "distinct (vrets (visits acc_entry h l root))"
    "distinct (vleaves (visits acc_entry h l root))"
    "a \<in> set (vleaves (visits acc_entry h l root)) \<longleftrightarrow>
       isAccessed (h a) \<and> (\<exists>ix. (\<forall>j. ix j < 512) \<and> leaf_at h l root ix = Some a)"
    "v \<in> set (visits acc_entry h l root) \<Longrightarrow> small_visit v"
  using assms by (auto simp: visits_ok_def Let_def)

definition tree_node :: "(u64 \<Rightarrow> u64) \<Rightarrow> nat \<Rightarrow> u64 \<Rightarrow> bool" where
  "tree_node h l root \<longleftrightarrow> wf_pt h (Suc l) root \<and> root \<noteq> 0 \<and> acc_below h (Suc l) root \<and>
     (\<forall>i < 512. 0 < l \<longrightarrow> pte_exists (h (pte_at root i)) \<longrightarrow> visits_ok h l (ent_addr (h (pte_at root i))))"

lemma tree_nodeD:
  assumes "tree_node h l root"
  shows "wf_pt h (Suc l) root" "root \<noteq> 0" "acc_below h (Suc l) root"
    "i < 512 \<Longrightarrow> 0 < l \<Longrightarrow> pte_exists (h (pte_at root i)) \<Longrightarrow> visits_ok h l (ent_addr (h (pte_at root i)))"
  using assms unfolding tree_node_def by blast+

lemma entry_rets:
  assumes N: "tree_node h l root" and i: "i < 512"
  shows "set (vrets (entry_visits h l root i)) =
           (if pte_exists (h (pte_at root i)) then tbls h l (ent_addr (h (pte_at root i))) else {})"
    "distinct (vrets (entry_visits h l root i))"
  using visits_okD(1,2)[OF tree_nodeD(4)[OF N i]] by (cases "l = 0"; auto simp: entry_visits_def Let_def)+

lemma entry_lvs:
  assumes N: "tree_node h l root" and i: "i < 512"
  shows "a \<in> set (vleaves (entry_visits h l root i)) \<longleftrightarrow>
      isAccessed (h a) \<and> (\<exists>ix. (\<forall>j. ix j < 512) \<and> ix (Suc l) = i \<and> leaf_at h (Suc l) root ix = Some a)"
proof (cases "pte_exists (h (pte_at root i))")
  case False
  then show ?thesis by (auto simp: entry_visits_def Let_def)
next
  case True
  note lf = wf_isLeaf[OF tree_nodeD(1,2)[OF N] i True]
  show ?thesis
  proof (cases "l = 0")
    case l0: True
    have "\<exists>ix. (\<forall>j. ix j < (512::nat)) \<and> ix (Suc 0) = i" by (rule exI[of _ "\<lambda>_. i"]) (use i in simp)
    then show ?thesis using True lf tree_nodeD(2)[OF N] l0 by (auto simp: entry_visits_def Let_def)
  next
    case F: False
    let ?c = "ent_addr (h (pte_at root i))"
    have up: "leaf_at h (Suc l) root ix = leaf_at h l ?c ix" if "ix (Suc l) = i" for ix
      using that True lf F tree_nodeD(2)[OF N] by (simp add: Let_def)
    have "(\<exists>ix. (\<forall>j. ix j < 512) \<and> leaf_at h l ?c ix = Some a) \<longleftrightarrow>
        (\<exists>ix. (\<forall>j. ix j < 512) \<and> ix (Suc l) = i \<and> leaf_at h (Suc l) root ix = Some a)" (is "?A \<longleftrightarrow> ?B")
    proof
      assume ?A
      then obtain ix where ix: "\<forall>j. ix j < 512" "leaf_at h l ?c ix = Some a" by blast
      let ?ix = "ix(Suc l := i)"
      have "leaf_at h l ?c ?ix = leaf_at h l ?c ix" by (rule leaf_at_cong) simp
      then show ?B using ix i up[of ?ix] by (intro exI[of _ ?ix]) simp
    next
      assume ?B
      then show ?A using up by auto
    qed
    then show ?thesis
      using visits_okD(4)[OF tree_nodeD(4)[OF N i _ True], of a] True F by (simp add: entry_visits_def Let_def)
  qed
qed

lemma entry_distinct_lvs:
  assumes N: "tree_node h l root" and i: "i < 512"
  shows "distinct (vleaves (entry_visits h l root i))"
  using visits_okD(3)[OF tree_nodeD(4)[OF N i]] by (cases "l = 0") (auto simp: entry_visits_def Let_def)

lemma entry_small:
  assumes N: "tree_node h l root" and i: "i < 512" and v: "v \<in> set (entry_visits h l root i)"
  shows "small_visit v"
  using visits_okD(5)[OF tree_nodeD(4)[OF N i]] v
  by (cases "l = 0") (auto simp: entry_visits_def Let_def split: if_splits)

lemma entry_disjoint_rets:
  assumes N: "tree_node h l root" and ij: "i < 512" "j < 512" "i \<noteq> j"
  shows "set (vrets (entry_visits h l root i)) \<inter> set (vrets (entry_visits h l root j)) = {}"
proof (cases "l = 0")
  case False
  then show ?thesis
    using entry_rets(1)[OF N ij(1)] entry_rets(1)[OF N ij(2)] wf_pt_entry(5)[OF tree_nodeD(1,2)[OF N] _ ij(1) _ ij(2)] ij(3)
    by auto
qed (simp add: entry_visits_def Let_def)

lemma entry_disjoint_lvs:
  assumes N: "tree_node h l root" and ij: "i < 512" "j < 512" "i \<noteq> j"
  shows "set (vleaves (entry_visits h l root i)) \<inter> set (vleaves (entry_visits h l root j)) = {}"
proof -
  have False if a: "a \<in> set (vleaves (entry_visits h l root i))" "a \<in> set (vleaves (entry_visits h l root j))" for a
  proof -
    obtain ix where ix: "\<And>k. ix k < 512" "ix (Suc l) = i" "leaf_at h (Suc l) root ix = Some a"
      using entry_lvs[OF N ij(1)] a(1) by blast
    obtain jx where jx: "\<And>k. jx k < 512" "jx (Suc l) = j" "leaf_at h (Suc l) root jx = Some a"
      using entry_lvs[OF N ij(2)] a(2) by blast
    have ei: "pte_exists (h (pte_at root i))" and ej: "pte_exists (h (pte_at root j))"
      using ix(2,3) jx(2,3) tree_nodeD(2)[OF N] by (auto simp: Let_def split: if_splits)
    show False
    proof (cases "l = 0")
      case True
      then show ?thesis
        using ix(2,3) jx(2,3) tree_nodeD(2)[OF N] ei ej pte_at_inject[of root root i j]
          pt_Suc_root(2)[OF tree_nodeD(1,2)[OF N]] ij by (auto simp: Let_def)
    next
      case False
      have "leaf_at h l (ent_addr (h (pte_at root i))) ix = Some a"
        using ix tree_nodeD(2)[OF N] ei wf_isLeaf[OF tree_nodeD(1,2)[OF N] ij(1) ei] False by (simp add: Let_def)
      then obtain t k where t: "t \<in> tbls h l (ent_addr (h (pte_at root i)))" "k < 512" "a = pte_at t k"
        using leaf_at_cell ix(1) by blast
      have "leaf_at h l (ent_addr (h (pte_at root j))) jx = Some a"
        using jx tree_nodeD(2)[OF N] ej wf_isLeaf[OF tree_nodeD(1,2)[OF N] ij(2) ej] False by (simp add: Let_def)
      then obtain t' k' where t': "t' \<in> tbls h l (ent_addr (h (pte_at root j)))" "k' < 512" "a = pte_at t' k'"
        using leaf_at_cell jx(1) by blast
      have c: "0 < l" using False by simp
      have "pg_ok t" "pg_ok t'"
        using tbls_pg_ok[OF wf_pt_entry(3)[OF tree_nodeD(1,2)[OF N] c ij(1) ei] t(1)]
          tbls_pg_ok[OF wf_pt_entry(3)[OF tree_nodeD(1,2)[OF N] c ij(2) ej] t'(1)] by auto
      then have "t = t'" using t t' by simp
      then show False using t(1) t'(1) wf_pt_entry(5)[OF tree_nodeD(1,2)[OF N] c ij(1) ei ij(2) _ ej] ij(3) by blast
    qed
  qed
  then show ?thesis by blast
qed

lemma visits_ok_Suc:
  assumes N: "tree_node h l root"
  shows "visits_ok h (Suc l) root"
proof -
  let ?V = "entry_visits h l root"
  let ?vs = "concat (map ?V [0..<512]) @ [VRet root (Suc l)]"
  have V: "visits acc_entry h (Suc l) root = ?vs" by (rule visits_wf[OF tree_nodeD(1-3)[OF N]])
  have R: "vrets ?vs = concat (map (\<lambda>i. vrets (?V i)) [0..<512]) @ [root]"
    and L: "vleaves ?vs = concat (map (\<lambda>i. vleaves (?V i)) [0..<512])"
    by (simp_all add: vrets_concat vleaves_concat comp_def del: upt.simps)
  have sets: "(\<Union>i \<in> {..<512}. set (vrets (?V i))) = (\<Union>i \<in> {..<512}.
      let e = h (pte_at root i) in if pte_exists e then tbls h l (ent_addr e) else {})"
    by (rule SUP_cong) (use entry_rets(1)[OF N] in \<open>auto simp: Let_def\<close>)
  have "root \<notin> set (vrets (?V i))" if "i < 512" for i
    using entry_rets(1)[OF N that] wf_pt_entry(4)[OF tree_nodeD(1,2)[OF N] _ that] by (cases "l = 0") auto
  then have "distinct (vrets ?vs)"
    unfolding R using distinct_concat_upt[of 512 "\<lambda>i. vrets (?V i)", OF entry_rets(2)[OF N] entry_disjoint_rets[OF N]]
    by (auto simp del: upt.simps)
  moreover have "set (vrets ?vs) = tbls h (Suc l) root"
    using sets tree_nodeD(2)[OF N] unfolding R by (simp add: tbls.simps(2) atLeast0LessThan del: upt.simps)
  moreover have "distinct (vleaves ?vs)"
    unfolding L using distinct_concat_upt[of 512 "\<lambda>i. vleaves (?V i)", OF entry_distinct_lvs[OF N] entry_disjoint_lvs[OF N]] by blast
  moreover have "set (vleaves ?vs) = {a. isAccessed (h a) \<and> (\<exists>ix. (\<forall>j. ix j < 512) \<and> leaf_at h (Suc l) root ix = Some a)}"
  proof -
    have "a \<in> set (vleaves ?vs) \<longleftrightarrow> (\<exists>i < 512. a \<in> set (vleaves (?V i)))" for a
      unfolding L by (auto simp del: upt.simps)
    moreover have "(\<exists>i < 512. a \<in> set (vleaves (?V i))) \<longleftrightarrow>
        isAccessed (h a) \<and> (\<exists>ix. (\<forall>j. ix j < 512) \<and> leaf_at h (Suc l) root ix = Some a)" for a
      using entry_lvs[OF N] by blast
    ultimately show ?thesis by blast
  qed
  moreover have "small_visit v" if "v \<in> set ?vs" for v
    using that entry_small[OF N] pt_Suc_root(2)[OF tree_nodeD(1,2)[OF N]] by (auto simp del: upt.simps)
  ultimately show ?thesis unfolding visits_ok_def V Let_def by blast
qed

lemma visits_ok_wf: "wf_pt h l root \<Longrightarrow> root \<noteq> 0 \<Longrightarrow> acc_below h l root \<Longrightarrow> visits_ok h l root"
proof (induction l arbitrary: root)
  case 0
  then show ?case by (simp add: visits_ok_def)
next
  case (Suc l)
  have "visits_ok h l (ent_addr (h (pte_at root i)))" if "i < 512" "0 < l" "pte_exists (h (pte_at root i))" for i
    by (rule Suc.IH) (use that Suc.prems wf_pt_entry[OF Suc.prems(1,2) that(2,1,3)] in \<open>auto simp: Let_def\<close>)
  then have "tree_node h l root" using Suc.prems unfolding tree_node_def by blast
  then show ?case by (rule visits_ok_Suc)
qed

section \<open>Properties\<close>

lemma free_correct:
  assumes "wf_pt (mem m) lvl root" "root \<noteq> 0" "1 \<le> lvl" "lvl \<le> 4"
    and "acc_below (mem m) lvl root" "owns_frames (mem m) lvl root"
  shows "\<exists>ps. freePageTableLamb root lvl m = Inr (m\<lparr>freed := freed m @ map (\<lambda>p. (p, 0)) ps\<rparr>) \<and>
     distinct ps \<and>
     set ps = tbls (mem m) lvl root \<union>
       {ent_addr e | ix e. (\<forall>j. ix j < 512) \<and> pt_lookup (mem m) lvl root ix = Some e \<and> isAccessed e \<and> pte_RW e}"
proof -
  let ?h = "mem m"
  let ?vs = "visits acc_entry ?h lvl root"
  let ?lv = "filter (\<lambda>a. pte_RW (?h a)) (vleaves ?vs)"
  let ?fr = "\<lambda>a. ent_addr (?h a)"
  note V = visits_okD[OF visits_ok_wf[OF assms(1,2,5)]]
  have ms: "mset (frees ?h ?vs) = mset (vrets ?vs @ map ?fr ?lv)" by (rule mset_frees)
  have leaf: "\<exists>ix. (\<forall>j. ix j < 512) \<and> leaf_at ?h lvl root ix = Some a \<and> pte_RW (?h a)" if "a \<in> set ?lv" for a
    using that V(4) by auto
  have "inj_on ?fr (set ?lv)"
  proof (rule inj_onI)
    fix a b assume ab: "a \<in> set ?lv" "b \<in> set ?lv" "?fr a = ?fr b"
    obtain ix jx where "\<forall>j. ix j < 512" "leaf_at ?h lvl root ix = Some a" "pte_RW (?h a)"
      "\<forall>j. jx j < 512" "leaf_at ?h lvl root jx = Some b" "pte_RW (?h b)"
      using leaf[OF ab(1)] leaf[OF ab(2)] by blast
    then show "a = b" using owns_framesD(2)[OF assms(6)] ab(3) by blast
  qed
  moreover have "?fr ` set ?lv \<inter> tbls ?h lvl root = {}"
    using leaf owns_framesD(1)[OF assms(6)] by blast
  ultimately have "distinct (vrets ?vs @ map ?fr ?lv)"
    using V(1-3) by (simp add: distinct_map Int_commute)
  then have "distinct (frees ?h ?vs)" using mset_eq_imp_distinct_iff[OF ms] by simp
  moreover have "set (frees ?h ?vs) = tbls ?h lvl root \<union> ?fr ` set ?lv"
    using mset_eq_setD[OF ms] V(1) by simp
  moreover have "?fr ` set ?lv = {ent_addr e | ix e. (\<forall>j. ix j < 512) \<and> pt_lookup ?h lvl root ix = Some e \<and>
      isAccessed e \<and> pte_RW e}" (is "_ = ?owned")
  proof
    show "?fr ` set ?lv \<subseteq> ?owned"
    proof clarify
      fix a assume a: "a \<in> set ?lv"
      then obtain ix where "\<forall>j. ix j < 512" "leaf_at ?h lvl root ix = Some a" "pte_RW (?h a)" "isAccessed (?h a)"
        using leaf V(4) by auto
      then show "\<exists>ix e. ?fr a = ent_addr e \<and> (\<forall>j. ix j < 512) \<and> pt_lookup ?h lvl root ix = Some e \<and> isAccessed e \<and> pte_RW e"
        by (intro exI[of _ ix] exI[of _ "?h a"]) (simp add: pt_lookup_leaf_at)
    qed
    show "?owned \<subseteq> ?fr ` set ?lv"
    proof clarify
      fix ix e assume e: "\<forall>j. ix j < 512" "pt_lookup ?h lvl root ix = Some e" "isAccessed e" "pte_RW e"
      then obtain a where a: "leaf_at ?h lvl root ix = Some a" "e = ?h a" by (auto simp: pt_lookup_leaf_at)
      then have "a \<in> set ?lv" using e V(4) by auto
      then show "ent_addr e \<in> ?fr ` set ?lv" using a(2) by blast
    qed
  qed
  ultimately show ?thesis
    using freePageTableLamb_eq[of m lvl root] V(5) assms(3,4) by (intro exI[of _ "frees ?h ?vs"]) simp
qed

text \<open>
  C14. Reclaiming a page table frees each of its tables exactly once, and besides them
  exactly the frames of its accessed writable leaves, each once; shared (read-only) frames
  are never freed, and memory is not written.
\<close>

theorem freePageTableLamb_correct:
  assumes "wf_pt (mem m) lvl root" "root \<noteq> 0" "1 \<le> lvl" "lvl \<le> 4"
    and "acc_below (mem m) lvl root" "owns_frames (mem m) lvl root"
  shows "\<exists>ps. freePageTableLamb root lvl m = Inr (m\<lparr>freed := freed m @ map (\<lambda>p. (p, 0)) ps\<rparr>) \<and>
     distinct ps \<and>
     set ps = tbls (mem m) lvl root \<union>
       {ent_addr e | ix e. (\<forall>j. ix j < 512) \<and> pt_lookup (mem m) lvl root ix = Some e \<and> isAccessed e \<and> pte_RW e}"
  using assms by (rule free_correct)

theorem freePageTableLamb_correct_witness:
  "\<exists>ps. freePageTableLamb 0x1000 3 (mach_of (small_tree (pte_build 0x4000 True True True True False)) [])
       = Inr ((mach_of (small_tree (pte_build 0x4000 True True True True False)) [])\<lparr>freed := map (\<lambda>p. (p, 0)) ps\<rparr>)
     \<and> distinct ps \<and> set ps = {0x1000, 0x2000, 0x3000, 0x4000}"
proof -
  let ?e = "pte_build 0x4000 True True True True False"
  let ?m = "mach_of (small_tree ?e) []"
  have ex: "pte_exists ?e" by (simp add: pte_simps)
  note only = small_tree_only[of ?e]
  have bel: "acc_below (small_tree ?e) (Suc l) r"
    if "only_entry (small_tree ?e) r k e" "0 < l \<Longrightarrow> isAccessed e \<and> acc_below (small_tree ?e) l (ent_addr e)" for r k e l
    using only_entryD(4)[OF that(1)] only_entryD(5)[OF that(1)] that(2) by (simp add: Let_def)
  have "acc_below (small_tree ?e) (Suc 0) 0x3000" by (rule bel[OF only(3)]) simp
  then have "acc_below (small_tree ?e) (Suc (Suc 0)) 0x2000"
    by (intro bel[OF only(2)]) (simp add: pte_simps pg_ok_small isAccessed_def del: acc_below.simps)
  then have "acc_below (small_tree ?e) (Suc (Suc (Suc 0))) 0x1000"
    by (intro bel[OF only(1)]) (simp add: pte_simps pg_ok_small isAccessed_def del: acc_below.simps)
  then have acc: "acc_below (mem ?m) 3 0x1000" by (simp add: numeral_3_eq_3)
  have look: "pt_lookup (small_tree ?e) 3 0x1000 ix = (if ix 3 = 1 \<and> ix 2 = 2 \<and> ix 1 = 3 then Some ?e else None)"
    "leaf_at (small_tree ?e) 3 0x1000 ix = (if ix 3 = 1 \<and> ix 2 = 2 \<and> ix 1 = 3 then Some (pte_at 0x3000 3) else None)"
    if "\<forall>j. ix j < 512" for ix using small_tree_lookup[OF ex] small_tree_leaf_at[OF ex] that by simp_all
  have t: "tbls (mem ?m) 3 0x1000 = {0x1000, 0x2000, 0x3000}"
    using small_tree_tbls(3)[OF ex] by (simp add: numeral_3_eq_3)
  have cell: "small_tree ?e (pte_at 0x3000 3) = ?e" using only(3) by (simp add: only_entry_def)
  have own: "owns_frames (mem ?m) 3 0x1000"
    unfolding owns_frames_def t by (auto simp: look cell pte_simps pg_ok_small split: if_splits)
  have "{ent_addr e | ix e. (\<forall>j. ix j < 512) \<and> pt_lookup (mem ?m) 3 0x1000 ix = Some e \<and> isAccessed e \<and> pte_RW e} = {0x4000}"
    (is "?A = _")
  proof
    show "?A \<subseteq> {0x4000}" by (auto simp: look pte_simps pg_ok_small split: if_splits)
    have "\<forall>j. 4 - j < (512 :: nat)" by (intro allI le_less_trans[OF diff_le_self]) simp
    then show "{0x4000} \<subseteq> ?A"
      using look(1)[of "\<lambda>l. 4 - l"] by (auto simp: pte_simps pg_ok_small isAccessed_def intro!: exI[of _ "\<lambda>l. 4 - l"] exI[of _ ?e])
  qed
  then show ?thesis
    using freePageTableLamb_correct[OF _ _ _ _ acc own] small_tree_wf[OF ex] t by (auto simp: insert_commute)
qed

end
