(* ===== verification/Umm_Count.thy ===== *)
theory Umm_Count
  imports Umm_Traverse
begin

text \<open>
  The page counters of \<^verbatim>\<open>src/src/UmPgTblMgr.cc\<close>: the family that passes lambdas to
  \<open>traversePageTable\<close> and the older family of hand-written recursions. A counter vector is
  a list of \<open>u64\<close>, indexed by level; an index outside it is undefined behaviour.
\<close>

section \<open>Counters over the general traversal\<close>

definition bump :: "nat \<Rightarrow> u64 list \<Rightarrow> u64 list res" where
  "bump lvl counts =
     (if lvl < length counts then Inr (counts[lvl := counts ! lvl + 1]) else Inl Undef)"

text \<open>The leaf function of a counter: count the entry when \<open>Q\<close> holds of it.\<close>

definition countLeafFn :: "(u64 \<Rightarrow> nat \<Rightarrow> bool) \<Rightarrow> u64 list leafFn" where
  "countLeafFn Q curPte lvl s =
     (if Q (ld (snd s) curPte) lvl then and_then (bump lvl (fst s)) (\<lambda>c. Inr (c, snd s)) else Inr s)"

definition countValidPagesLamb :: "u64 list \<Rightarrow> u64 \<Rightarrow> nat \<Rightarrow> mach \<Rightarrow> u64 list res" where
  "countValidPagesLamb counts root lvl m =
     and_then (traverseValidPages lvl root nullBRFn nullARFn (countLeafFn (\<lambda>_ _. True)) nullBRetFn
                 (counts, m)) (\<lambda>s. Inr (fst s))"

definition countAccessedPagesLamb :: "u64 list \<Rightarrow> u64 \<Rightarrow> nat \<Rightarrow> mach \<Rightarrow> u64 list res" where
  "countAccessedPagesLamb counts root lvl m =
     and_then (traverseAccessedPages lvl root (countLeafFn (\<lambda>_ _. True)) nullBRetFn (counts, m))
       (\<lambda>s. Inr (fst s))"

definition countDirtyPagesLamb :: "u64 list \<Rightarrow> u64 \<Rightarrow> nat \<Rightarrow> mach \<Rightarrow> u64 list res" where
  "countDirtyPagesLamb counts root lvl m =
     and_then (traverseAccessedPages lvl root (countLeafFn (\<lambda>e l. isLeaf e l \<and> isDirty e)) nullBRetFn
                 (counts, m)) (\<lambda>s. Inr (fst s))"

definition countWritablePagesLamb :: "u64 list \<Rightarrow> u64 \<Rightarrow> nat \<Rightarrow> mach \<Rightarrow> u64 list res" where
  "countWritablePagesLamb counts root lvl m =
     and_then (traverseAccessedPages lvl root (countLeafFn (\<lambda>e l. isLeaf e l \<and> isWritable e)) nullBRetFn
                 (counts, m)) (\<lambda>s. Inr (fst s))"

text \<open>\<open>countValidPTEsLamb\<close> counts in the predicate, so every existing entry it meets.\<close>

definition countingPred :: "u64 list predicateFn" where
  "countingPred curPte lvl s =
     (if pte_exists (ld (snd s) curPte)
      then and_then (bump lvl (fst s)) (\<lambda>c. Inr (True, (c, snd s))) else Inr (False, s))"

definition countValidPTEsLamb :: "u64 list \<Rightarrow> u64 \<Rightarrow> nat \<Rightarrow> mach \<Rightarrow> u64 list res" where
  "countValidPTEsLamb counts root lvl m =
     and_then (traversePageTable countingPred nullBRFn nullARFn nullLFn nullBRetFn lvl root (counts, m))
       (\<lambda>s. Inr (fst s))"

section \<open>The hand-written counters\<close>

text \<open>
  \<open>countValidPagesHelper\<close>, \<open>countAccessedPagesHelper\<close> and \<open>countDirtyPagesHelper\<close> are one
  text with three tests of the leaf, the parameter \<open>Q\<close> here.
\<close>

definition count_entry ::
  "(u64 \<Rightarrow> bool) \<Rightarrow> (u64 \<Rightarrow> u64 list \<Rightarrow> u64 list res) \<Rightarrow> mach \<Rightarrow> nat \<Rightarrow> u64 \<Rightarrow> nat \<Rightarrow> u64 list \<Rightarrow> u64 list res" where
  "count_entry Q rec m lvl root i counts =
     (let e = ld m (pte_at root i) in
      if \<not> pte_exists e then Inr counts
      else if isLeaf e lvl then (if Q e then bump lvl counts else Inr counts)
      else and_then (nextTableOrFrame m root i lvl) (\<lambda>t. rec t counts))"

primrec countPagesHelper :: "(u64 \<Rightarrow> bool) \<Rightarrow> mach \<Rightarrow> nat \<Rightarrow> u64 \<Rightarrow> u64 list \<Rightarrow> u64 list res" where
  "countPagesHelper Q m 0 root = foldR (count_entry Q (\<lambda>_ _. Inl KAssert) m 0 root) [0..<512]"
| "countPagesHelper Q m (Suc l) root =
     foldR (count_entry Q (countPagesHelper Q m l) m (Suc l) root) [0..<512]"

definition countValidPagesHelper :: "u64 list \<Rightarrow> u64 \<Rightarrow> nat \<Rightarrow> mach \<Rightarrow> u64 list res" where
  "countValidPagesHelper counts root lvl m = countPagesHelper (\<lambda>_. True) m lvl root counts"

definition countAccessedPagesHelper :: "u64 list \<Rightarrow> u64 \<Rightarrow> nat \<Rightarrow> mach \<Rightarrow> u64 list res" where
  "countAccessedPagesHelper counts root lvl m = countPagesHelper isAccessed m lvl root counts"

definition countDirtyPagesHelper :: "u64 list \<Rightarrow> u64 \<Rightarrow> nat \<Rightarrow> mach \<Rightarrow> u64 list res" where
  "countDirtyPagesHelper counts root lvl m = countPagesHelper isDirty m lvl root counts"

text \<open>\<open>countValidPTEsHelper\<close> recurses above the lowest level without asking \<open>isLeaf\<close>.\<close>

definition count_pte_entry ::
  "(u64 \<Rightarrow> u64 list \<Rightarrow> u64 list res) \<Rightarrow> mach \<Rightarrow> nat \<Rightarrow> u64 \<Rightarrow> nat \<Rightarrow> u64 list \<Rightarrow> u64 list res" where
  "count_pte_entry rec m lvl root i counts =
     (if \<not> pte_exists (ld m (pte_at root i)) then Inr counts
      else and_then (bump lvl counts) (\<lambda>c.
        if TBL_LEVEL < lvl then and_then (nextTableOrFrame m root i lvl) (\<lambda>t. rec t c) else Inr c))"

primrec countValidPTEsHelper :: "mach \<Rightarrow> nat \<Rightarrow> u64 \<Rightarrow> u64 list \<Rightarrow> u64 list res" where
  "countValidPTEsHelper m 0 root = foldR (count_pte_entry (\<lambda>_ _. Inl KAssert) m 0 root) [0..<512]"
| "countValidPTEsHelper m (Suc l) root =
     foldR (count_pte_entry (countValidPTEsHelper m l) m (Suc l) root) [0..<512]"

text \<open>The checks and the default root of the four entry points.\<close>

definition count_entry_point ::
  "(u64 \<Rightarrow> u64 list res) \<Rightarrow> u64 list \<Rightarrow> u64 \<Rightarrow> nat \<Rightarrow> mach \<Rightarrow> u64 list res" where
  "count_entry_point helper counts root lvl m =
     kassert (root = 0 \<longrightarrow> lvl = 4)
       (let root' = (if root = 0 then getPML4Root m else root)
        in kassert (length counts = 5) (helper root'))"

definition countDirtyPages :: "u64 list \<Rightarrow> u64 \<Rightarrow> nat \<Rightarrow> mach \<Rightarrow> u64 list res" where
  "countDirtyPages counts root lvl m =
     count_entry_point (\<lambda>r. countDirtyPagesHelper counts r lvl m) counts root lvl m"

definition countAccessedPages :: "u64 list \<Rightarrow> u64 \<Rightarrow> nat \<Rightarrow> mach \<Rightarrow> u64 list res" where
  "countAccessedPages counts root lvl m =
     count_entry_point (\<lambda>r. countAccessedPagesHelper counts r lvl m) counts root lvl m"

definition countValidPages :: "u64 list \<Rightarrow> u64 \<Rightarrow> nat \<Rightarrow> mach \<Rightarrow> u64 list res" where
  "countValidPages counts root lvl m =
     count_entry_point (\<lambda>r. countValidPagesHelper counts r lvl m) counts root lvl m"

definition countValidPTEs :: "u64 list \<Rightarrow> u64 \<Rightarrow> nat \<Rightarrow> mach \<Rightarrow> u64 list res" where
  "countValidPTEs counts root lvl m =
     count_entry_point (\<lambda>r. countValidPTEsHelper m lvl r counts) counts root lvl m"

section \<open>What the counters count\<close>

fun leaf_visit :: "(u64 \<Rightarrow> nat \<Rightarrow> bool) \<Rightarrow> (u64 \<Rightarrow> u64) \<Rightarrow> nat \<Rightarrow> visit \<Rightarrow> bool" where
  "leaf_visit Q h k (VLeaf a l) = (l = k \<and> Q (h a) l)"
| "leaf_visit Q h k (VRet a l) = False"

definition n_leaves :: "(u64 \<Rightarrow> nat \<Rightarrow> bool) \<Rightarrow> (u64 \<Rightarrow> u64) \<Rightarrow> visit list \<Rightarrow> nat \<Rightarrow> nat" where
  "n_leaves Q h vs k = length (filter (leaf_visit Q h k) vs)"

text \<open>Adding the leaf counts of a list of visits to a counter vector.\<close>

definition add_counts :: "(u64 \<Rightarrow> nat \<Rightarrow> bool) \<Rightarrow> (u64 \<Rightarrow> u64) \<Rightarrow> visit list \<Rightarrow> u64 list \<Rightarrow> u64 list" where
  "add_counts Q h vs counts = map (\<lambda>k. counts ! k + of_nat (n_leaves Q h vs k)) [0..<length counts]"

fun visit_level :: "visit \<Rightarrow> nat" where
  "visit_level (VLeaf a l) = l"
| "visit_level (VRet a l) = l"

lemma visits_level: "v \<in> set (visits p h lvl root) \<Longrightarrow> visit_level v \<le> lvl"
proof (induction lvl arbitrary: root)
  case (Suc l)
  then show ?case by (fastforce simp: Let_def split: if_splits)
qed simp

lemma length_add_counts [simp]: "length (add_counts Q h vs c) = length c"
  by (simp add: add_counts_def)

lemma add_counts_nth [simp]:
  "k < length c \<Longrightarrow> add_counts Q h vs c ! k = c ! k + of_nat (n_leaves Q h vs k)"
  by (simp add: add_counts_def)

lemma add_counts_Nil [simp]: "add_counts Q h [] c = c"
  by (rule nth_equalityI) (auto simp: n_leaves_def)

lemma add_counts_append: "add_counts Q h (vs @ ws) c = add_counts Q h ws (add_counts Q h vs c)"
  by (rule nth_equalityI) (auto simp: n_leaves_def)

lemma add_counts_single:
  "add_counts Q h [VLeaf a l] c = (if Q (h a) l \<and> l < length c then c[l := c ! l + 1] else c)"
  by (rule nth_equalityI) (auto simp: n_leaves_def nth_list_update)

lemma add_counts_ret [simp]: "add_counts Q h [VRet a l] c = c"
  by (rule nth_equalityI) (auto simp: n_leaves_def)

lemma add_counts_cong:
  "(\<And>k. k < length c \<Longrightarrow> n_leaves Q h vs k = n_leaves Q' h' ws k) \<Longrightarrow>
   add_counts Q h vs c = add_counts Q' h' ws c"
  by (simp add: add_counts_def)

lemma countLeafFn_keeps_mem [simp]: "keeps_mem (countLeafFn Q a l)"
  by (auto simp: keeps_mem_def countLeafFn_def bump_def split: if_splits)

lemma nullBRetFn_keeps_mem [simp]: "keeps_mem (nullBRetFn a l)"
  by (simp add: keeps_mem_def null_fns)

lemma run_count_visits:
  assumes "\<And>v. v \<in> set vs \<Longrightarrow> visit_level v < length c" "mem m = h"
  shows "foldR (run_visit (countLeafFn Q) nullBRetFn) vs (c, m) = Inr (add_counts Q h vs c, m)"
  using assms
proof (induction vs arbitrary: c)
  case (Cons v vs)
  have "run_visit (countLeafFn Q) nullBRetFn v (c, m) = Inr (add_counts Q h [v] c, m)"
    using Cons.prems(1)[of v] Cons.prems(2)
    by (cases v) (auto simp: countLeafFn_def bump_def ld_def null_fns add_counts_single)
  then show ?case
    using Cons by (simp add: add_counts_append[of Q h "[v]" vs, simplified])
qed simp

lemma count_traverse:
  assumes "reads_entry P p" "0 < lvl" "lvl \<le> 4" "length c = 5"
  shows "traversePageTable P nullBRFn nullARFn (countLeafFn Q) nullBRetFn lvl root (c, m)
           = Inr (add_counts Q (mem m) (visits p (mem m) lvl root) c, m)"
proof -
  have "foldR (run_visit (countLeafFn Q) nullBRetFn) (visits p (mem m) lvl root) (c, m)
          = Inr (add_counts Q (mem m) (visits p (mem m) lvl root) c, m)"
    using assms by (intro run_count_visits) (auto dest: visits_level)
  then show ?thesis
    using assms traverse_eq_visits[OF assms(1), of "countLeafFn Q" nullBRetFn lvl "(c, m)" "mem m"]
    by simp
qed

lemmas lamb_defs = countValidPagesLamb_def countAccessedPagesLamb_def countDirtyPagesLamb_def
  countWritablePagesLamb_def traverseValidPages_def traverseAccessedPages_def

abbreviation acc_pred :: "u64 \<Rightarrow> bool" where
  "acc_pred e \<equiv> pte_exists e \<and> isAccessed e"

lemma lamb_counts:
  assumes "0 < lvl" "lvl \<le> 4" "length c = 5"
  shows "countValidPagesLamb c root lvl m
           = Inr (add_counts (\<lambda>_ _. True) (mem m) (visits pte_exists (mem m) lvl root) c)"
    and "countAccessedPagesLamb c root lvl m
           = Inr (add_counts (\<lambda>_ _. True) (mem m) (visits acc_pred (mem m) lvl root) c)"
    and "countDirtyPagesLamb c root lvl m
           = Inr (add_counts (\<lambda>e l. isLeaf e l \<and> isDirty e) (mem m) (visits acc_pred (mem m) lvl root) c)"
    and "countWritablePagesLamb c root lvl m
           = Inr (add_counts (\<lambda>e l. isLeaf e l \<and> isWritable e) (mem m) (visits acc_pred (mem m) lvl root) c)"
  using assms
  by (simp_all add: lamb_defs count_traverse[OF reads_existsPred] count_traverse[OF reads_accessedPred])

lemma helper_counts:
  assumes "0 < lvl" "lvl \<le> 4" "lvl < length c"
  shows "countPagesHelper Q m lvl root c
           = Inr (add_counts (\<lambda>e _. Q e) (mem m) (visits pte_exists (mem m) lvl root) c)"
  using assms
proof (induction lvl arbitrary: root c)
  case (Suc l)
  let ?h = "mem m"
  let ?Q = "\<lambda>e (_::nat). Q e"
  let ?vs = "\<lambda>i. let a = pte_at root i; e = ?h a in
        if \<not> pte_exists e then [] else if isLeaf e (Suc l) then [VLeaf a (Suc l)]
        else visits pte_exists ?h l (ent_addr e)"
  have step: "count_entry Q (countPagesHelper Q m l) m (Suc l) root i c'
                = Inr (add_counts ?Q ?h (?vs i) c')" if "length c' = length c" for i c'
  proof (cases "pte_exists (?h (pte_at root i)) \<and> \<not> isLeaf (?h (pte_at root i)) (Suc l)")
    case True
    then have "l \<noteq> 0" by (cases l) auto
    moreover have "\<not> pte_MAPS (?h (pte_at root i))"
      using True by (auto simp: isLeaf_def split: if_splits)
    ultimately show ?thesis
      using True Suc.prems Suc.IH[of c'] that
      by (simp add: count_entry_def Let_def ld_def nextTableOrFrame_small)
  next
    case False
    then show ?thesis
      using Suc.prems that
      by (auto simp: count_entry_def Let_def ld_def bump_def add_counts_single)
  qed
  have "foldR (count_entry Q (countPagesHelper Q m l) m (Suc l) root) xs c'
          = Inr (add_counts ?Q ?h (concat (map ?vs xs)) c')" if "length c' = length c" for xs c'
    using that
  proof (induction xs arbitrary: c')
    case (Cons i xs)
    then show ?case using step[of c' i] by (simp add: add_counts_append)
  qed simp
  then show ?case by (simp add: add_counts_append)
qed simp

text \<open>Trees in which every existing interior entry has its accessed bit set.\<close>

primrec acc_tree :: "(u64 \<Rightarrow> u64) \<Rightarrow> nat \<Rightarrow> u64 \<Rightarrow> bool" where
  "acc_tree h 0 root = True"
| "acc_tree h (Suc l) root =
     (\<forall>i < 512. let e = h (pte_at root i) in
        pte_exists e \<and> \<not> isLeaf e (Suc l) \<longrightarrow> isAccessed e \<and> acc_tree h l (ent_addr e))"

fun accessed_visit :: "(u64 \<Rightarrow> u64) \<Rightarrow> visit \<Rightarrow> bool" where
  "accessed_visit h (VLeaf a l) = isAccessed (h a)"
| "accessed_visit h (VRet a l) = True"

lemma visits_acc_tree:
  "acc_tree h lvl root \<Longrightarrow>
     visits acc_pred h lvl root = filter (accessed_visit h) (visits pte_exists h lvl root)"
proof (induction lvl arbitrary: root)
  case (Suc l)
  show ?case
    using Suc.prems
    by (auto simp: filter_concat Let_def Suc.IH intro!: arg_cong[where f = concat])
qed simp

lemma n_leaves_acc_tree:
  "acc_tree h lvl root \<Longrightarrow>
     n_leaves Q h (visits acc_pred h lvl root) k
       = n_leaves (\<lambda>e l. Q e l \<and> isAccessed e) h (visits pte_exists h lvl root) k"
proof -
  have "(accessed_visit h v \<and> leaf_visit Q h k v) = leaf_visit (\<lambda>e l. Q e l \<and> isAccessed e) h k v" for v
    by (cases v) auto
  then show "acc_tree h lvl root \<Longrightarrow> ?thesis"
    unfolding n_leaves_def by (simp only: visits_acc_tree filter_filter)
qed

section \<open>Properties\<close>

text \<open>
  C32. The two implementations of the valid-page counter agree: the traversal with a lambda
  and the hand-written recursion return the same counter vector for every memory, every
  non-null root and every level of four-level paging.
\<close>

theorem countValidPagesLamb_eq:
  assumes "root \<noteq> 0" "1 \<le> lvl" "lvl \<le> 4" "length counts = 5"
  shows "countValidPagesLamb counts root lvl m = countValidPages counts root lvl m"
  using assms
  by (simp add: lamb_counts helper_counts countValidPages_def count_entry_point_def
      countValidPagesHelper_def)

theorem countValidPagesLamb_eq_witness:
  "countValidPagesLamb [0, 0, 0, 0, 0] 0x1000 1 (mach_of ((\<lambda>_. 0)(pte_at 0x1000 5 := 0x2003)) [])
     = countValidPages [0, 0, 0, 0, 0] 0x1000 1 (mach_of ((\<lambda>_. 0)(pte_at 0x1000 5 := 0x2003)) [])
   \<and> countValidPagesLamb [0, 0, 0, 0, 0] 0x1000 1 (mach_of ((\<lambda>_. 0)(pte_at 0x1000 5 := 0x2003)) [])
     = Inr [0, 1, 0, 0, 0]"
proof
  let ?m = "mach_of ((\<lambda>_. 0)(pte_at 0x1000 5 := 0x2003)) []"
  show "countValidPagesLamb [0, 0, 0, 0, 0] 0x1000 1 ?m = countValidPages [0, 0, 0, 0, 0] 0x1000 1 ?m"
    by (rule countValidPagesLamb_eq) simp_all
  have ok: "pg_ok 0x1000" by (simp add: pg_ok_iff)
  show "countValidPagesLamb [0, 0, 0, 0, 0] 0x1000 1 ?m = Inr [0, 1, 0, 0, 0]"
    by (subst lamb_counts(1), simp, simp, simp)
      (simp add: concat_map_upt_single[where i = 5] ok pte_exists_def pte_SEL_def,
       simp add: add_counts_def n_leaves_def upt_rec)
qed

end
