(* ===== verification/Umm_Sv.thy ===== *)
theory Umm_Sv
  imports Umm_Copy Umm_Free Umm_Count
begin

text \<open>
  State vectors: \<open>Region\<close> (\<^verbatim>\<open>src/src/UmRegion.h\<close>, \<^verbatim>\<open>UmRegion.cc\<close>), the page table handle
  \<open>UmPth\<close> (\<^verbatim>\<open>UmPth.h\<close>, \<^verbatim>\<open>UmPth.cc\<close>), \<open>UmSV\<close> (\<^verbatim>\<open>UmSV.h\<close>, \<^verbatim>\<open>UmSV.cc\<close>) and the bit
  fields of \<^verbatim>\<open>src/src/util/x86_64.h\<close>. Of EbbRT's exception frame the model keeps the fields the
  repository reads or writes. A \<open>new\<close>, a destructor and a reference are explicit: a
  constructor returns the object, a destructor is an operation on the machine, and a
  reference into a list is its position.
\<close>

section \<open>Architecture bit fields\<close>

definition ec_P :: "u64 \<Rightarrow> bool" where "ec_P ec = bit ec 0"
definition ec_WR :: "u64 \<Rightarrow> bool" where "ec_WR ec = bit ec 1"
definition ec_US :: "u64 \<Rightarrow> bool" where "ec_US ec = bit ec 2"
definition ec_ID :: "u64 \<Rightarrow> bool" where "ec_ID ec = bit ec 4"

definition isWriteFault :: "u64 \<Rightarrow> bool" where "isWriteFault ec = (if ec_WR ec then True else False)"
definition isPresent :: "u64 \<Rightarrow> bool" where "isPresent ec = (if ec_P ec then True else False)"

section \<open>Regions\<close>

record region =
  r_name :: string
  r_start :: u64
  r_length :: u64
  r_writable :: bool
  r_page_order :: u8
  r_data :: u64
  r_count :: u64

definition Region_init :: region where
  "Region_init = \<lparr>r_name = [], r_start = 0, r_length = 0, r_writable = False, r_page_order = 0,
     r_data = 0, r_count = 0\<rparr>"

definition AddrIsInRegion :: "region \<Rightarrow> u64 \<Rightarrow> bool" where
  "AddrIsInRegion r vaddr \<longleftrightarrow> r_start r \<le> vaddr \<and> vaddr < r_start r + r_length r"

definition GetOffset :: "region \<Rightarrow> u64 \<Rightarrow> u64" where
  "GetOffset r vaddr = (if AddrIsInRegion r vaddr then vaddr - r_start r else 0)"

definition ZeroPFC :: "region \<Rightarrow> region" where "ZeroPFC r = r\<lparr>r_count := 0\<rparr>"

section \<open>Exception frames\<close>

record eframe =
  ef_rip :: u64
  ef_rsp :: u64
  ef_rdi :: u64
  ef_rsi :: u64
  ef_cs :: u64
  ef_ss :: u64
  ef_rflags :: u64
  ef_error_code :: u64
  ef_fpu0 :: u64
  ef_fpu3 :: u64

definition ef_zero :: eframe where
  "ef_zero = \<lparr>ef_rip = 0, ef_rsp = 0, ef_rdi = 0, ef_rsi = 0, ef_cs = 0, ef_ss = 0, ef_rflags = 0,
     ef_error_code = 0, ef_fpu0 = 0, ef_fpu3 = 0\<rparr>"

section \<open>Page table handles\<close>

record pth =
  p_root :: u64
  p_lvl :: nat

definition UmPth_init :: pth where "UmPth_init = \<lparr>p_root = 0, p_lvl = PDPT_LEVEL\<rparr>"

definition UmPth_of :: "u64 \<Rightarrow> nat \<Rightarrow> pth" where "UmPth_of root lvl = \<lparr>p_root = root, p_lvl = lvl\<rparr>"

definition Root :: "pth \<Rightarrow> u64" where "Root p = p_root p"

definition UmPth_destroy :: "pth \<Rightarrow> mach \<Rightarrow> mach res" where
  "UmPth_destroy p m = (if p_root p \<noteq> 0 then freePageTableLamb (p_root p) (p_lvl p) m else Inr m)"

text \<open>\<open>operator=\<close> in the default build, with copy-on-write.\<close>

definition UmPth_assign :: "pth \<Rightarrow> pth \<Rightarrow> mach \<Rightarrow> (pth \<times> mach) res" where
  "UmPth_assign p rhs m =
     (let p = p\<lparr>p_lvl := p_lvl rhs\<rparr> in
      kassert (p_root p = 0)
        (if p_root rhs \<noteq> 0
         then and_then (walkPgTblCOW (p_root rhs) (p_root p) (p_lvl p) m)
                (\<lambda>(root, m). Inr (p\<lparr>p_root := root\<rparr>, m))
         else Inr (p, m)))"

definition UmPth_copy :: "pth \<Rightarrow> mach \<Rightarrow> (pth \<times> mach) res" where
  "UmPth_copy rhs m = UmPth_assign UmPth_init rhs m"

text \<open>\<open>operator=\<close> in a build with \<open>NOCOW\<close>.\<close>

definition UmPth_assign_nocow :: "pth \<Rightarrow> pth \<Rightarrow> mach \<Rightarrow> (pth \<times> mach) res" where
  "UmPth_assign_nocow p rhs m =
     (let p = p\<lparr>p_lvl := p_lvl rhs\<rparr> in
      kassert (p_root p = 0)
        (if p_root rhs \<noteq> 0
         then and_then (walkPgTblCopyDirty (p_root rhs) (p_root p) (p_lvl p) m)
                (\<lambda>(root, m). Inr (p\<lparr>p_root := root\<rparr>, m))
         else Inr (p, m)))"

definition copyInPages :: "pth \<Rightarrow> u64 \<Rightarrow> mach \<Rightarrow> (pth \<times> mach) res" where
  "copyInPages p srcRoot m =
     (let m = flushTranslationCaches m in
      and_then (walkPgTblCopyDirtyCOW srcRoot (p_root p) (p_lvl p) m) (\<lambda>(root, m).
      and_then (countValidPagesLamb [0, 0, 0, 0, 0] root (p_lvl p) m) (\<lambda>counts.
        kassert (root \<noteq> 0) (Inr (p\<lparr>p_root := root\<rparr>, m)))))"

text \<open>\<open>copyInPages\<close> in a build with \<open>NOCOW\<close>.\<close>

definition copyInPages_nocow :: "pth \<Rightarrow> u64 \<Rightarrow> mach \<Rightarrow> (pth \<times> mach) res" where
  "copyInPages_nocow p srcRoot m =
     (let m = flushTranslationCaches m in
      and_then (walkPgTblCopyDirty srcRoot (p_root p) (p_lvl p) m) (\<lambda>(root, m).
      and_then (countValidPagesLamb [0, 0, 0, 0, 0] root (p_lvl p) m) (\<lambda>counts.
        kassert (root \<noteq> 0) (Inr (p\<lparr>p_root := root\<rparr>, m)))))"

definition UmPth_CountOwnedPages :: "pth \<Rightarrow> mach \<Rightarrow> u64 res" where
  "UmPth_CountOwnedPages p m =
     and_then (countWritablePagesLamb [0, 0, 0, 0, 0] (p_root p) (p_lvl p) m) (\<lambda>counts. Inr (counts ! 1))"

section \<open>State vectors\<close>

record sv =
  sv_regions :: "region list"
  sv_ef :: eframe
  sv_pth :: pth

definition UmSV_init :: sv where
  "UmSV_init = \<lparr>sv_regions = [],
     sv_ef = ef_zero\<lparr>ef_fpu0 := 0x37f, ef_fpu3 := 0xffff00001f80, ef_cs := 0x8, ef_rsp := 0xFFFFC07FFFFFFFF0\<rparr>,
     sv_pth = UmPth_init\<rparr>"

definition SetEntry :: "u64 \<Rightarrow> sv \<Rightarrow> sv" where
  "SetEntry paddr s = s\<lparr>sv_ef := (sv_ef s)\<lparr>ef_rip := paddr\<rparr>\<rparr>"

definition UmSV_entry :: "u64 \<Rightarrow> sv" where "UmSV_entry entry = SetEntry entry UmSV_init"

definition AddRegion :: "region \<Rightarrow> sv \<Rightarrow> sv" where
  "AddRegion r s = s\<lparr>sv_regions := sv_regions s @ [r]\<rparr>"

definition ZeroPFCs :: "sv \<Rightarrow> sv" where
  "ZeroPFCs s = s\<lparr>sv_regions := map ZeroPFC (sv_regions s)\<rparr>"

text \<open>The copy constructor assigns the members of \<open>rhs\<close> to default-constructed ones.\<close>

definition UmSV_copy :: "sv \<Rightarrow> mach \<Rightarrow> (sv \<times> mach) res" where
  "UmSV_copy rhs m =
     and_then (UmPth_assign UmPth_init (sv_pth rhs) m) (\<lambda>(p, m).
       Inr (\<lparr>sv_regions = sv_regions rhs, sv_ef = sv_ef rhs, sv_pth = p\<rparr>, m))"

primrec GetRegionOfAddr :: "region list \<Rightarrow> u64 \<Rightarrow> nat res" where
  "GetRegionOfAddr [] vaddr = Inl KAbort"
| "GetRegionOfAddr (r # rs) vaddr =
     (if AddrIsInRegion r vaddr then Inr 0 else and_then (GetRegionOfAddr rs vaddr) (\<lambda>i. Inr (Suc i)))"

primrec GetRegionByName :: "region list \<Rightarrow> string \<Rightarrow> nat res" where
  "GetRegionByName [] p = Inl KAbort"
| "GetRegionByName (r # rs) p =
     (if r_name r = p then Inr 0 else and_then (GetRegionByName rs p) (\<lambda>i. Inr (Suc i)))"

definition CountOwnedPages :: "sv \<Rightarrow> mach \<Rightarrow> u64 res" where
  "CountOwnedPages s m = UmPth_CountOwnedPages (sv_pth s) m"

section \<open>Lemmas\<close>

lemma GetRegionOfAddr_Inr:
  "GetRegionOfAddr rs v = Inr i \<longleftrightarrow>
     i < length rs \<and> AddrIsInRegion (rs ! i) v \<and> (\<forall>j < i. \<not> AddrIsInRegion (rs ! j) v)"
proof (induction rs arbitrary: i)
  case (Cons r rs)
  show ?case
    by (cases i) (auto simp: and_then_eq_Inr Cons.IH less_Suc_eq_0_disj split: if_splits)
qed simp

lemma GetRegionOfAddr_Inl:
  "GetRegionOfAddr rs v = Inl e \<longleftrightarrow> e = KAbort \<and> (\<forall>r \<in> set rs. \<not> AddrIsInRegion r v)"
  by (induction rs) (auto simp: and_then_eq_Inl)

lemma GetOffset_bound:
  "AddrIsInRegion r v \<Longrightarrow> GetOffset r v < r_length r \<and> r_start r + GetOffset r v = v"
proof -
  assume a: "AddrIsInRegion r v"
  then have le: "r_start r \<le> v" and "unat v < unat (r_start r + r_length r)"
    by (simp_all add: AddrIsInRegion_def word_less_nat_alt)
  moreover have "unat (r_start r + r_length r) \<le> unat (r_start r) + unat (r_length r)"
    by (simp add: unat_word_ariths)
  ultimately have "unat v - unat (r_start r) < unat (r_length r)"
    by (simp add: word_le_nat_alt)
  then have "v - r_start r < r_length r" using unat_sub[OF le] by (simp add: word_less_nat_alt)
  then show ?thesis using a by (simp add: GetOffset_def)
qed

text \<open>Every page freed by the destructor of a copy is a page of the copy's own.\<close>

lemma copy_frees_own:
  assumes snap: "snapshot_of deep m root S m' copy" and c: "copy \<noteq> 0"
  shows "\<exists>ps. UmPth_destroy \<lparr>p_root = copy, p_lvl = 3\<rparr> m' = Inr (m'\<lparr>freed := freed m' @ map (\<lambda>p. (p, 0)) ps\<rparr>) \<and>
     distinct ps \<and> tbls (mem m') 3 copy \<subseteq> set ps \<and> set ps \<inter> S = {}"
proof -
  note S = snap[unfolded snapshot_of_def]
  have "wf_pt (mem m') 3 copy" "acc_below (mem m') 3 copy" "owns_frames (mem m') 3 copy" using S c by auto
  from free_correct[OF this(1) c _ _ this(2,3)] obtain ps where
    ps: "freePageTableLamb copy 3 m' = Inr (m'\<lparr>freed := freed m' @ map (\<lambda>p. (p, 0)) ps\<rparr>)" "distinct ps"
      "set ps = tbls (mem m') 3 copy \<union>
       {ent_addr e | ix e. (\<forall>j. ix j < 512) \<and> pt_lookup (mem m') 3 copy ix = Some e \<and> isAccessed e \<and> pte_RW e}"
    by auto
  have "ent_addr e \<notin> S" if "\<forall>j. ix j < 512" "pt_lookup (mem m') 3 copy ix = Some e" "pte_RW e" for ix e
  proof -
    have "snapshot_entry deep m S m' copy (pt_lookup (mem m) 3 root ix) (Some e)"
      using S that(1,2) by metis
    then show ?thesis using that(3)
      by (auto simp: snapshot_entry_def pte_simps split: option.splits if_splits)
  qed
  moreover have "tbls (mem m') 3 copy \<inter> S = {}" using S by blast
  ultimately have "set ps \<inter> S = {}" unfolding ps(3) by blast
  then show ?thesis using ps c by (intro exI[of _ ps]) (auto simp: UmPth_destroy_def)
qed

section \<open>Properties\<close>

text \<open>
  Creating and destroying a copy is safe for its source: copy-constructing a page table
  handle gives a handle whose destructor frees each page at most once, frees all tables of
  the copy, and never frees a page in use by the source, neither a table nor a shared frame.
\<close>

theorem UmPth_copy_destroy_safe:
  assumes "p_lvl src = 3" "p_root src \<noteq> 0" "wf_pt (mem m) 3 (p_root src)" "source_in (mem m) (p_root src) S"
    and "fresh_pages (copy_budget m (p_root src)) m S"
  shows "\<exists>cp m' ps. UmPth_copy src m = Inr (cp, m') \<and>
     UmPth_destroy cp m' = Inr (m'\<lparr>freed := freed m' @ map (\<lambda>p. (p, 0)) ps\<rparr>) \<and>
     distinct ps \<and> tbls (mem m') 3 (p_root cp) \<subseteq> set ps \<and> set ps \<inter> S = {}"
proof -
  from copy_snapshot[OF assms(3,2,4,5), of "\<lambda>_. False"] obtain copy idx m' where
    run: "copy_walk (copy_leaf (\<lambda>_. False)) 3 (p_root src) (0, slot_idx, m) = Inr (copy, idx, m')"
    and snap: "snapshot_of (\<lambda>_. False) m (p_root src) S m' copy" by blast
  let ?cp = "\<lparr>p_root = copy, p_lvl = 3\<rparr>"
  have cp: "UmPth_copy src m = Inr (?cp, m')"
    using assms(1,2)
    by (simp add: UmPth_copy_def UmPth_assign_def UmPth_init_def walkPgTblCOW_def walkPgTblCOWHelper_def
        copy_leaf_eqs run)
  show ?thesis
  proof (cases "copy = 0")
    case True
    then show ?thesis using cp
      by (intro exI[of _ ?cp] exI[of _ m'] exI[of _ "[]"]) (simp add: UmPth_destroy_def)
  next
    case False
    from copy_frees_own[OF snap False] obtain ps where
      "UmPth_destroy ?cp m' = Inr (m'\<lparr>freed := freed m' @ map (\<lambda>p. (p, 0)) ps\<rparr>)" "distinct ps"
      "tbls (mem m') 3 copy \<subseteq> set ps" "set ps \<inter> S = {}" by blast
    then show ?thesis using cp by (intro exI[of _ ?cp] exI[of _ m'] exI[of _ ps]) simp
  qed
qed

theorem UmPth_copy_destroy_safe_witness:
  "\<exists>cp m' ps. UmPth_copy \<lparr>p_root = 0x1000, p_lvl = 3\<rparr>
       (mach_of (small_tree (pte_build 0x4000 True True True True False)) [0x5000, 0x6000, 0x7000, 0x8000]) = Inr (cp, m') \<and>
     UmPth_destroy cp m' = Inr (m'\<lparr>freed := freed m' @ map (\<lambda>p. (p, 0)) ps\<rparr>) \<and>
     0x4000 \<notin> set ps"
proof -
  let ?e = "pte_build 0x4000 True True True True False"
  have ex: "pte_exists ?e" "ent_addr ?e = 0x4000" by (simp_all add: pte_simps pg_ok_small)
  from UmPth_copy_destroy_safe[of "\<lparr>p_root = 0x1000, p_lvl = 3\<rparr>", simplified, OF small_tree_copy_ready[OF ex]]
  show ?thesis by blast
qed

end
