(* ===== verification/Umm_Walk.thy ===== *)
theory Umm_Walk
  imports Umm_Map
begin

text \<open>
  Walking one address through a page table, \<^verbatim>\<open>src/src/UmPgTblMgr.cc\<close>: the two overloads of
  \<open>walkPageTable\<close>, the queries built on them (\<open>addrToPTELamb\<close>, \<open>getPhysAddrLamb\<close>,
  \<open>dumpAllPTEsWalkLamb\<close>), \<open>setUserAllPTEsWalkLamb\<close>, the older \<open>getPhysAddrRec\<close>, and the
  invalidation of translation caches.
\<close>

section \<open>Operations\<close>

type_synonym walkLeafFn = "u64 \<Rightarrow> u64 \<Rightarrow> nat \<Rightarrow> mach \<Rightarrow> u64 res"
type_synonym walkRecFn = "u64 \<Rightarrow> u64 \<Rightarrow> nat \<Rightarrow> mach \<Rightarrow> mach"

definition walk_step ::
  "(u64 \<Rightarrow> mach \<Rightarrow> (u64 \<times> mach) res) \<Rightarrow> walkRecFn \<Rightarrow> walkLeafFn \<Rightarrow> u64 \<Rightarrow> nat \<Rightarrow> u64 \<Rightarrow> mach \<Rightarrow> (u64 \<times> mach) res" where
  "walk_step rec R L virt lvl root m =
     (let curPTE = pte_at root (lin_index virt lvl); m = R curPTE virt lvl m in
      if isLeaf (ld m curPTE) lvl then and_then (L curPTE virt lvl m) (\<lambda>r. Inr (r, m))
      else and_then (nextTableOrFrame m root (lin_index virt lvl) lvl) (\<lambda>t. rec t m))"

primrec walkPageTableR ::
  "walkRecFn \<Rightarrow> walkLeafFn \<Rightarrow> u64 \<Rightarrow> nat \<Rightarrow> u64 \<Rightarrow> mach \<Rightarrow> (u64 \<times> mach) res" where
  "walkPageTableR R L virt 0 = walk_step (\<lambda>_ _. Inl KAssert) R L virt 0"
| "walkPageTableR R L virt (Suc l) = walk_step (walkPageTableR R L virt l) R L virt (Suc l)"

text \<open>The overload without a function on the way leaves the machine alone.\<close>

definition walkPageTable :: "walkLeafFn \<Rightarrow> u64 \<Rightarrow> nat \<Rightarrow> u64 \<Rightarrow> mach \<Rightarrow> u64 res" where
  "walkPageTable L virt lvl root m =
     and_then (walkPageTableR (\<lambda>_ _ _ m. m) L virt lvl root m) (\<lambda>(r, _). Inr r)"

definition addrToPTELamb :: "u64 \<Rightarrow> u64 \<Rightarrow> nat \<Rightarrow> mach \<Rightarrow> u64 res" where
  "addrToPTELamb la root lvl m = walkPageTable (\<lambda>curPte virt lvl m. Inr curPte) la lvl root m"

text \<open>
  \<open>pa.raw\<close> is assigned the frame and then overwritten with the result of \<open>injectOffset\<close>,
  whose upper bits are those of an uninitialised local (\<open>junk\<close>).
\<close>

definition getPhysAddrLamb :: "u64 \<Rightarrow> u64 \<Rightarrow> u64 \<Rightarrow> nat \<Rightarrow> mach \<Rightarrow> u64 res" where
  "getPhysAddrLamb junk la root lvl m =
     walkPageTable (\<lambda>curPte virt lvl m.
        and_then (nextTableOrFrame m curPte 0 lvl) (\<lambda>pa. Inr (injectOffset junk virt lvl))) la lvl root m"

definition setUserAllPTEsWalkLamb :: "u64 \<Rightarrow> u64 \<Rightarrow> nat \<Rightarrow> mach \<Rightarrow> mach res" where
  "setUserAllPTEsWalkLamb la root lvl m =
     and_then (walkPageTableR (\<lambda>curPte virt lvl m. st curPte (ld m curPte OR push_bit 2 1) m)
                (\<lambda>curPte virt lvl m. Inr 0) la lvl root m)
       (\<lambda>(r, m). Inr (flushTranslationCaches m))"

definition dumpAllPTEsWalkLamb :: "u64 \<Rightarrow> u64 \<Rightarrow> nat \<Rightarrow> mach \<Rightarrow> mach res" where
  "dumpAllPTEsWalkLamb la root lvl m =
     and_then (walkPageTableR (\<lambda>_ _ _ m. m) (\<lambda>curPte virt lvl m. Inr 0) la lvl root m) (\<lambda>(r, m). Inr m)"

primrec getPhysAddrRecHelper :: "u64 \<Rightarrow> u64 \<Rightarrow> nat \<Rightarrow> u64 \<Rightarrow> mach \<Rightarrow> u64 res" where
  "getPhysAddrRecHelper junk la 0 root m =
     kassert (pte_exists (ld m (pte_at root (lin_index la 0))))
       (if isLeaf (ld m (pte_at root (lin_index la 0))) 0
        then and_then (nextTableOrFrame m root (lin_index la 0) 0) (\<lambda>pa. Inr (injectOffset junk la 0))
        else and_then (nextTableOrFrame m root (lin_index la 0) 0) (\<lambda>t. Inl KAssert))"
| "getPhysAddrRecHelper junk la (Suc l) root m =
     kassert (pte_exists (ld m (pte_at root (lin_index la (Suc l)))))
       (if isLeaf (ld m (pte_at root (lin_index la (Suc l)))) (Suc l)
        then and_then (nextTableOrFrame m root (lin_index la (Suc l)) (Suc l)) (\<lambda>pa. Inr (injectOffset junk la (Suc l)))
        else and_then (nextTableOrFrame m root (lin_index la (Suc l)) (Suc l)) (\<lambda>t. getPhysAddrRecHelper junk la l t m))"

definition getPhysAddrRec :: "u64 \<Rightarrow> u64 \<Rightarrow> u64 \<Rightarrow> nat \<Rightarrow> mach \<Rightarrow> u64 res" where
  "getPhysAddrRec junk la root lvl m =
     kassert (TBL_LEVEL \<le> lvl \<and> lvl \<le> PML4_LEVEL)
       (and_then (if root = 0 then Inr (if lvl = PML4_LEVEL then getPML4Root m else root)
                  else kassert (lvl < PML4_LEVEL) (Inr root)) (\<lambda>root.
        kassert (root \<noteq> 0) (getPhysAddrRecHelper junk la lvl root m)))"

text \<open>\<open>invlpg\<close> is handed the frame an entry holds.\<close>

definition invalidate_leafFn :: "unit leafFn" where
  "invalidate_leafFn curPte lvl = (\<lambda>(u, m).
     and_then (nextTableOrFrame m curPte 0 lvl) (\<lambda>f. Inr (u, invlpg f m)))"

definition cacheInvalidateValidPagesLamb :: "u64 \<Rightarrow> nat \<Rightarrow> mach \<Rightarrow> mach res" where
  "cacheInvalidateValidPagesLamb root lvl m =
     and_then (traverseValidPages lvl root nullBRFn nullARFn invalidate_leafFn nullBRetFn ((), m))
       (\<lambda>s. Inr (snd s))"

definition doubleCacheInvalidate :: "u64 \<Rightarrow> nat \<Rightarrow> mach \<Rightarrow> mach res" where
  "doubleCacheInvalidate root lvl m =
     and_then (cacheInvalidateValidPagesLamb root lvl m) (\<lambda>m. Inr (flushTranslationCaches m))"

section \<open>Walks of a well-formed tree\<close>

text \<open>The cells a walk of the indices \<open>ix\<close> reads, from the root to the leaf.\<close>

primrec path_cells :: "(u64 \<Rightarrow> u64) \<Rightarrow> nat \<Rightarrow> u64 \<Rightarrow> (nat \<Rightarrow> nat) \<Rightarrow> u64 list" where
  "path_cells h 0 root ix = []"
| "path_cells h (Suc l) root ix =
     (let a = pte_at root (ix (Suc l)) in
      a # (if pte_exists (h a) \<and> \<not> isLeaf (h a) (Suc l) then path_cells h l (ent_addr (h a)) ix else []))"

lemma walk_found:
  assumes "wf_pt (mem m) lvl root" "root \<noteq> 0" "lvl \<le> 4" "leaf_at (mem m) lvl root (lin_index la) = Some a"
  shows "walkPageTableR (\<lambda>_ _ _ m. m) L la lvl root m = and_then (L a la 1 m) (\<lambda>r. Inr (r, m))"
  using assms
proof (induction lvl arbitrary: root)
  case (Suc l)
  let ?a = "pte_at root (lin_index la (Suc l))"
  have i: "lin_index la (Suc l) < 512" by simp
  have ex: "pte_exists (mem m ?a)" using Suc.prems(2,4) by (auto simp: Let_def split: if_splits)
  note lf = wf_isLeaf[OF Suc.prems(1,2) i ex]
  show ?case
  proof (cases "l = 0")
    case True
    then show ?thesis using Suc.prems(2,4) ex lf by (simp add: walk_step_def Let_def ld_def)
  next
    case False
    note E = wf_pt_entry[OF Suc.prems(1,2) _ i ex]
    have "nextTableOrFrame m root (lin_index la (Suc l)) (Suc l) = Inr (ent_addr (mem m ?a))"
      using ex E(1) False Suc.prems(3) by (subst nextTableOrFrame_small) auto
    moreover have "leaf_at (mem m) l (ent_addr (mem m ?a)) (lin_index la) = Some a"
      using Suc.prems(2,4) ex lf False by (simp add: Let_def)
    ultimately show ?thesis
      using Suc.IH[OF E(3,2)] Suc.prems(3) False lf by (simp add: walk_step_def Let_def ld_def)
  qed
qed simp

lemma walk_result:
  assumes "wf_pt (mem m) lvl root" "root \<noteq> 0" "1 \<le> lvl" "lvl \<le> 4"
    and "walkPageTableR (\<lambda>_ _ _ m. m) (\<lambda>c v l m. Inr c) la lvl root m = Inr (a, m')" "pte_exists (mem m a)"
  shows "leaf_at (mem m) lvl root (lin_index la) = Some a"
  using assms
proof (induction lvl arbitrary: root)
  case (Suc l)
  let ?a = "pte_at root (lin_index la (Suc l))"
  have i: "lin_index la (Suc l) < 512" by simp
  show ?case
  proof (cases "l = 0")
    case True
    then show ?thesis using Suc.prems by (simp add: walk_step_def Let_def ld_def)
  next
    case False
    show ?thesis
    proof (cases "isLeaf (mem m ?a) (Suc l)")
      case True
      then have "a = ?a" using Suc.prems(5) by (simp add: walk_step_def Let_def ld_def)
      then show ?thesis using True Suc.prems(2,6) by (simp add: Let_def)
    next
      case nl: False
      then have ex: "pte_exists (mem m ?a)"
        using Suc.prems(5) by (auto simp: walk_step_def Let_def ld_def nextTableOrFrame_def kassert_def split: if_splits)
      note E = wf_pt_entry[OF Suc.prems(1,2) _ i ex]
      have "nextTableOrFrame m root (lin_index la (Suc l)) (Suc l) = Inr (ent_addr (mem m ?a))"
        using ex E(1) False Suc.prems(4) by (subst nextTableOrFrame_small) auto
      then show ?thesis
        using Suc.IH[OF E(3,2)] Suc.prems False nl ex by (simp add: walk_step_def Let_def ld_def)
    qed
  qed
qed simp

text \<open>Setting the user bit keeps the other fields of an entry.\<close>

definition set_user :: "u64 \<Rightarrow> u64" where "set_user e = e OR push_bit 2 1"

lemma bit_set_user: "bit (set_user e) k \<longleftrightarrow> bit e k \<or> k = 2"
proof -
  have "bit (push_bit 2 1 :: u64) k \<longleftrightarrow> k = 2" using bit_push_bit_iff[of 2 "1 :: u64" k] by (auto simp: bit_1_iff simp del: push_bit_of_1)
  then show ?thesis unfolding set_user_def by (simp only: bit_or_iff)
qed

lemma set_user_fields [simp]:
  "pte_exists (set_user e) = pte_exists e" "pte_MAPS (set_user e) = pte_MAPS e" "pte_US (set_user e)"
  "ent_addr (set_user e) = ent_addr e" "isLeaf (set_user e) l = isLeaf e l"
proof -
  show "ent_addr (set_user e) = ent_addr e"
    by (rule bit_word_eqI) (auto simp: bit_ent_addr bit_set_user)
qed (simp_all add: pte_exists_def pte_field_defs bit_set_user isLeaf_def)

lemma set_user_eq: "e OR push_bit 2 1 = set_user e" "e OR 4 = set_user e"
  by (simp_all add: set_user_def)

lemma path_cells_frame:
  assumes "wf_pt h l root" "root \<noteq> 0" "same_cells h h' (tbls h l root)" "\<And>j. ix j < 512"
  shows "path_cells h' l root ix = path_cells h l root ix"
  using assms(1-3)
proof (induction l arbitrary: root)
  case (Suc l)
  let ?a = "pte_at root (ix (Suc l))"
  have cell: "h' ?a = h ?a"
    by (rule same_cellsD[OF Suc.prems(3) pt_Suc_root(1)[OF Suc.prems(2)] pt_Suc_root(2)[OF Suc.prems(1,2)] assms(4)])
  show ?case
  proof (cases "pte_exists (h ?a) \<and> \<not> isLeaf (h ?a) (Suc l)")
    case True
    then have ex: "pte_exists (h ?a)" and l: "0 < l" by (cases l; auto)+
    note E = wf_pt_entry[OF Suc.prems(1,2) l assms(4) ex]
    have "same_cells h h' (tbls h l (ent_addr (h ?a)))"
      using child_tbls_subset[where h = h and l = l, OF assms(4) Suc.prems(2) ex]
      by (rule same_cells_mono[OF Suc.prems(3)])
    then show ?thesis using Suc.IH[OF E(3,2)] cell by (simp add: Let_def)
  next
    case False
    then show ?thesis using cell by (auto simp: Let_def)
  qed
qed simp

lemma path_cells_in_tbls:
  assumes "wf_pt h l root" "root \<noteq> 0" "\<And>j. ix j < 512" "c \<in> set (path_cells h l root ix)"
  shows "\<exists>t \<in> tbls h l root. \<exists>i < 512. c = pte_at t i"
  using assms(1,2,4)
proof (induction l arbitrary: root)
  case (Suc l)
  let ?a = "pte_at root (ix (Suc l))"
  show ?case
  proof (cases "c = ?a")
    case True
    then show ?thesis using pt_Suc_root(1)[OF Suc.prems(2)] assms(3) by blast
  next
    case False
    then have c: "pte_exists (h ?a)" "\<not> isLeaf (h ?a) (Suc l)" "c \<in> set (path_cells h l (ent_addr (h ?a)) ix)"
      using Suc.prems(3) by (auto simp: Let_def split: if_splits)
    then have l: "0 < l" by (cases l) auto
    note E = wf_pt_entry[OF Suc.prems(1,2) l assms(3) c(1)]
    from Suc.IH[OF E(3,2) c(3)] show ?thesis
      using child_tbls_subset[where h = h and l = l, OF assms(3) Suc.prems(2) c(1)] by blast
  qed
qed simp

lemma walk_set_user:
  assumes "wf_pt (mem m) lvl root" "root \<noteq> 0" "lvl \<le> 4" "leaf_at (mem m) lvl root (lin_index la) = Some a"
  shows "walkPageTableR (\<lambda>c v l m. st c (ld m c OR push_bit 2 1) m) (\<lambda>c v l m. Inr 0) la lvl root m
     = Inr (0, m\<lparr>mem := (\<lambda>c. if c \<in> set (path_cells (mem m) lvl root (lin_index la)) then set_user (mem m c) else mem m c)\<rparr>)"
  using assms
proof (induction lvl arbitrary: root m a)
  case (Suc l)
  let ?ix = "lin_index la"
  let ?a = "pte_at root (?ix (Suc l))"
  let ?m1 = "st ?a (set_user (mem m ?a)) m"
  have i: "?ix (Suc l) < 512" by simp
  have ex: "pte_exists (mem m ?a)" using Suc.prems(2,4) by (auto simp: Let_def split: if_splits)
  note lf = wf_isLeaf[OF Suc.prems(1,2) i ex]
  have cur: "mem ?m1 ?a = set_user (mem m ?a)" by (simp add: st_def)
  show ?case
  proof (cases "l = 0")
    case True
    then show ?thesis using lf ex
      by (auto simp: walk_step_def Let_def ld_def set_user_eq cur st_def fun_eq_iff)
  next
    case False
    note E = wf_pt_entry[OF Suc.prems(1,2) _ i ex]
    let ?c = "ent_addr (mem m ?a)"
    have ok: "pg_ok root" by (rule pt_Suc_root(2)[OF Suc.prems(1,2)])
    have sc: "same_cells (mem m) (mem ?m1) (tbls (mem m) l ?c)"
      using E(4) False i ok by (auto simp: same_cells_def mach_simps)
    have nt: "nextTableOrFrame ?m1 root (?ix (Suc l)) (Suc l) = Inr ?c"
      using ex E(1) False Suc.prems(3) cur by (subst nextTableOrFrame_small) auto
    have pc: "path_cells (mem ?m1) l ?c ?ix = path_cells (mem m) l ?c ?ix"
      by (rule path_cells_frame[OF E(3,2) sc]) (use False in auto)
    have lk: "leaf_at (mem m) l ?c ?ix = Some a" using Suc.prems(2,4) ex lf False by (simp add: Let_def)
    have pl: "pt_lookup (mem ?m1) l ?c ?ix = pt_lookup (mem m) l ?c ?ix"
      by (rule tree_frame(3)[OF _ sc]) (use E(3) False in auto)
    then obtain b where b: "leaf_at (mem ?m1) l ?c ?ix = Some b" using lk by (auto simp: pt_lookup_leaf_at)
    let ?P = "set (path_cells (mem m) l ?c ?ix)"
    have run: "walkPageTableR (\<lambda>c v l m. st c (ld m c OR push_bit 2 1) m) (\<lambda>c v l m. Inr 0) la l ?c ?m1
       = Inr (0, ?m1\<lparr>mem := (\<lambda>c. if c \<in> ?P then set_user (mem ?m1 c) else mem ?m1 c)\<rparr>)"
      unfolding pc[symmetric]
      by (rule Suc.IH[OF _ _ _ b]) (use tree_frame(2)[OF _ sc] E False Suc.prems(3) in auto)
    have "?a \<notin> ?P"
    proof
      assume "?a \<in> ?P"
      then obtain t j where t: "t \<in> tbls (mem m) l ?c" "j < 512" "?a = pte_at t j"
        using path_cells_in_tbls[where ix = ?ix, OF E(3,2)] False lin_index_bound by blast
      then have "t = root" using tbls_pg_ok[OF E(3) t(1)] ok False by simp
      then show False using t(1) E(4) False by simp
    qed
    then have "?m1\<lparr>mem := (\<lambda>c. if c \<in> ?P then set_user (mem ?m1 c) else mem ?m1 c)\<rparr>
        = m\<lparr>mem := (\<lambda>c. if c = ?a \<or> c \<in> ?P then set_user (mem m c) else mem m c)\<rparr>"
      by (auto simp: st_def fun_eq_iff)
    then show ?thesis
      using lf ex False nt cur run by (simp add: walk_step_def Let_def ld_def set_user_eq)
  qed
qed simp

section \<open>Properties\<close>

text \<open>
  C36. Looking up the cell of an address: in a well-formed tree \<open>addrToPTELamb\<close> returns an
  existing entry exactly when the address is mapped, and then it is the entry the
  translation ends at.
\<close>

theorem addrToPTELamb_iff:
  assumes "wf_pt (mem m) lvl root" "root \<noteq> 0" "1 \<le> lvl" "lvl \<le> 4"
  shows "(addrToPTELamb la root lvl m = Inr a \<and> pte_exists (mem m a)) \<longleftrightarrow>
     leaf_at (mem m) lvl root (lin_index la) = Some a"
proof
  assume "addrToPTELamb la root lvl m = Inr a \<and> pte_exists (mem m a)"
  then obtain m' where "walkPageTableR (\<lambda>_ _ _ m. m) (\<lambda>c v l m. Inr c) la lvl root m = Inr (a, m')" "pte_exists (mem m a)"
    by (auto simp: addrToPTELamb_def walkPageTable_def and_then_eq_Inr)
  then show "leaf_at (mem m) lvl root (lin_index la) = Some a" by (rule walk_result[OF assms])
next
  assume l: "leaf_at (mem m) lvl root (lin_index la) = Some a"
  have "pte_exists (mem m a)" using l by (induction lvl arbitrary: root) (auto simp: Let_def split: if_splits)
  then show "addrToPTELamb la root lvl m = Inr a \<and> pte_exists (mem m a)"
    using walk_found[OF assms(1,2,4) l] by (simp add: addrToPTELamb_def walkPageTable_def)
qed

lemma small_tree_va:
  assumes "pte_exists e"
  shows "leaf_at (small_tree e) 3 0x1000 (lin_index 0xFFFFC00040403ABC) = Some (pte_at 0x3000 3)"
proof -
  have "lin_index 0xFFFFC00040403ABC 3 = 1" "lin_index 0xFFFFC00040403ABC 2 = 2" "lin_index 0xFFFFC00040403ABC 1 = 3"
    by (simp_all add: lin_index_eq bf_get_def)
  then show ?thesis by (simp add: small_tree_leaf_at[OF assms])
qed

theorem addrToPTELamb_iff_witness:
  "addrToPTELamb 0xFFFFC00040403ABC 0x1000 3 (mach_of (small_tree (pte_build 0x4000 True True True True False)) [])
     = Inr (pte_at 0x3000 3)"
  using addrToPTELamb_iff[of "mach_of (small_tree (pte_build 0x4000 True True True True False)) []" 3 "0x1000"
      "0xFFFFC00040403ABC" "pte_at 0x3000 3"] small_tree_wf small_tree_va
  by (simp add: pte_simps)

text \<open>
  The user bit: for a mapped address \<open>setUserAllPTEsWalkLamb\<close> sets the bit in exactly
  the entries of the address's walk, changes nothing else in memory, and flushes the
  translation caches.
\<close>

theorem setUserAllPTEsWalkLamb_correct:
  assumes "wf_pt (mem m) lvl root" "root \<noteq> 0" "lvl \<le> 4"
    and "leaf_at (mem m) lvl root (lin_index la) = Some a"
  shows "setUserAllPTEsWalkLamb la root lvl m = Inr (m\<lparr>
     mem := (\<lambda>c. if c \<in> set (path_cells (mem m) lvl root (lin_index la)) then set_user (mem m c) else mem m c),
     tlb_log := tlb_log m @ [FlushAll]\<rparr>)"
  using walk_set_user[OF assms] by (simp add: setUserAllPTEsWalkLamb_def flushTranslationCaches_def)

theorem setUserAllPTEsWalkLamb_correct_witness:
  "\<exists>m'. setUserAllPTEsWalkLamb 0xFFFFC00040403ABC 0x1000 3
       (mach_of (small_tree (pte_build 0x4000 True True True False False)) []) = Inr m' \<and>
     pte_US (mem m' (pte_at 0x1000 1)) \<and> tlb_log m' = [FlushAll]"
proof -
  let ?m = "mach_of (small_tree (pte_build 0x4000 True True True False False)) []"
  have i: "lin_index 0xFFFFC00040403ABC 3 = 1" by (simp add: lin_index_eq bf_get_def)
  have "pte_at 0x1000 1 \<in> set (path_cells (mem ?m) 3 0x1000 (lin_index 0xFFFFC00040403ABC))"
    by (simp add: numeral_3_eq_3 Let_def i[unfolded numeral_3_eq_3])
  then show ?thesis
    using setUserAllPTEsWalkLamb_correct[of ?m 3 "0x1000" "0xFFFFC00040403ABC" "pte_at 0x3000 3"]
      small_tree_wf small_tree_va by (simp add: pte_simps mach_of_def)
qed

lemma physRec_found:
  assumes "wf_pt (mem m) lvl root" "root \<noteq> 0" "lvl \<le> 4" "leaf_at (mem m) lvl root (lin_index la) = Some a"
  shows "getPhysAddrRecHelper junk la lvl root m = Inr (injectOffset junk la 1)"
  using assms
proof (induction lvl arbitrary: root)
  case (Suc l)
  let ?a = "pte_at root (lin_index la (Suc l))"
  have i: "lin_index la (Suc l) < 512" by simp
  have ex: "pte_exists (mem m ?a)" using Suc.prems(2,4) by (auto simp: Let_def split: if_splits)
  note lf = wf_isLeaf[OF Suc.prems(1,2) i ex]
  show ?case
  proof (cases "l = 0")
    case True
    have "nextTableOrFrame m root (lin_index la (Suc l)) (Suc l) = Inr (ent_addr (mem m ?a))"
      using ex True by (subst nextTableOrFrame_small) auto
    then show ?thesis using ex lf True by (simp add: ld_def)
  next
    case False
    note E = wf_pt_entry[OF Suc.prems(1,2) _ i ex]
    have "nextTableOrFrame m root (lin_index la (Suc l)) (Suc l) = Inr (ent_addr (mem m ?a))"
      using ex E(1) False Suc.prems(3) by (subst nextTableOrFrame_small) auto
    moreover have "leaf_at (mem m) l (ent_addr (mem m ?a)) (lin_index la) = Some a"
      using Suc.prems(2,4) ex lf False by (simp add: Let_def)
    ultimately show ?thesis using Suc.IH[OF E(3,2)] Suc.prems(3) False lf ex by (simp add: ld_def)
  qed
qed simp

text \<open>
  What the two physical-address queries return for a mapped address: the page offset of
  the address in the low 12 bits and, above it, the bits of the uninitialised local of
  \<open>injectOffset\<close>. The frame of the entry does not reach the result.
\<close>

theorem getPhysAddr_loses_frame:
  assumes "wf_pt (mem m) lvl root" "root \<noteq> 0" "1 \<le> lvl" "lvl < 4"
    and "leaf_at (mem m) lvl root (lin_index la) = Some a"
  shows "getPhysAddrLamb junk la root lvl m = Inr (bf_set 0 12 (bf_get 0 12 la) junk) \<and>
     getPhysAddrRec junk la root lvl m = Inr (bf_set 0 12 (bf_get 0 12 la) junk)"
proof
  have ex: "pte_exists (mem m a)" using assms(5)
    by (induction lvl arbitrary: root) (auto simp: Let_def split: if_splits)
  have j: "injectOffset junk la 1 = bf_set 0 12 (bf_get 0 12 la) junk"
    by (simp add: injectOffset_def level_defs)
  have "nextTableOrFrame m a 0 1 = Inr (ent_addr (mem m a))"
    using ex nextTableOrFrame_small[of m a 0 1] by (simp add: pte_at_def)
  then show "getPhysAddrLamb junk la root lvl m = Inr (bf_set 0 12 (bf_get 0 12 la) junk)"
    using walk_found[OF assms(1,2) _ assms(5)] assms(4) j by (simp add: getPhysAddrLamb_def walkPageTable_def)
  show "getPhysAddrRec junk la root lvl m = Inr (bf_set 0 12 (bf_get 0 12 la) junk)"
    using physRec_found[OF assms(1,2) _ assms(5), of junk] assms(2-4) j
    by (simp add: getPhysAddrRec_def level_defs)
qed

theorem getPhysAddr_loses_frame_witness:
  "getPhysAddrLamb 0 0xFFFFC00040403ABC 0x1000 3 (mach_of (small_tree (pte_build 0x4000 True True True True False)) [])
     = Inr 0xABC"
  using getPhysAddr_loses_frame[of "mach_of (small_tree (pte_build 0x4000 True True True True False)) []" 3 "0x1000"
      "0xFFFFC00040403ABC" "pte_at 0x3000 3" 0] small_tree_wf small_tree_va
  by (simp add: pte_simps bf_set_def bf_get_def)

text \<open>
  Round trip: after a page has been mapped at an address, looking the address up in the
  resulting tree returns a cell that holds the entry built for the page.
\<close>

theorem map_then_lookup:
  assumes "wf_pt (mem m) lvl root" "1 \<le> lvl" "lvl \<le> rootLvl" "rootLvl \<le> 4"
    and "fresh_pages lvl m (tbls (mem m) lvl root)" "pg_ok phys"
  shows "\<exists>root' m' a. mapIntoPgTbl root phys virt rootLvl 1 lvl wrFault rdPerm xd m = Inr (root', m') \<and>
     addrToPTELamb virt root' lvl m' = Inr a \<and> mem m' a = pte_build phys wrFault True rdPerm True xd"
proof -
  let ?e = "pte_build phys wrFault True rdPerm True xd"
  have "leaf_stable (\<lambda>_. setPte phys wrFault True rdPerm True xd) m (set (take lvl (answers m))) ?e"
    by (simp add: leaf_stable_def setPte_ok assms(6))
  from install_ok[OF assms(1) _ assms(3-5) this pte_exists_build, of virt] assms(2) obtain root' m' n where
    run: "install (\<lambda>_. setPte phys wrFault True rdPerm True xd) virt rootLvl 1 lvl root m = Inr (root', m')"
    and inst: "installed ?e virt lvl root m root' m' n" by auto
  note I = installedD[OF inst]
  have "pt_lookup (mem m') lvl root' (lin_index virt) = Some ?e" by (subst I(8)) (simp_all add: same_path_def)
  then obtain a where a: "leaf_at (mem m') lvl root' (lin_index virt) = Some a" "mem m' a = ?e"
    by (auto simp: pt_lookup_leaf_at)
  have "lvl \<le> 4" using assms(3,4) by simp
  from walk_found[OF I(5,3) this a(1)] have "addrToPTELamb virt root' lvl m' = Inr a"
    by (simp add: addrToPTELamb_def walkPageTable_def)
  then show ?thesis using run a(2)
    by (intro exI[of _ root'] exI[of _ m'] exI[of _ a]) (simp add: mapIntoPgTbl_def mapIntoPgTblHelper_def)
qed

theorem map_then_lookup_witness:
  "\<exists>root' m' a. mapIntoPgTbl 0 0x9000 0xFFFFC00000403000 3 1 3 True True False
       (mach_of (\<lambda>_. 0) [0x1000, 0x2000, 0x3000]) = Inr (root', m') \<and>
     addrToPTELamb 0xFFFFC00000403000 root' 3 m' = Inr a \<and> mem m' a = pte_build 0x9000 True True True True False"
  by (rule map_then_lookup) (simp_all add: fresh_pages_def pg_ok_small)

end
