(* ===== verification/Umm_Instance.thy ===== *)
theory Umm_Instance
  imports Umm_Sv Umm_Walk
begin

text \<open>
  Executable instances, \<open>UmInstance\<close> (\<^verbatim>\<open>src/src/UmInstance.h\<close>, \<^verbatim>\<open>UmInstance.cc\<close>), without
  the parts that need the manager, and the resolution of a page fault, the part of
  \<open>UmManager::process_pagefault\<close> that works on the instance and the page table.

  Time points and durations are counts of nanoseconds in 64 bits with a sign, as in
  \<open>std::chrono\<close>, 0 being the default-constructed point; an addition that leaves that range is
  undefined. \<open>u_timer_due\<close> is the time before which EbbRT does not call \<open>Fire\<close>: that at which the
  timer was started and the duration it was given. \<open>u_context\<close> says that the pointer \<open>context_\<close> is
  not null. A packet is a chain of buffers, each the list of its bytes. \<open>u_snap_p\<close> is the promise of \<open>SetCheckpoint\<close>: \<open>None\<close> while the pointer is not set, then the list of the
  state vectors it has been given.
\<close>

section \<open>State\<close>

record pfc =
  pgFaults :: u64
  rdFaults :: u64
  wrFaults :: u64
  cowFaults :: u64

record umi =
  u_id :: u32
  u_sv :: sv
  u_pfc :: pfc
  u_caller_frame :: eframe
  u_fnStack :: u64
  u_src_ports :: "u16 list"
  u_snap_addr :: u64
  u_snap_p :: "sv list option"
  u_active :: bool
  u_blocked :: bool
  u_timer_set :: bool
  u_time_wait :: int
  u_timer_due :: int
  u_context :: bool
  u_recv_queue :: "u8 list list list"
  u_bi :: u64

definition pfc_zero :: pfc where
  "pfc_zero = \<lparr>pgFaults = 0, rdFaults = 0, wrFaults = 0, cowFaults = 0\<rparr>"

text \<open>The constructor copies the state vector and takes the next id (\<open>++umi_id_next_\<close>).\<close>

definition UmInstance_new :: "sv \<Rightarrow> u32 \<Rightarrow> mach \<Rightarrow> (umi \<times> u32 \<times> mach) res" where
  "UmInstance_new s umi_id_next m =
     and_then (UmSV_copy s m) (\<lambda>(s', m').
       let i = umi_id_next + 1 in
       Inr (\<lparr>u_id = i, u_sv = s', u_pfc = pfc_zero, u_caller_frame = ef_zero, u_fnStack = 0,
         u_src_ports = [], u_snap_addr = 0, u_snap_p = None, u_active = True, u_blocked = False,
         u_timer_set = False, u_time_wait = 0, u_timer_due = 0, u_context = False, u_recv_queue = [], u_bi = 0\<rparr>, i, m'))"

section \<open>Simple operations\<close>

definition Id :: "umi \<Rightarrow> u32" where "Id u = u_id u"
definition IsActive :: "umi \<Rightarrow> bool" where "IsActive u = u_active u"
definition IsInactive :: "umi \<Rightarrow> bool" where "IsInactive u = (\<not> u_active u)"
definition HasData :: "umi \<Rightarrow> bool" where "HasData u = (u_recv_queue u \<noteq> [])"

definition SetActive :: "umi \<Rightarrow> umi" where
  "SetActive u = (if \<not> u_active u then u\<lparr>u_active := True\<rparr> else u)"

definition SetInactive :: "umi \<Rightarrow> umi" where
  "SetInactive u = (if u_active u then u\<lparr>u_active := False\<rparr> else u)"

definition SetCheckpoint :: "u64 \<Rightarrow> umi \<Rightarrow> umi res" where
  "SetCheckpoint vaddr u = kassert (u_snap_addr u = 0) (Inr (u\<lparr>u_snap_addr := vaddr, u_snap_p := Some []\<rparr>))"

definition logFault :: "u64 \<Rightarrow> umi \<Rightarrow> umi" where
  "logFault ec u =
     (let c = (u_pfc u)\<lparr>pgFaults := pgFaults (u_pfc u) + 1\<rparr> in
      u\<lparr>u_pfc :=
        (if ec_WR ec then
           (if ec_P ec then c\<lparr>cowFaults := cowFaults c + 1\<rparr> else c\<lparr>wrFaults := wrFaults c + 1\<rparr>)
         else c\<lparr>rdFaults := rdFaults c + 1\<rparr>)\<rparr>)"

definition ZeroPFCs_umi :: "umi \<Rightarrow> umi" where
  "ZeroPFCs_umi u = u\<lparr>u_sv := ZeroPFCs (u_sv u), u_pfc := pfc_zero\<rparr>"

text \<open>
  \<open>ReadPacket\<close>: a packet whose buffers together fit is taken from the queue. Of a longer one
  \<open>len\<close> bytes are copied out (\<open>UmProxy::raw_to_iobuf\<close>, which wants more than an Ethernet
  header), starting at its first buffer, which is then advanced by \<open>len\<close>; the code does not look
  whether that buffer has as many, and to read behind its end is undefined.
\<close>

definition sizeof_EthernetHeader :: nat where "sizeof_EthernetHeader = 14"

definition raw_to_iobuf :: "u8 list \<Rightarrow> nat \<Rightarrow> u8 list res" where
  "raw_to_iobuf data len =
     kassert (sizeof_EthernetHeader < len) (if len \<le> length data then Inr (take len data) else Inl Undef)"

definition ComputeChainDataLength :: "u8 list list \<Rightarrow> nat" where "ComputeChainDataLength p = length (concat p)"

definition ReadPacket :: "nat \<Rightarrow> umi \<Rightarrow> (u8 list list option \<times> umi) res" where
  "ReadPacket len u =
     (case u_recv_queue u of
        [] \<Rightarrow> Inr (None, u)
      | p # ps \<Rightarrow>
          if ComputeChainDataLength p \<le> len then Inr (Some p, u\<lparr>u_recv_queue := ps\<rparr>)
          else and_then (raw_to_iobuf (hd p) len) (\<lambda>b. Inr (Some [b], u\<lparr>u_recv_queue := (drop len (hd p) # tl p) # ps\<rparr>)))"

section \<open>Timers\<close>

definition in_int64 :: "int \<Rightarrow> bool" where "in_int64 t \<longleftrightarrow> - (2 ^ 63) \<le> t \<and> t < 2 ^ 63"

text \<open>\<open>std::chrono::nanoseconds(ns)\<close> of an unsigned number, and the sum and difference of times.\<close>

definition nanoseconds :: "u64 \<Rightarrow> int" where "nanoseconds ns = sint ns"

definition chrono :: "int \<Rightarrow> int res" where "chrono t = (if in_int64 t then Inr t else Inl Undef)"

text \<open>
  The timer gets the time to wait in whole microseconds, cut off (the difference is positive).
\<close>

definition enable_timer :: "int \<Rightarrow> umi \<Rightarrow> umi res" where
  "enable_timer now u =
     (if u_timer_set u \<or> now \<ge> u_time_wait u then Inr u
      else and_then (chrono (u_time_wait u - now)) (\<lambda>d.
        let duration = d div 1000 in Inr (u\<lparr>u_timer_due := now + 1000 * duration, u_timer_set := True\<rparr>)))"

definition disable_timer :: "umi \<Rightarrow> umi" where
  "disable_timer u = u\<lparr>u_timer_set := False, u_time_wait := 0\<rparr>"

section \<open>The backing page of a fault\<close>

text \<open>The frame the hardware translates a slot address to, through the top-level table.\<close>

definition mmu :: "mach \<Rightarrow> u64 \<Rightarrow> u64 option" where
  "mmu m va = map_option ent_addr (pt_lookup (mem m) 4 (getPML4Root m) (lin_index va))"

definition kPageSize :: u64 where "kPageSize = 4096"

text \<open>
  The copy-on-write case reads the old page through its slot address, that is through the
  current translation; a fault inside the handler (no translation) is left undefined.
\<close>

definition fill_page :: "region \<Rightarrow> u64 \<Rightarrow> u64 \<Rightarrow> u64 \<Rightarrow> mach \<Rightarrow> mach res" where
  "fill_page reg v_pg_start ec bp m =
     (if isPresent ec \<and> isWriteFault ec then
        (case mmu m v_pg_start of None \<Rightarrow> Inl Undef | Some f \<Rightarrow> Inr (memcpy bp f kPageSize m))
      else if r_data reg \<noteq> 0 then Inr (memcpy bp (r_data reg + GetOffset reg v_pg_start) kPageSize m)
      else if r_name reg = ''.bss'' \<or> r_name reg = ''usr'' then Inr (memset0 bp kPageSize m)
      else Inl KAbort)"

definition GetBackingPage :: "u64 \<Rightarrow> u64 \<Rightarrow> umi \<Rightarrow> mach \<Rightarrow> (u64 \<times> umi \<times> mach) res" where
  "GetBackingPage v_pg_start ec u m =
     and_then (GetRegionOfAddr (sv_regions (u_sv u)) v_pg_start) (\<lambda>i.
       let regs = sv_regions (u_sv u);
           reg = (regs ! i)\<lparr>r_count := r_count (regs ! i) + 1\<rparr>;
           u1 = u\<lparr>u_sv := (u_sv u)\<lparr>sv_regions := regs[i := reg]\<rparr>\<rparr>
       in kassert (r_page_order reg = 0)
         (if isWriteFault ec \<and> \<not> r_writable reg then Inl Hang
          else if \<not> r_writable reg then
            (if \<not> (r_name reg = ''.text'' \<or> r_name reg = ''.rodata'') then Inl Hang
             else let elf_pg_addr = r_data reg + GetOffset reg v_pg_start in
               kassert (elf_pg_addr mod push_bit 12 1 = 0) (Inr (elf_pg_addr, u1, m)))
          else
            and_then (page_alloc m) (\<lambda>(bp, m1).
            and_then (fill_page reg v_pg_start ec bp m1) (\<lambda>m2. Inr (bp, u1, m2)))))"

section \<open>Resolving a fault\<close>

definition getSlotPML4PTE :: "mach \<Rightarrow> u64" where "getSlotPML4PTE m = pte_at (getPML4Root m) kSlotPML4Offset"

definition mgr_getSlotPDPTRoot :: "mach \<Rightarrow> u64 res" where
  "mgr_getSlotPDPTRoot m =
     (let e = ld m (pte_at (getPML4Root m) kSlotPML4Offset) in
      if \<not> pte_exists e then Inr 0 else pageTabEntToAddr e PML4_LEVEL)"

definition setSlotPDPTRoot :: "u64 \<Rightarrow> mach \<Rightarrow> mach res" where
  "setSlotPDPTRoot newRoot m =
     kassert (newRoot \<noteq> 0)
       (and_then (setPte newRoot False True True True False) (\<lambda>e. Inr (st (getSlotPML4PTE m) e m)))"

definition map_fault :: "region \<Rightarrow> u64 \<Rightarrow> u64 \<Rightarrow> u64 \<Rightarrow> mach \<Rightarrow> mach res" where
  "map_fault reg phys virt ec m =
     (let slotRoot = getSlotRoot m in
      and_then (if ld m slotRoot = 0
                then and_then (mgr_getSlotPDPTRoot m) (\<lambda>r. kassert (r = 0) (Inr ())) else Inr ()) (\<lambda>_.
      let dirty = isWriteFault ec;
          readWrite = r_writable reg;
          execDisable = (if r_name reg = ''.text'' \<or> r_name reg = ''usr'' then False else True)
      in and_then (mgr_getSlotPDPTRoot m) (\<lambda>r.
         and_then (mapIntoPgTbl r phys virt PDPT_LEVEL TBL_LEVEL PDPT_LEVEL dirty readWrite execDisable m) (\<lambda>(pdpt, m1).
         and_then (if ld m1 slotRoot = 0
                   then and_then (setPte pdpt False True True True False) (\<lambda>e. Inr (st slotRoot e m1))
                   else Inr m1) (\<lambda>m2.
         Inr (if isPresent ec \<and> isWriteFault ec then invlpg virt m2 else m2))))))"

text \<open>\<open>process_pagefault\<close> after its three assertions, on the active instance and the machine.\<close>

definition resolve_fault :: "u64 \<Rightarrow> u64 \<Rightarrow> umi \<Rightarrow> mach \<Rightarrow> (umi \<times> mach) res" where
  "resolve_fault vaddr ec u m =
     (let u1 = logFault ec u; virt = pfn_down vaddr in
      and_then (GetBackingPage virt ec u1 m) (\<lambda>(phys, u2, m1).
      and_then (GetRegionOfAddr (sv_regions (u_sv u2)) virt) (\<lambda>i.
      and_then (map_fault (sv_regions (u_sv u2) ! i) phys virt ec m1) (\<lambda>m2. Inr (u2, m2)))))"

section \<open>The slot of the address space\<close>

definition slot_root :: "mach \<Rightarrow> u64" where
  "slot_root m = (let e = mem m (getSlotRoot m) in if pte_exists e then ent_addr e else 0)"

text \<open>
  The slot's entry of the top-level table is empty or leads to a well-formed tree that does
  not contain the top-level table.
\<close>

definition slot_ok :: "mach \<Rightarrow> bool" where
  "slot_ok m \<longleftrightarrow> getPML4Root m \<noteq> 0 \<and>
     (mem m (getSlotRoot m) = 0 \<or>
        pte_exists (mem m (getSlotRoot m)) \<and> \<not> pte_MAPS (mem m (getSlotRoot m)) \<and> slot_root m \<noteq> 0) \<and>
     wf_pt (mem m) 3 (slot_root m) \<and> getPML4Root m \<notin> tbls (mem m) 3 (slot_root m)"

lemma slot_okD:
  assumes "slot_ok m"
  shows "getPML4Root m \<noteq> 0" "wf_pt (mem m) 3 (slot_root m)" "getPML4Root m \<notin> tbls (mem m) 3 (slot_root m)"
    "slot_root m = 0 \<longleftrightarrow> mem m (getSlotRoot m) = 0"
    "mem m (getSlotRoot m) \<noteq> 0 \<Longrightarrow> pte_exists (mem m (getSlotRoot m)) \<and> \<not> pte_MAPS (mem m (getSlotRoot m))"
  using assms unfolding slot_ok_def slot_root_def by (auto simp: Let_def)

lemma pg_ok_PML4 [simp]: "pg_ok (getPML4Root m)"
  by (simp add: getPML4Root_def cr3ToAddr_eq)

lemma slot_cell: "getSlotRoot m = pte_at (getPML4Root m) 0x180" "getSlotPML4PTE m = getSlotRoot m"
  by (simp_all add: getSlotRoot_def getSlotPML4PTE_def kSlotPML4Offset_def)

lemma mgr_getSlotPDPTRoot_eq: "mgr_getSlotPDPTRoot m = Inr (slot_root m)"
  by (simp add: mgr_getSlotPDPTRoot_def slot_root_def Let_def ld_def slot_cell kSlotPML4Offset_def
      pageTabEntToAddr_small PML4_LEVEL_def)

lemma mmu_slot:
  assumes "slot_ok m" "lin_index va 4 = 0x180"
  shows "mmu m va = map_option ent_addr (pt_lookup (mem m) 3 (slot_root m) (lin_index va))"
proof -
  have "pt_lookup (mem m) 4 (getPML4Root m) (lin_index va) = pt_lookup (mem m) 3 (slot_root m) (lin_index va)"
    using slot_okD(1,5)[OF assms(1)] assms(2) pt_lookup.simps(2)[of "mem m" 3 "getPML4Root m" "lin_index va"]
    by (cases "mem m (getSlotRoot m) = 0")
      (auto simp: slot_root_def Let_def slot_cell isLeaf_above eval_nat_numeral(3)[of "num.Bit1 num.One"])
  then show ?thesis by (simp add: mmu_def)
qed

text \<open>What mapping one page into the slot achieves.\<close>

definition slot_mapped :: "u64 \<Rightarrow> u64 \<Rightarrow> mach \<Rightarrow> mach \<Rightarrow> bool" where
  "slot_mapped e virt m m' \<longleftrightarrow> slot_ok m' \<and> slot_root m' \<noteq> 0 \<and> getPML4Root m' = getPML4Root m \<and>
     (slot_root m \<noteq> 0 \<longrightarrow> slot_root m' = slot_root m) \<and>
     (slot_root m = 0 \<or> acc_below (mem m) 3 (slot_root m) \<longrightarrow> acc_below (mem m') 3 (slot_root m')) \<and>
     (\<forall>ix. (\<forall>j. ix j < 512) \<longrightarrow> pt_lookup (mem m') 3 (slot_root m') ix =
        (if same_path 3 virt ix then Some e else pt_lookup (mem m) 3 (slot_root m) ix)) \<and>
     (\<exists>n \<le> 3. answers m' = drop n (answers m) \<and>
        tbls (mem m') 3 (slot_root m') = tbls (mem m) 3 (slot_root m) \<union> set (take n (answers m))) \<and>
     (\<forall>t j. pg_ok t \<longrightarrow> j < 512 \<longrightarrow> t \<notin> tbls (mem m') 3 (slot_root m') \<longrightarrow>
        \<not> (t = getPML4Root m \<and> j = 0x180) \<longrightarrow> mem m' (pte_at t j) = mem m (pte_at t j))"

lemma slot_mappedD:
  assumes "slot_mapped e virt m m'"
  shows "slot_ok m'" "slot_root m' \<noteq> 0" "getPML4Root m' = getPML4Root m"
    "(\<And>j. ix j < 512) \<Longrightarrow> pt_lookup (mem m') 3 (slot_root m') ix =
        (if same_path 3 virt ix then Some e else pt_lookup (mem m) 3 (slot_root m) ix)"
    "tbls (mem m') 3 (slot_root m') \<subseteq> tbls (mem m) 3 (slot_root m) \<union> set (take 3 (answers m))"
    "pg_ok t \<Longrightarrow> j < 512 \<Longrightarrow> t \<notin> tbls (mem m') 3 (slot_root m') \<Longrightarrow>
        \<not> (t = getPML4Root m \<and> j = 0x180) \<Longrightarrow> mem m' (pte_at t j) = mem m (pte_at t j)"
    "slot_root m \<noteq> 0 \<Longrightarrow> slot_root m' = slot_root m"
    "slot_root m = 0 \<or> acc_below (mem m) 3 (slot_root m) \<Longrightarrow> acc_below (mem m') 3 (slot_root m')"
proof -
  note S = assms[unfolded slot_mapped_def]
  obtain n where "n \<le> 3" "tbls (mem m') 3 (slot_root m') = tbls (mem m) 3 (slot_root m) \<union> set (take n (answers m))"
    using S by blast
  then show "tbls (mem m') 3 (slot_root m') \<subseteq> tbls (mem m) 3 (slot_root m) \<union> set (take 3 (answers m))"
    using set_take_subset_set_take[of n 3 "answers m"] by auto
qed (use assms[unfolded slot_mapped_def] in blast)+

lemma slot_ok_frame:
  assumes "slot_ok m" "cr3 m' = cr3 m"
    and "\<And>t j. pg_ok t \<Longrightarrow> j < 512 \<Longrightarrow> t = getPML4Root m \<or> t \<in> tbls (mem m) 3 (slot_root m) \<Longrightarrow>
           mem m' (pte_at t j) = mem m (pte_at t j)"
  shows "slot_root m' = slot_root m" "slot_ok m'"
proof -
  have R: "getPML4Root m' = getPML4Root m" using assms(2) by (simp add: getPML4Root_def)
  have cell: "mem m' (getSlotRoot m') = mem m (getSlotRoot m)" using assms(3) by (simp add: slot_cell R)
  then show r: "slot_root m' = slot_root m" by (simp add: slot_root_def)
  have "same_cells (mem m) (mem m') (tbls (mem m) 3 (slot_root m))" using assms(3) by (auto simp: same_cells_def)
  from tree_frame(1,2)[OF slot_okD(2)[OF assms(1)] this] show "slot_ok m'"
    using assms(1) unfolding slot_ok_def r R cell by auto
qed

lemma slot_frame:
  assumes "slot_ok m"
    and "\<And>t j. pg_ok t \<Longrightarrow> j < 512 \<Longrightarrow> t \<in> tbls (mem m) 3 (slot_root m) \<Longrightarrow>
           mem m' (pte_at t j) = mem m (pte_at t j)"
  shows "tbls (mem m') 3 (slot_root m) = tbls (mem m) 3 (slot_root m)"
    "(\<And>j. ix j < 512) \<Longrightarrow> pt_lookup (mem m') 3 (slot_root m) ix = pt_lookup (mem m) 3 (slot_root m) ix"
proof -
  have same: "same_cells (mem m) (mem m') (tbls (mem m) 3 (slot_root m))"
    using assms(2) by (auto simp: same_cells_def)
  show "tbls (mem m') 3 (slot_root m) = tbls (mem m) 3 (slot_root m)"
    "(\<And>j. ix j < 512) \<Longrightarrow> pt_lookup (mem m') 3 (slot_root m) ix = pt_lookup (mem m) 3 (slot_root m) ix"
    using tree_frame(1,3)[OF slot_okD(2)[OF assms(1)] same] by auto
qed

lemma slot_install:
  assumes ok: "slot_ok m"
    and inst: "installed e virt 3 (slot_root m) m root' m1 n"
    and fresh: "getPML4Root m \<notin> set (take n (answers m))"
    and m2: "m2 = (if mem m (getSlotRoot m) = 0 then st (getSlotRoot m) (pte_build root' False True True True False) m1 else m1)"
  shows "mem m1 (getSlotRoot m) = mem m (getSlotRoot m)" "slot_mapped e virt m m2"
proof -
  note I = installedD[OF inst] and O = slot_okD[OF ok]
  let ?R = "getPML4Root m"
  have cr: "cr3 m1 = cr3 m" using arg_cong[OF I(7), of cr3] by simp
  have RT: "?R \<notin> tbls (mem m1) 3 root'" using I(6) O(3) fresh by auto
  have old: "mem m1 (pte_at ?R j) = mem m (pte_at ?R j)" if "j < 512" for j
    using I(10)[of ?R j] that RT by simp
  then show c1: "mem m1 (getSlotRoot m) = mem m (getSlotRoot m)" by (simp add: slot_cell)
  have R2: "getPML4Root m2 = ?R" using cr by (simp add: m2 getPML4Root_def mach_simps)
  have sr2: "getSlotRoot m2 = getSlotRoot m" by (simp add: slot_cell R2)
  have pr: "pg_ok root'" using I(3,5) wf_pt_pg_ok by simp
  have cell2: "pte_exists (mem m2 (getSlotRoot m)) \<and> \<not> pte_MAPS (mem m2 (getSlotRoot m)) \<and> ent_addr (mem m2 (getSlotRoot m)) = root'"
  proof (cases "mem m (getSlotRoot m) = 0")
    case True
    then show ?thesis by (simp add: m2 st_def pte_simps pr)
  next
    case False
    then have "root' = slot_root m" using I(4) O(4) by blast
    then show ?thesis using False O(5) c1 by (simp add: m2 slot_root_def Let_def)
  qed
  then have root2: "slot_root m2 = root'" by (simp add: slot_root_def sr2 Let_def)
  have cells: "mem m2 (pte_at t j) = mem m1 (pte_at t j)" if "pg_ok t" "j < 512" "\<not> (t = ?R \<and> j = 0x180)" for t j
  proof (cases "t = ?R")
    case True
    then show ?thesis using that by (simp add: m2 slot_cell kSlotPML4Offset_def st_def)
  qed (use that in \<open>simp add: m2 slot_cell st_def\<close>)
  have "same_cells (mem m1) (mem m2) (tbls (mem m1) 3 root')"
    using cells RT unfolding same_cells_def by blast
  note F = tree_frame[OF I(5) this]
  have ok2: "slot_ok m2"
    unfolding slot_ok_def R2 sr2 root2 using O(1) cell2 F(1,2) I(3) RT by simp
  show "slot_mapped e virt m m2"
    unfolding slot_mapped_def root2
  proof (intro conjI)
    show "\<exists>n' \<le> 3. answers m2 = drop n' (answers m) \<and>
        tbls (mem m2) 3 root' = tbls (mem m) 3 (slot_root m) \<union> set (take n' (answers m))"
      using I(1,2,6) F(1) by (intro exI[of _ n]) (simp add: m2 mach_simps)
    show "\<forall>t j. pg_ok t \<longrightarrow> j < 512 \<longrightarrow> t \<notin> tbls (mem m2) 3 root' \<longrightarrow> \<not> (t = ?R \<and> j = 0x180) \<longrightarrow>
        mem m2 (pte_at t j) = mem m (pte_at t j)"
      using cells I(10) F(1) by simp
  qed (use ok2 R2 I(3,4,8,9) F(3,4) in auto)
qed

lemma slot_mapped_invlpg: "slot_mapped e virt m (invlpg va m') = slot_mapped e virt m m'"
proof -
  have eq: "mem (invlpg va m') = mem m'" "getPML4Root (invlpg va m') = getPML4Root m'" "answers (invlpg va m') = answers m'"
    by (simp_all add: mach_simps getPML4Root_def)
  then have "getSlotRoot (invlpg va m') = getSlotRoot m'" by (simp add: slot_cell)
  with eq show ?thesis unfolding slot_mapped_def slot_ok_def slot_root_def by presburger
qed

lemma slot_mapped_if_invlpg:
  "slot_mapped e virt m (if b then invlpg va m' else m') = slot_mapped e virt m m'"
  by (simp add: slot_mapped_invlpg)

lemma map_fault_ok:
  assumes ok: "slot_ok m" and fresh: "fresh_pages 3 m (insert (getPML4Root m) (tbls (mem m) 3 (slot_root m)))"
    and phys: "pg_ok phys"
  shows "\<exists>m'. map_fault reg phys virt ec m = Inr m' \<and>
     slot_mapped (pte_build phys (isWriteFault ec) True (r_writable reg) True
        (if r_name reg = ''.text'' \<or> r_name reg = ''usr'' then False else True)) virt m m'"
proof -
  obtain xd where xd: "(if r_name reg = ''.text'' \<or> r_name reg = ''usr'' then False else True) = xd" by blast
  let ?leaf = "\<lambda>_ :: mach. setPte phys (isWriteFault ec) True (r_writable reg) True xd"
  let ?e = "pte_build phys (isWriteFault ec) True (r_writable reg) True xd"
  have stable: "leaf_stable ?leaf m (set (take 3 (answers m))) ?e" by (simp add: leaf_stable_def setPte_ok phys)
  have fr: "fresh_pages 3 m (tbls (mem m) 3 (slot_root m))" by (rule fresh_pages_mono[OF fresh]) auto
  have "\<exists>root' m1 n. install ?leaf virt 3 1 3 (slot_root m) m = Inr (root', m1) \<and>
      installed ?e virt 3 (slot_root m) m root' m1 n"
    by (rule install_ok[OF slot_okD(2)[OF ok] _ _ _ fr stable pte_exists_build]) simp_all
  then obtain root' m1 n where run: "install ?leaf virt 3 1 3 (slot_root m) m = Inr (root', m1)"
    and inst: "installed ?e virt 3 (slot_root m) m root' m1 n" by blast
  have "set (take n (answers m)) \<subseteq> set (take 3 (answers m))"
    using installedD(1)[OF inst] by (rule set_take_subset_set_take)
  then have nf: "getPML4Root m \<notin> set (take n (answers m))" using fresh unfolding fresh_pages_def by auto
  define m2 where "m2 = (if mem m (getSlotRoot m) = 0 then st (getSlotRoot m) (pte_build root' False True True True False) m1 else m1)"
  note SI = slot_install[OF ok inst nf m2_def]
  let ?m3 = "if isPresent ec \<and> isWriteFault ec then invlpg virt m2 else m2"
  have sp: "setPte root' False True True True False = Inr (pte_build root' False True True True False)"
    using installedD(3,5)[OF inst] wf_pt_pg_ok by (intro setPte_ok) simp
  have go: "(if mem m1 (getSlotRoot m) = 0 then and_then (setPte root' False True True True False)
        (\<lambda>e. Inr (st (getSlotRoot m) e m1)) else Inr m1) = Inr m2"
    by (simp add: SI(1) m2_def sp)
  have first: "(if mem m (getSlotRoot m) = 0 then kassert (slot_root m = 0) (Inr ()) else Inr ())
      = Inr ()"
    using slot_okD(4)[OF ok] by simp
  have lv: "PDPT_LEVEL = 3" "TBL_LEVEL = 1" by (simp_all add: level_defs)
  have "map_fault reg phys virt ec m = Inr ?m3"
    unfolding map_fault_def Let_def ld_def mgr_getSlotPDPTRoot_eq mapIntoPgTbl_def mapIntoPgTblHelper_def xd lv
      and_then_Inr run prod.case go first ..
  moreover have "slot_mapped ?e virt m ?m3"
    using SI(2) by (rule slot_mapped_if_invlpg[THEN iffD2])
  ultimately show ?thesis unfolding xd by blast
qed

section \<open>Faults\<close>

lemma pfn_down_mod: "pfn_down a = a \<Longrightarrow> a mod push_bit 12 1 = 0"
proof -
  assume "pfn_down a = a"
  then have "bit a k \<Longrightarrow> 12 \<le> k" for k using bit_pfn_down[of a k] by simp
  then have "take_bit 12 a = 0" by (intro bit_word_eqI) (auto simp: bit_take_bit_iff simp flip: not_le)
  then show ?thesis by (simp add: take_bit_eq_mod)
qed

text \<open>What the backing page of a fault holds: the old page, the image's page, or zeros.\<close>

definition fault_source :: "region \<Rightarrow> u64 \<Rightarrow> u64 \<Rightarrow> mach \<Rightarrow> (nat \<Rightarrow> u64) option" where
  "fault_source reg v ec m =
     (if isPresent ec \<and> isWriteFault ec then map_option (\<lambda>f j. mem m (pte_at f j)) (mmu m v)
      else if r_data reg \<noteq> 0 then Some (\<lambda>j. mem m (r_data reg + GetOffset reg v + 8 * of_nat j))
      else if r_name reg = ''.bss'' \<or> r_name reg = ''usr'' then Some (\<lambda>_. 0) else None)"

lemma pte_at_diff: "pte_at p j - p = 8 * of_nat j"
  by (simp add: pte_at_def)

lemma mmu_set_answers [simp]: "mmu (m\<lparr>answers := ps\<rparr>) v = mmu m v"
  by (simp add: mmu_def getPML4Root_def)

lemma fill_page_ok:
  assumes "fault_source reg v ec m = Some c" "pg_ok p"
  shows "\<exists>h. fill_page reg v ec p (m\<lparr>answers := ps\<rparr>) = Inr (m\<lparr>answers := ps, mem := h\<rparr>) \<and>
     (\<forall>j < 512. h (pte_at p j) = c j) \<and>
     (\<forall>t j. pg_ok t \<longrightarrow> j < 512 \<longrightarrow> t \<noteq> p \<longrightarrow> h (pte_at t j) = mem m (pte_at t j))"
proof -
  have copy: "\<exists>h. memcpy p s 4096 (m\<lparr>answers := ps\<rparr>) = m\<lparr>answers := ps, mem := h\<rparr> \<and>
     (\<forall>j < 512. h (pte_at p j) = mem m (s + 8 * of_nat j)) \<and>
     (\<forall>t j. pg_ok t \<longrightarrow> j < 512 \<longrightarrow> t \<noteq> p \<longrightarrow> h (pte_at t j) = mem m (pte_at t j))" for s
    using assms(2)
    by (intro exI[of _ "mem (memcpy p s 4096 (m\<lparr>answers := ps\<rparr>))"]) (simp add: memcpy_def pte_at_diff)
  have zero: "\<exists>h. memset0 p 4096 (m\<lparr>answers := ps\<rparr>) = m\<lparr>answers := ps, mem := h\<rparr> \<and>
     (\<forall>j < 512. h (pte_at p j) = 0) \<and>
     (\<forall>t j. pg_ok t \<longrightarrow> j < 512 \<longrightarrow> t \<noteq> p \<longrightarrow> h (pte_at t j) = mem m (pte_at t j))"
    using assms(2)
    by (intro exI[of _ "mem (memset0 p 4096 (m\<lparr>answers := ps\<rparr>))"]) (simp add: memset0_def)
  show ?thesis
  proof (cases "isPresent ec \<and> isWriteFault ec")
    case True
    then obtain f where "mmu m v = Some f" "c = (\<lambda>j. mem m (pte_at f j))"
      using assms(1) by (auto simp: fault_source_def)
    then show ?thesis using True copy[of f] by (simp add: fill_page_def kPageSize_def pte_at_def)
  next
    case False
    then show ?thesis
      using assms(1) copy[of "r_data reg + GetOffset reg v"] zero
      by (auto simp: fault_source_def fill_page_def kPageSize_def split: if_splits)
  qed
qed

lemma region_count [simp]:
  "AddrIsInRegion (r\<lparr>r_count := n\<rparr>) v = AddrIsInRegion r v" "GetOffset (r\<lparr>r_count := n\<rparr>) v = GetOffset r v"
  "fault_source (r\<lparr>r_count := n\<rparr>) v ec m = fault_source r v ec m"
  "fill_page (r\<lparr>r_count := n\<rparr>) v ec p m = fill_page r v ec p m"
  by (simp_all add: AddrIsInRegion_def GetOffset_def fault_source_def fill_page_def)

lemma GetRegionOfAddr_count:
  assumes "GetRegionOfAddr rs v = Inr i"
  shows "GetRegionOfAddr (rs[i := (rs ! i)\<lparr>r_count := n\<rparr>]) v = Inr i" "i < length rs"
  using assms by (auto simp: GetRegionOfAddr_Inr nth_list_update)

lemma logFault_sv [simp]: "u_sv (logFault ec u) = u_sv u"
  by (simp add: logFault_def Let_def)

lemma resolve_fault_step:
  assumes reg: "GetRegionOfAddr (sv_regions (u_sv u)) (pfn_down vaddr) = Inr i"
    and r: "reg = sv_regions (u_sv u) ! i" "r_page_order reg = 0" "r_writable reg"
    and m: "answers m = p # ps" "fill_page reg (pfn_down vaddr) ec p (m\<lparr>answers := ps\<rparr>) = Inr m1"
  shows "resolve_fault vaddr ec u m =
     and_then (map_fault (reg\<lparr>r_count := r_count reg + 1\<rparr>) p (pfn_down vaddr) ec m1)
       (\<lambda>m2. Inr ((logFault ec u)\<lparr>u_sv := (u_sv u)\<lparr>sv_regions := (sv_regions (u_sv u))
            [i := reg\<lparr>r_count := r_count reg + 1\<rparr>]\<rparr>\<rparr>, m2))"
proof -
  let ?reg' = "reg\<lparr>r_count := r_count reg + 1\<rparr>"
  let ?rs = "sv_regions (u_sv u)"
  have page: "GetBackingPage (pfn_down vaddr) ec (logFault ec u) m =
      Inr (p, (logFault ec u)\<lparr>u_sv := (u_sv u)\<lparr>sv_regions := ?rs[i := ?reg']\<rparr>\<rparr>, m1)"
    using reg r m by (simp add: GetBackingPage_def page_alloc_def Let_def)
  have again: "GetRegionOfAddr (?rs[i := ?reg']) (pfn_down vaddr) = Inr i" "?rs[i := ?reg'] ! i = ?reg'"
    using GetRegionOfAddr_count(1)[OF reg, of "r_count reg + 1"] GetRegionOfAddr_count(2)[OF reg] r(1) by simp_all
  show ?thesis by (simp add: resolve_fault_def Let_def page again)
qed

lemma fresh_pages_tl:
  assumes "fresh_pages (Suc n) m T" "answers m = p # ps" "answers m' = ps"
  shows "fresh_pages n m' T" "p \<notin> set (take n ps)" "pg_ok p" "p \<noteq> 0" "p \<notin> T"
  using assms by (auto simp: fresh_pages_def)

lemma resolve_fault_ok:
  assumes "slot_ok m" "answers m = p # ps"
    and "fresh_pages 4 m (insert (getPML4Root m) (tbls (mem m) 3 (slot_root m)))"
    and "GetRegionOfAddr (sv_regions (u_sv u)) (pfn_down vaddr) = Inr i"
    and "r_writable (sv_regions (u_sv u) ! i)" "r_page_order (sv_regions (u_sv u) ! i) = 0"
    and "fault_source (sv_regions (u_sv u) ! i) (pfn_down vaddr) ec m = Some c"
  shows "\<exists>u' m'. resolve_fault vaddr ec u m = Inr (u', m') \<and> slot_ok m' \<and>
     (\<exists>e. pt_lookup (mem m') 3 (slot_root m') (lin_index (pfn_down vaddr)) = Some e \<and> ent_addr e = p \<and>
        pte_RW e \<and> (isDirty e \<longleftrightarrow> isWriteFault ec)) \<and>
     (\<forall>va. lin_index va 4 = 0x180 \<longrightarrow> mmu m' va =
        (if \<forall>l \<in> {1..3}. lin_index va l = lin_index (pfn_down vaddr) l then Some p else mmu m va)) \<and>
     (\<forall>j < 512. mem m' (pte_at p j) = c j) \<and>
     (\<forall>t j. pg_ok t \<longrightarrow> j < 512 \<longrightarrow> t \<noteq> p \<longrightarrow> t \<notin> tbls (mem m') 3 (slot_root m') \<longrightarrow>
        \<not> (t = getPML4Root m \<and> j = 0x180) \<longrightarrow> mem m' (pte_at t j) = mem m (pte_at t j)) \<and>
     tbls (mem m') 3 (slot_root m') \<subseteq> tbls (mem m) 3 (slot_root m) \<union> set (take 3 ps)"
proof -
  let ?v = "pfn_down vaddr"
  let ?T = "insert (getPML4Root m) (tbls (mem m) 3 (slot_root m))"
  define reg where "reg = sv_regions (u_sv u) ! i"
  define xd where "xd = (if r_name reg = ''.text'' \<or> r_name reg = ''usr'' then False else True)"
  have fr4: "fresh_pages (Suc 3) m ?T" using assms(3) by simp
  have p: "p \<notin> set (take 3 ps)" "pg_ok p" "p \<notin> ?T" and fr3: "\<And>m'. answers m' = ps \<Longrightarrow> fresh_pages 3 m' ?T"
    using fresh_pages_tl(2-5)[OF fr4 assms(2), where m' = "m\<lparr>answers := ps\<rparr>"] fresh_pages_tl(1)[OF fr4 assms(2)] by simp_all
  obtain h where fill: "fill_page reg ?v ec p (m\<lparr>answers := ps\<rparr>) = Inr (m\<lparr>answers := ps, mem := h\<rparr>)"
    and hp: "\<forall>j < 512. h (pte_at p j) = c j"
    and ho: "\<forall>t j. pg_ok t \<longrightarrow> j < 512 \<longrightarrow> t \<noteq> p \<longrightarrow> h (pte_at t j) = mem m (pte_at t j)"
    using fill_page_ok[OF _ p(2)] assms(7) unfolding reg_def by blast
  define m1 where "m1 = m\<lparr>answers := ps, mem := h\<rparr>"
  have m1: "mem m1 = h" "answers m1 = ps" "cr3 m1 = cr3 m" "getPML4Root m1 = getPML4Root m"
    by (simp_all add: m1_def getPML4Root_def)
  have old: "mem m1 (pte_at t j) = mem m (pte_at t j)" if "pg_ok t" "j < 512" "t \<noteq> p" for t j
    using ho that m1(1) by simp
  have old': "mem m1 (pte_at t j) = mem m (pte_at t j)"
    if "pg_ok t" "j < 512" "t = getPML4Root m \<or> t \<in> tbls (mem m) 3 (slot_root m)" for t j
    using old that p(3) by blast
  note SF = slot_ok_frame[OF assms(1) m1(3) old'] and TF = slot_frame[OF assms(1), of m1, OF old', simplified]
  have root: "slot_root m1 = slot_root m" "slot_ok m1" by (rule SF; assumption)+
  have tb: "tbls (mem m1) 3 (slot_root m) = tbls (mem m) 3 (slot_root m)" by (rule TF(1); assumption)
  have look: "pt_lookup (mem m1) 3 (slot_root m) ix = pt_lookup (mem m) 3 (slot_root m) ix"
    if "\<And>j. ix j < 512" for ix by (rule TF(2)[OF that])
  have "fresh_pages 3 m1 (insert (getPML4Root m1) (tbls (mem m1) 3 (slot_root m1)))"
    using fr3[OF m1(2)] by (simp add: root tb m1(4))
  from map_fault_ok[OF root(2) this p(2), of "reg\<lparr>r_count := r_count reg + 1\<rparr>" ?v ec]
  obtain m2 where run: "map_fault (reg\<lparr>r_count := r_count reg + 1\<rparr>) p ?v ec m1 = Inr m2"
    and sm: "slot_mapped (pte_build p (isWriteFault ec) True True True xd) ?v m1 m2"
    using assms(5) unfolding xd_def reg_def by auto
  let ?e = "pte_build p (isWriteFault ec) True True True xd"
  note S = slot_mappedD[OF sm, unfolded root m1(2,4) tb]
  have e: "ent_addr ?e = p" "pte_RW ?e" "isDirty ?e \<longleftrightarrow> isWriteFault ec"
    using p(2) by (simp_all add: pte_simps isDirty_def)
  have pn: "p \<notin> tbls (mem m2) 3 (slot_root m2)" "p \<noteq> getPML4Root m" using S(5) p(1,3) by auto
  have hit: "pt_lookup (mem m2) 3 (slot_root m2) (lin_index ?v) = Some ?e"
    using S(4)[of "lin_index ?v"] by (simp add: same_path_def)
  have tr: "mmu m2 va = (if \<forall>l \<in> {1..3}. lin_index va l = lin_index ?v l then Some p else mmu m va)"
    if "lin_index va 4 = 0x180" for va
    using mmu_slot[OF S(1) that] mmu_slot[OF assms(1) that] S(4)[of "lin_index va"] look[of "lin_index va"] e(1)
    by (auto simp: same_path_def)
  have cells: "\<forall>j < 512. mem m2 (pte_at p j) = c j"
    using S(6)[OF p(2) _ pn(1)] pn(2) hp m1(1) by auto
  have frame: "mem m2 (pte_at t j) = mem m (pte_at t j)"
    if "pg_ok t" "j < 512" "t \<noteq> p" "t \<notin> tbls (mem m2) 3 (slot_root m2)" "\<not> (t = getPML4Root m \<and> j = 0x180)" for t j
    using S(6)[OF that(1,2,4,5)] old[OF that(1-3)] by simp
  have "r_page_order reg = 0" "r_writable reg" using assms(5,6) by (simp_all add: reg_def)
  from resolve_fault_step[OF assms(4) reg_def this assms(2) fill]
  obtain u' where "resolve_fault vaddr ec u m = Inr (u', m2)" unfolding m1_def[symmetric] run by simp
  moreover have "tbls (mem m2) 3 (slot_root m2) \<subseteq> tbls (mem m) 3 (slot_root m) \<union> set (take 3 ps)"
    using S(5) by simp
  ultimately show ?thesis
    using S(1) hit e tr cells frame by (intro exI[of _ u'] exI[of _ m2] conjI) auto
qed

text \<open>
  C9. Resolving a page fault on a writable region of the active instance: the call returns,
  with the next page of the allocator mapped, writable, at the faulting page; its 512 cells
  hold the old page (copy-on-write), the page of the image, or zeros; the entry is dirty
  exactly after a write fault; every other slot address translates as before; no cell
  changes outside the new page, the slot's tables and the slot's top-level entry; and the
  tables it adds are the next three pages of the allocator at most.
\<close>

theorem resolve_fault_correct:
  assumes "slot_ok m" "answers m = p # ps"
    and "fresh_pages 4 m (insert (getPML4Root m) (tbls (mem m) 3 (slot_root m)))"
    and "GetRegionOfAddr (sv_regions (u_sv u)) (pfn_down vaddr) = Inr i"
    and "r_writable (sv_regions (u_sv u) ! i)" "r_page_order (sv_regions (u_sv u) ! i) = 0"
    and "fault_source (sv_regions (u_sv u) ! i) (pfn_down vaddr) ec m = Some c"
  shows "\<exists>u' m'. resolve_fault vaddr ec u m = Inr (u', m') \<and> slot_ok m' \<and>
     (\<exists>e. pt_lookup (mem m') 3 (slot_root m') (lin_index (pfn_down vaddr)) = Some e \<and> ent_addr e = p \<and>
        pte_RW e \<and> (isDirty e \<longleftrightarrow> isWriteFault ec)) \<and>
     (\<forall>va. lin_index va 4 = 0x180 \<longrightarrow> mmu m' va =
        (if \<forall>l \<in> {1..3}. lin_index va l = lin_index (pfn_down vaddr) l then Some p else mmu m va)) \<and>
     (\<forall>j < 512. mem m' (pte_at p j) = c j) \<and>
     (\<forall>t j. pg_ok t \<longrightarrow> j < 512 \<longrightarrow> t \<noteq> p \<longrightarrow> t \<notin> tbls (mem m') 3 (slot_root m') \<longrightarrow>
        \<not> (t = getPML4Root m \<and> j = 0x180) \<longrightarrow> mem m' (pte_at t j) = mem m (pte_at t j)) \<and>
     tbls (mem m') 3 (slot_root m') \<subseteq> tbls (mem m) 3 (slot_root m) \<union> set (take 3 ps)"
  using assms by (rule resolve_fault_ok)

text \<open>An empty slot under the top-level table at \<open>0x1000\<close>, and an instance with one writable region.\<close>

definition empty_slot :: "u64 list \<Rightarrow> mach" where
  "empty_slot ps = (mach_of (\<lambda>_. 0) ps)\<lparr>cr3 := 0x1000\<rparr>"

definition one_region :: "region \<Rightarrow> umi" where
  "one_region r = \<lparr>u_id = 1, u_sv = UmSV_init\<lparr>sv_regions := [r]\<rparr>, u_pfc = pfc_zero, u_caller_frame = ef_zero,
     u_fnStack = 0, u_src_ports = [], u_snap_addr = 0, u_snap_p = None, u_active = True, u_blocked = False,
     u_timer_set = False, u_time_wait = 0, u_timer_due = 0, u_context = False, u_recv_queue = [], u_bi = 0\<rparr>"

lemma empty_slot_ok:
  "slot_ok (empty_slot ps)" "answers (empty_slot ps) = ps" "slot_root (empty_slot ps) = 0"
  "getPML4Root (empty_slot ps) = 0x1000"
proof -
  have r: "getPML4Root (empty_slot ps) = 0x1000"
    by (simp add: empty_slot_def getPML4Root_def cr3ToAddr_def pageTabEntToAddr_def) code_simp
  then show "getPML4Root (empty_slot ps) = 0x1000" .
  show z: "slot_root (empty_slot ps) = 0" by (simp add: slot_root_def empty_slot_def pte_exists_def pte_SEL_def)
  show "answers (empty_slot ps) = ps" by (simp add: empty_slot_def)
  show "slot_ok (empty_slot ps)" unfolding slot_ok_def z r by (simp add: empty_slot_def)
qed

lemma usr_fault:
  fixes r m
  defines "r \<equiv> Region_init\<lparr>r_name := ''usr'', r_start := 0xFFFFC00000400000, r_length := 0x100000, r_writable := True\<rparr>"
    and "m \<equiv> empty_slot [0x5000, 0x6000, 0x7000, 0x8000]"
  shows "pfn_down 0xFFFFC00000403010 = 0xFFFFC00000403000"
    "GetRegionOfAddr (sv_regions (u_sv (one_region r))) (pfn_down 0xFFFFC00000403010) = Inr 0"
    "fresh_pages 4 m (insert (getPML4Root m) (tbls (mem m) 3 (slot_root m)))"
    "r_writable (sv_regions (u_sv (one_region r)) ! 0)" "r_page_order (sv_regions (u_sv (one_region r)) ! 0) = 0"
    "fault_source (sv_regions (u_sv (one_region r)) ! 0) (pfn_down 0xFFFFC00000403010) 2 m = Some (\<lambda>_. 0)"
proof -
  show v: "pfn_down 0xFFFFC00000403010 = 0xFFFFC00000403000" by code_simp
  show "GetRegionOfAddr (sv_regions (u_sv (one_region r))) (pfn_down 0xFFFFC00000403010) = Inr 0"
    by (simp add: v one_region_def AddrIsInRegion_def r_def)
  show "fresh_pages 4 m (insert (getPML4Root m) (tbls (mem m) 3 (slot_root m)))"
    by (simp add: m_def empty_slot_ok fresh_pages_def pg_ok_small)
qed (simp_all add: one_region_def r_def Region_init_def fault_source_def isPresent_def ec_P_def)

theorem resolve_fault_correct_witness:
  "\<exists>u' m'. resolve_fault 0xFFFFC00000403010 2
       (one_region (Region_init\<lparr>r_name := ''usr'', r_start := 0xFFFFC00000400000, r_length := 0x100000, r_writable := True\<rparr>))
       (empty_slot [0x5000, 0x6000, 0x7000, 0x8000]) = Inr (u', m') \<and>
     mmu m' 0xFFFFC00000403000 = Some 0x5000 \<and> mem m' 0x5000 = 0"
proof -
  have ix: "lin_index 0xFFFFC00000403000 4 = 0x180" by code_simp
  have "mem m' (pte_at 0x5000 0) = mem m' 0x5000" for m' by (simp add: pte_at_def)
  with resolve_fault_correct[OF empty_slot_ok(1,2) usr_fault(3,2,4-6)] usr_fault(1) ix show ?thesis
    by (metis zero_less_numeral)
qed

lemma resolve_fault_step_ro:
  assumes "GetRegionOfAddr (sv_regions (u_sv u)) (pfn_down vaddr) = Inr i" "reg = sv_regions (u_sv u) ! i"
    and "\<not> r_writable reg" "r_page_order reg = 0" "r_name reg \<in> {''.text'', ''.rodata''}" "\<not> isWriteFault ec"
    and "phys = r_data reg + GetOffset reg (pfn_down vaddr)" "pg_ok phys"
  shows "resolve_fault vaddr ec u m =
     and_then (map_fault (reg\<lparr>r_count := r_count reg + 1\<rparr>) phys (pfn_down vaddr) ec m)
       (\<lambda>m2. Inr ((logFault ec u)\<lparr>u_sv := (u_sv u)\<lparr>sv_regions := (sv_regions (u_sv u))
            [i := reg\<lparr>r_count := r_count reg + 1\<rparr>]\<rparr>\<rparr>, m2))"
proof -
  let ?v = "pfn_down vaddr"
  let ?reg' = "reg\<lparr>r_count := r_count reg + 1\<rparr>"
  let ?u = "(logFault ec u)\<lparr>u_sv := (u_sv u)\<lparr>sv_regions := (sv_regions (u_sv u))[i := ?reg']\<rparr>\<rparr>"
  have al: "phys mod push_bit 12 1 = 0"
    using pfn_down_pg_ok[OF assms(8)] by (rule pfn_down_mod)
  have page: "GetBackingPage ?v ec (logFault ec u) m = Inr (phys, ?u, m)"
    using assms(1-7) al by (auto simp: GetBackingPage_def Let_def)
  have again: "GetRegionOfAddr ((sv_regions (u_sv u))[i := ?reg']) ?v = Inr i" "(sv_regions (u_sv u))[i := ?reg'] ! i = ?reg'"
    using GetRegionOfAddr_count(1)[OF assms(1), of "r_count reg + 1"] GetRegionOfAddr_count(2)[OF assms(1)] assms(2)
    by simp_all
  show ?thesis by (simp add: resolve_fault_def Let_def page again)
qed

text \<open>A read of the text page of an example image.\<close>

lemma text_fault:
  fixes r m
  defines "r \<equiv> Region_init\<lparr>r_name := ''.text'', r_start := 0xFFFFC00000400000, r_length := 0x100000, r_data := 0x100000\<rparr>"
  shows "pfn_down 0xFFFFC00000403010 = 0xFFFFC00000403000"
    "GetRegionOfAddr (sv_regions (u_sv (one_region r))) (pfn_down 0xFFFFC00000403010) = Inr 0"
    "r = sv_regions (u_sv (one_region r)) ! 0" "\<not> r_writable r" "r_page_order r = 0"
    "r_name r \<in> {''.text'', ''.rodata''}" "\<not> isWriteFault 16"
    "0x103000 = r_data r + GetOffset r (pfn_down 0xFFFFC00000403010)" "pg_ok 0x103000"
proof -
  show v: "pfn_down 0xFFFFC00000403010 = 0xFFFFC00000403000" by code_simp
  show "GetRegionOfAddr (sv_regions (u_sv (one_region r))) (pfn_down 0xFFFFC00000403010) = Inr 0"
    by (simp add: v one_region_def AddrIsInRegion_def r_def)
  show "0x103000 = r_data r + GetOffset r (pfn_down 0xFFFFC00000403010)"
    by (simp add: v GetOffset_def AddrIsInRegion_def r_def)
  show "pg_ok 0x103000" by (simp add: pg_ok_iff)
qed (simp_all add: one_region_def r_def Region_init_def isWriteFault_def ec_WR_def)

lemma empty_slot_fresh:
  "fresh_pages 3 (empty_slot [0x6000, 0x7000, 0x8000]) (insert (getPML4Root (empty_slot [0x6000, 0x7000, 0x8000]))
     (tbls (mem (empty_slot [0x6000, 0x7000, 0x8000])) 3 (slot_root (empty_slot [0x6000, 0x7000, 0x8000]))))"
  by (simp add: empty_slot_ok fresh_pages_def pg_ok_small)

lemma text_fault_runs:
  "\<exists>u' m'. resolve_fault 0xFFFFC00000403010 16
       (one_region (Region_init\<lparr>r_name := ''.text'', r_start := 0xFFFFC00000400000, r_length := 0x100000, r_data := 0x100000\<rparr>))
       (empty_slot [0x6000, 0x7000, 0x8000]) = Inr (u', m')"
proof -
  let ?r = "Region_init\<lparr>r_name := ''.text'', r_start := 0xFFFFC00000400000, r_length := 0x100000, r_data := 0x100000\<rparr>"
  let ?m = "empty_slot [0x6000, 0x7000, 0x8000]"
  obtain m2 where "map_fault (?r\<lparr>r_count := r_count ?r + 1\<rparr>) 0x103000 (pfn_down 0xFFFFC00000403010) 16 ?m = Inr m2"
    using map_fault_ok[OF empty_slot_ok(1) empty_slot_fresh text_fault(9)] by blast
  then show ?thesis unfolding resolve_fault_step_ro[OF text_fault(2-9)] by (simp only: and_then_Inr) blast
qed

text \<open>
  C30. Resolving a read fault on a read-only region maps the page of the image itself: no page
  is taken for its contents, the entry is not writable and not dirty (so the destructor of the
  page table never frees the image's page), it is executable only for \<open>.text\<close>, every other
  slot address translates as before, and memory outside the tables does not change.
\<close>

theorem resolve_fault_readonly:
  assumes "slot_ok m" "fresh_pages 3 m (insert (getPML4Root m) (tbls (mem m) 3 (slot_root m)))"
    and "GetRegionOfAddr (sv_regions (u_sv u)) (pfn_down vaddr) = Inr i" "reg = sv_regions (u_sv u) ! i"
    and "\<not> r_writable reg" "r_page_order reg = 0" "r_name reg \<in> {''.text'', ''.rodata''}" "\<not> isWriteFault ec"
    and "phys = r_data reg + GetOffset reg (pfn_down vaddr)" "pg_ok phys"
  shows "\<exists>u' m'. resolve_fault vaddr ec u m = Inr (u', m') \<and> slot_ok m' \<and>
     (\<exists>e. pt_lookup (mem m') 3 (slot_root m') (lin_index (pfn_down vaddr)) = Some e \<and> ent_addr e = phys \<and>
        \<not> pte_RW e \<and> \<not> isDirty e \<and> (pte_XD e \<longleftrightarrow> r_name reg \<noteq> ''.text'')) \<and>
     (\<forall>va. lin_index va 4 = 0x180 \<longrightarrow> mmu m' va =
        (if \<forall>l \<in> {1..3}. lin_index va l = lin_index (pfn_down vaddr) l then Some phys else mmu m va)) \<and>
     (\<forall>t j. pg_ok t \<longrightarrow> j < 512 \<longrightarrow> t \<notin> tbls (mem m') 3 (slot_root m') \<longrightarrow>
        \<not> (t = getPML4Root m \<and> j = 0x180) \<longrightarrow> mem m' (pte_at t j) = mem m (pte_at t j))"
proof -
  let ?v = "pfn_down vaddr"
  let ?reg' = "reg\<lparr>r_count := r_count reg + 1\<rparr>"
  let ?u = "(logFault ec u)\<lparr>u_sv := (u_sv u)\<lparr>sv_regions := (sv_regions (u_sv u))[i := ?reg']\<rparr>\<rparr>"
  define xd where "xd = (if r_name reg = ''.text'' \<or> r_name reg = ''usr'' then False else True)"
  from map_fault_ok[OF assms(1,2,10), of ?reg' ?v ec] assms(5,8)
  obtain m2 where run: "map_fault ?reg' phys ?v ec m = Inr m2"
    and sm: "slot_mapped (pte_build phys False True False True xd) ?v m m2"
    unfolding xd_def by auto
  let ?e = "pte_build phys False True False True xd"
  note S = slot_mappedD[OF sm]
  have e: "ent_addr ?e = phys" "\<not> pte_RW ?e" "\<not> isDirty ?e" "pte_XD ?e \<longleftrightarrow> r_name reg \<noteq> ''.text''"
    using assms(7,10) by (auto simp: pte_simps isDirty_def xd_def)
  have hit: "pt_lookup (mem m2) 3 (slot_root m2) (lin_index ?v) = Some ?e"
    using S(4)[of "lin_index ?v"] by (simp add: same_path_def)
  have tr: "mmu m2 va = (if \<forall>l \<in> {1..3}. lin_index va l = lin_index ?v l then Some phys else mmu m va)"
    if "lin_index va 4 = 0x180" for va
    using mmu_slot[OF S(1) that] mmu_slot[OF assms(1) that] S(4)[of "lin_index va"] e(1)
    by (auto simp: same_path_def)
  have "resolve_fault vaddr ec u m = Inr (?u, m2)"
    by (simp add: resolve_fault_step_ro[OF assms(3-10)] run)
  then show ?thesis
    using S(1) hit e tr S(6) by (intro exI[of _ ?u] exI[of _ m2] conjI) auto
qed

theorem resolve_fault_readonly_witness:
  "\<exists>u' m'. resolve_fault 0xFFFFC00000403010 16
       (one_region (Region_init\<lparr>r_name := ''.text'', r_start := 0xFFFFC00000400000, r_length := 0x100000, r_data := 0x100000\<rparr>))
       (empty_slot [0x6000, 0x7000, 0x8000]) = Inr (u', m') \<and> mmu m' 0xFFFFC00000403000 = Some 0x103000"
proof -
  have ix: "lin_index 0xFFFFC00000403000 4 = 0x180" by code_simp
  from resolve_fault_readonly[OF empty_slot_ok(1) empty_slot_fresh text_fault(2-9)] show ?thesis
    using ix text_fault(1) by metis
qed

definition pfc_balanced :: "pfc \<Rightarrow> bool" where
  "pfc_balanced c \<longleftrightarrow> pgFaults c = rdFaults c + wrFaults c + cowFaults c"

text \<open>
  C31. A fault is only resolved when the region permits it: if the call returns, a region holds
  the address, pages of that region are small, and a write fault was on a writable region. Each
  resolved fault is counted once (as a read, a write or a copy-on-write fault, and in its
  region), and no other part of the instance changes.
\<close>

theorem resolve_fault_accounts:
  assumes "resolve_fault vaddr ec u m = Inr (u', m')" "pfc_balanced (u_pfc u)"
  shows "\<exists>i < length (sv_regions (u_sv u)).
     AddrIsInRegion (sv_regions (u_sv u) ! i) (pfn_down vaddr) \<and> r_page_order (sv_regions (u_sv u) ! i) = 0 \<and>
     (isWriteFault ec \<longrightarrow> r_writable (sv_regions (u_sv u) ! i)) \<and>
     pfc_balanced (u_pfc u') \<and> pgFaults (u_pfc u') = pgFaults (u_pfc u) + 1 \<and>
     u' = u\<lparr>u_pfc := u_pfc u', u_sv := (u_sv u)\<lparr>sv_regions := (sv_regions (u_sv u))
           [i := (sv_regions (u_sv u) ! i)\<lparr>r_count := r_count (sv_regions (u_sv u) ! i) + 1\<rparr>]\<rparr>\<rparr>"
proof -
  obtain phys m1 where page: "GetBackingPage (pfn_down vaddr) ec (logFault ec u) m = Inr (phys, u', m1)"
    using assms(1) by (auto simp: resolve_fault_def Let_def and_then_eq_Inr)
  then obtain i where reg: "GetRegionOfAddr (sv_regions (u_sv u)) (pfn_down vaddr) = Inr i"
    by (auto simp: GetBackingPage_def and_then_eq_Inr)
  define r where "r = sv_regions (u_sv u) ! i"
  have facts: "r_page_order r = 0" "isWriteFault ec \<longrightarrow> r_writable r"
    "u' = (logFault ec u)\<lparr>u_sv := (u_sv u)\<lparr>sv_regions := (sv_regions (u_sv u))[i := r\<lparr>r_count := r_count r + 1\<rparr>]\<rparr>\<rparr>"
    using page reg
    by (auto simp: GetBackingPage_def Let_def and_then_eq_Inr kassert_eq_Inr simp flip: r_def split: if_splits)
  have "pfc_balanced (u_pfc u')" "pgFaults (u_pfc u') = pgFaults (u_pfc u) + 1"
    "u' = u\<lparr>u_pfc := u_pfc u', u_sv := (u_sv u)\<lparr>sv_regions := (sv_regions (u_sv u))[i := r\<lparr>r_count := r_count r + 1\<rparr>]\<rparr>\<rparr>"
    using assms(2) unfolding facts(3) by (auto simp: logFault_def Let_def pfc_balanced_def algebra_simps)
  then show ?thesis using facts(1,2) reg unfolding r_def GetRegionOfAddr_Inr by blast
qed

theorem resolve_fault_accounts_witness:
  "\<exists>u' m'. resolve_fault 0xFFFFC00000403010 16
       (one_region (Region_init\<lparr>r_name := ''.text'', r_start := 0xFFFFC00000400000, r_length := 0x100000, r_data := 0x100000\<rparr>))
       (empty_slot [0x6000, 0x7000, 0x8000]) = Inr (u', m') \<and> pfc_balanced (u_pfc u') \<and> pgFaults (u_pfc u') = 1"
proof -
  let ?u = "one_region (Region_init\<lparr>r_name := ''.text'', r_start := 0xFFFFC00000400000, r_length := 0x100000, r_data := 0x100000\<rparr>)"
  obtain u' m' where run: "resolve_fault 0xFFFFC00000403010 16 ?u (empty_slot [0x6000, 0x7000, 0x8000]) = Inr (u', m')"
    using text_fault_runs by blast
  moreover have "pfc_balanced (u_pfc ?u)" "pgFaults (u_pfc ?u) = 0" by (simp_all add: one_region_def pfc_zero_def pfc_balanced_def)
  ultimately show ?thesis using resolve_fault_accounts[OF run] by auto
qed

end
