(* ===== verification/Umm_Proxy.thy ===== *)
theory Umm_Proxy
  imports Umm_Instance
begin

text \<open>
  The port translation of the network proxy (\<^verbatim>\<open>src/src/UmProxy.h\<close>, \<^verbatim>\<open>UmProxy.cc\<close>): the machine-wide
  \<open>ProxyRoot\<close>, which hands out external ports, the \<open>UmProxy\<close> of each core with its cache of
  the translation, and the map from ports of the host's loopback interface to instances.

  \<open>boost::bimap\<close> is modelled by the list of its relations; as the library documents, an
  insertion that would duplicate a key of either side does nothing. \<open>boost::icl::interval_set\<close>
  is the increasing list of its elements, \<open>boost::icl::first\<close> its head. The world is the root
  and the proxy of each core; locks guard single calls, so a run of the machine is a sequence
  of calls.
\<close>

section \<open>Bidirectional maps\<close>

type_synonym ('k, 'v) bimap = "('k \<times> 'v) list"

definition bm_left :: "('k, 'v) bimap \<Rightarrow> 'k \<Rightarrow> 'v option" where
  "bm_left b k = map_of b k"

definition bm_right :: "('k, 'v) bimap \<Rightarrow> 'v \<Rightarrow> 'k option" where
  "bm_right b v = map_of (map (\<lambda>(k, v). (v, k)) b) v"

definition bm_insert :: "'k \<Rightarrow> 'v \<Rightarrow> ('k, 'v) bimap \<Rightarrow> ('k, 'v) bimap" where
  "bm_insert k v b = (if bm_left b k = None \<and> bm_right b v = None then (k, v) # b else b)"

definition bm_left_erase :: "'k \<Rightarrow> ('k, 'v) bimap \<Rightarrow> ('k, 'v) bimap" where
  "bm_left_erase k b = filter (\<lambda>(k', v). k' \<noteq> k) b"

definition bm_ok :: "('k, 'v) bimap \<Rightarrow> bool" where
  "bm_ok b \<longleftrightarrow> distinct (map fst b) \<and> distinct (map snd b)"

text \<open>The contract of a bidirectional map, and what follows from it for a translation table.\<close>

locale bidirectional_map =
  fixes left :: "'m \<Rightarrow> 'k \<Rightarrow> 'v option"
    and right :: "'m \<Rightarrow> 'v \<Rightarrow> 'k option"
    and ins :: "'k \<Rightarrow> 'v \<Rightarrow> 'm \<Rightarrow> 'm"
    and ok :: "'m \<Rightarrow> bool"
  assumes inverse: "ok b \<Longrightarrow> right b v = Some k \<longleftrightarrow> left b k = Some v"
    and ins_ok: "ok b \<Longrightarrow> ok (ins k v b)"
    and ins_left: "left (ins k v b) = (if left b k = None \<and> right b v = None then (left b)(k \<mapsto> v) else left b)"
begin

lemma ins_keeps: "left b k = Some v \<Longrightarrow> left (ins k' v' b) k = Some v"
  by (auto simp: ins_left)

lemma ins_cases: "left (ins k' v' b) k = Some v \<Longrightarrow> left b k = Some v \<or> k = k' \<and> v = v'"
  by (auto simp: ins_left split: if_splits)

lemma left_inj: "ok b \<Longrightarrow> left b k = Some v \<Longrightarrow> left b k' = Some v \<Longrightarrow> k = k'"
  using inverse by (metis option.inject)

lemma ins_new: "left b k = None \<Longrightarrow> right b v = None \<Longrightarrow> left (ins k v b) k = Some v"
  by (simp add: ins_left)

text \<open>A cache stays below the master table when it only receives entries of the master.\<close>

definition below :: "('k \<Rightarrow> bool) \<Rightarrow> 'm \<Rightarrow> 'm \<Rightarrow> bool" where
  "below P c b \<longleftrightarrow> (\<forall>k v. P k \<longrightarrow> left c k = Some v \<longrightarrow> left b k = Some v)"

lemma below_ins: "below P c b \<Longrightarrow> (P k \<Longrightarrow> left b k = Some v) \<Longrightarrow> below P (ins k v c) b"
  unfolding below_def using ins_cases by blast

lemma below_grow: "below P c b \<Longrightarrow> below P c (ins k v b)"
  unfolding below_def using ins_keeps by blast

end

lemma bm_left_Some: "bm_ok b \<Longrightarrow> bm_left b k = Some v \<longleftrightarrow> (k, v) \<in> set b"
  by (simp add: bm_left_def bm_ok_def)

lemma bm_right_Some: "bm_ok b \<Longrightarrow> bm_right b v = Some k \<longleftrightarrow> (k, v) \<in> set b"
proof -
  assume "bm_ok b"
  then have "distinct (map fst (map (\<lambda>(k, v). (v, k)) b))"
    by (simp add: bm_ok_def comp_def split_def)
  then show ?thesis unfolding bm_right_def map_of_eq_Some_iff[OF \<open>distinct (map fst (map (\<lambda>(k, v). (v, k)) b))\<close>]
    by auto
qed

lemma bm_None:
  "bm_left b k = None \<longleftrightarrow> k \<notin> fst ` set b" "bm_right b v = None \<longleftrightarrow> v \<notin> snd ` set b"
  by (auto simp: bm_left_def bm_right_def map_of_eq_None_iff image_iff split_def)

interpretation bm: bidirectional_map bm_left bm_right bm_insert bm_ok
proof
  fix b :: "('a, 'b) bimap" and k v
  show "bm_ok b \<Longrightarrow> bm_right b v = Some k \<longleftrightarrow> bm_left b k = Some v"
    by (simp add: bm_left_Some bm_right_Some)
  show "bm_ok b \<Longrightarrow> bm_ok (bm_insert k v b)"
    by (auto simp: bm_insert_def bm_ok_def bm_None)
  show "bm_left (bm_insert k v b) = (if bm_left b k = None \<and> bm_right b v = None then (bm_left b)(k \<mapsto> v) else bm_left b)"
    by (auto simp: bm_insert_def bm_left_def fun_eq_iff)
qed

section \<open>State\<close>

type_synonym iport = "u32 \<times> u64 \<times> u16"

definition null_port_mapping :: iport where "null_port_mapping = (0, 0, 0)"
definition port_min :: u16 where "port_min = 256"
definition port_max :: u16 where "port_max = 32000"
definition null_id :: u32 where "null_id = 0"

record proxy_root =
  port_set :: "u16 list"
  master_port_map :: "(u16, iport) bimap"

record um_proxy =
  px_umi_id :: u32
  port_map_cache :: "(u16, iport) bimap"
  host_src_port_map_cache :: "u16 \<Rightarrow> u32 option"

record net =
  n_root :: proxy_root
  n_px :: "u64 \<Rightarrow> um_proxy"

text \<open>\<open>interval<uint16_t>::type(port_min, port_max)\<close> is right-open.\<close>

definition ProxyRoot_init :: proxy_root where
  "ProxyRoot_init = \<lparr>port_set = map of_nat [unat port_min ..< unat port_max], master_port_map = []\<rparr>"

definition UmProxy_init :: um_proxy where
  "UmProxy_init = \<lparr>px_umi_id = 0, port_map_cache = [], host_src_port_map_cache = (\<lambda>_. None)\<rparr>"

definition net_init :: net where
  "net_init = \<lparr>n_root = ProxyRoot_init, n_px = (\<lambda>_. UmProxy_init)\<rparr>"

definition internal_port :: "u16 \<Rightarrow> u32 \<Rightarrow> u64 \<Rightarrow> iport" where
  "internal_port port uid core = (uid, core, port)"

section \<open>The root\<close>

definition ExternalPortLookup :: "u16 \<Rightarrow> proxy_root \<Rightarrow> iport" where
  "ExternalPortLookup nport r =
     (case bm_left (master_port_map r) nport of Some i \<Rightarrow> i | None \<Rightarrow> null_port_mapping)"

definition allocate_port :: "proxy_root \<Rightarrow> u16 \<times> proxy_root" where
  "allocate_port r =
     (case port_set r of
        [] \<Rightarrow> (0, r)
      | p # _ \<Rightarrow> (p, r\<lparr>port_set := removeAll p (port_set r)\<rparr>))"

definition free_port :: "u16 \<Rightarrow> proxy_root \<Rightarrow> proxy_root" where
  "free_port val r = r\<lparr>master_port_map := bm_left_erase val (master_port_map r)\<rparr>"

definition FreePorts :: "u32 \<Rightarrow> proxy_root \<Rightarrow> proxy_root" where
  "FreePorts target_umi r = r"

definition SetupExternalPortMapping :: "u32 \<Rightarrow> u16 \<Rightarrow> u64 \<Rightarrow> proxy_root \<Rightarrow> u16 \<times> proxy_root" where
  "SetupExternalPortMapping uid port core r =
     (let iport = internal_port port uid core in
      case bm_right (master_port_map r) iport of
        Some n \<Rightarrow> (n, r)
      | None \<Rightarrow>
          (let (nport, r) = allocate_port r
           in (nport, r\<lparr>master_port_map := bm_insert nport iport (master_port_map r)\<rparr>)))"

section \<open>The proxy of a core\<close>

definition RegisterInternalPort :: "u32 \<Rightarrow> u16 \<Rightarrow> um_proxy \<Rightarrow> um_proxy" where
  "RegisterInternalPort uid src_port p =
     (let emplace = (case host_src_port_map_cache p src_port of
          None \<Rightarrow> p\<lparr>host_src_port_map_cache := (host_src_port_map_cache p)(src_port \<mapsto> uid)\<rparr>
        | Some _ \<Rightarrow> p)
      in case host_src_port_map_cache p src_port of
           Some i \<Rightarrow> if uid \<noteq> i then p else emplace
         | None \<Rightarrow> emplace)"

definition internal_port_lookup :: "u16 \<Rightarrow> um_proxy \<Rightarrow> u32" where
  "internal_port_lookup host_src_port p =
     (case host_src_port_map_cache p host_src_port of None \<Rightarrow> null_id | Some i \<Rightarrow> i)"

definition set_px :: "u64 \<Rightarrow> um_proxy \<Rightarrow> net \<Rightarrow> net" where
  "set_px c p w = w\<lparr>n_px := (n_px w)(c := p)\<rparr>"

definition external_portmap_lookup :: "u64 \<Rightarrow> u16 \<Rightarrow> net \<Rightarrow> (iport \<times> net) res" where
  "external_portmap_lookup c nport w =
     (let p = n_px w c in
      case bm_left (port_map_cache p) nport of
        Some i \<Rightarrow> Inr (i, w)
      | None \<Rightarrow>
          (let mapping = ExternalPortLookup nport (n_root w) in
           kassert (mapping \<noteq> null_port_mapping)
             (Inr (mapping, set_px c (p\<lparr>port_map_cache := bm_insert nport mapping (port_map_cache p)\<rparr>) w))))"

definition swizzle_port_in :: "u64 \<Rightarrow> u16 \<Rightarrow> net \<Rightarrow> (u16 \<times> net) res" where
  "swizzle_port_in c nport w =
     and_then (external_portmap_lookup c nport w) (\<lambda>(mapping, w).
       kassert (mapping \<noteq> null_port_mapping) (Inr (snd (snd mapping), w)))"

definition swizzle_port_out :: "u64 \<Rightarrow> u16 \<Rightarrow> net \<Rightarrow> u16 \<times> net" where
  "swizzle_port_out c iport w =
     (let p = n_px w c; k = internal_port iport (px_umi_id p) c in
      case bm_right (port_map_cache p) k of
        Some n \<Rightarrow> (n, w)
      | None \<Rightarrow>
          (let (nport, r) = SetupExternalPortMapping (px_umi_id p) iport c (n_root w)
           in (nport, set_px c (p\<lparr>port_map_cache := bm_insert nport k (port_map_cache p)\<rparr>) (w\<lparr>n_root := r\<rparr>))))"

definition SetActiveInstance :: "u32 \<Rightarrow> um_proxy \<Rightarrow> um_proxy" where
  "SetActiveInstance uid p = p\<lparr>px_umi_id := uid\<rparr>"

text \<open>The manager's answer to \<open>GetInstance(uid)\<close> is the argument: the ports of the instance it found.\<close>

definition RemoveInstanceState :: "u32 \<Rightarrow> u16 list option \<Rightarrow> um_proxy \<Rightarrow> um_proxy" where
  "RemoveInstanceState uid src_ports p =
     (let p = (if px_umi_id p = uid then p\<lparr>px_umi_id := 0\<rparr> else p) in
      case src_ports of
        None \<Rightarrow> p
      | Some ports \<Rightarrow> fold (\<lambda>i p. p\<lparr>host_src_port_map_cache := (host_src_port_map_cache p)(i := None)\<rparr>) ports p)"

text \<open>\<open>UmInstance::RegisterPort\<close>.\<close>

definition RegisterPort :: "u16 \<Rightarrow> umi \<Rightarrow> um_proxy \<Rightarrow> umi \<times> um_proxy" where
  "RegisterPort port u p = (u\<lparr>u_src_ports := u_src_ports u @ [port]\<rparr>, RegisterInternalPort (Id u) port p)"

section \<open>Runs\<close>

text \<open>
  The calls that reach the translation: an outgoing segment of the loaded instance, an
  incoming segment of the external network, a change of the loaded instance, and the two calls
  on internal ports.
\<close>

datatype px_op =
  PxOut u16 | PxIn u16 | PxActive u32 | PxRegister u32 u16 | PxRemove u32 "u16 list option"

fun px_apply :: "u64 \<Rightarrow> px_op \<Rightarrow> net \<Rightarrow> net res" where
  "px_apply c (PxOut iport) w = Inr (snd (swizzle_port_out c iport w))"
| "px_apply c (PxIn nport) w = and_then (swizzle_port_in c nport w) (\<lambda>(i, w). Inr w)"
| "px_apply c (PxActive i) w = Inr (set_px c (SetActiveInstance i (n_px w c)) w)"
| "px_apply c (PxRegister i port) w = Inr (set_px c (RegisterInternalPort i port (n_px w c)) w)"
| "px_apply c (PxRemove i ports) w = Inr (set_px c (RemoveInstanceState i ports (n_px w c)) w)"

inductive px_reach :: "net \<Rightarrow> net \<Rightarrow> bool" where
  px_refl: "px_reach w w"
| px_more: "px_reach w w' \<Longrightarrow> px_apply c op w' = Inr w'' \<Longrightarrow> px_reach w w''"

section \<open>Invariant\<close>

text \<open>
  The port 0 is what \<open>allocate_port\<close> answers when all ports are in use, and the callers treat
  it as a port: as long as a port is left nobody has an entry for 0; from then on the entries of the
  caches for 0 need not be the root's.
\<close>

definition master_ok :: "proxy_root \<Rightarrow> bool" where
  "master_ok r \<longleftrightarrow> bm_ok (master_port_map r) \<and> distinct (port_set r) \<and>
     (\<forall>n \<in> set (port_set r). port_min \<le> n \<and> n < port_max \<and> bm_left (master_port_map r) n = None) \<and>
     (\<forall>n i. bm_left (master_port_map r) n = Some i \<longrightarrow> n = 0 \<or> port_min \<le> n \<and> n < port_max)"

definition zero_unused :: "net \<Rightarrow> bool" where
  "zero_unused w \<longleftrightarrow> (port_set (n_root w) \<noteq> [] \<longrightarrow>
     bm_left (master_port_map (n_root w)) 0 = None \<and> (\<forall>c. bm_left (port_map_cache (n_px w c)) 0 = None))"

definition net_ok :: "net \<Rightarrow> bool" where
  "net_ok w \<longleftrightarrow> master_ok (n_root w) \<and> zero_unused w \<and>
     (\<forall>c. bm_ok (port_map_cache (n_px w c)) \<and>
        bm.below (\<lambda>n. n \<noteq> 0) (port_map_cache (n_px w c)) (master_port_map (n_root w)))"

definition grows :: "net \<Rightarrow> net \<Rightarrow> bool" where
  "grows w w' \<longleftrightarrow> (\<forall>n i. bm_left (master_port_map (n_root w)) n = Some i \<longrightarrow>
     bm_left (master_port_map (n_root w')) n = Some i)"

lemma port_range: "port_min \<le> n \<Longrightarrow> n \<noteq> (0 :: u16)"
  by (auto simp: port_min_def)

lemma ProxyRoot_init_ports:
  "distinct (port_set ProxyRoot_init)" "n \<in> set (port_set ProxyRoot_init) \<Longrightarrow> port_min \<le> n \<and> n < port_max"
proof -
  define lo hi where b: "lo = unat port_min" "hi = unat port_max"
  have b': "lo = 256" "hi = 32000" by (simp_all add: b port_min_def port_max_def)
  have eq: "port_set ProxyRoot_init = map of_nat [lo ..< hi]" by (simp add: ProxyRoot_init_def b)
  have small: "unat (of_nat x :: u16) = x" if "x < hi" for x
    using that by (simp add: b' unsigned_of_nat take_bit_nat_eq_self)
  have "inj_on (of_nat :: nat \<Rightarrow> u16) (set [lo ..< hi])"
    by (rule inj_on_inverseI[where g = unat]) (simp add: small)
  then show "distinct (port_set ProxyRoot_init)" by (simp add: eq distinct_map)
  show "port_min \<le> n \<and> n < port_max" if "n \<in> set (port_set ProxyRoot_init)"
    using that small by (auto simp: eq word_le_nat_alt word_less_nat_alt simp flip: b)
qed

lemma net_init_ok: "net_ok net_init"
  using ProxyRoot_init_ports
  by (simp add: net_ok_def zero_unused_def net_init_def master_ok_def UmProxy_init_def bm_ok_def bm_left_def bm.below_def)
    (simp add: ProxyRoot_init_def)

lemma master_ok_insert:
  assumes "master_ok r" "set ps \<subseteq> set (port_set r)" "distinct ps" "n \<notin> set ps" "n = 0 \<or> port_min \<le> n \<and> n < port_max"
  shows "master_ok (r\<lparr>port_set := ps, master_port_map := bm_insert n k (master_port_map r)\<rparr>)"
proof -
  have "bm_ok (bm_insert n k (master_port_map r))"
    using assms(1) by (simp add: master_ok_def bm.ins_ok)
  then show ?thesis using assms by (auto simp: master_ok_def bm.ins_left)
qed

text \<open>Allocating a port for a new flow.\<close>

lemma SetupExternalPortMapping_ok:
  assumes ok: "master_ok r" and run: "SetupExternalPortMapping i port c r = (n, r')"
  shows "master_ok r'" "n \<noteq> 0 \<Longrightarrow> bm_left (master_port_map r') n = Some (i, c, port)"
    "bm_left (master_port_map r) k = Some v \<Longrightarrow> bm_left (master_port_map r') k = Some v"
    "n = 0 \<or> port_min \<le> n \<and> n < port_max"
    "port_set r' \<noteq> [] \<Longrightarrow> port_set r \<noteq> [] \<and> (bm_left (master_port_map r) 0 = None \<longrightarrow> n \<noteq> 0 \<and> bm_left (master_port_map r') 0 = None)"
proof -
  let ?M = "master_port_map r"
  let ?k = "(i, c, port)"
  have M: "bm_ok ?M" using ok by (simp add: master_ok_def)
  have "master_ok r' \<and> (n \<noteq> 0 \<longrightarrow> bm_left (master_port_map r') n = Some ?k) \<and>
      (\<forall>k v. bm_left ?M k = Some v \<longrightarrow> bm_left (master_port_map r') k = Some v) \<and> (n = 0 \<or> port_min \<le> n \<and> n < port_max) \<and>
      (port_set r' \<noteq> [] \<longrightarrow> port_set r \<noteq> [] \<and> (bm_left ?M 0 = None \<longrightarrow> n \<noteq> 0 \<and> bm_left (master_port_map r') 0 = None))"
  proof (cases "bm_right ?M ?k")
    case (Some n')
    then have "bm_left ?M n' = Some ?k" using bm.inverse[OF M] by blast
    then show ?thesis using Some run ok
      by (auto simp: SetupExternalPortMapping_def internal_port_def master_ok_def)
  next
    case None
    define p ps where pps: "p = (case port_set r of [] \<Rightarrow> 0 | p # _ \<Rightarrow> p)" "ps = removeAll p (port_set r)"
    have r': "n = p" "r' = r\<lparr>port_set := ps, master_port_map := bm_insert p ?k ?M\<rparr>"
      using None run
      by (auto simp: SetupExternalPortMapping_def internal_port_def allocate_port_def pps split: list.splits)
    have p: "p = 0 \<or> port_min \<le> p \<and> p < port_max" "p \<noteq> 0 \<Longrightarrow> bm_left ?M p = None"
      using ok by (auto simp: master_ok_def pps split: list.splits)
    have z: "p \<noteq> 0" if "port_set r \<noteq> []"
      using that ok port_range by (cases "port_set r") (auto simp: master_ok_def pps)
    have "master_ok r'" unfolding r'
      using ok p(1) by (intro master_ok_insert) (auto simp: master_ok_def pps distinct_removeAll)
    moreover have "port_set r' \<noteq> [] \<longrightarrow> port_set r \<noteq> [] \<and> (bm_left ?M 0 = None \<longrightarrow> n \<noteq> 0 \<and> bm_left (master_port_map r') 0 = None)"
    proof (cases "port_set r")
      case Nil
      then show ?thesis unfolding r' by (simp add: pps)
    next
      case (Cons a l)
      then have "p \<noteq> 0" using z by simp
      then show ?thesis unfolding r' using Cons by (simp add: bm.ins_left)
    qed
    moreover have "n \<noteq> 0 \<longrightarrow> bm_left (master_port_map r') n = Some ?k"
      "\<forall>k v. bm_left ?M k = Some v \<longrightarrow> bm_left (master_port_map r') k = Some v"
      "n = 0 \<or> port_min \<le> n \<and> n < port_max"
      using p bm.ins_new[OF p(2) None] bm.ins_keeps[of ?M, where k' = p and v' = ?k] unfolding r' by auto
    ultimately show ?thesis by blast
  qed
  then show "master_ok r'" "n \<noteq> 0 \<Longrightarrow> bm_left (master_port_map r') n = Some (i, c, port)"
    "bm_left (master_port_map r) k = Some v \<Longrightarrow> bm_left (master_port_map r') k = Some v"
    "n = 0 \<or> port_min \<le> n \<and> n < port_max"
    "port_set r' \<noteq> [] \<Longrightarrow> port_set r \<noteq> [] \<and> (bm_left (master_port_map r) 0 = None \<longrightarrow> n \<noteq> 0 \<and> bm_left (master_port_map r') 0 = None)"
    by blast+
qed

text \<open>Every call keeps the invariant and the entries of the root.\<close>

lemma set_px_sel [simp]:
  "n_root (set_px c p w) = n_root w" "n_px (set_px c p w) d = (if d = c then p else n_px w d)"
  by (simp_all add: set_px_def)

lemma net_ok_px:
  assumes "net_ok w" "bm_ok (port_map_cache p)" "bm.below (\<lambda>n. n \<noteq> 0) (port_map_cache p) (master_port_map (n_root w))"
    and "port_set (n_root w) \<noteq> [] \<Longrightarrow> bm_left (port_map_cache p) 0 = None"
  shows "net_ok (set_px c p w)"
  using assms by (simp add: net_ok_def zero_unused_def)

lemma net_okD:
  assumes "net_ok w"
  shows "master_ok (n_root w)" "bm_ok (master_port_map (n_root w))" "bm_ok (port_map_cache (n_px w c))"
    "bm_left (port_map_cache (n_px w c)) n = Some i \<Longrightarrow> n \<noteq> 0 \<Longrightarrow> bm_left (master_port_map (n_root w)) n = Some i"
    "bm_left (master_port_map (n_root w)) n = Some i \<Longrightarrow> n = 0 \<or> port_min \<le> n \<and> n < port_max"
    "port_set (n_root w) \<noteq> [] \<Longrightarrow> bm_left (master_port_map (n_root w)) 0 = None"
    "port_set (n_root w) \<noteq> [] \<Longrightarrow> bm_left (port_map_cache (n_px w c)) 0 = None"
proof -
  show m: "master_ok (n_root w)"
    and "bm_ok (port_map_cache (n_px w c))"
    using assms by (simp_all add: net_ok_def)
  show "bm_left (port_map_cache (n_px w c)) n = Some i \<Longrightarrow> n \<noteq> 0 \<Longrightarrow> bm_left (master_port_map (n_root w)) n = Some i"
    using assms unfolding net_ok_def bm.below_def by blast
  show "bm_ok (master_port_map (n_root w))"
    using m by (simp add: master_ok_def)
  show "bm_left (master_port_map (n_root w)) n = Some i \<Longrightarrow> n = 0 \<or> port_min \<le> n \<and> n < port_max"
    using m unfolding master_ok_def by blast
  show "port_set (n_root w) \<noteq> [] \<Longrightarrow> bm_left (master_port_map (n_root w)) 0 = None"
    "port_set (n_root w) \<noteq> [] \<Longrightarrow> bm_left (port_map_cache (n_px w c)) 0 = None"
    using assms by (simp_all add: net_ok_def zero_unused_def)
qed

lemma external_portmap_lookup_ok:
  assumes ok: "net_ok w" and run: "external_portmap_lookup c n w = Inr (i, w')"
  shows "net_ok w'" "grows w w'" "n \<noteq> 0 \<Longrightarrow> bm_left (master_port_map (n_root w)) n = Some i"
proof -
  have "net_ok w' \<and> grows w w' \<and> (n \<noteq> 0 \<longrightarrow> bm_left (master_port_map (n_root w)) n = Some i)"
  proof (cases "bm_left (port_map_cache (n_px w c)) n")
    case (Some j)
    then show ?thesis using run ok net_okD(4)[OF ok Some]
      by (auto simp: external_portmap_lookup_def Let_def grows_def)
  next
    case None
    let ?p = "(n_px w c)\<lparr>port_map_cache := bm_insert n i (port_map_cache (n_px w c))\<rparr>"
    have w': "w' = set_px c ?p w" and look: "bm_left (master_port_map (n_root w)) n = Some i"
      using run None
      by (auto simp: external_portmap_lookup_def Let_def ExternalPortLookup_def kassert_eq_Inr split: option.splits)
    have "net_ok w'" unfolding w'
      using ok look net_okD(6,7)[OF ok] by (intro net_ok_px) (auto simp: net_ok_def bm.ins_ok bm.ins_left intro: bm.below_ins)
    then show ?thesis using look by (simp add: w' grows_def)
  qed
  then show "net_ok w'" "grows w w'" "n \<noteq> 0 \<Longrightarrow> bm_left (master_port_map (n_root w)) n = Some i" by blast+
qed

lemma swizzle_port_out_ok:
  assumes ok: "net_ok w" and run: "swizzle_port_out c port w = (n, w')"
  shows "net_ok w'" "grows w w'" "n \<noteq> 0 \<Longrightarrow> bm_left (master_port_map (n_root w')) n = Some (px_umi_id (n_px w c), c, port)"
    "n = 0 \<or> port_min \<le> n \<and> n < port_max"
proof -
  let ?k = "(px_umi_id (n_px w c), c, port)"
  have "net_ok w' \<and> grows w w' \<and> (n \<noteq> 0 \<longrightarrow> bm_left (master_port_map (n_root w')) n = Some ?k) \<and>
      (n = 0 \<or> port_min \<le> n \<and> n < port_max)"
  proof (cases "bm_right (port_map_cache (n_px w c)) ?k")
    case (Some j)
    then have r: "n = j" "w' = w" using run by (simp_all add: swizzle_port_out_def Let_def internal_port_def)
    have "bm_left (port_map_cache (n_px w c)) n = Some ?k" using Some bm.inverse[OF net_okD(3)[OF ok]] r by blast
    then have m: "n \<noteq> 0 \<Longrightarrow> bm_left (master_port_map (n_root w)) n = Some ?k" by (rule net_okD(4)[OF ok])
    then have "n = 0 \<or> port_min \<le> n \<and> n < port_max" using net_okD(5)[OF ok] by blast
    then show ?thesis using ok r(2) m by (simp add: grows_def)
  next
    case None
    obtain r where s: "SetupExternalPortMapping (px_umi_id (n_px w c)) port c (n_root w) = (n, r)"
      and w': "w' = set_px c ((n_px w c)\<lparr>port_map_cache := bm_insert n ?k (port_map_cache (n_px w c))\<rparr>) (w\<lparr>n_root := r\<rparr>)"
      using run None by (auto simp: swizzle_port_out_def Let_def internal_port_def split: prod.splits)
    note S = SetupExternalPortMapping_ok[OF net_okD(1)[OF ok] s]
    have "net_ok (w\<lparr>n_root := r\<rparr>)"
      using ok S(1,3,5) unfolding net_ok_def bm.below_def zero_unused_def by simp
    then have "net_ok w'" unfolding w'
      using S(2,5) net_okD(6,7)[OF ok] by (intro net_ok_px) (auto simp: net_ok_def bm.ins_ok bm.ins_left intro: bm.below_ins)
    then show ?thesis using S(2-4) by (simp add: w' grows_def)
  qed
  then show "net_ok w'" "grows w w'" "n \<noteq> 0 \<Longrightarrow> bm_left (master_port_map (n_root w')) n = Some ?k"
    "n = 0 \<or> port_min \<le> n \<and> n < port_max" by blast+
qed

lemma RemoveInstanceState_cache [simp]: "port_map_cache (RemoveInstanceState i ps p) = port_map_cache p"
proof -
  have "port_map_cache (fold (\<lambda>i p. p\<lparr>host_src_port_map_cache := (host_src_port_map_cache p)(i := None)\<rparr>) l q) = port_map_cache q" for l and q :: um_proxy
    by (induction l arbitrary: q) simp_all
  then show ?thesis by (simp add: RemoveInstanceState_def Let_def split: option.split)
qed

lemma RegisterInternalPort_cache [simp]: "port_map_cache (RegisterInternalPort i port p) = port_map_cache p"
  by (simp add: RegisterInternalPort_def Let_def split: option.split)

lemma px_apply_ok: "net_ok w \<Longrightarrow> px_apply c op w = Inr w' \<Longrightarrow> net_ok w' \<and> grows w w'"
proof (cases op)
  case (PxOut iport)
  then show "net_ok w \<Longrightarrow> px_apply c op w = Inr w' \<Longrightarrow> net_ok w' \<and> grows w w'"
    using swizzle_port_out_ok(1,2)[of w c iport "fst (swizzle_port_out c iport w)" w'] by auto
next
  case (PxIn nport)
  then show "net_ok w \<Longrightarrow> px_apply c op w = Inr w' \<Longrightarrow> net_ok w' \<and> grows w w'"
    using external_portmap_lookup_ok(1,2)[of w c nport]
    by (auto simp: swizzle_port_in_def and_then_eq_Inr kassert_eq_Inr)
qed (auto simp: SetActiveInstance_def grows_def intro!: net_ok_px dest: net_okD(3) simp: net_ok_def zero_unused_def)

lemma px_reach_ok: "px_reach w w' \<Longrightarrow> net_ok w \<Longrightarrow> net_ok w' \<and> grows w w'"
proof (induction rule: px_reach.induct)
  case (px_more w w' c op w'')
  then show ?case using px_apply_ok[of w' c op w''] unfolding grows_def by blast
qed (simp add: grows_def)

text \<open>A lookup of a port the root knows answers the root's entry, on every core.\<close>

lemma swizzle_port_in_known:
  assumes "net_ok w" "bm_left (master_port_map (n_root w)) n = Some i" "n \<noteq> 0" "i \<noteq> null_port_mapping"
  shows "\<exists>w'. external_portmap_lookup c n w = Inr (i, w') \<and> swizzle_port_in c n w = Inr (snd (snd i), w')"
proof (cases "bm_left (port_map_cache (n_px w c)) n")
  case (Some j)
  then have "j = i" using net_okD(4)[OF assms(1) Some assms(3)] assms(2) by simp
  then show ?thesis using Some assms(4) by (simp add: external_portmap_lookup_def swizzle_port_in_def Let_def)
next
  case None
  then show ?thesis using assms(2,4)
    by (simp add: external_portmap_lookup_def swizzle_port_in_def Let_def ExternalPortLookup_def)
qed

lemma ProxyRoot_init_first: "\<exists>ps. port_set ProxyRoot_init = 256 # ps"
proof -
  have "unat port_min < unat port_max" by (simp add: port_min_def port_max_def)
  then have "[unat port_min ..< unat port_max] = unat port_min # [Suc (unat port_min) ..< unat port_max]"
    by (rule upt_conv_Cons)
  then show ?thesis unfolding ProxyRoot_init_def by (simp only: proxy_root.simps list.map) (simp add: port_min_def)
qed

section \<open>Properties\<close>

text \<open>
  C15. The NAT round trip: when an outgoing segment of the loaded instance of core \<open>c\<close> has been
  given an external port \<open>n\<close> (not 0, the answer of an exhausted allocator), then after any
  further calls on any cores, every core translates an incoming segment for \<open>n\<close> back to that
  instance, core and port, and \<open>n\<close> lies in the NAT range.
\<close>

theorem nat_round_trip:
  assumes "px_reach net_init w" "swizzle_port_out c port w = (n, w1)" "n \<noteq> 0" "px_reach w1 w2"
    and "internal_port port (px_umi_id (n_px w c)) c \<noteq> null_port_mapping"
  shows "port_min \<le> n \<and> n < port_max \<and>
     (\<exists>w3. external_portmap_lookup d n w2 = Inr (internal_port port (px_umi_id (n_px w c)) c, w3) \<and>
           swizzle_port_in d n w2 = Inr (port, w3))"
proof -
  let ?i = "internal_port port (px_umi_id (n_px w c)) c"
  have ok: "net_ok w" using px_reach_ok[OF assms(1) net_init_ok] by blast
  note O = swizzle_port_out_ok[OF ok assms(2)]
  have "net_ok w2" "grows w1 w2" using px_reach_ok[OF assms(4) O(1)] by blast+
  moreover from this(2) have "bm_left (master_port_map (n_root w2)) n = Some ?i"
    using O(3)[OF assms(3)] unfolding grows_def internal_port_def by blast
  ultimately show ?thesis
    using swizzle_port_in_known[of w2 n ?i d] assms(3,5) O(4) by (auto simp: internal_port_def)
qed

theorem nat_round_trip_witness:
  "\<exists>w3. external_portmap_lookup 1 256 (snd (swizzle_port_out 0 0x1F90 (set_px 0 (SetActiveInstance 7 UmProxy_init) net_init)))
       = Inr ((7, 0, 0x1F90), w3)"
proof -
  let ?w = "set_px 0 (SetActiveInstance 7 UmProxy_init) net_init"
  have r: "px_reach net_init ?w"
    using px_more[OF px_refl, of 0 "PxActive 7" net_init ?w] by (simp add: net_init_def)
  obtain ps where hd: "port_set ProxyRoot_init = 256 # ps" using ProxyRoot_init_first by blast
  have mp: "master_port_map ProxyRoot_init = []" by (simp add: ProxyRoot_init_def)
  have n: "fst (swizzle_port_out 0 0x1F90 ?w) = 256"
    by (simp add: swizzle_port_out_def SetActiveInstance_def UmProxy_init_def bm_right_def net_init_def
        SetupExternalPortMapping_def allocate_port_def Let_def internal_port_def hd mp)
  have "256 \<noteq> (0 :: u16)" "internal_port 0x1F90 (px_umi_id (n_px ?w 0)) 0 \<noteq> null_port_mapping"
    by (simp_all add: internal_port_def null_port_mapping_def)
  from nat_round_trip[OF r _ this(1) px_refl this(2), of _ 1] n show ?thesis
    by (auto simp: internal_port_def SetActiveInstance_def prod_eq_iff)
qed

lemma fold_erase:
  fixes q :: um_proxy
  shows "host_src_port_map_cache
     (fold (\<lambda>i p. p\<lparr>host_src_port_map_cache := (host_src_port_map_cache p)(i := None)\<rparr>) l q) x =
   (if x \<in> set l then None else host_src_port_map_cache q x)"
  by (induction l arbitrary: q) auto

text \<open>
  Internal ports: registering a port never moves a port another instance holds. But the
  instance whose registration was refused still records the port as its own
  (\<open>UmInstance::RegisterPort\<close>), and when its state is removed the port of the rightful owner
  is erased.
\<close>

theorem refused_port_erased:
  assumes "host_src_port_map_cache p port = Some a" "a \<noteq> Id b" "RegisterPort port b p = (b', p')"
  shows "internal_port_lookup port p' = a \<and>
     internal_port_lookup port (RemoveInstanceState (Id b') (Some (u_src_ports b')) p') = null_id"
  using assms
  by (auto simp: RegisterPort_def RegisterInternalPort_def internal_port_lookup_def RemoveInstanceState_def
      Let_def fold_erase Id_def)

theorem refused_port_erased_witness:
  "internal_port_lookup 80 (RemoveInstanceState 1 (Some [80])
     (RegisterInternalPort 1 80 (RegisterInternalPort 5 80 UmProxy_init))) = null_id"
proof -
  let ?p = "RegisterInternalPort 5 80 UmProxy_init"
  have "host_src_port_map_cache ?p 80 = Some 5" by (simp add: RegisterInternalPort_def UmProxy_init_def)
  moreover have "5 \<noteq> Id (one_region Region_init)" by (simp add: Id_def one_region_def)
  moreover have "RegisterPort 80 (one_region Region_init) ?p =
      ((one_region Region_init)\<lparr>u_src_ports := [80]\<rparr>, RegisterInternalPort 1 80 ?p)"
    by (simp add: RegisterPort_def one_region_def Id_def)
  ultimately show ?thesis using refused_port_erased[of ?p 80 5 "one_region Region_init"]
    by (simp add: Id_def one_region_def)
qed

end
