(* ===== verification/Umm_Manager.thy ===== *)
theory Umm_Manager
  imports Umm_Proxy
begin

text \<open>
  The manager of one core, \<open>UmManager\<close> (\<^verbatim>\<open>src/src/UmManager.h\<close>, \<^verbatim>\<open>UmManager.cc\<close>): the execution
  slot and its status, the instance it holds, the queue of the others, gateway, checkpoint and
  page-fault handlers, and the operations of \<open>UmInstance\<close> that call the manager (sleeping, waking,
  timer, packet delivery).

  \<open>Start\<close>, \<open>Halt\<close> and \<open>Block\<close> hand over control in the middle: \<open>int3\<close> runs \<open>process_gateway\<close>
  and continues with the frame it leaves, and a saved event context continues later. Each is
  modelled by its parts, named after the point they continue from. What EbbRT's event manager
  is asked to do later is recorded in \<open>m_events\<close>. Two things come from outside: the number of
  pending events (\<open>QueueLength\<close>), and the continuations clients attach to futures, which
  \<open>Promise::SetValue\<close> runs: the parameters \<open>act\<close> (a queued instance was loaded) and \<open>snap\<close>
  (a checkpoint was taken).
\<close>

section \<open>State\<close>

datatype status = empty | loaded | active | snapshot | idle | halting | finished

datatype event = EvYield | EvHalt | EvContext u32

record mgr =
  m_status :: status
  active_umi :: "umi option"
  inactive_umi_map :: "u32 \<Rightarrow> umi option"
  idle_umi_queue :: "u32 list"
  inactive_umi_halt_map :: "u32 \<Rightarrow> bool option"
  activation_promise_map :: "u32 \<Rightarrow> unit option"
  m_px :: um_proxy
  ms :: mach
  m_events :: "event list"

definition kSlotStartVAddr :: u64 where "kSlotStartVAddr = 0xFFFFC00000000000"
definition kSlotEndVAddr :: u64 where "kSlotEndVAddr = 0xFFFFC07FFFFFFFFF"
definition kSlotPageLength :: u64 where "kSlotPageLength = 0x7FFFFFF"

definition mgr_init :: "mach \<Rightarrow> mgr" where
  "mgr_init m = \<lparr>m_status = empty, active_umi = None, inactive_umi_map = (\<lambda>_. None), idle_umi_queue = [],
     inactive_umi_halt_map = (\<lambda>_. None), activation_promise_map = (\<lambda>_. None), m_px = UmProxy_init,
     ms = m, m_events = []\<rparr>"

text \<open>\<open>unordered_map::emplace\<close> keeps an entry that is already there.\<close>

definition emplace :: "('k \<Rightarrow> 'v option) \<Rightarrow> 'k \<Rightarrow> 'v \<Rightarrow> 'k \<Rightarrow> 'v option" where
  "emplace f k v = (if f k = None then f(k \<mapsto> v) else f)"

text \<open>A dereference of the pointer to the loaded instance.\<close>

definition with_active :: "mgr \<Rightarrow> (umi \<Rightarrow> 'a res) \<Rightarrow> 'a res" where
  "with_active s f = (case active_umi s of None \<Rightarrow> Inl Undef | Some u \<Rightarrow> f u)"

definition SpawnLocal :: "event \<Rightarrow> mgr \<Rightarrow> mgr" where
  "SpawnLocal e s = s\<lparr>m_events := m_events s @ [e]\<rparr>"

section \<open>Status\<close>

text \<open>\<open>UmmStatus::set\<close>.\<close>

definition status_change :: "status \<Rightarrow> status \<Rightarrow> bool" where
  "status_change cur new_status =
     (case new_status of
        empty \<Rightarrow> \<not> (cur = active \<or> cur = snapshot)
      | loaded \<Rightarrow> \<not> (cur \<noteq> empty)
      | active \<Rightarrow> \<not> (cur \<noteq> loaded \<and> cur \<noteq> snapshot \<and> cur \<noteq> idle)
      | idle \<Rightarrow> \<not> (cur \<noteq> active \<and> cur \<noteq> loaded)
      | snapshot \<Rightarrow> \<not> (cur \<noteq> active)
      | halting \<Rightarrow> \<not> (cur = finished \<or> cur = empty)
      | finished \<Rightarrow> \<not> (cur \<noteq> halting))"

definition set_status :: "status \<Rightarrow> mgr \<Rightarrow> mgr res" where
  "set_status new_status s =
     (if status_change (m_status s) new_status then Inr (s\<lparr>m_status := new_status\<rparr>) else Inl KAbort)"

section \<open>Queries\<close>

definition valid_address :: "u64 \<Rightarrow> bool" where
  "valid_address vaddr \<longleftrightarrow> vaddr \<noteq> 0 \<and> (kSlotStartVAddr \<le> vaddr \<and> vaddr < kSlotEndVAddr)"

definition slot_has_instance :: "mgr \<Rightarrow> bool" where
  "slot_has_instance s = (active_umi s \<noteq> None)"

definition is_active_instance :: "u32 \<Rightarrow> mgr \<Rightarrow> bool" where
  "is_active_instance uid s = (case active_umi s of None \<Rightarrow> False | Some u \<Rightarrow> uid = Id u)"

definition ActiveInstanceId :: "mgr \<Rightarrow> u32" where
  "ActiveInstanceId s = (case active_umi s of None \<Rightarrow> 0 | Some u \<Rightarrow> Id u)"

definition ActiveInstance :: "mgr \<Rightarrow> umi option" where "ActiveInstance s = active_umi s"

definition activation_queue_size :: "mgr \<Rightarrow> nat" where
  "activation_queue_size s = card (dom (activation_promise_map s))"

definition GetInstance :: "u32 \<Rightarrow> mgr \<Rightarrow> umi option" where
  "GetInstance uid s =
     (if uid = null_id then None
      else if is_active_instance uid s then active_umi s
      else inactive_umi_map s uid)"

definition request_slot_entry :: "u32 \<Rightarrow> mgr \<Rightarrow> bool res" where
  "request_slot_entry uid s =
     (if ActiveInstanceId s \<noteq> uid then Inr False
      else if m_status s = halting \<or> m_status s = snapshot \<or> m_status s = finished then Inr False
      else with_active s (\<lambda>u. kassert (Id u = uid) (Inr True)))"

definition GetKernStackPtr :: "mgr \<Rightarrow> u64 res" where
  "GetKernStackPtr s = kbugon (\<not> slot_has_instance s) (with_active s (\<lambda>u. Inr (ef_rsp (u_caller_frame u))))"

definition RestoreFnStackPtr :: "mgr \<Rightarrow> u64 res" where
  "RestoreFnStackPtr s = kbugon (\<not> slot_has_instance s) (with_active s (\<lambda>u. Inr (u_fnStack u)))"

definition SaveFnStackPtr :: "u64 \<Rightarrow> mgr \<Rightarrow> mgr res" where
  "SaveFnStackPtr fnStack s =
     kbugon (\<not> slot_has_instance s) (with_active s (\<lambda>u. Inr (s\<lparr>active_umi := Some (u\<lparr>u_fnStack := fnStack\<rparr>)\<rparr>)))"

section \<open>The queue of idle instances\<close>

definition slot_queue_push :: "u32 \<Rightarrow> mgr \<Rightarrow> mgr" where
  "slot_queue_push uid s = s\<lparr>idle_umi_queue := idle_umi_queue s @ [uid]\<rparr>"

definition slot_queue_pop :: "mgr \<Rightarrow> u32 \<times> mgr" where
  "slot_queue_pop s =
     (case idle_umi_queue s of [] \<Rightarrow> (null_id, s) | i # q \<Rightarrow> (i, s\<lparr>idle_umi_queue := q\<rparr>))"

definition slot_queue_pop_end :: "mgr \<Rightarrow> u32 \<times> mgr" where
  "slot_queue_pop_end s =
     (if idle_umi_queue s \<noteq> [] then (last (idle_umi_queue s), s\<lparr>idle_umi_queue := butlast (idle_umi_queue s)\<rparr>)
      else (null_id, s))"

definition slot_queue_size :: "mgr \<Rightarrow> nat" where "slot_queue_size s = length (idle_umi_queue s)"

fun slot_queue_find :: "u32 list \<Rightarrow> u32 \<Rightarrow> nat option" where
  "slot_queue_find [] uid = None"
| "slot_queue_find (i # q) uid = (if i = uid then Some 0 else map_option Suc (slot_queue_find q uid))"

definition slot_queue_get_pos :: "u32 \<Rightarrow> mgr \<Rightarrow> nat option" where
  "slot_queue_get_pos uid s = slot_queue_find (idle_umi_queue s) uid"

definition slot_queue_remove :: "u32 \<Rightarrow> mgr \<Rightarrow> (bool \<times> mgr) res" where
  "slot_queue_remove uid s =
     (case slot_queue_get_pos uid s of
        Some pos \<Rightarrow> kassert (pos < slot_queue_size s)
          (Inr (True, s\<lparr>idle_umi_queue := take pos (idle_umi_queue s) @ drop (Suc pos) (idle_umi_queue s)\<rparr>))
      | None \<Rightarrow> Inr (False, s))"

text \<open>\<open>front()\<close> of an empty deque is undefined.\<close>

definition slot_queue_move_to_front :: "u32 \<Rightarrow> mgr \<Rightarrow> (bool \<times> mgr) res" where
  "slot_queue_move_to_front uid s =
     (case idle_umi_queue s of
        [] \<Rightarrow> Inl Undef
      | i # _ \<Rightarrow>
          if i = uid then Inr (True, s)
          else
            (let original_size = length (idle_umi_queue s) in
             and_then (slot_queue_remove uid s) (\<lambda>(found, s).
               if found then
                 (let s = s\<lparr>idle_umi_queue := uid # idle_umi_queue s\<rparr> in
                  kassert (length (idle_umi_queue s) = original_size) (Inr (True, s)))
               else Inr (False, s))))"

section \<open>Loading and unloading the slot\<close>

text \<open>The debug registers: break on execution of \<open>vaddr\<close> through \<open>DR0\<close>.\<close>

definition set_snapshot :: "u64 \<Rightarrow> mgr \<Rightarrow> mgr" where
  "set_snapshot vaddr s =
     (let m = ms s;
          v = set_bit 0 (dr7 m);
          v = unset_bit 16 (unset_bit 17 v);
          v = unset_bit 18 (unset_bit 19 v)
      in s\<lparr>ms := m\<lparr>dr0 := vaddr, dr7 := v\<rparr>\<rparr>)"

definition slot_install_root :: "u64 \<Rightarrow> mgr \<Rightarrow> mgr res" where
  "slot_install_root pthRoot s =
     (if pthRoot \<noteq> 0 then
        and_then (setSlotPDPTRoot pthRoot (ms s)) (\<lambda>m.
        and_then (mgr_getSlotPDPTRoot m) (\<lambda>pdptRoot. kassert (pdptRoot \<noteq> 0) (Inr (s\<lparr>ms := m\<rparr>))))
      else Inr s)"

definition slot_occupy :: "umi \<Rightarrow> mgr \<Rightarrow> (u32 \<times> mgr) res" where
  "slot_occupy u s =
     (let s = (if valid_address (u_snap_addr u) then set_snapshot (u_snap_addr u) s else s);
          uid = Id u;
          s = s\<lparr>m_px := SetActiveInstance uid (m_px s)\<rparr>;
          s = s\<lparr>active_umi := Some u\<rparr>
      in and_then (set_status loaded s) (\<lambda>s. Inr (uid, s)))"

definition slot_load_instance :: "umi \<Rightarrow> mgr \<Rightarrow> (u32 \<times> mgr) res" where
  "slot_load_instance u s =
     kassert (m_status s = empty)
       (and_then (mgr_getSlotPDPTRoot (ms s)) (\<lambda>pdptRoot.
        kassert (pdptRoot = 0) (and_then (slot_install_root (Root (sv_pth (u_sv u))) s) (slot_occupy u))))"

text \<open>The instance handed back is the null pointer when the slot was empty.\<close>

definition slot_unload_instance :: "mgr \<Rightarrow> (umi option \<times> mgr) res" where
  "slot_unload_instance s =
     (let a = getSlotPML4PTE (ms s) in
      kassert (pte_exists (ld (ms s) a))
        (let m = st a (clearPTE (ld (ms s) a)) (ms s);
             m = flushTranslationCaches m
         in and_then (set_status empty (s\<lparr>ms := m\<rparr>)) (\<lambda>s.
            kassert (\<not> pte_exists (ld (ms s) a))
              (Inr (active_umi s, s\<lparr>active_umi := None\<rparr>)))))"

definition retire :: "umi option \<times> mgr \<Rightarrow> mgr res" where
  "retire = (\<lambda>(old_umi, s).
     case old_umi of
       None \<Rightarrow> Inl Undef
     | Some u \<Rightarrow>
         (let s = s\<lparr>inactive_umi_map := emplace (inactive_umi_map s) (Id u) u\<rparr>;
              s = slot_queue_push (Id u) s
          in kassert (m_status s = empty) (Inr s)))"

definition slot_swap_instance :: "umi \<Rightarrow> mgr \<Rightarrow> (u32 \<times> mgr) res" where
  "slot_swap_instance u s =
     and_then (if m_status s \<noteq> empty
               then kassert (m_status s = idle) (and_then (slot_unload_instance s) retire)
               else Inr s)
       (slot_load_instance u)"

definition queue_instance_activation :: "umi \<Rightarrow> mgr \<Rightarrow> mgr res" where
  "queue_instance_activation u s =
     kassert (m_status s \<noteq> empty)
       (let uid = Id u;
            s = slot_queue_push uid s;
            s = s\<lparr>activation_promise_map := emplace (activation_promise_map s) uid ()\<rparr>
        in Inr (s\<lparr>inactive_umi_map := emplace (inactive_umi_map s) uid u\<rparr>))"

text \<open>\<open>True\<close>: the future is ready.\<close>

definition Load :: "umi \<Rightarrow> mgr \<Rightarrow> (bool \<times> mgr) res" where
  "Load u s =
     (if m_status s = empty then and_then (slot_load_instance u s) (\<lambda>(_, s). Inr (True, s))
      else
        and_then (if m_status s = idle then with_active s (\<lambda>a. Inr (IsInactive a)) else Inr False) (\<lambda>swap.
          if swap then and_then (slot_swap_instance u s) (\<lambda>(loaded_id, s). kbugon (loaded_id \<noteq> Id u) (Inr (True, s)))
          else and_then (queue_instance_activation u s) (\<lambda>s. Inr (False, s))))"

section \<open>Entry and exit of the slot\<close>

definition process_gateway :: "eframe \<Rightarrow> mgr \<Rightarrow> (eframe \<times> mgr) res" where
  "process_gateway ef s =
     (let stat = m_status s in
      if stat = loaded then
        with_active s (\<lambda>u.
          let s = s\<lparr>active_umi := Some (u\<lparr>u_caller_frame := ef\<rparr>)\<rparr>;
              ef = sv_ef (u_sv u)
          in and_then (set_status active s) (\<lambda>s.
             Inr (ef\<lparr>ef_ss := push_bit 3 3 OR 3, ef_cs := push_bit 3 4 OR 3\<rparr>, s)))
      else if stat = halting then
        with_active s (\<lambda>u. and_then (set_status finished s) (\<lambda>s. Inr (u_caller_frame u, s)))
      else Inl KAbort)"

text \<open>\<open>Start\<close> up to the \<open>int3\<close>, taken with the frame \<open>ef\<close>; and after \<open>Halt\<close>.\<close>

definition Start_enter :: "u32 \<Rightarrow> eframe \<Rightarrow> mgr \<Rightarrow> (eframe \<times> mgr) res" where
  "Start_enter uid ef s =
     kassert (m_status s = loaded) (with_active s (\<lambda>u. kassert (uid = Id u) (process_gateway ef s)))"

definition Start_return :: "mgr \<Rightarrow> (umi option \<times> mgr) res" where
  "Start_return s =
     (let s = (if slot_queue_size s \<noteq> 0 then SpawnLocal EvYield s else s) in slot_unload_instance s)"

definition Run_enter :: "umi \<Rightarrow> eframe \<Rightarrow> mgr \<Rightarrow> (eframe \<times> mgr) res" where
  "Run_enter u ef s =
     and_then (if m_status s = empty then and_then (slot_load_instance u s) (\<lambda>(_, s). Inr s)
               else if m_status s = idle then with_active s (\<lambda>a. Inl KAbort)
               else Inl KAbort) (\<lambda>s.
     kassert (m_status s = loaded) (with_active s (\<lambda>a. kassert (Id u = Id a) (process_gateway ef s))))"

definition Run_return :: "mgr \<Rightarrow> (umi option \<times> mgr) res" where
  "Run_return s = slot_unload_instance s"

text \<open>
  \<open>Halt\<close>, with \<open>qlen\<close> the number of pending events and \<open>ef\<close> the frame of its \<open>int3\<close>: either
  it waits for the events (\<open>None\<close>), or control continues with the frame returned.
\<close>

definition Halt :: "nat \<Rightarrow> eframe \<Rightarrow> mgr \<Rightarrow> (eframe option \<times> mgr) res" where
  "Halt qlen ef s =
     kbugon (m_status s = empty)
       (with_active s (\<lambda>u.
          and_then (set_status halting (s\<lparr>active_umi := Some (SetActive u)\<rparr>)) (\<lambda>s.
            if qlen \<noteq> 0 then Inr (None, SpawnLocal EvHalt s)
            else kassert (m_status s \<noteq> empty)
              (let uid = Id u;
                   s = s\<lparr>m_px := RemoveInstanceState uid (map_option u_src_ports (GetInstance uid s)) (m_px s)\<rparr>
               in and_then (process_gateway ef s) (\<lambda>(ef, s). Inr (Some ef, s))))))"

section \<open>Sleeping and waking\<close>

text \<open>Changing an instance through its pointer, wherever the manager keeps it.\<close>

definition with_umi :: "u32 \<Rightarrow> mgr \<Rightarrow> (umi \<Rightarrow> 'a res) \<Rightarrow> 'a res" where
  "with_umi uid s f =
     (if is_active_instance uid s then with_active s f
      else case inactive_umi_map s uid of None \<Rightarrow> Inl Undef | Some u \<Rightarrow> f u)"

definition put_umi :: "u32 \<Rightarrow> umi \<Rightarrow> mgr \<Rightarrow> mgr" where
  "put_umi uid u s =
     (if is_active_instance uid s then s\<lparr>active_umi := Some u\<rparr>
      else s\<lparr>inactive_umi_map := (inactive_umi_map s)(uid \<mapsto> u)\<rparr>)"

definition unblock_execution :: "u32 \<Rightarrow> mgr \<Rightarrow> mgr res" where
  "unblock_execution uid s =
     with_umi uid s (\<lambda>u. kassert (u_context u)
       (Inr (SpawnLocal (EvContext uid) (put_umi uid (disable_timer (u\<lparr>u_blocked := False\<rparr>)) s))))"

definition Kick :: "u32 \<Rightarrow> mgr \<Rightarrow> mgr res" where
  "Kick uid s = with_umi uid s (\<lambda>u. if u_blocked u then unblock_execution uid s else Inr s)"

text \<open>Up to \<open>SaveContext\<close>, which suspends the caller.\<close>

definition block_execution :: "u32 \<Rightarrow> mgr \<Rightarrow> mgr res" where
  "block_execution uid s = with_umi uid s (\<lambda>u. Inr (put_umi uid (u\<lparr>u_context := True, u_blocked := True\<rparr>) s))"

text \<open>\<open>True\<close>: suspended; \<open>False\<close>: returned at once.\<close>

definition Sleep :: "u32 \<Rightarrow> int \<Rightarrow> u64 \<Rightarrow> mgr \<Rightarrow> (bool \<times> mgr) res" where
  "Sleep uid now ns s =
     with_umi uid s (\<lambda>u.
       if u_timer_set u then Inl KAbort
       else if ns = 0 then Inr (False, s)
       else
         and_then (if IsActive u then
                     and_then (chrono (now + nanoseconds ns)) (\<lambda>t.
                     and_then (enable_timer now (u\<lparr>u_time_wait := t\<rparr>)) (\<lambda>u. Inr (put_umi uid u s)))
                   else Inr s) (\<lambda>s.
         and_then (block_execution uid s) (\<lambda>s. Inr (True, s))))"

definition Block_return :: "mgr \<Rightarrow> mgr res" where
  "Block_return s =
     (if m_status s = halting \<or> m_status s = finished then Inl KAbort else set_status active s)"

definition Block :: "int \<Rightarrow> u64 \<Rightarrow> mgr \<Rightarrow> (bool \<times> mgr) res" where
  "Block now ns s =
     and_then (set_status idle s) (\<lambda>s.
     with_active s (\<lambda>u.
     and_then (Sleep (Id u) now ns s) (\<lambda>(suspended, s).
       if suspended then Inr (True, s) else and_then (Block_return s) (\<lambda>s. Inr (False, s)))))"

text \<open>
  The saved context of an instance continues: it blocks again when it may not enter the slot,
  and otherwise returns to \<open>Block\<close>.
\<close>

definition context_resumed :: "u32 \<Rightarrow> mgr \<Rightarrow> mgr res" where
  "context_resumed uid s =
     with_umi uid s (\<lambda>u.
       let s = put_umi uid (u\<lparr>u_context := False\<rparr>) s in
       and_then (request_slot_entry uid s) (\<lambda>may.
         if \<not> may then block_execution uid s
         else kassert (ActiveInstanceId s = uid) (Block_return s)))"

definition Fire :: "u32 \<Rightarrow> int \<Rightarrow> mgr \<Rightarrow> mgr res" where
  "Fire uid now s =
     with_umi uid s (\<lambda>u. kassert (u_timer_set u)
       (let u = u\<lparr>u_timer_set := False\<rparr>; s = put_umi uid u s in
        if u_time_wait u \<noteq> 0 \<and> u_time_wait u \<le> now then
          (let s = put_umi uid (u\<lparr>u_time_wait := 0\<rparr>) s in
           and_then (request_slot_entry uid s) (\<lambda>may. if may then Kick uid s else Inr s))
        else Inr s))"

section \<open>Yielding the slot\<close>

text \<open>The first instance of the queue that is active; \<open>null_id\<close> when there is none.\<close>

fun first_eligible :: "u32 list \<Rightarrow> mgr \<Rightarrow> u32 res" where
  "first_eligible [] s = Inr null_id"
| "first_eligible (i # q) s =
     (case GetInstance i s of
        Some u \<Rightarrow> if IsActive u then kassert (Id u = i) (Inr (Id u)) else first_eligible q s
      | None \<Rightarrow> first_eligible q s)"

definition yield_out :: "mgr \<Rightarrow> mgr res" where
  "yield_out s = and_then (slot_unload_instance s) retire"

definition take_inactive :: "u32 \<Rightarrow> mgr \<Rightarrow> (umi \<times> mgr) res" where
  "take_inactive next_umi_id s =
     (case inactive_umi_map s next_umi_id of
        None \<Rightarrow> Inl KAbort
      | Some u \<Rightarrow>
          (let s = s\<lparr>inactive_umi_map := (inactive_umi_map s)(next_umi_id := None)\<rparr>
           in and_then (slot_queue_remove next_umi_id s) (\<lambda>(_, s). Inr (u, s))))"

definition yield_load :: "umi \<Rightarrow> mgr \<Rightarrow> mgr res" where
  "yield_load u s =
     and_then (if m_status s = idle then and_then (slot_swap_instance u s) (\<lambda>(_, s). Inr s)
               else if m_status s = empty then and_then (slot_load_instance u s) (\<lambda>(_, s). Inr s)
               else Inl KAbort) (\<lambda>s. kassert (m_status s = loaded) (Inr s))"

definition yield_finish :: "(u32 \<Rightarrow> mgr \<Rightarrow> mgr res) \<Rightarrow> nat \<Rightarrow> eframe \<Rightarrow> u32 \<Rightarrow> mgr \<Rightarrow> (eframe option \<times> mgr) res" where
  "yield_finish act qlen ef next_umi_id s =
     (case activation_promise_map s next_umi_id of
        Some _ \<Rightarrow>
          (let s = s\<lparr>activation_promise_map := (activation_promise_map s)(next_umi_id := None)\<rparr>
           in and_then (act next_umi_id s) (\<lambda>s. kassert (m_status s = loaded) (Inr (None, s))))
      | None \<Rightarrow>
          (case inactive_umi_halt_map s next_umi_id of
             Some _ \<Rightarrow>
               (let s = s\<lparr>inactive_umi_halt_map := (inactive_umi_halt_map s)(next_umi_id := None)\<rparr>
                in and_then (set_status idle s) (Halt qlen ef))
           | None \<Rightarrow>
               and_then (set_status idle s) (\<lambda>s.
               with_active s (\<lambda>u. and_then (Kick (Id u) s) (\<lambda>s. Inr (None, s))))))"

definition Yield :: "(u32 \<Rightarrow> mgr \<Rightarrow> mgr res) \<Rightarrow> nat \<Rightarrow> eframe \<Rightarrow> mgr \<Rightarrow> (eframe option \<times> mgr) res" where
  "Yield act qlen ef s =
     (if (case active_umi s of None \<Rightarrow> False | Some u \<Rightarrow> IsActive u) then Inr (None, s)
      else if m_status s \<noteq> idle \<and> m_status s \<noteq> empty then Inr (None, s)
      else if slot_queue_size s = 0 then and_then (yield_out s) (\<lambda>s. Inr (None, s))
      else
        and_then (first_eligible (idle_umi_queue s) s) (\<lambda>next_umi_id.
          if next_umi_id = null_id then Inr (None, s)
          else
            and_then (take_inactive next_umi_id s) (\<lambda>(u, s).
            and_then (yield_load u s) (yield_finish act qlen ef next_umi_id))))"

section \<open>Signals\<close>

definition SignalHalt :: "(u32 \<Rightarrow> mgr \<Rightarrow> mgr res) \<Rightarrow> nat \<Rightarrow> eframe \<Rightarrow> u32 \<Rightarrow> mgr \<Rightarrow> (eframe option \<times> mgr) res" where
  "SignalHalt act qlen ef uid s =
     kassert (slot_has_instance s)
       (if is_active_instance uid s then Halt qlen ef s
        else and_then (slot_queue_move_to_front uid s) (\<lambda>(_, s).
          Yield act qlen ef (s\<lparr>inactive_umi_halt_map := emplace (inactive_umi_halt_map s) uid True\<rparr>)))"

definition SignalYield :: "u32 \<Rightarrow> mgr \<Rightarrow> mgr" where
  "SignalYield uid s = (if ActiveInstanceId s \<noteq> uid then s else SpawnLocal EvYield s)"

definition SignalResume :: "(u32 \<Rightarrow> mgr \<Rightarrow> mgr res) \<Rightarrow> nat \<Rightarrow> eframe \<Rightarrow> u32 \<Rightarrow> mgr \<Rightarrow> (eframe option \<times> mgr) res" where
  "SignalResume act qlen ef uid s =
     (if ActiveInstanceId s = uid then
        (case ActiveInstance s of None \<Rightarrow> Inl Undef | Some u \<Rightarrow> and_then (Kick (Id u) s) (\<lambda>s. Inr (None, s)))
      else and_then (slot_queue_move_to_front uid s) (\<lambda>(_, s). Yield act qlen ef s))"

text \<open>\<open>UmInstance::WritePacket\<close> on a managed instance.\<close>

definition WritePacket :: "(u32 \<Rightarrow> mgr \<Rightarrow> mgr res) \<Rightarrow> nat \<Rightarrow> eframe \<Rightarrow> u32 \<Rightarrow> u8 list list \<Rightarrow> mgr \<Rightarrow> (eframe option \<times> mgr) res" where
  "WritePacket act qlen ef uid buf s =
     and_then (SignalResume act qlen ef uid s) (\<lambda>(fr, s).
     with_umi uid s (\<lambda>u. Inr (fr, put_umi uid (u\<lparr>u_recv_queue := u_recv_queue u @ [buf]\<rparr>) s)))"

section \<open>Checkpoints and page faults\<close>

text \<open>
  A promise of EbbRT is to be set once: setting it again is outside its contract and has no
  model. \<open>snap_p\<close> is not initialised before \<open>SetCheckpoint\<close>.
\<close>

definition take_snapshot :: "eframe \<Rightarrow> umi \<Rightarrow> mach \<Rightarrow> (sv \<times> mach) res" where
  "take_snapshot ef u m =
     (let snap_sv = UmSV_init\<lparr>sv_ef := ef\<rparr>;
          snap_sv = fold AddRegion (sv_regions (u_sv u)) snap_sv
      in and_then (mgr_getSlotPDPTRoot m) (\<lambda>r.
         and_then (copyInPages (sv_pth snap_sv) r m) (\<lambda>(p, m). Inr (snap_sv\<lparr>sv_pth := p\<rparr>, m))))"

definition process_checkpoint :: "(sv \<Rightarrow> mgr \<Rightarrow> mgr res) \<Rightarrow> eframe \<Rightarrow> mgr \<Rightarrow> mgr res" where
  "process_checkpoint snap ef s =
     kassert (m_status s \<noteq> snapshot)
       (with_active s (\<lambda>u.
          if u_snap_addr u = 0 then Inr s
          else
            and_then (set_status snapshot s) (\<lambda>s.
            and_then (take_snapshot ef u (ms s)) (\<lambda>(snap_sv, m).
              let s = s\<lparr>ms := m\<rparr> in
              (case u_snap_p u of
                 None \<Rightarrow> Inl Undef
               | Some [] \<Rightarrow>
                   and_then (snap snap_sv (s\<lparr>active_umi := Some (u\<lparr>u_snap_p := Some [snap_sv]\<rparr>)\<rparr>))
                     (set_status active)
               | Some (_ # _) \<Rightarrow> Inl Undef)))))"

definition process_pagefault :: "eframe \<Rightarrow> u64 \<Rightarrow> mgr \<Rightarrow> mgr res" where
  "process_pagefault ef vaddr s =
     kassert (m_status s \<noteq> empty)
       (kassert (valid_address vaddr)
         (kassert (m_status s \<noteq> snapshot)
           (with_active s (\<lambda>u.
              and_then (resolve_fault vaddr (ef_error_code ef) u (ms s)) (\<lambda>(u, m).
              Inr (s\<lparr>active_umi := Some u, ms := m\<rparr>))))))"

text \<open>\<open>DebugException\<close>: the resume flag, then the checkpoint. The counter is not modelled.\<close>

definition DebugException :: "(sv \<Rightarrow> mgr \<Rightarrow> mgr res) \<Rightarrow> eframe \<Rightarrow> mgr \<Rightarrow> (eframe \<times> mgr) res" where
  "DebugException snap ef s =
     (let ef = ef\<lparr>ef_rflags := ef_rflags ef OR push_bit 16 1\<rparr>
      in and_then (process_checkpoint snap ef s) (\<lambda>s. Inr (ef, s)))"

definition BreakpointException :: "eframe \<Rightarrow> mgr \<Rightarrow> (eframe \<times> mgr) res" where
  "BreakpointException ef s = process_gateway ef s"

definition HandleFault :: "eframe \<Rightarrow> u64 \<Rightarrow> mgr \<Rightarrow> mgr res" where
  "HandleFault ef addr s = process_pagefault ef addr s"

text \<open>One of the recorded events runs.\<close>

definition run_event :: "(u32 \<Rightarrow> mgr \<Rightarrow> mgr res) \<Rightarrow> nat \<Rightarrow> eframe \<Rightarrow> event \<Rightarrow> mgr \<Rightarrow> (eframe option \<times> mgr) res" where
  "run_event act qlen ef e s =
     (case e of
        EvYield \<Rightarrow> Yield act qlen ef s
      | EvHalt \<Rightarrow> Halt qlen ef s
      | EvContext uid \<Rightarrow> and_then (context_resumed uid s) (\<lambda>s. Inr (None, s)))"

end
