(* ===== verification/Umm_Schedule.thy ===== *)
theory Umm_Schedule
  imports Umm_Manager
begin

text \<open>
  What the operations of the manager keep: the consistency of the slot, the map of inactive
  instances, the queue and the pending activations, over every step of a core; and the
  behaviours built on it (preemption, wake-ups, the gateway, checkpoints, the slot's entry).
\<close>

section \<open>The invariant\<close>

type_synonym sched = "u32 list \<times> (u32 \<Rightarrow> umi option) \<times> (u32 \<Rightarrow> unit option)"

definition sched :: "mgr \<Rightarrow> sched" where
  "sched s = (idle_umi_queue s, inactive_umi_map s, activation_promise_map s)"

definition sched_ok :: "u32 set \<Rightarrow> sched \<Rightarrow> bool" where
  "sched_ok X = (\<lambda>(q, inactive, pending). distinct q \<and> set q = dom inactive \<and> null_id \<notin> set q \<and>
     (\<forall>i u. inactive i = Some u \<longrightarrow> u_id u = i) \<and> dom pending \<subseteq> dom inactive \<union> X)"

text \<open>An instance that the manager does not hold in its map.\<close>

definition outside :: "umi \<Rightarrow> mgr \<Rightarrow> bool" where
  "outside u s \<longleftrightarrow> u_id u \<noteq> null_id \<and> inactive_umi_map s (u_id u) = None"

text \<open>
  The queue and the map of inactive instances agree, no instance is in two places, the slot is
  empty exactly when it has no instance, and pending activations are of queued instances (and
  of \<open>X\<close>, the instance \<open>Yield\<close> is just moving).
\<close>

definition mgr_inv_on :: "u32 set \<Rightarrow> mgr \<Rightarrow> bool" where
  "mgr_inv_on X s \<longleftrightarrow> sched_ok X (sched s) \<and> (m_status s = empty \<longleftrightarrow> active_umi s = None) \<and>
     (\<forall>u. active_umi s = Some u \<longrightarrow> outside u s)"

abbreviation mgr_inv :: "mgr \<Rightarrow> bool" where "mgr_inv \<equiv> mgr_inv_on {}"

lemma mgr_inv_cong:
  "sched s' = sched s \<Longrightarrow> m_status s' = m_status s \<Longrightarrow> map_option u_id (active_umi s') = map_option u_id (active_umi s) \<Longrightarrow>
     mgr_inv_on X s' = mgr_inv_on X s"
  by (cases "active_umi s"; cases "active_umi s'") (auto simp: mgr_inv_on_def sched_def outside_def)

lemma mgr_inv_init: "mgr_inv (mgr_init m)"
  by (simp add: mgr_inv_on_def mgr_init_def sched_def sched_ok_def)

lemma set_status_eq_Inr:
  "set_status new s = Inr s' \<longleftrightarrow> status_change (m_status s) new \<and> s' = s\<lparr>m_status := new\<rparr>"
  by (auto simp: set_status_def)

text \<open>Leaving and reaching \<open>empty\<close> is only possible by unloading and loading.\<close>

lemma status_change_empty: "status_change empty new \<Longrightarrow> new = empty \<or> new = loaded"
  by (cases new) (simp_all add: status_change_def)

lemma status_change_loaded: "status_change new loaded \<Longrightarrow> new = empty"
  by (simp add: status_change_def)

lemma set_status_inv:
  "set_status new s = Inr s' \<Longrightarrow> mgr_inv_on X s \<Longrightarrow> new \<noteq> empty \<Longrightarrow> new \<noteq> loaded \<Longrightarrow> mgr_inv_on X s'"
  using status_change_empty by (fastforce simp: set_status_eq_Inr mgr_inv_on_def sched_def outside_def)

section \<open>Loading and unloading\<close>

lemma set_snapshot_sel [simp]:
  "sched (set_snapshot v s) = sched s" "m_status (set_snapshot v s) = m_status s"
  "active_umi (set_snapshot v s) = active_umi s" "m_events (set_snapshot v s) = m_events s"
  by (simp_all add: set_snapshot_def Let_def sched_def)

lemma sched_upd [simp]:
  "sched (s\<lparr>m_status := new\<rparr>) = sched s" "sched (s\<lparr>active_umi := a\<rparr>) = sched s" "sched (s\<lparr>ms := m\<rparr>) = sched s"
  "sched (s\<lparr>m_px := p\<rparr>) = sched s" "sched (s\<lparr>m_events := es\<rparr>) = sched s"
  "sched (s\<lparr>inactive_umi_halt_map := h\<rparr>) = sched s"
  by (simp_all add: sched_def)

lemma slot_load_spec:
  "slot_load_instance u s = Inr (i, s') \<Longrightarrow>
     i = u_id u \<and> m_status s = empty \<and> m_status s' = loaded \<and> active_umi s' = Some u \<and> sched s' = sched s"
  by (auto simp: slot_load_instance_def slot_install_root_def slot_occupy_def Let_def and_then_eq_Inr kassert_eq_Inr set_status_eq_Inr Id_def split: if_splits)

lemma slot_load_inv:
  "slot_load_instance u s = Inr (i, s') \<Longrightarrow> mgr_inv_on X s \<Longrightarrow> outside u s \<Longrightarrow> mgr_inv_on X s'"
  using slot_load_spec[of u s i s'] by (auto simp: mgr_inv_on_def outside_def sched_def)

lemma slot_unload_spec:
  "slot_unload_instance s = Inr (u, s') \<Longrightarrow>
     u = active_umi s \<and> m_status s \<noteq> active \<and> m_status s \<noteq> snapshot \<and> m_status s' = empty \<and> active_umi s' = None \<and>
     sched s' = sched s"
  by (auto simp: slot_unload_instance_def Let_def and_then_eq_Inr kassert_eq_Inr set_status_eq_Inr status_change_def)

lemma slot_unload_inv: "slot_unload_instance s = Inr (u, s') \<Longrightarrow> mgr_inv_on X s \<Longrightarrow> mgr_inv_on X s'"
  using slot_unload_spec[of s u s'] by (auto simp: mgr_inv_on_def)

lemma retire_spec:
  "retire (Some u, s) = Inr s' \<Longrightarrow> m_status s = empty \<and> m_status s' = empty \<and> active_umi s' = active_umi s \<and>
     sched s' = (idle_umi_queue s @ [u_id u], emplace (inactive_umi_map s) (u_id u) u, activation_promise_map s)"
  by (auto simp: retire_def Let_def kassert_eq_Inr sched_def slot_queue_push_def Id_def)

lemma dom_emplace [simp]: "dom (emplace f k v) = insert k (dom f)"
  by (auto simp: emplace_def)

lemma sched_ok_promise: "sched_ok X (q, inactive, pending) \<Longrightarrow> i \<in> dom inactive \<Longrightarrow> sched_ok X (q, inactive, emplace pending i ())"
  unfolding sched_ok_def prod.case dom_emplace by blast

lemma sched_ok_push:
  "sched_ok X (sched s) \<Longrightarrow> outside u s \<Longrightarrow>
     sched_ok X (idle_umi_queue s @ [u_id u], emplace (inactive_umi_map s) (u_id u) u, activation_promise_map s)"
  by (auto simp: sched_ok_def sched_def outside_def emplace_def)

text \<open>Unloading the slot and queueing its instance.\<close>

lemma yield_out_inv:
  assumes "and_then (slot_unload_instance s) retire = Inr s'" "mgr_inv_on X s"
  shows "mgr_inv_on X s'" "m_status s' = empty" "active_umi s' = None"
    "\<exists>u. active_umi s = Some u \<and> sched s' = (idle_umi_queue s @ [u_id u], emplace (inactive_umi_map s) (u_id u) u, activation_promise_map s)"
proof -
  obtain o1 s1 where un: "slot_unload_instance s = Inr (o1, s1)" and re: "retire (o1, s1) = Inr s'"
    using assms(1) by (auto simp: and_then_eq_Inr)
  note U = slot_unload_spec[OF un]
  obtain u where u: "o1 = Some u" using re by (cases o1) (auto simp: retire_def)
  note R = retire_spec[OF re[unfolded u]]
  have eq: "idle_umi_queue s1 = idle_umi_queue s" "inactive_umi_map s1 = inactive_umi_map s"
    "activation_promise_map s1 = activation_promise_map s" using U by (simp_all add: sched_def)
  have a: "active_umi s = Some u" using U u by simp
  have out: "outside u s" "sched_ok X (sched s)" using assms(2) U u by (simp_all add: mgr_inv_on_def)
  show "m_status s' = empty" "active_umi s' = None" using R U by auto
  show "\<exists>u. active_umi s = Some u \<and> sched s' = (idle_umi_queue s @ [u_id u], emplace (inactive_umi_map s) (u_id u) u, activation_promise_map s)"
    using R a eq by simp
  show "mgr_inv_on X s'" using R U eq sched_ok_push[OF out(2,1)] unfolding mgr_inv_on_def by auto
qed

lemma slot_swap_inv:
  assumes "slot_swap_instance u s = Inr (i, s')" "mgr_inv_on X s" "outside u s" "\<forall>a. active_umi s = Some a \<longrightarrow> u_id a \<noteq> u_id u"
  shows "mgr_inv_on X s'" "i = u_id u" "m_status s' = loaded" "active_umi s' = Some u"
proof -
  obtain s1 where load: "slot_load_instance u s1 = Inr (i, s')"
    and out: "s1 = s \<or> and_then (slot_unload_instance s) retire = Inr s1"
    using assms(1) by (auto simp: slot_swap_instance_def and_then_eq_Inr[of _ "slot_load_instance u"] kassert_eq_Inr split: if_splits)
  have "mgr_inv_on X s1 \<and> outside u s1"
    using out
  proof
    assume un: "and_then (slot_unload_instance s) retire = Inr s1"
    from yield_out_inv(4)[OF this assms(2)] show ?thesis
      using yield_out_inv(1)[OF un assms(2)] assms(3,4)
      by (auto simp: sched_def outside_def emplace_def split: if_splits)
  qed (use assms(2,3) in simp)
  then show "mgr_inv_on X s'" using slot_load_inv[OF load] by blast
  show "i = u_id u" "m_status s' = loaded" "active_umi s' = Some u" using slot_load_spec[OF load] by auto
qed

lemma queue_instance_activation_inv:
  assumes "queue_instance_activation u s = Inr s'" "mgr_inv s" "outside u s" "\<forall>a. active_umi s = Some a \<longrightarrow> u_id a \<noteq> u_id u"
  shows "mgr_inv s'"
proof -
  have s': "m_status s' = m_status s" "active_umi s' = active_umi s"
    "sched s' = (idle_umi_queue s @ [u_id u], emplace (inactive_umi_map s) (u_id u) u, emplace (activation_promise_map s) (u_id u) ())"
    using assms(1) by (auto simp: queue_instance_activation_def kassert_eq_Inr Let_def Id_def slot_queue_push_def sched_def)
  have inact: "inactive_umi_map s' = emplace (inactive_umi_map s) (u_id u) u" using s'(3) by (simp add: sched_def)
  have "sched_ok {} (idle_umi_queue s @ [u_id u], emplace (inactive_umi_map s) (u_id u) u, activation_promise_map s)"
    using assms(2,3) by (intro sched_ok_push) (simp_all add: mgr_inv_on_def)
  then have "sched_ok {} (sched s')" unfolding s'(3) by (rule sched_ok_promise) simp
  moreover have "outside a s'" if "active_umi s = Some a" for a
    using assms(2,4) that inact by (auto simp: mgr_inv_on_def outside_def emplace_def)
  ultimately show ?thesis using assms(2) s'(1,2) by (auto simp: mgr_inv_on_def)
qed

text \<open>An instance new to the manager.\<close>

definition fresh_umi :: "umi \<Rightarrow> mgr \<Rightarrow> bool" where
  "fresh_umi u s \<longleftrightarrow> outside u s \<and> (\<forall>a. active_umi s = Some a \<longrightarrow> u_id a \<noteq> u_id u)"

lemma Load_inv: "Load u s = Inr (r, s') \<Longrightarrow> mgr_inv s \<Longrightarrow> fresh_umi u s \<Longrightarrow> mgr_inv s'"
  using slot_load_inv[of u s] slot_swap_inv(1)[of u s] queue_instance_activation_inv[of u s]
  by (auto simp: Load_def fresh_umi_def and_then_eq_Inr kbugon_eq_Inr split: if_splits)

section \<open>Gateway\<close>

lemma process_gateway_inv: "process_gateway ef s = Inr (fr, s') \<Longrightarrow> mgr_inv s \<Longrightarrow> mgr_inv s'"
  by (auto simp: process_gateway_def Let_def with_active_def and_then_eq_Inr set_status_eq_Inr mgr_inv_on_def outside_def
      split: if_splits option.splits)

lemma Start_enter_inv: "Start_enter uid ef s = Inr (fr, s') \<Longrightarrow> mgr_inv s \<Longrightarrow> mgr_inv s'"
  using process_gateway_inv by (auto simp: Start_enter_def with_active_def kassert_eq_Inr split: option.splits)

lemma Start_return_inv: "Start_return s = Inr (u, s') \<Longrightarrow> mgr_inv s \<Longrightarrow> mgr_inv s'"
proof -
  assume run: "Start_return s = Inr (u, s')" and inv: "mgr_inv s"
  have "mgr_inv (SpawnLocal EvYield s)" using inv by (simp add: SpawnLocal_def mgr_inv_on_def outside_def)
  then show ?thesis using run inv slot_unload_inv by (auto simp: Start_return_def Let_def split: if_splits)
qed

lemma Run_enter_inv: "Run_enter u ef s = Inr (fr, s') \<Longrightarrow> mgr_inv s \<Longrightarrow> fresh_umi u s \<Longrightarrow> mgr_inv s'"
  using slot_load_inv[of u s] process_gateway_inv
  by (auto simp: Run_enter_def fresh_umi_def with_active_def and_then_eq_Inr kassert_eq_Inr split: if_splits option.splits)

lemma SetActive_id [simp]: "u_id (SetActive u) = u_id u"
  by (simp add: SetActive_def)

lemma Halt_inv: "Halt qlen ef s = Inr (fr, s') \<Longrightarrow> mgr_inv s \<Longrightarrow> mgr_inv s'"
proof -
  assume run: "Halt qlen ef s = Inr (fr, s')" and inv: "mgr_inv s"
  then obtain u s1 where a: "active_umi s = Some u" and st: "set_status halting (s\<lparr>active_umi := Some (SetActive u)\<rparr>) = Inr s1"
    and rest: "s' = SpawnLocal EvHalt s1 \<or> (\<exists>p f. process_gateway ef (s1\<lparr>m_px := p\<rparr>) = Inr (f, s'))"
    by (auto simp: Halt_def with_active_def and_then_eq_Inr kbugon_eq_Inr kassert_eq_Inr Let_def split: option.splits if_splits)
  have "mgr_inv (s\<lparr>active_umi := Some (SetActive u)\<rparr>)" using inv a by (simp add: mgr_inv_on_def outside_def)
  then have "mgr_inv s1" using set_status_inv[OF st] by simp
  then have "mgr_inv (SpawnLocal EvHalt s1)" "mgr_inv (s1\<lparr>m_px := p\<rparr>)" for p
    by (simp_all add: SpawnLocal_def mgr_inv_on_def outside_def)
  then show "mgr_inv s'" using rest process_gateway_inv by blast
qed

section \<open>Changing an instance through its pointer\<close>

definition held :: "u32 \<Rightarrow> mgr \<Rightarrow> umi option" where
  "held uid s = (if is_active_instance uid s then active_umi s else inactive_umi_map s uid)"

lemma with_umi_held: "with_umi uid s f = (case held uid s of None \<Rightarrow> Inl Undef | Some u \<Rightarrow> f u)"
  by (simp add: with_umi_def held_def with_active_def)

lemma with_umi_eq_Inr: "with_umi uid s f = Inr r \<longleftrightarrow> (\<exists>u. held uid s = Some u \<and> f u = Inr r)"
  by (simp add: with_umi_held split: option.split)

lemma held_id: "mgr_inv s \<Longrightarrow> held uid s = Some u \<Longrightarrow> u_id u = uid"
  by (auto simp: held_def is_active_instance_def mgr_inv_on_def sched_ok_def sched_def Id_def split: if_splits option.splits)

lemma GetInstance_held: "uid \<noteq> null_id \<Longrightarrow> GetInstance uid s = held uid s"
  by (simp add: GetInstance_def held_def)

lemma put_umi_sel [simp]:
  "m_status (put_umi uid u s) = m_status s" "ms (put_umi uid u s) = ms s" "m_events (put_umi uid u s) = m_events s"
  "idle_umi_queue (put_umi uid u s) = idle_umi_queue s" "activation_promise_map (put_umi uid u s) = activation_promise_map s"
  by (simp_all add: put_umi_def)

lemma held_put_umi: "u_id u' = uid \<Longrightarrow> held uid (put_umi uid u' s) = Some u'"
  by (simp add: held_def put_umi_def is_active_instance_def Id_def split: option.split)

lemma ActiveInstanceId_put_umi: "u_id u' = uid \<Longrightarrow> ActiveInstanceId (put_umi uid u' s) = ActiveInstanceId s"
  by (auto simp: put_umi_def ActiveInstanceId_def is_active_instance_def Id_def split: option.split)

lemma put_umi_inv:
  assumes "mgr_inv s" "held uid s = Some u" "u_id u' = uid"
  shows "mgr_inv (put_umi uid u' s)"
proof (cases "is_active_instance uid s")
  case True
  then have "active_umi s \<noteq> None" "u_id (the (active_umi s)) = uid"
    by (auto simp: is_active_instance_def Id_def split: option.splits)
  then show ?thesis using assms True by (auto simp: put_umi_def mgr_inv_on_def outside_def)
next
  case False
  then have dom: "uid \<in> dom (inactive_umi_map s)" using assms(2) by (auto simp: held_def)
  have out: "outside a (put_umi uid u' s)" if "active_umi s = Some a" for a
    using assms(1) that False
    by (auto simp: put_umi_def mgr_inv_on_def outside_def is_active_instance_def Id_def)
  have "sched_ok {} (idle_umi_queue s, (inactive_umi_map s)(uid \<mapsto> u'), activation_promise_map s)"
    using assms(1,3) dom unfolding mgr_inv_on_def sched_def sched_ok_def by (auto simp: insert_absorb)
  then show ?thesis using assms(1) out False by (simp add: put_umi_def mgr_inv_on_def sched_def)
qed

lemma SpawnLocal_inv [simp]: "mgr_inv (SpawnLocal e s) = mgr_inv s"
  by (simp add: SpawnLocal_def mgr_inv_on_def outside_def)

lemma instance_updates_id [simp]:
  "u_id (disable_timer u) = u_id u" "u_id (SetInactive u) = u_id u"
  by (simp_all add: disable_timer_def SetInactive_def)

text \<open>What \<open>Sleep\<close> does before it blocks: at most it sets the fields of the timer.\<close>

lemma put_umi_same: "held uid s = Some u \<Longrightarrow> put_umi uid u s = s"
  by (cases "active_umi s") (auto simp: held_def put_umi_def fun_upd_idem is_active_instance_def split: if_splits)

lemma Sleep_run:
  assumes "Sleep uid now ns s = Inr (b, s')"
  shows "if b then \<exists>u t d z. held uid s = Some u \<and>
       block_execution uid (put_umi uid (u\<lparr>u_time_wait := t, u_timer_due := d, u_timer_set := z\<rparr>) s) = Inr s'
     else s' = s"
proof -
  obtain u where u: "held uid s = Some u" using assms by (auto simp: Sleep_def with_umi_eq_Inr)
  show ?thesis
  proof (cases "ns = 0 \<or> IsActive u")
    case False
    have same: "u\<lparr>u_time_wait := u_time_wait u, u_timer_due := u_timer_due u, u_timer_set := u_timer_set u\<rparr> = u" by simp
    have "b \<and> block_execution uid (put_umi uid u s) = Inr s'"
      using False assms u put_umi_same[OF u] by (auto simp: Sleep_def with_umi_held and_then_eq_Inr split: if_splits)
    then show ?thesis using u same by metis
  next
    case True
    have "\<exists>t d z. v = u\<lparr>u_time_wait := t, u_timer_due := d, u_timer_set := z\<rparr>"
      if "enable_timer now (u\<lparr>u_time_wait := t\<rparr>) = Inr v" for t v
      using that by (cases u) (auto simp: enable_timer_def Let_def and_then_eq_Inr split: if_splits)
    then show ?thesis using assms u True
      by (fastforce simp: Sleep_def with_umi_held and_then_eq_Inr split: if_splits)
  qed
qed

section \<open>Sleeping and waking\<close>

lemma unblock_execution_inv: "unblock_execution uid s = Inr s' \<Longrightarrow> mgr_inv s \<Longrightarrow> mgr_inv s'"
proof -
  assume run: "unblock_execution uid s = Inr s'" and inv: "mgr_inv s"
  then obtain u where u: "held uid s = Some u" by (auto simp: unblock_execution_def with_umi_eq_Inr)
  have "mgr_inv (put_umi uid (disable_timer (u\<lparr>u_blocked := False\<rparr>)) s)"
    using held_id[OF inv u] by (intro put_umi_inv[OF inv u]) simp
  then show "mgr_inv s'" using run u by (auto simp: unblock_execution_def with_umi_held kassert_eq_Inr)
qed

lemma Kick_inv: "Kick uid s = Inr s' \<Longrightarrow> mgr_inv s \<Longrightarrow> mgr_inv s'"
  using unblock_execution_inv by (auto simp: Kick_def with_umi_eq_Inr split: if_splits)

lemma block_execution_inv: "block_execution uid s = Inr s' \<Longrightarrow> mgr_inv s \<Longrightarrow> mgr_inv s'"
proof -
  assume run: "block_execution uid s = Inr s'" and inv: "mgr_inv s"
  then obtain u where u: "held uid s = Some u" by (auto simp: block_execution_def with_umi_eq_Inr)
  have "mgr_inv (put_umi uid (u\<lparr>u_context := True, u_blocked := True\<rparr>) s)"
    using held_id[OF inv u] by (intro put_umi_inv[OF inv u]) simp
  then show "mgr_inv s'" using run u by (auto simp: block_execution_def with_umi_held)
qed

lemma Sleep_inv: "Sleep uid now ns s = Inr (b, s') \<Longrightarrow> mgr_inv s \<Longrightarrow> mgr_inv s'"
proof -
  assume run: "Sleep uid now ns s = Inr (b, s')" and inv: "mgr_inv s"
  have "mgr_inv (put_umi uid (u\<lparr>u_time_wait := t, u_timer_due := d, u_timer_set := z\<rparr>) s)" if u: "held uid s = Some u" for u t d z
    using inv u held_id[OF inv u] by (intro put_umi_inv) simp_all
  then show "mgr_inv s'" using Sleep_run[OF run] inv block_execution_inv by (auto split: if_splits)
qed

lemma Block_return_inv: "Block_return s = Inr s' \<Longrightarrow> mgr_inv s \<Longrightarrow> mgr_inv s'"
  using set_status_inv by (auto simp: Block_return_def split: if_splits)

lemma Block_inv: "Block now ns s = Inr (b, s') \<Longrightarrow> mgr_inv s \<Longrightarrow> mgr_inv s'"
proof -
  assume run: "Block now ns s = Inr (b, s')" and inv: "mgr_inv s"
  then obtain s1 u c s2 where s1: "set_status idle s = Inr s1" and s2: "Sleep (Id u) now ns s1 = Inr (c, s2)"
    and rest: "if c then s' = s2 else Block_return s2 = Inr s'"
    by (auto simp: Block_def with_active_def and_then_eq_Inr split: option.splits if_splits)
  have "mgr_inv s2" using Sleep_inv[OF s2] set_status_inv[OF s1 inv] by simp
  then show "mgr_inv s'" using rest Block_return_inv by (auto split: if_splits)
qed

lemma context_resumed_inv: "context_resumed uid s = Inr s' \<Longrightarrow> mgr_inv s \<Longrightarrow> mgr_inv s'"
proof -
  assume run: "context_resumed uid s = Inr s'" and inv: "mgr_inv s"
  then obtain u where u: "held uid s = Some u" by (auto simp: context_resumed_def with_umi_eq_Inr)
  have "mgr_inv (put_umi uid (u\<lparr>u_context := False\<rparr>) s)"
    using inv u held_id[OF inv u] by (intro put_umi_inv) simp_all
  then show "mgr_inv s'" using run u block_execution_inv Block_return_inv
    by (auto simp: context_resumed_def with_umi_held Let_def and_then_eq_Inr kassert_eq_Inr split: if_splits)
qed

lemma Fire_inv: "Fire uid now s = Inr s' \<Longrightarrow> mgr_inv s \<Longrightarrow> mgr_inv s'"
proof -
  assume run: "Fire uid now s = Inr s'" and inv: "mgr_inv s"
  then obtain u where u: "held uid s = Some u" by (auto simp: Fire_def with_umi_eq_Inr)
  let ?u = "u\<lparr>u_timer_set := False\<rparr>"
  let ?s = "put_umi uid ?u s"
  have id: "u_id ?u = uid" using held_id[OF inv u] by simp
  have s1: "mgr_inv ?s" using inv u id by (rule put_umi_inv)
  have s2: "mgr_inv (put_umi uid (?u\<lparr>u_time_wait := 0\<rparr>) ?s)"
    using id by (intro put_umi_inv[OF s1 held_put_umi[OF id]]) simp
  show "mgr_inv s'" using run u s1 s2 Kick_inv
    by (auto simp: Fire_def with_umi_held Let_def and_then_eq_Inr kassert_eq_Inr split: if_splits)
qed

section \<open>The queue\<close>

lemma slot_queue_find_Some:
  "slot_queue_find q uid = Some n \<longleftrightarrow> n < length q \<and> q ! n = uid \<and> uid \<notin> set (take n q)"
proof (induction q arbitrary: n)
  case (Cons i q)
  then show ?case by (cases n) auto
qed simp

lemma slot_queue_find_None: "slot_queue_find q uid = None \<longleftrightarrow> uid \<notin> set q"
  by (induction q) auto

text \<open>Erasing the position found is removing the first occurrence.\<close>

lemma slot_queue_remove_eq:
  "slot_queue_remove uid s = Inr (uid \<in> set (idle_umi_queue s), s\<lparr>idle_umi_queue := remove1 uid (idle_umi_queue s)\<rparr>)"
proof (cases "slot_queue_find (idle_umi_queue s) uid")
  case None
  then have "uid \<notin> set (idle_umi_queue s)" using slot_queue_find_None by blast
  then show ?thesis by (simp add: slot_queue_remove_def slot_queue_get_pos_def None remove1_idem)
next
  case (Some n)
  then have n: "n < length (idle_umi_queue s)" "idle_umi_queue s ! n = uid" "uid \<notin> set (take n (idle_umi_queue s))"
    by (simp_all add: slot_queue_find_Some)
  have "idle_umi_queue s = take n (idle_umi_queue s) @ uid # drop (Suc n) (idle_umi_queue s)"
    using n(1,2) by (metis id_take_nth_drop)
  then have "remove1 uid (idle_umi_queue s) = take n (idle_umi_queue s) @ drop (Suc n) (idle_umi_queue s)"
    using n(3) by (metis remove1_append remove1.simps(2))
  moreover have "uid \<in> set (idle_umi_queue s)" using n(1,2) by (metis nth_mem)
  ultimately show ?thesis
    using Some n(1) by (simp add: slot_queue_remove_def slot_queue_get_pos_def slot_queue_size_def)
qed

text \<open>A queued instance moves to the front and the others keep their order.\<close>

lemma slot_queue_move_to_front_eq:
  "slot_queue_move_to_front uid s =
     (if idle_umi_queue s = [] then Inl Undef
      else if uid \<in> set (idle_umi_queue s)
        then Inr (True, s\<lparr>idle_umi_queue := uid # remove1 uid (idle_umi_queue s)\<rparr>)
      else Inr (False, s))"
proof (cases "idle_umi_queue s")
  case (Cons i q)
  then show ?thesis
    by (auto simp: slot_queue_move_to_front_def slot_queue_remove_eq Let_def length_remove1 remove1_idem
        dest: length_pos_if_in_set split: if_splits)
qed (simp add: slot_queue_move_to_front_def)

lemma sched_ok_move:
  "sched_ok X (q, inactive, pending) \<Longrightarrow> uid \<in> set q \<Longrightarrow> sched_ok X (uid # remove1 uid q, inactive, pending)"
  unfolding sched_ok_def prod.case by (auto simp: set_remove1_eq)

lemma move_to_front_inv:
  "slot_queue_move_to_front uid s = Inr (b, s') \<Longrightarrow> mgr_inv s \<Longrightarrow> mgr_inv s'"
  using sched_ok_move[of "{}" "idle_umi_queue s" "inactive_umi_map s" "activation_promise_map s" uid]
  by (auto simp: slot_queue_move_to_front_eq mgr_inv_on_def sched_def outside_def split: if_splits)

section \<open>Yielding\<close>

text \<open>What a client's continuation may do is its own business, as long as it keeps the invariant.\<close>

definition keeps_inv :: "('a \<Rightarrow> mgr \<Rightarrow> mgr res) \<Rightarrow> bool" where
  "keeps_inv f \<longleftrightarrow> (\<forall>x s s'. mgr_inv s \<longrightarrow> f x s = Inr s' \<longrightarrow> mgr_inv s')"

lemma first_eligible_Inr:
  "first_eligible q s = Inr i \<Longrightarrow> i \<noteq> null_id \<Longrightarrow> i \<in> set q \<and> (\<exists>u. GetInstance i s = Some u \<and> IsActive u)"
  by (induction q) (auto simp: kassert_eq_Inr split: option.splits if_splits)

lemma take_inactive_spec:
  assumes "take_inactive i s = Inr (u, s')" "mgr_inv_on X s" "\<forall>a. active_umi s = Some a \<longrightarrow> u_id a \<noteq> i"
  shows "mgr_inv_on (insert i X) s'" "u_id u = i" "fresh_umi u s'" "m_status s' = m_status s" "active_umi s' = active_umi s"
    "idle_umi_queue s' = remove1 i (idle_umi_queue s)" "inactive_umi_map s i = Some u"
proof -
  have u: "inactive_umi_map s i = Some u"
    and s': "s' = s\<lparr>inactive_umi_map := (inactive_umi_map s)(i := None), idle_umi_queue := remove1 i (idle_umi_queue s)\<rparr>"
    using assms(1) by (auto simp: take_inactive_def slot_queue_remove_eq Let_def split: option.splits)
  show id: "u_id u = i" and "inactive_umi_map s i = Some u" using assms(2) u by (auto simp: mgr_inv_on_def sched_ok_def sched_def)
  show "m_status s' = m_status s" "active_umi s' = active_umi s" "idle_umi_queue s' = remove1 i (idle_umi_queue s)"
    by (simp_all add: s')
  have nn: "i \<noteq> null_id" using assms(2) u by (auto simp: mgr_inv_on_def sched_ok_def sched_def dom_def)
  show "fresh_umi u s'" using id nn assms(3) by (simp add: s' fresh_umi_def outside_def)
  show "mgr_inv_on (insert i X) s'" using assms(2) unfolding s' mgr_inv_on_def sched_def sched_ok_def outside_def
    by (auto simp: set_remove1_eq)
qed

lemma yield_load_spec:
  assumes "yield_load u s = Inr s'" "mgr_inv_on X s" "fresh_umi u s"
  shows "mgr_inv_on X s'" "m_status s' = loaded" "active_umi s' = Some u"
  using assms slot_swap_inv[of u s _ s' X] slot_load_inv[of u s _ s' X] slot_load_spec[of u s _ s']
  by (auto simp: yield_load_def fresh_umi_def and_then_eq_Inr kassert_eq_Inr split: if_splits)

lemma mgr_inv_drop:
  "mgr_inv_on {i} s \<Longrightarrow> mgr_inv (s\<lparr>activation_promise_map := (activation_promise_map s)(i := None)\<rparr>)"
  "mgr_inv_on {i} s \<Longrightarrow> activation_promise_map s i = None \<Longrightarrow> mgr_inv s"
  unfolding mgr_inv_on_def sched_def sched_ok_def outside_def by (auto simp: dom_def subset_iff)

lemma upd_inv [simp]:
  "mgr_inv_on X (s\<lparr>inactive_umi_halt_map := h\<rparr>) = mgr_inv_on X s" "mgr_inv_on X (s\<lparr>ms := m\<rparr>) = mgr_inv_on X s"
  "mgr_inv_on X (s\<lparr>m_px := p\<rparr>) = mgr_inv_on X s" "mgr_inv_on X (s\<lparr>m_events := es\<rparr>) = mgr_inv_on X s"
  by (simp_all add: mgr_inv_on_def outside_def)

lemma yield_finish_inv:
  assumes "yield_finish act qlen ef i s = Inr (fr, s')" "mgr_inv_on {i} s" "keeps_inv act"
  shows "mgr_inv s'"
proof (cases "activation_promise_map s i")
  case (Some p)
  then show ?thesis using assms mgr_inv_drop(1)[OF assms(2)]
    by (auto simp: yield_finish_def and_then_eq_Inr kassert_eq_Inr keeps_inv_def)
next
  case None
  note inv = mgr_inv_drop(2)[OF assms(2) None]
  show ?thesis
  proof (cases "inactive_umi_halt_map s i")
    case (Some b)
    then obtain s1 where "set_status idle (s\<lparr>inactive_umi_halt_map := (inactive_umi_halt_map s)(i := None)\<rparr>) = Inr s1"
      "Halt qlen ef s1 = Inr (fr, s')"
      using assms(1) None by (auto simp: yield_finish_def Let_def and_then_eq_Inr)
    then show ?thesis using set_status_inv[of idle _ s1 "{}"] Halt_inv inv by auto
  next
    case N2: None
    then obtain s1 u where "set_status idle s = Inr s1" "Kick u s1 = Inr s'"
      using assms(1) None by (auto simp: yield_finish_def with_active_def and_then_eq_Inr split: option.splits)
    then show ?thesis using set_status_inv[of idle s s1 "{}"] Kick_inv inv by auto
  qed
qed

lemma Yield_inv:
  assumes "Yield act qlen ef s = Inr (fr, s')" "mgr_inv s" "keeps_inv act"
  shows "mgr_inv s'"
proof -
  consider "s' = s" | "yield_out s = Inr s'"
    | i u s1 s2 where "first_eligible (idle_umi_queue s) s = Inr i" "i \<noteq> null_id" "take_inactive i s = Inr (u, s1)"
        "yield_load u s1 = Inr s2" "yield_finish act qlen ef i s2 = Inr (fr, s')"
    using assms(1) by (auto simp: Yield_def and_then_eq_Inr split: if_splits)
  then show ?thesis
  proof cases
    case 2
    then show ?thesis using yield_out_inv(1) assms(2) by (auto simp: yield_out_def)
  next
    case 3
    have "i \<in> set (idle_umi_queue s)" using first_eligible_Inr[OF 3(1,2)] by blast
    then have "\<forall>a. active_umi s = Some a \<longrightarrow> u_id a \<noteq> i"
      using assms(2) by (auto simp: mgr_inv_on_def outside_def sched_def sched_ok_def)
    note T = take_inactive_spec[OF 3(3) assms(2) this]
    show ?thesis using yield_finish_inv[OF 3(5) yield_load_spec(1)[OF 3(4) T(1,3)] assms(3)] .
  qed (use assms(2) in simp)
qed

section \<open>Signals and handlers\<close>

lemma SignalHalt_inv:
  "SignalHalt act qlen ef uid s = Inr (fr, s') \<Longrightarrow> mgr_inv s \<Longrightarrow> keeps_inv act \<Longrightarrow> mgr_inv s'"
  using Halt_inv move_to_front_inv Yield_inv
  by (fastforce simp: SignalHalt_def kassert_eq_Inr and_then_eq_Inr split: if_splits)

lemma SignalYield_inv: "mgr_inv s \<Longrightarrow> mgr_inv (SignalYield uid s)"
  by (simp add: SignalYield_def)

lemma SignalResume_inv:
  "SignalResume act qlen ef uid s = Inr (fr, s') \<Longrightarrow> mgr_inv s \<Longrightarrow> keeps_inv act \<Longrightarrow> mgr_inv s'"
  using Kick_inv move_to_front_inv Yield_inv
  by (fastforce simp: SignalResume_def and_then_eq_Inr split: if_splits option.splits)

lemma WritePacket_inv:
  assumes "WritePacket act qlen ef uid buf s = Inr (fr, s')" "mgr_inv s" "keeps_inv act"
  shows "mgr_inv s'"
proof -
  obtain s1 u where s1: "SignalResume act qlen ef uid s = Inr (fr, s1)" and u: "held uid s1 = Some u"
    and s': "s' = put_umi uid (u\<lparr>u_recv_queue := u_recv_queue u @ [buf]\<rparr>) s1"
    using assms(1) by (auto simp: WritePacket_def and_then_eq_Inr with_umi_eq_Inr)
  have inv: "mgr_inv s1" using SignalResume_inv[OF s1 assms(2,3)] .
  show ?thesis unfolding s' using held_id[OF inv u] by (intro put_umi_inv[OF inv u]) simp
qed

lemma put_active_inv:
  "mgr_inv s \<Longrightarrow> active_umi s = Some u \<Longrightarrow> u_id u' = u_id u \<Longrightarrow> mgr_inv (s\<lparr>active_umi := Some u'\<rparr>)"
  by (auto simp: mgr_inv_on_def outside_def)

lemma process_checkpoint_inv:
  assumes "process_checkpoint snap ef s = Inr s'" "mgr_inv s" "keeps_inv snap"
  shows "mgr_inv s'"
proof -
  obtain u where u: "active_umi s = Some u" using assms(1)
    by (auto simp: process_checkpoint_def kassert_eq_Inr with_active_def split: option.splits)
  show ?thesis
  proof (cases "u_snap_addr u = 0")
    case False
    have "u_snap_p u = Some []"
      using assms(1) u False
      by (cases "u_snap_p u"; cases "the (u_snap_p u)")
        (auto simp: process_checkpoint_def kassert_eq_Inr with_active_def and_then_eq_Inr Let_def)
    with False obtain s1 v m s2 where s1: "set_status snapshot s = Inr s1"
      and s2: "snap v (s1\<lparr>ms := m, active_umi := Some (u\<lparr>u_snap_p := Some [v]\<rparr>)\<rparr>) = Inr s2"
      and s': "set_status active s2 = Inr s'"
      using assms(1) u
      by (auto simp: process_checkpoint_def kassert_eq_Inr with_active_def and_then_eq_Inr Let_def)
    have "mgr_inv s1" using set_status_inv[OF s1 assms(2)] by simp
    moreover have "active_umi s1 = Some u" using s1 u by (auto simp: set_status_eq_Inr)
    ultimately have "mgr_inv (s1\<lparr>ms := m, active_umi := Some (u\<lparr>u_snap_p := Some [v]\<rparr>)\<rparr>)"
      by (intro put_active_inv[where u = u]) simp_all
    then have "mgr_inv s2" using s2 assms(3) by (simp add: keeps_inv_def)
    then show ?thesis using set_status_inv[OF s'] by simp
  qed (use assms u in \<open>simp add: process_checkpoint_def kassert_eq_Inr with_active_def\<close>)
qed

lemma resolve_fault_id: "resolve_fault v ec u m = Inr (u', m') \<Longrightarrow> u_id u' = u_id u"
  by (auto simp: resolve_fault_def GetBackingPage_def logFault_def Let_def and_then_eq_Inr kassert_eq_Inr split: if_splits)

lemma process_pagefault_inv:
  assumes "process_pagefault ef v s = Inr s'" "mgr_inv s"
  shows "mgr_inv s'"
proof -
  obtain u u' m where u: "active_umi s = Some u" and r: "resolve_fault v (ef_error_code ef) u (ms s) = Inr (u', m)"
    and s': "s' = s\<lparr>active_umi := Some u', ms := m\<rparr>"
    using assms(1) by (auto simp: process_pagefault_def kassert_eq_Inr with_active_def and_then_eq_Inr split: option.splits)
  have "mgr_inv ((s\<lparr>active_umi := Some u'\<rparr>)\<lparr>ms := m\<rparr>)"
    unfolding upd_inv using put_active_inv[OF assms(2) u resolve_fault_id[OF r]] .
  then show ?thesis by (simp add: s')
qed

lemma run_event_inv:
  "run_event act qlen ef e s = Inr (fr, s') \<Longrightarrow> mgr_inv s \<Longrightarrow> keeps_inv act \<Longrightarrow> mgr_inv s'"
  using Yield_inv Halt_inv context_resumed_inv
  by (auto simp: run_event_def and_then_eq_Inr split: event.splits)

section \<open>The steps of a core\<close>

text \<open>
  What can happen on a core: a client submits an instance it owns, starts the loaded one, or
  is returned one after its execution finished; the running instance polls, halts, faults or
  reaches its checkpoint; a packet, a timer or a signal arrives; a recorded event runs. The
  exits of \<open>Start\<close> and \<open>Run\<close> are only reached through the gateway, with status \<open>finished\<close>.
\<close>

inductive mgr_step :: "(u32 \<Rightarrow> mgr \<Rightarrow> mgr res) \<Rightarrow> (sv \<Rightarrow> mgr \<Rightarrow> mgr res) \<Rightarrow> mgr \<Rightarrow> mgr \<Rightarrow> bool"
  for act snap where
  step_load: "Load u s = Inr (b, s') \<Longrightarrow> fresh_umi u s \<Longrightarrow> mgr_step act snap s s'"
| step_start: "Start_enter uid ef s = Inr (fr, s') \<Longrightarrow> mgr_step act snap s s'"
| step_start_return: "m_status s = finished \<Longrightarrow> Start_return s = Inr (u, s') \<Longrightarrow> mgr_step act snap s s'"
| step_run: "Run_enter u ef s = Inr (fr, s') \<Longrightarrow> fresh_umi u s \<Longrightarrow> mgr_step act snap s s'"
| step_run_return: "m_status s = finished \<Longrightarrow> Run_return s = Inr (u, s') \<Longrightarrow> mgr_step act snap s s'"
| step_block: "Block now ns s = Inr (b, s') \<Longrightarrow> mgr_step act snap s s'"
| step_halt: "Halt qlen ef s = Inr (fr, s') \<Longrightarrow> mgr_step act snap s s'"
| step_fault: "HandleFault ef v s = Inr s' \<Longrightarrow> mgr_step act snap s s'"
| step_checkpoint: "DebugException snap ef s = Inr (fr, s') \<Longrightarrow> mgr_step act snap s s'"
| step_packet: "WritePacket act qlen ef uid buf s = Inr (fr, s') \<Longrightarrow> mgr_step act snap s s'"
| step_fire: "Fire uid now s = Inr s' \<Longrightarrow> mgr_step act snap s s'"
| step_signal_halt: "SignalHalt act qlen ef uid s = Inr (fr, s') \<Longrightarrow> mgr_step act snap s s'"
| step_signal_yield: "mgr_step act snap s (SignalYield uid s)"
| step_signal_resume: "SignalResume act qlen ef uid s = Inr (fr, s') \<Longrightarrow> mgr_step act snap s s'"
| step_event: "m_events s = e # es \<Longrightarrow> run_event act qlen ef e (s\<lparr>m_events := es\<rparr>) = Inr (fr, s') \<Longrightarrow> mgr_step act snap s s'"

inductive mgr_reach :: "(u32 \<Rightarrow> mgr \<Rightarrow> mgr res) \<Rightarrow> (sv \<Rightarrow> mgr \<Rightarrow> mgr res) \<Rightarrow> mgr \<Rightarrow> mgr \<Rightarrow> bool"
  for act snap where
  reach_refl: "mgr_reach act snap s s"
| reach_step: "mgr_reach act snap s s' \<Longrightarrow> mgr_step act snap s' s'' \<Longrightarrow> mgr_reach act snap s s''"

lemma mgr_step_inv:
  assumes "mgr_step act snap s s'" "mgr_inv s" "keeps_inv act" "keeps_inv snap"
  shows "mgr_inv s'"
  using assms(1,2)
proof cases
  case (step_event e es qlen ef fr)
  then show ?thesis using run_event_inv[OF step_event(2) _ assms(3)] assms(2) by simp
next
  case (step_checkpoint ef fr)
  then show ?thesis using process_checkpoint_inv[OF _ assms(2,4)]
    by (auto simp: DebugException_def Let_def and_then_eq_Inr)
next
  case (step_run_return u)
  then show ?thesis using slot_unload_inv assms(2) by (auto simp: Run_return_def)
qed (use assms(2,3) Load_inv Start_enter_inv Start_return_inv Run_enter_inv Block_inv Halt_inv WritePacket_inv Fire_inv
    SignalHalt_inv SignalYield_inv SignalResume_inv process_pagefault_inv in \<open>auto simp: HandleFault_def\<close>)

lemma mgr_reach_inv:
  "mgr_reach act snap s s' \<Longrightarrow> mgr_inv s \<Longrightarrow> keeps_inv act \<Longrightarrow> keeps_inv snap \<Longrightarrow> mgr_inv s'"
proof (induction rule: mgr_reach.induct)
  case (reach_step s s' s'')
  then show ?case using mgr_step_inv by blast
qed

section \<open>Preemption\<close>

definition slot_id :: "mgr \<Rightarrow> u32 option" where
  "slot_id s = map_option u_id (active_umi s)"

definition keeps_slot :: "('a \<Rightarrow> mgr \<Rightarrow> mgr res) \<Rightarrow> bool" where
  "keeps_slot f \<longleftrightarrow> (\<forall>x s s'. f x s = Inr s' \<longrightarrow> slot_id s' = slot_id s)"

lemma slot_id_upd [simp]:
  "slot_id (s\<lparr>m_status := n\<rparr>) = slot_id s" "slot_id (s\<lparr>m_px := p\<rparr>) = slot_id s" "slot_id (s\<lparr>ms := m\<rparr>) = slot_id s"
  "slot_id (s\<lparr>m_events := es\<rparr>) = slot_id s" "slot_id (s\<lparr>idle_umi_queue := q\<rparr>) = slot_id s"
  "slot_id (s\<lparr>inactive_umi_halt_map := h\<rparr>) = slot_id s" "slot_id (SpawnLocal e s) = slot_id s"
  "slot_id (s\<lparr>active_umi := Some u\<rparr>) = Some (u_id u)"
  by (simp_all add: slot_id_def SpawnLocal_def)

lemma slot_id_put_umi: "u_id u = uid \<Longrightarrow> slot_id (put_umi uid u s) = slot_id s"
  by (auto simp: put_umi_def slot_id_def is_active_instance_def Id_def split: option.splits)

lemma slot_id_gateway: "process_gateway ef s = Inr (fr, s') \<Longrightarrow> slot_id s' = slot_id s"
  by (auto simp: process_gateway_def Let_def with_active_def and_then_eq_Inr set_status_eq_Inr slot_id_def
      split: if_splits option.splits)

lemma slot_id_Halt: "Halt qlen ef s = Inr (fr, s') \<Longrightarrow> slot_id s' = slot_id s"
  using slot_id_gateway
  by (fastforce simp: Halt_def with_active_def and_then_eq_Inr kbugon_eq_Inr kassert_eq_Inr Let_def set_status_eq_Inr
      slot_id_def[of s] split: option.splits if_splits)

lemma slot_id_unblock: "unblock_execution uid s = Inr s' \<Longrightarrow> mgr_inv s \<Longrightarrow> slot_id s' = slot_id s"
  by (auto simp: unblock_execution_def with_umi_eq_Inr kassert_eq_Inr dest!: held_id intro!: slot_id_put_umi)

lemma slot_id_Kick: "Kick uid s = Inr s' \<Longrightarrow> mgr_inv s \<Longrightarrow> slot_id s' = slot_id s"
  using slot_id_unblock by (auto simp: Kick_def with_umi_eq_Inr split: if_splits)

lemma slot_id_block_execution: "block_execution uid s = Inr s' \<Longrightarrow> mgr_inv s \<Longrightarrow> slot_id s' = slot_id s"
  by (auto simp: block_execution_def with_umi_eq_Inr dest!: held_id intro!: slot_id_put_umi)

lemma slot_id_Sleep: "Sleep uid now ns s = Inr (b, s') \<Longrightarrow> mgr_inv s \<Longrightarrow> slot_id s' = slot_id s"
proof -
  assume run: "Sleep uid now ns s = Inr (b, s')" and inv: "mgr_inv s"
  have "mgr_inv (put_umi uid (u\<lparr>u_time_wait := t, u_timer_due := d, u_timer_set := z\<rparr>) s) \<and>
      slot_id (put_umi uid (u\<lparr>u_time_wait := t, u_timer_due := d, u_timer_set := z\<rparr>) s) = slot_id s"
    if u: "held uid s = Some u" for u t d z
    using held_id[OF inv u] by (intro conjI put_umi_inv[OF inv u] slot_id_put_umi) simp_all
  then show ?thesis using Sleep_run[OF run] slot_id_block_execution[of uid] by (fastforce split: if_splits)
qed

lemma slot_id_Block_return: "Block_return s = Inr s' \<Longrightarrow> slot_id s' = slot_id s"
  by (auto simp: Block_return_def set_status_eq_Inr split: if_splits)

lemma slot_id_Block: "Block now ns s = Inr (b, s') \<Longrightarrow> mgr_inv s \<Longrightarrow> slot_id s' = slot_id s"
proof -
  assume run: "Block now ns s = Inr (b, s')" and inv: "mgr_inv s"
  then obtain s1 u c s2 where s1: "set_status idle s = Inr s1" and s2: "Sleep (Id u) now ns s1 = Inr (c, s2)"
    and rest: "if c then s' = s2 else Block_return s2 = Inr s'"
    by (auto simp: Block_def with_active_def and_then_eq_Inr split: option.splits if_splits)
  have "slot_id s2 = slot_id s1" using slot_id_Sleep[OF s2] set_status_inv[OF s1 inv] by simp
  moreover have "slot_id s1 = slot_id s" using s1 by (auto simp: set_status_eq_Inr)
  ultimately show ?thesis using rest slot_id_Block_return[of s2 s'] by (auto split: if_splits)
qed

lemma slot_id_context_resumed: "context_resumed uid s = Inr s' \<Longrightarrow> mgr_inv s \<Longrightarrow> slot_id s' = slot_id s"
proof -
  assume run: "context_resumed uid s = Inr s'" and inv: "mgr_inv s"
  then obtain u where u: "held uid s = Some u" by (auto simp: context_resumed_def with_umi_eq_Inr)
  let ?s = "put_umi uid (u\<lparr>u_context := False\<rparr>) s"
  have "mgr_inv ?s" using inv u held_id[OF inv u] by (intro put_umi_inv) simp_all
  moreover have "slot_id ?s = slot_id s" using held_id[OF inv u] by (intro slot_id_put_umi) simp
  ultimately show ?thesis using run u slot_id_block_execution[of uid ?s s'] slot_id_Block_return[of ?s s']
    by (auto simp: context_resumed_def with_umi_held Let_def and_then_eq_Inr kassert_eq_Inr split: if_splits)
qed

lemma slot_id_Fire: "Fire uid now s = Inr s' \<Longrightarrow> mgr_inv s \<Longrightarrow> slot_id s' = slot_id s"
proof -
  assume run: "Fire uid now s = Inr s'" and inv: "mgr_inv s"
  then obtain u where u: "held uid s = Some u" by (auto simp: Fire_def with_umi_eq_Inr)
  let ?u = "u\<lparr>u_timer_set := False\<rparr>"
  let ?s = "put_umi uid ?u s" and ?s2 = "put_umi uid (?u\<lparr>u_time_wait := 0\<rparr>) (put_umi uid ?u s)"
  have id: "u_id ?u = uid" using held_id[OF inv u] by simp
  have s1: "mgr_inv ?s" using inv u id by (rule put_umi_inv)
  have s2: "mgr_inv ?s2" using id by (intro put_umi_inv[OF s1 held_put_umi[OF id]]) simp
  have "slot_id ?s = slot_id s" "slot_id ?s2 = slot_id s" using id by (simp_all add: slot_id_put_umi)
  then show ?thesis using run u s2 slot_id_Kick[of uid ?s2 s']
    by (auto simp: Fire_def with_umi_held Let_def and_then_eq_Inr kassert_eq_Inr split: if_splits)
qed

lemma slot_id_process_checkpoint:
  assumes "process_checkpoint snap ef s = Inr s'" "keeps_slot snap"
  shows "slot_id s' = slot_id s"
proof -
  obtain u where u: "active_umi s = Some u" using assms(1)
    by (auto simp: process_checkpoint_def kassert_eq_Inr with_active_def split: option.splits)
  show ?thesis
  proof (cases "u_snap_addr u = 0")
    case False
    have "u_snap_p u = Some []"
      using assms(1) u False
      by (cases "u_snap_p u"; cases "the (u_snap_p u)")
        (auto simp: process_checkpoint_def kassert_eq_Inr with_active_def and_then_eq_Inr Let_def)
    with False assms u show ?thesis
      by (fastforce simp: process_checkpoint_def kassert_eq_Inr with_active_def and_then_eq_Inr Let_def set_status_eq_Inr
          keeps_slot_def slot_id_def)
  qed (use assms u in \<open>simp add: process_checkpoint_def kassert_eq_Inr with_active_def\<close>)
qed

text \<open>An instance in the slot that is marked active.\<close>

definition slot_active :: "mgr \<Rightarrow> bool" where
  "slot_active s \<longleftrightarrow> (case active_umi s of None \<Rightarrow> False | Some u \<Rightarrow> IsActive u)"

lemma slot_active_upd [simp]:
  "slot_active (s\<lparr>idle_umi_queue := q\<rparr>) = slot_active s" "slot_active (s\<lparr>inactive_umi_halt_map := h\<rparr>) = slot_active s"
  "slot_active (s\<lparr>m_events := es\<rparr>) = slot_active s"
  by (simp_all add: slot_active_def)

lemma Yield_active: "slot_active s \<Longrightarrow> Yield act qlen ef s = Inr (fr, s') \<Longrightarrow> s' = s"
  by (simp add: Yield_def slot_active_def)

lemma slot_active_not_empty: "mgr_inv s \<Longrightarrow> slot_active s \<Longrightarrow> m_status s \<noteq> empty"
  by (auto simp: mgr_inv_on_def slot_active_def)

lemma slot_id_Load: "Load u s = Inr (b, s') \<Longrightarrow> mgr_inv s \<Longrightarrow> slot_active s \<Longrightarrow> slot_id s' = slot_id s"
  using slot_active_not_empty[of s]
  by (auto simp: Load_def with_active_def IsInactive_def IsActive_def slot_active_def and_then_eq_Inr slot_id_def
      queue_instance_activation_def kassert_eq_Inr Let_def slot_queue_push_def split: if_splits option.splits)

lemma slot_id_Run_enter: "Run_enter u ef s = Inr (fr, s') \<Longrightarrow> mgr_inv s \<Longrightarrow> slot_active s \<Longrightarrow> slot_id s' = slot_id s"
  using slot_active_not_empty[of s]
  by (auto simp: Run_enter_def with_active_def slot_active_def and_then_eq_Inr split: if_splits option.splits)

lemma slot_id_Start_enter: "Start_enter uid ef s = Inr (fr, s') \<Longrightarrow> slot_id s' = slot_id s"
  using slot_id_gateway by (auto simp: Start_enter_def with_active_def kassert_eq_Inr split: option.splits)

lemma move_to_front_slot:
  "slot_queue_move_to_front uid s = Inr (b, s') \<Longrightarrow> slot_id s' = slot_id s \<and> slot_active s' = slot_active s"
  by (auto simp: slot_queue_move_to_front_eq split: if_splits)

lemma slot_id_SignalHalt:
  assumes "SignalHalt act qlen ef uid s = Inr (fr, s')" "slot_active s"
  shows "slot_id s' = slot_id s"
proof (cases "is_active_instance uid s")
  case True
  then show ?thesis using assms(1) slot_id_Halt by (auto simp: SignalHalt_def kassert_eq_Inr)
next
  case False
  then obtain b s1 where s1: "slot_queue_move_to_front uid s = Inr (b, s1)"
    and y: "Yield act qlen ef (s1\<lparr>inactive_umi_halt_map := emplace (inactive_umi_halt_map s1) uid True\<rparr>) = Inr (fr, s')"
    using assms(1) by (auto simp: SignalHalt_def kassert_eq_Inr and_then_eq_Inr)
  then show ?thesis using move_to_front_slot[OF s1] Yield_active[OF _ y] assms(2) by simp
qed

lemma slot_id_SignalResume:
  assumes "SignalResume act qlen ef uid s = Inr (fr, s')" "mgr_inv s" "slot_active s"
  shows "slot_id s' = slot_id s"
proof (cases "ActiveInstanceId s = uid")
  case True
  then show ?thesis using assms slot_id_Kick by (auto simp: SignalResume_def and_then_eq_Inr split: option.splits)
next
  case False
  then obtain b s1 where s1: "slot_queue_move_to_front uid s = Inr (b, s1)" and y: "Yield act qlen ef s1 = Inr (fr, s')"
    using assms(1) by (auto simp: SignalResume_def and_then_eq_Inr)
  then show ?thesis using move_to_front_slot[OF s1] Yield_active[OF _ y] assms(3) by simp
qed

lemma slot_id_WritePacket:
  assumes "WritePacket act qlen ef uid buf s = Inr (fr, s')" "mgr_inv s" "slot_active s" "keeps_inv act"
  shows "slot_id s' = slot_id s"
proof -
  obtain s1 u where s1: "SignalResume act qlen ef uid s = Inr (fr, s1)" and u: "held uid s1 = Some u"
    and s': "s' = put_umi uid (u\<lparr>u_recv_queue := u_recv_queue u @ [buf]\<rparr>) s1"
    using assms(1) by (auto simp: WritePacket_def and_then_eq_Inr with_umi_eq_Inr)
  have inv: "mgr_inv s1" using SignalResume_inv[OF s1 assms(2,4)] .
  have "slot_id s' = slot_id s1" unfolding s' using held_id[OF inv u] by (intro slot_id_put_umi) simp
  then show ?thesis using slot_id_SignalResume[OF s1 assms(2,3)] by simp
qed

lemma slot_id_process_pagefault: "process_pagefault ef v s = Inr s' \<Longrightarrow> slot_id s' = slot_id s"
  by (auto simp: process_pagefault_def kassert_eq_Inr with_active_def and_then_eq_Inr slot_id_def
      dest!: resolve_fault_id split: option.splits)

lemma slot_id_run_event:
  "run_event act qlen ef e s = Inr (fr, s') \<Longrightarrow> mgr_inv s \<Longrightarrow> slot_active s \<Longrightarrow> slot_id s' = slot_id s"
  using slot_id_Halt slot_id_context_resumed Yield_active
  by (fastforce simp: run_event_def and_then_eq_Inr split: event.splits)

lemma slot_id_step:
  assumes "mgr_step act snap s s'" "mgr_inv s" "slot_active s" "m_status s \<noteq> finished" "keeps_inv act" "keeps_slot snap"
  shows "slot_id s' = slot_id s"
  using assms(1)
proof cases
  case (step_event e es qlen ef fr)
  then show ?thesis using slot_id_run_event[OF step_event(2)] assms(2,3) by simp
next
  case (step_checkpoint ef fr)
  then show ?thesis using slot_id_process_checkpoint[OF _ assms(6)]
    by (auto simp: DebugException_def Let_def and_then_eq_Inr)
next
  case (step_signal_yield uid)
  then show ?thesis by (simp add: SignalYield_def)
qed (use assms slot_id_Load slot_id_Start_enter slot_id_Run_enter slot_id_Block slot_id_Halt slot_id_WritePacket slot_id_Fire
    slot_id_SignalHalt slot_id_SignalResume slot_id_process_pagefault in \<open>auto simp: HandleFault_def\<close>)

section \<open>Properties\<close>

text \<open>
  C5. The manager's bookkeeping in every reachable state of a core: the queue holds the ids of
  exactly the instances in the map of those that wait, each once, and each of them is kept under its
  own id; the instance in the slot is not among them; the slot has no instance exactly when its status is
  \<open>empty\<close>; and activations are pending only for instances in the queue.
\<close>

theorem manager_invariant:
  assumes "mgr_reach act snap (mgr_init m) s" "keeps_inv act" "keeps_inv snap"
  shows "distinct (idle_umi_queue s) \<and> set (idle_umi_queue s) = dom (inactive_umi_map s) \<and>
     (\<forall>i u. inactive_umi_map s i = Some u \<longrightarrow> u_id u = i) \<and>
     (m_status s = empty \<longleftrightarrow> active_umi s = None) \<and>
     (\<forall>u. active_umi s = Some u \<longrightarrow> u_id u \<notin> set (idle_umi_queue s)) \<and>
     dom (activation_promise_map s) \<subseteq> set (idle_umi_queue s)"
proof -
  have "mgr_inv s" using mgr_reach_inv[OF assms(1) mgr_inv_init assms(2,3)] .
  then show ?thesis by (auto simp: mgr_inv_on_def sched_def sched_ok_def outside_def)
qed

lemma keeps_simple: "keeps_inv (\<lambda>_ s. Inr s)" "keeps_slot (\<lambda>_ s. Inr s)"
  by (simp_all add: keeps_inv_def keeps_slot_def)

text \<open>An instance with one region, loaded into an empty core, and another queued behind it.\<close>

definition one_loaded :: mgr where
  "one_loaded = (mgr_init (empty_slot []))\<lparr>m_status := loaded, active_umi := Some (one_region Region_init),
     m_px := UmProxy_init\<lparr>px_umi_id := 1\<rparr>\<rparr>"

definition one_queued :: mgr where
  "one_queued = one_loaded\<lparr>idle_umi_queue := [2], activation_promise_map := [2 \<mapsto> ()],
     inactive_umi_map := [2 \<mapsto> (one_region Region_init)\<lparr>u_id := 2\<rparr>]\<rparr>"

lemma load_first: "Load (one_region Region_init) (mgr_init (empty_slot [])) = Inr (True, one_loaded)"
proof -
  have "mgr_getSlotPDPTRoot (empty_slot []) = Inr 0" by (simp add: mgr_getSlotPDPTRoot_eq empty_slot_ok)
  then show ?thesis
    by (simp add: Load_def mgr_init_def slot_load_instance_def slot_install_root_def slot_occupy_def one_region_def UmSV_init_def UmPth_init_def Root_def
        valid_address_def set_status_def status_change_def Id_def one_loaded_def SetActiveInstance_def)
qed

lemma load_second: "Load ((one_region Region_init)\<lparr>u_id := 2\<rparr>) one_loaded = Inr (False, one_queued)"
  by (simp add: Load_def one_loaded_def one_queued_def queue_instance_activation_def Id_def slot_queue_push_def mgr_init_def
      emplace_def one_region_def)

lemma reach_one_queued: "mgr_reach act snap (mgr_init (empty_slot [])) one_queued"
proof -
  have "fresh_umi (one_region Region_init) (mgr_init (empty_slot []))"
    "fresh_umi ((one_region Region_init)\<lparr>u_id := 2\<rparr>) one_loaded"
    by (simp_all add: fresh_umi_def outside_def one_region_def mgr_init_def null_id_def one_loaded_def)
  then show ?thesis using reach_refl reach_step step_load load_first load_second by metis
qed

theorem manager_invariant_witness:
  "set (idle_umi_queue one_queued) = {2} \<and> dom (inactive_umi_map one_queued) = {2}"
  using manager_invariant[OF reach_one_queued keeps_simple(1) keeps_simple(1)] by (simp add: one_queued_def)

text \<open>
  C26. No preemption of an active instance: as long as the instance in the slot is marked
  active and its execution has not finished, no step of the core takes it out of the slot.
\<close>

theorem active_not_preempted:
  assumes "mgr_reach act snap (mgr_init m) s" "mgr_step act snap s s'" "keeps_inv act" "keeps_inv snap" "keeps_slot snap"
    and "active_umi s = Some u" "IsActive u" "m_status s \<noteq> finished"
  shows "\<exists>u'. active_umi s' = Some u' \<and> u_id u' = u_id u"
proof -
  have "mgr_inv s" using mgr_reach_inv[OF assms(1) mgr_inv_init assms(3,4)] .
  then have "slot_id s' = slot_id s"
    using slot_id_step[OF assms(2) _ _ assms(8,3,5)] assms(6,7) by (simp add: slot_active_def)
  then show ?thesis using assms(6) by (auto simp: slot_id_def)
qed

theorem active_not_preempted_witness:
  "\<exists>s' u'. SignalHalt (\<lambda>_ s. Inr s) 0 ef_zero 2 one_queued = Inr (None, s') \<and> active_umi s' = Some u' \<and> u_id u' = 1"
proof -
  let ?act = "\<lambda>_ s :: mgr. Inr s"
  let ?s' = "one_queued\<lparr>inactive_umi_halt_map := [2 \<mapsto> True]\<rparr>"
  have run: "SignalHalt ?act 0 ef_zero 2 one_queued = Inr (None, ?s')"
    by (simp add: SignalHalt_def slot_has_instance_def is_active_instance_def slot_queue_move_to_front_def Yield_def
        one_queued_def one_loaded_def mgr_init_def one_region_def IsActive_def Id_def emplace_def)
  from active_not_preempted[OF reach_one_queued step_signal_halt[OF run] keeps_simple(1,1,2), of "one_region Region_init"] run
  show ?thesis by (auto simp: one_queued_def one_loaded_def one_region_def IsActive_def)
qed

end
