(* ===== verification/Umm_Nat.thy ===== *)
theory Umm_Nat
  imports Umm_Schedule
begin

text \<open>
  Packets through the proxy, the second half of \<^verbatim>\<open>src/src/UmProxy.cc\<close> and
  \<^verbatim>\<open>src/src/LoopbackDriver.cc\<close>: the rewriting of addresses and ports in both directions, the
  choice of the instance an incoming packet is for, and its delivery.

  A packet is the list of its bytes; a packet that arrives is a chain of buffers, of which \<open>buf\<close> is
  the first, with the headers, and \<open>rest\<close> the others. The headers are read and written at the
  offsets of the wire formats (Ethernet II, ARP for IPv4, IPv4 without options, TCP), 16-bit fields in the
  byte order of the machine, so \<open>ntohs\<close> and \<open>htons\<close> swap. A read or write past the end of a
  packet has no model (\<open>Undef\<close>). The world is the root of the proxy and the manager of each
  core, whose proxy is \<open>m_px\<close>. Packets that leave for another part of EbbRT are recorded in
  \<open>w_out\<close>.

  From EbbRT come the address of the host, the number of cores, the two checksum functions,
  and two readings of the TCP header, its length and whether its SYN flag is set: the
  parameter \<open>X\<close>.
\<close>

section \<open>Bytes\<close>

definition in_pkt :: "nat \<Rightarrow> u8 list \<Rightarrow> 'a res \<Rightarrow> 'a res" where
  "in_pkt n buf r = (if n \<le> length buf then r else Inl Undef)"

definition ld_bytes :: "nat \<Rightarrow> nat \<Rightarrow> u8 list \<Rightarrow> u8 list" where
  "ld_bytes off n buf = map (\<lambda>i. buf ! i) [off ..< off + n]"

definition st_bytes :: "nat \<Rightarrow> u8 list \<Rightarrow> u8 list \<Rightarrow> u8 list" where
  "st_bytes off bs buf = take off buf @ bs @ drop (off + length bs) buf"

definition ld16 :: "nat \<Rightarrow> u8 list \<Rightarrow> u16" where
  "ld16 off buf = ucast (buf ! off) OR push_bit 8 (ucast (buf ! Suc off))"

definition st16 :: "nat \<Rightarrow> u16 \<Rightarrow> u8 list \<Rightarrow> u8 list" where
  "st16 off v buf = st_bytes off [ucast v, ucast (drop_bit 8 v)] buf"

definition ntohs :: "u16 \<Rightarrow> u16" where
  "ntohs v = push_bit 8 v OR drop_bit 8 v"

definition htons :: "u16 \<Rightarrow> u16" where "htons v = ntohs v"

definition ntohl_at :: "nat \<Rightarrow> u8 list \<Rightarrow> u32" where
  "ntohl_at off buf = push_bit 24 (ucast (buf ! off)) OR push_bit 16 (ucast (buf ! (off + 1))) OR
     push_bit 8 (ucast (buf ! (off + 2))) OR ucast (buf ! (off + 3))"

lemma length_st_bytes [simp]: "off + length bs \<le> length buf \<Longrightarrow> length (st_bytes off bs buf) = length buf"
  by (simp add: st_bytes_def)

lemma nth_st_bytes:
  "off + length bs \<le> length buf \<Longrightarrow>
   st_bytes off bs buf ! i = (if off \<le> i \<and> i < off + length bs then bs ! (i - off) else buf ! i)"
  by (auto simp: st_bytes_def nth_append not_le)

lemma length_st16 [simp]: "off + 2 \<le> length buf \<Longrightarrow> length (st16 off v buf) = length buf"
  by (simp add: st16_def)

lemma nth_st16:
  "off + 2 \<le> length buf \<Longrightarrow>
   st16 off v buf ! i = (if i = off then ucast v else if i = Suc off then ucast (drop_bit 8 v) else buf ! i)"
  by (auto simp: st16_def nth_st_bytes)

lemma ld_bytes_cong: "(\<And>i. off \<le> i \<Longrightarrow> i < off + n \<Longrightarrow> buf ! i = buf' ! i) \<Longrightarrow> ld_bytes off n buf = ld_bytes off n buf'"
  by (simp add: ld_bytes_def)

lemma ld_st_bytes: "off + length bs \<le> length buf \<Longrightarrow> n = length bs \<Longrightarrow> ld_bytes off n (st_bytes off bs buf) = bs"
  by (auto simp: ld_bytes_def nth_st_bytes intro!: nth_equalityI)

lemma ld16_cong: "buf ! off = buf' ! off \<Longrightarrow> buf ! Suc off = buf' ! Suc off \<Longrightarrow> ld16 off buf = ld16 off buf'"
  by (simp add: ld16_def)

lemma ld16_st16: "off + 2 \<le> length buf \<Longrightarrow> ld16 off (st16 off v buf) = v"
  by (intro bit_word_eqI)
    (auto simp: ld16_def nth_st16 bit_or_iff bit_push_bit_iff bit_unsigned_iff bit_drop_bit_eq)

lemma ntohs_ntohs [simp]: "ntohs (ntohs v) = v"
  by (intro bit_word_eqI) (auto simp: ntohs_def bit_or_iff bit_push_bit_iff bit_drop_bit_eq dest: bit_imp_le_length)

lemma ntohs_htons [simp]: "ntohs (htons v) = v" "htons (ntohs v) = v"
  by (simp_all add: htons_def)

section \<open>State and parameters\<close>

record pinfo =
  kNeedsCsum :: bool
  csum_start :: u16
  csum_offset :: u16

datatype wire_op =
  LoReceive "u8 list" | EthArpSend u16 "u8 list" "u8 list" pinfo
| TcpReset u32 "u8 list" "u8 list" u16 u16 | SpawnRemoteIncoming u64 "u8 list" "u8 list list" pinfo

record world =
  w_root :: proxy_root
  w_mgr :: "u64 \<Rightarrow> mgr"
  w_out :: "wire_op list"

record ext =
  x_IpAddress :: "u8 list"
  x_cpu_count :: u64
  x_ip_checksum :: "u8 list \<Rightarrow> u16"
  x_pseudo_csum :: "u8 list \<Rightarrow> u8 list \<Rightarrow> u8 list \<Rightarrow> u16"
  x_HdrLen :: "u8 list \<Rightarrow> u64"
  x_SynFlag :: "u8 list \<Rightarrow> bool"

definition sizeof_Ipv4Header :: nat where "sizeof_Ipv4Header = 20"
definition sizeof_TcpHeader :: nat where "sizeof_TcpHeader = 20"
definition sizeof_ArpPacket :: nat where "sizeof_ArpPacket = 28"

definition kEthTypeIp :: u16 where "kEthTypeIp = 0x800"
definition kEthTypeArp :: u16 where "kEthTypeArp = 0x806"

definition host_internal_macaddr :: "u8 list" where "host_internal_macaddr = [0x06, 0xfe, 0x22, 0x22, 0x22, 0x22]"
definition client_internal_macaddr :: "u8 list" where "client_internal_macaddr = [0x06, 0xfe, 0x00, 0x00, 0x00, 0x00]"
definition client_internal_ipv4 :: "u8 list" where "client_internal_ipv4 = [169, 254, 1, 0]"
definition host_internal_ipv4 :: "u8 list" where "host_internal_ipv4 = [169, 254, 0, 1]"
definition CoreLocalIp :: "u64 \<Rightarrow> u8 list" where "CoreLocalIp core = [169, 254, 254, ucast core]"
definition CoreLocalMac :: "u64 \<Rightarrow> u8 list" where "CoreLocalMac core = [0x06, 0xfe, 0x01, 0x02, 0x03, ucast core]"

definition host_external_ipv4 :: "ext \<Rightarrow> u8 list" where "host_external_ipv4 X = x_IpAddress X"

definition emit :: "wire_op \<Rightarrow> world \<Rightarrow> world" where "emit e w = w\<lparr>w_out := w_out w @ [e]\<rparr>"

definition set_mgr :: "u64 \<Rightarrow> mgr \<Rightarrow> world \<Rightarrow> world" where "set_mgr c s w = w\<lparr>w_mgr := (w_mgr w)(c := s)\<rparr>"

text \<open>The port translation's view of the world, and its update from core \<open>c\<close>.\<close>

definition net_of :: "world \<Rightarrow> net" where
  "net_of w = \<lparr>n_root = w_root w, n_px = (\<lambda>c. m_px (w_mgr w c))\<rparr>"

definition put_net :: "u64 \<Rightarrow> net \<Rightarrow> world \<Rightarrow> world" where
  "put_net c n w = set_mgr c ((w_mgr w c)\<lparr>m_px := n_px n c\<rparr>) (w\<lparr>w_root := n_root n\<rparr>)"

section \<open>Header fields\<close>

definition eth_dst :: "u8 list \<Rightarrow> u8 list" where "eth_dst = ld_bytes 0 6"
definition eth_src :: "u8 list \<Rightarrow> u8 list" where "eth_src = ld_bytes 6 6"
definition eth_type :: "u8 list \<Rightarrow> u16" where "eth_type buf = ntohs (ld16 12 buf)"
definition arp_oper :: "u8 list \<Rightarrow> u16" where "arp_oper buf = ntohs (ld16 20 buf)"
definition arp_spa :: "u8 list \<Rightarrow> u8 list" where "arp_spa = ld_bytes 28 4"
definition arp_tpa :: "u8 list \<Rightarrow> u8 list" where "arp_tpa = ld_bytes 38 4"
definition ip_proto :: "u8 list \<Rightarrow> u8" where "ip_proto buf = buf ! 23"
definition ip_src :: "u8 list \<Rightarrow> u8 list" where "ip_src = ld_bytes 26 4"
definition ip_dst :: "u8 list \<Rightarrow> u8 list" where "ip_dst = ld_bytes 30 4"
definition tcp_src_port :: "u8 list \<Rightarrow> u16" where "tcp_src_port buf = ntohs (ld16 34 buf)"
definition tcp_dst_port :: "u8 list \<Rightarrow> u16" where "tcp_dst_port buf = ntohs (ld16 36 buf)"

text \<open>\<open>ip.chksum = 0; ip.chksum = ip.ComputeChecksum();\<close>, and the check after it.\<close>

definition set_ip_csum :: "ext \<Rightarrow> u8 list \<Rightarrow> u8 list" where
  "set_ip_csum X buf = (let buf = st16 24 0 buf in st16 24 (x_ip_checksum X (drop 14 buf)) buf)"

definition ip_csum_ok :: "ext \<Rightarrow> u8 list \<Rightarrow> bool" where
  "ip_csum_ok X buf = (x_ip_checksum X (drop 14 buf) = 0)"

section \<open>Internal and external\<close>

definition internal_source :: "u8 list \<Rightarrow> bool res" where
  "internal_source buf =
     kassert (sizeof_EthernetHeader \<le> length buf)
       (if eth_src buf = host_internal_macaddr then Inr True else Inr False)"

definition internal_destination :: "u8 list \<Rightarrow> bool res" where
  "internal_destination buf =
     kassert (sizeof_EthernetHeader \<le> length buf)
       (if eth_type buf = kEthTypeArp then Inr True
        else kassert (eth_type buf = kEthTypeIp)
          (in_pkt (14 + sizeof_Ipv4Header) buf (if ip_dst buf \<noteq> host_internal_ipv4 then Inr False else Inr True)))"

section \<open>Rewriting incoming packets\<close>

definition nat_preprocess_in :: "ext \<Rightarrow> u8 list \<Rightarrow> (bool \<times> u8 list) res" where
  "nat_preprocess_in X buf =
     kassert (sizeof_EthernetHeader \<le> length buf)
       (if eth_type buf = kEthTypeArp then
          in_pkt (14 + sizeof_ArpPacket) buf
            (let oper = arp_oper buf in
             if oper = 1 then Inr (True, st_bytes 38 client_internal_ipv4 buf)
             else if oper = 2 then
               Inr (True, st_bytes 0 client_internal_macaddr
                 (st_bytes 32 client_internal_macaddr (st_bytes 38 client_internal_ipv4 buf)))
             else Inr (True, buf))
        else if eth_type buf = kEthTypeIp then
          (let buf = st_bytes 0 client_internal_macaddr buf in
           in_pkt (14 + sizeof_Ipv4Header) buf
             (Inr (True, set_ip_csum X (st_bytes 30 client_internal_ipv4 buf))))
        else Inr (True, buf))"

definition nat_postprocess_in :: "u8 list \<Rightarrow> bool res" where
  "nat_postprocess_in buf = kassert (sizeof_Ipv4Header + sizeof_EthernetHeader \<le> length buf) (Inr True)"

definition nat_masquerade_in :: "u64 \<Rightarrow> u8 list \<Rightarrow> world \<Rightarrow> (bool \<times> u8 list \<times> world) res" where
  "nat_masquerade_in c buf w =
     kassert (sizeof_Ipv4Header + sizeof_EthernetHeader \<le> length buf)
       (kassert (eth_type buf = kEthTypeIp)
         (kassert (ip_proto buf = 6)
           (in_pkt (34 + sizeof_TcpHeader) buf
             (and_then (swizzle_port_in c (tcp_dst_port buf) (net_of w)) (\<lambda>(port, n).
              Inr (True, st16 36 (htons port) buf, put_net c n w))))))"

definition nat_connection_reset :: "ext \<Rightarrow> u8 list \<Rightarrow> world \<Rightarrow> world" where
  "nat_connection_reset X buf w =
     (if sizeof_EthernetHeader + sizeof_Ipv4Header + sizeof_TcpHeader \<le> length buf
      then emit (TcpReset (ntohl_at 42 buf) (host_external_ipv4 X) (ip_src buf) (tcp_dst_port buf) (tcp_src_port buf)) w
      else w)"

section \<open>Rewriting outgoing packets\<close>

definition nat_preprocess_out :: "u8 list \<Rightarrow> bool res" where
  "nat_preprocess_out buf =
     in_pkt sizeof_EthernetHeader buf
       (if eth_type buf = kEthTypeArp then
          in_pkt (14 + sizeof_ArpPacket) buf (if arp_spa buf = arp_tpa buf then Inr False else Inr True)
        else if eth_type buf = 0x86dd then Inr False
        else Inr True)"

definition nat_postprocess_out :: "u8 list \<Rightarrow> bool" where "nat_postprocess_out buf = True"

definition nat_masquerade_out :: "ext \<Rightarrow> u64 \<Rightarrow> u8 list \<Rightarrow> world \<Rightarrow> (bool \<times> u8 list \<times> world) res" where
  "nat_masquerade_out X c buf w =
     kassert (sizeof_EthernetHeader \<le> length buf)
       (let ethtype = eth_type buf in
        and_then (internal_destination buf) (\<lambda>internal.
        if internal then
          (let buf = st_bytes 6 (CoreLocalMac c) buf in
           if ethtype = kEthTypeArp then
             in_pkt (14 + sizeof_ArpPacket) buf
               (Inr (True, st_bytes 28 (CoreLocalIp c) (st_bytes 22 (CoreLocalMac c) buf), w))
           else if ethtype = kEthTypeIp then
             in_pkt (14 + sizeof_Ipv4Header) buf
               (let buf = set_ip_csum X (st_bytes 26 (CoreLocalIp c) buf) in
                kassert (ip_csum_ok X buf) (Inr (True, buf, w)))
           else Inr (True, buf, w))
        else if ethtype = kEthTypeIp then
          in_pkt (14 + sizeof_Ipv4Header) buf
            (let buf = set_ip_csum X (st_bytes 26 (host_external_ipv4 X) buf) in
             kassert (ip_csum_ok X buf)
               (if ip_proto buf = 6 then
                  in_pkt (34 + sizeof_TcpHeader) buf
                    (let (port, n) = swizzle_port_out c (tcp_src_port buf) (net_of w)
                     in Inr (True, st16 34 (htons port) buf, put_net c n w))
                else Inr (True, buf, w)))
        else Inr (False, buf, w)))"

section \<open>Incoming packets\<close>

text \<open>
  \<open>ProcessIncoming\<close> finds the instance a packet is for; \<open>None\<close> when it is done with the
  packet (dropped, answered by a reset or passed to another core).
\<close>

definition incoming_internal :: "ext \<Rightarrow> u64 \<Rightarrow> u32 \<Rightarrow> u8 list \<Rightarrow> world \<Rightarrow> (u32 \<times> u8 list) option \<times> world" where
  "incoming_internal X c target_umi buf w =
     (if sizeof_EthernetHeader + sizeof_Ipv4Header + sizeof_TcpHeader \<le> length buf then
        if ip_proto buf \<noteq> 6 then (Some (target_umi, buf), w)
        else
          (let host_src_port = tcp_src_port buf; p = m_px (w_mgr w c) in
           if x_SynFlag X (drop 34 buf) then
             (let tmp_target = internal_port_lookup host_src_port p in
              if tmp_target \<noteq> 0 then (Some (tmp_target, buf), w)
              else if target_umi \<noteq> 0 then
                (Some (target_umi, buf),
                 set_mgr c ((w_mgr w c)\<lparr>m_px := RegisterInternalPort target_umi host_src_port p\<rparr>) w)
              else (None, w))
           else (Some (internal_port_lookup host_src_port p, buf), w))
      else (Some (target_umi, buf), w))"

text \<open>\<open>Length()\<close> is that of the first buffer.\<close>

definition payload_len :: "ext \<Rightarrow> u8 list \<Rightarrow> u64" where
  "payload_len X buf =
     of_nat (length buf) - x_HdrLen X (drop 34 buf) - of_nat sizeof_Ipv4Header - of_nat sizeof_EthernetHeader"

text \<open>The packet has reached the core of its flow; \<open>payload\<close> is its payload length.\<close>

definition deliver_external ::
  "ext \<Rightarrow> u64 \<Rightarrow> u32 \<Rightarrow> u64 \<Rightarrow> u8 list \<Rightarrow> world \<Rightarrow> ((u32 \<times> u8 list) option \<times> world) res" where
  "deliver_external X c target_umi payload buf w =
     (case GetInstance target_umi (w_mgr w c) of
        None \<Rightarrow> Inr (None, nat_connection_reset X buf w)
      | Some _ \<Rightarrow>
          and_then (nat_masquerade_in c buf w) (\<lambda>(go, buf, w).
            if \<not> go then Inr (None, w)
            else if payload > 0 then
              kbugon (GetInstance target_umi (w_mgr w c) = None)
                (with_umi target_umi (w_mgr w c) (\<lambda>u.
                   Inr (Some (target_umi, buf), set_mgr c (put_umi target_umi (SetActive u) (w_mgr w c)) w)))
            else Inr (Some (target_umi, buf), w)))"

definition incoming_external ::
  "ext \<Rightarrow> u64 \<Rightarrow> u32 \<Rightarrow> u8 list \<Rightarrow> u8 list list \<Rightarrow> pinfo \<Rightarrow> world \<Rightarrow> ((u32 \<times> u8 list) option \<times> world) res" where
  "incoming_external X c target_umi buf rest pinfo w =
     (if sizeof_EthernetHeader + sizeof_Ipv4Header + sizeof_TcpHeader \<le> length buf then
        if ip_proto buf \<noteq> 6 then Inr (Some (target_umi, buf), w)
        else
          and_then (external_portmap_lookup c (tcp_dst_port buf) (net_of w)) (\<lambda>(mapping, n).
            let w = put_net c n w in
            kassert (mapping \<noteq> null_port_mapping)
              (let target_umi = fst mapping; target_cpu = fst (snd mapping) in
               if mapping = null_port_mapping then Inr (None, nat_connection_reset X buf w)
               else if c \<noteq> target_cpu then
                 kassert (target_cpu < x_cpu_count X) (Inr (None, emit (SpawnRemoteIncoming target_cpu buf rest pinfo) w))
               else deliver_external X c target_umi (payload_len X buf) buf w))
      else Inr (Some (target_umi, buf), w))"

text \<open>The checksum of an incoming packet, over the whole chain.\<close>

definition incoming_csum :: "ext \<Rightarrow> pinfo \<Rightarrow> u8 list \<Rightarrow> u8 list list \<Rightarrow> u8 list res" where
  "incoming_csum X pinfo buf rest =
     (if kNeedsCsum pinfo then
        if csum_offset pinfo = 6 then Inl KAbort
        else if csum_offset pinfo = 16 then
          in_pkt (34 + sizeof_TcpHeader) buf
            (let buf = st16 50 0 buf
             in Inr (st16 50 (x_pseudo_csum X (drop 34 buf @ concat rest) (ip_src buf) (ip_dst buf)) buf))
        else Inl KAbort
      else Inr buf)"

text \<open>From the label \<open>post_masq\<close> on.\<close>

definition post_masq ::
  "ext \<Rightarrow> (u32 \<Rightarrow> mgr \<Rightarrow> mgr res) \<Rightarrow> nat \<Rightarrow> eframe \<Rightarrow> u64 \<Rightarrow> pinfo \<Rightarrow> u32 \<Rightarrow> u8 list \<Rightarrow> u8 list list \<Rightarrow> world \<Rightarrow> (eframe option \<times> world) res" where
  "post_masq X act qlen ef c pinfo target_umi buf rest w =
     and_then (incoming_csum X pinfo buf rest) (\<lambda>buf.
     case GetInstance target_umi (w_mgr w c) of
       None \<Rightarrow> Inr (None, w)
     | Some _ \<Rightarrow>
         and_then (WritePacket act qlen ef target_umi (buf # rest) (w_mgr w c)) (\<lambda>(fr, s). Inr (fr, set_mgr c s w)))"

definition ProcessIncoming ::
  "ext \<Rightarrow> (u32 \<Rightarrow> mgr \<Rightarrow> mgr res) \<Rightarrow> nat \<Rightarrow> eframe \<Rightarrow> u64 \<Rightarrow> u8 list \<Rightarrow> u8 list list \<Rightarrow> pinfo \<Rightarrow> world \<Rightarrow> (eframe option \<times> world) res" where
  "ProcessIncoming X act qlen ef c buf rest pinfo w =
     kassert (sizeof_EthernetHeader \<le> length buf)
       (let target_umi = px_umi_id (m_px (w_mgr w c)) in
        and_then (nat_preprocess_in X buf) (\<lambda>(go, buf).
        if \<not> go then Inr (None, w)
        else and_then (internal_source buf) (\<lambda>internal.
          and_then (if internal then Inr (incoming_internal X c target_umi buf w)
                    else incoming_external X c target_umi buf rest pinfo w) (\<lambda>(found, w).
          case found of
            None \<Rightarrow> Inr (None, w)
          | Some (target_umi, buf) \<Rightarrow> post_masq X act qlen ef c pinfo target_umi buf rest w))))"

text \<open>\<open>LoopbackDriver::Send\<close>: what the host sends on the loopback interface.\<close>

definition LoopbackDriver_Send ::
  "ext \<Rightarrow> (u32 \<Rightarrow> mgr \<Rightarrow> mgr res) \<Rightarrow> nat \<Rightarrow> eframe \<Rightarrow> u64 \<Rightarrow> u8 list \<Rightarrow> u8 list list \<Rightarrow> pinfo \<Rightarrow> world \<Rightarrow> (eframe option \<times> world) res" where
  "LoopbackDriver_Send X act qlen ef c buf rest pinfo w = ProcessIncoming X act qlen ef c buf rest pinfo w"

section \<open>Outgoing packets\<close>

definition outgoing_pinfo :: pinfo where
  "outgoing_pinfo = \<lparr>kNeedsCsum = True, csum_start = of_nat (sizeof_Ipv4Header + sizeof_EthernetHeader), csum_offset = 16\<rparr>"

definition outgoing_internal :: "u64 \<Rightarrow> u8 list \<Rightarrow> world \<Rightarrow> world" where
  "outgoing_internal c buf w =
     (if sizeof_EthernetHeader + sizeof_Ipv4Header + sizeof_TcpHeader \<le> length buf \<and> ip_proto buf = 6 then
        (let target_umi = internal_port_lookup (tcp_dst_port buf) (m_px (w_mgr w c)) in
         if target_umi = null_id then w
         else case GetInstance target_umi (w_mgr w c) of None \<Rightarrow> w | Some _ \<Rightarrow> emit (LoReceive buf) w)
      else emit (LoReceive buf) w)"

definition outgoing_external :: "ext \<Rightarrow> u64 \<Rightarrow> u32 \<Rightarrow> u8 list \<Rightarrow> world \<Rightarrow> world res" where
  "outgoing_external X c target_umi buf w =
     in_pkt (14 + sizeof_Ipv4Header) buf
       (and_then
         (if ip_proto buf = 6 then
            in_pkt (34 + sizeof_TcpHeader) buf
              (if payload_len X buf > 0 then
                 kbugon (GetInstance target_umi (w_mgr w c) = None)
                   (with_umi target_umi (w_mgr w c) (\<lambda>u.
                      Inr (set_mgr c (put_umi target_umi (SetInactive u) (w_mgr w c)) w)))
               else Inr w)
          else Inr w)
         (\<lambda>w. Inr (emit (EthArpSend (eth_type buf) (ld_bytes 14 20 buf) buf outgoing_pinfo) w)))"

definition ProcessOutgoing :: "ext \<Rightarrow> u64 \<Rightarrow> u8 list \<Rightarrow> world \<Rightarrow> world res" where
  "ProcessOutgoing X c buf w =
     kassert (sizeof_EthernetHeader \<le> length buf)
       (let target_umi = px_umi_id (m_px (w_mgr w c)) in
        and_then (nat_preprocess_out buf) (\<lambda>go.
        if \<not> go then Inr w
        else and_then (nat_masquerade_out X c buf w) (\<lambda>(go, buf, w).
          if \<not> go then Inr w
          else if \<not> nat_postprocess_out buf then Inr w
          else and_then (internal_destination buf) (\<lambda>internal.
            if internal then Inr (outgoing_internal c buf w) else outgoing_external X c target_umi buf w))))"

end
