(* ===== verification/Umm_World.thy ===== *)
theory Umm_World
  imports Umm_Nat
begin

text \<open>
  The cores of a machine together. Each core runs its manager and its proxy, the root of the
  proxy is shared. The manager's operations reach their proxy only through \<open>SetActiveInstance\<close>
  and \<open>RemoveInstanceState\<close>: the locale \<open>proxy_contract\<close> states this interface, and what every
  operation of the manager keeps. Packets and manager steps on all cores, in any order, are
  the steps of the world; they keep the managers' invariant of each core and the consistency of
  the port tables, and so a flow that was given an external port gets its replies back.
\<close>

section \<open>The proxy of a manager\<close>

lemma m_px_upd [simp]:
  "m_px (put_umi uid u s) = m_px s" "m_px (SpawnLocal e s) = m_px s" "m_px (slot_queue_push uid s) = m_px s"
  "m_px (set_snapshot v s) = m_px s"
  by (simp_all add: put_umi_def SpawnLocal_def slot_queue_push_def set_snapshot_def Let_def)

lemma GetInstance_upd [simp]: "GetInstance uid (s\<lparr>m_px := p\<rparr>) = GetInstance uid s"
  by (simp add: GetInstance_def is_active_instance_def)

lemma px_set_status: "set_status n s = Inr s' \<Longrightarrow> m_px s' = m_px s"
  by (auto simp: set_status_eq_Inr)

lemma px_gateway: "process_gateway ef s = Inr (fr, s') \<Longrightarrow> m_px s' = m_px s"
  by (auto simp: process_gateway_def Let_def with_active_def and_then_eq_Inr set_status_eq_Inr split: if_splits option.splits)

lemma px_slot_load: "slot_load_instance u s = Inr (i, s') \<Longrightarrow> m_px s' = SetActiveInstance i (m_px s)"
  by (auto simp: slot_load_instance_def slot_install_root_def slot_occupy_def Let_def and_then_eq_Inr kassert_eq_Inr
      set_status_eq_Inr split: if_splits)

lemma px_slot_unload: "slot_unload_instance s = Inr (u, s') \<Longrightarrow> m_px s' = m_px s"
  by (auto simp: slot_unload_instance_def Let_def and_then_eq_Inr kassert_eq_Inr set_status_eq_Inr)

lemma px_retire: "retire (u, s) = Inr s' \<Longrightarrow> m_px s' = m_px s"
  by (auto simp: retire_def Let_def kassert_eq_Inr split: option.splits)

lemma px_move_to_front: "slot_queue_move_to_front uid s = Inr (b, s') \<Longrightarrow> m_px s' = m_px s"
  by (auto simp: slot_queue_move_to_front_eq split: if_splits)

lemma px_take_inactive: "take_inactive i s = Inr (u, s') \<Longrightarrow> m_px s' = m_px s"
  by (auto simp: take_inactive_def slot_queue_remove_eq Let_def split: option.splits)

lemma px_queue: "queue_instance_activation u s = Inr s' \<Longrightarrow> m_px s' = m_px s"
  by (auto simp: queue_instance_activation_def kassert_eq_Inr Let_def)

lemma px_Kick: "Kick uid s = Inr s' \<Longrightarrow> m_px s' = m_px s"
  by (auto simp: Kick_def unblock_execution_def with_umi_eq_Inr kassert_eq_Inr split: if_splits)

lemma px_block_execution: "block_execution uid s = Inr s' \<Longrightarrow> m_px s' = m_px s"
  by (auto simp: block_execution_def with_umi_eq_Inr)

lemma px_Block_return: "Block_return s = Inr s' \<Longrightarrow> m_px s' = m_px s"
  by (auto simp: Block_return_def px_set_status split: if_splits)

lemma px_Sleep: "Sleep uid now ns s = Inr (b, s') \<Longrightarrow> m_px s' = m_px s"
  by (auto dest!: Sleep_run px_block_execution split: if_splits)

lemma px_Block: "Block now ns s = Inr (b, s') \<Longrightarrow> m_px s' = m_px s"
  by (auto simp: Block_def with_active_def and_then_eq_Inr dest!: px_set_status px_Sleep px_Block_return
      split: option.splits if_splits)

lemma px_context_resumed: "context_resumed uid s = Inr s' \<Longrightarrow> m_px s' = m_px s"
  by (auto simp: context_resumed_def with_umi_eq_Inr Let_def and_then_eq_Inr kassert_eq_Inr
      dest!: px_block_execution px_Block_return split: if_splits)

lemma px_Fire: "Fire uid now s = Inr s' \<Longrightarrow> m_px s' = m_px s"
  by (auto simp: Fire_def with_umi_eq_Inr Let_def and_then_eq_Inr kassert_eq_Inr dest!: px_Kick split: if_splits)

lemma px_process_pagefault: "process_pagefault ef v s = Inr s' \<Longrightarrow> m_px s' = m_px s"
  by (auto simp: process_pagefault_def kassert_eq_Inr with_active_def and_then_eq_Inr split: option.splits)

lemma px_Start_enter: "Start_enter uid ef s = Inr (fr, s') \<Longrightarrow> m_px s' = m_px s"
  by (auto simp: Start_enter_def with_active_def kassert_eq_Inr dest: px_gateway split: option.splits)

section \<open>The contract\<close>

text \<open>A property of a proxy that the two calls of the manager keep.\<close>

locale proxy_contract =
  fixes ok :: "um_proxy \<Rightarrow> bool"
  assumes set_active: "\<And>p i. ok p \<Longrightarrow> ok (SetActiveInstance i p)"
    and remove: "\<And>p i ps. ok p \<Longrightarrow> ok (RemoveInstanceState i ps p)"
begin

text \<open>What is assumed of the continuations of clients.\<close>

definition keeps :: "('a \<Rightarrow> mgr \<Rightarrow> mgr res) \<Rightarrow> bool" where
  "keeps f \<longleftrightarrow> (\<forall>x s s'. ok (m_px s) \<longrightarrow> f x s = Inr s' \<longrightarrow> ok (m_px s'))"

lemma Halt_ok: "Halt qlen ef s = Inr (fr, s') \<Longrightarrow> ok (m_px s) \<Longrightarrow> ok (m_px s')"
  by (auto simp: Halt_def with_active_def kbugon_eq_Inr kassert_eq_Inr and_then_eq_Inr Let_def
      dest!: px_set_status px_gateway intro!: remove split: option.splits if_splits)

lemma slot_load_ok: "slot_load_instance u s = Inr (i, s') \<Longrightarrow> ok (m_px s) \<Longrightarrow> ok (m_px s')"
  by (simp add: px_slot_load set_active)

lemma slot_swap_ok: "slot_swap_instance u s = Inr (i, s') \<Longrightarrow> ok (m_px s) \<Longrightarrow> ok (m_px s')"
  by (auto simp: slot_swap_instance_def kassert_eq_Inr and_then_eq_Inr
      dest!: px_slot_unload px_retire px_slot_load intro!: set_active split: if_splits)

lemma Load_ok: "Load u s = Inr (b, s') \<Longrightarrow> ok (m_px s) \<Longrightarrow> ok (m_px s')"
  by (auto simp: Load_def and_then_eq_Inr kbugon_eq_Inr dest: slot_swap_ok slot_load_ok px_queue split: if_splits)

lemma Run_enter_ok: "Run_enter u ef s = Inr (fr, s') \<Longrightarrow> ok (m_px s) \<Longrightarrow> ok (m_px s')"
  using slot_load_ok[of u s]
  by (auto simp: Run_enter_def with_active_def and_then_eq_Inr kassert_eq_Inr dest!: px_gateway split: if_splits option.splits)

lemma yield_load_ok: "yield_load u s = Inr s' \<Longrightarrow> ok (m_px s) \<Longrightarrow> ok (m_px s')"
  by (auto simp: yield_load_def and_then_eq_Inr kassert_eq_Inr dest: slot_swap_ok slot_load_ok split: if_splits)

lemma yield_finish_ok:
  assumes "yield_finish act qlen ef i s = Inr (fr, s')" "ok (m_px s)" "keeps act"
  shows "ok (m_px s')"
proof (cases "activation_promise_map s i")
  case (Some p)
  then obtain s1 where "act i (s\<lparr>activation_promise_map := (activation_promise_map s)(i := None)\<rparr>) = Inr s1" "s' = s1"
    using assms(1) by (auto simp: yield_finish_def Let_def and_then_eq_Inr kassert_eq_Inr)
  then show ?thesis using assms(2,3) unfolding keeps_def
    by (metis mgr.select_convs(7) mgr.surjective mgr.update_convs(6))
next
  case None
  then show ?thesis using assms(1,2)
    by (auto simp: yield_finish_def Let_def and_then_eq_Inr with_active_def dest!: px_set_status px_Kick dest: Halt_ok
        split: option.splits)
qed

lemma Yield_ok: "Yield act qlen ef s = Inr (fr, s') \<Longrightarrow> ok (m_px s) \<Longrightarrow> keeps act \<Longrightarrow> ok (m_px s')"
  by (auto simp: Yield_def yield_out_def and_then_eq_Inr dest!: px_slot_unload px_retire px_take_inactive yield_load_ok
      dest: yield_finish_ok split: if_splits)

lemma SignalHalt_ok: "SignalHalt act qlen ef uid s = Inr (fr, s') \<Longrightarrow> ok (m_px s) \<Longrightarrow> keeps act \<Longrightarrow> ok (m_px s')"
  by (auto simp: SignalHalt_def kassert_eq_Inr and_then_eq_Inr dest!: px_move_to_front dest: Halt_ok Yield_ok split: if_splits)

lemma SignalResume_ok: "SignalResume act qlen ef uid s = Inr (fr, s') \<Longrightarrow> ok (m_px s) \<Longrightarrow> keeps act \<Longrightarrow> ok (m_px s')"
  by (auto simp: SignalResume_def and_then_eq_Inr dest!: px_move_to_front px_Kick dest: Yield_ok split: if_splits option.splits)

lemma WritePacket_ok: "WritePacket act qlen ef uid buf s = Inr (fr, s') \<Longrightarrow> ok (m_px s) \<Longrightarrow> keeps act \<Longrightarrow> ok (m_px s')"
  by (auto simp: WritePacket_def and_then_eq_Inr with_umi_eq_Inr dest: SignalResume_ok)

lemma run_event_ok: "run_event act qlen ef e s = Inr (fr, s') \<Longrightarrow> ok (m_px s) \<Longrightarrow> keeps act \<Longrightarrow> ok (m_px s')"
  by (auto simp: run_event_def and_then_eq_Inr dest!: px_context_resumed dest: Yield_ok Halt_ok split: event.splits)

lemma checkpoint_ok:
  assumes "process_checkpoint snap ef s = Inr s'" "ok (m_px s)" "keeps snap"
  shows "ok (m_px s')"
proof -
  obtain u where u: "active_umi s = Some u" using assms(1)
    by (auto simp: process_checkpoint_def kassert_eq_Inr with_active_def split: option.splits)
  show ?thesis
  proof (cases "u_snap_addr u = 0")
    case False
    then obtain s1 v m s2 where s1: "set_status snapshot s = Inr s1"
      and s2: "snap v (s1\<lparr>ms := m, active_umi := Some (u\<lparr>u_snap_p := Some [v]\<rparr>)\<rparr>) = Inr s2"
      and s': "set_status active s2 = Inr s'"
      using assms(1) u
      by (cases "u_snap_p u"; cases "the (u_snap_p u)")
        (auto simp: process_checkpoint_def kassert_eq_Inr with_active_def and_then_eq_Inr Let_def)
    have "ok (m_px (s1\<lparr>ms := m, active_umi := Some (u\<lparr>u_snap_p := Some [v]\<rparr>)\<rparr>))" using px_set_status[OF s1] assms(2) by simp
    then have "ok (m_px s2)" using s2 assms(3) unfolding keeps_def by blast
    then show ?thesis using px_set_status[OF s'] by simp
  qed (use assms u in \<open>simp add: process_checkpoint_def kassert_eq_Inr with_active_def\<close>)
qed

lemma mgr_step_ok:
  assumes "mgr_step act snap s s'" "ok (m_px s)" "keeps act" "keeps snap"
  shows "ok (m_px s')"
  using assms(1,2)
proof cases
  case (step_event e es qlen ef fr)
  then show ?thesis using run_event_ok[OF step_event(2) _ assms(3)] assms(2) by simp
next
  case (step_checkpoint ef fr)
  then show ?thesis using checkpoint_ok[OF _ assms(2,4)] by (auto simp: DebugException_def Let_def and_then_eq_Inr)
next
  case (step_start_return u)
  then show ?thesis using assms(2) by (auto simp: Start_return_def Let_def dest!: px_slot_unload split: if_splits)
next
  case (step_run_return u)
  then show ?thesis using assms(2) by (auto simp: Run_return_def dest!: px_slot_unload)
next
  case (step_signal_yield uid)
  then show ?thesis using assms(2) by (simp add: SignalYield_def)
qed (use assms(2,3) Load_ok px_Start_enter Run_enter_ok px_Block Halt_ok WritePacket_ok px_Fire SignalHalt_ok SignalResume_ok
    px_process_pagefault in \<open>auto simp: HandleFault_def\<close>)

end

text \<open>The cache of external ports is such a property: the manager never touches it.\<close>

interpretation cache: proxy_contract "\<lambda>p. port_map_cache p = C" for C
  by unfold_locales (simp_all add: SetActiveInstance_def)

definition keeps_cache :: "('a \<Rightarrow> mgr \<Rightarrow> mgr res) \<Rightarrow> bool" where
  "keeps_cache f \<longleftrightarrow> (\<forall>x s s'. f x s = Inr s' \<longrightarrow> port_map_cache (m_px s') = port_map_cache (m_px s))"

lemma keeps_cache: "keeps_cache f \<Longrightarrow> cache.keeps C f"
  by (simp add: keeps_cache_def cache.keeps_def)

lemma mgr_step_cache:
  "mgr_step act snap s s' \<Longrightarrow> keeps_cache act \<Longrightarrow> keeps_cache snap \<Longrightarrow> port_map_cache (m_px s') = port_map_cache (m_px s)"
  by (rule cache.mgr_step_ok[OF _ refl keeps_cache keeps_cache])

section \<open>Steps of the world\<close>

definition world_init :: "(u64 \<Rightarrow> mach) \<Rightarrow> world" where
  "world_init m = \<lparr>w_root = ProxyRoot_init, w_mgr = (\<lambda>c. mgr_init (m c)), w_out = []\<rparr>"

text \<open>
  A core takes a step of its manager, receives a packet, sends one, or one of its instances
  registers a port.
\<close>

inductive world_step :: "ext \<Rightarrow> (u32 \<Rightarrow> mgr \<Rightarrow> mgr res) \<Rightarrow> (sv \<Rightarrow> mgr \<Rightarrow> mgr res) \<Rightarrow> world \<Rightarrow> world \<Rightarrow> bool"
  for X act snap where
  world_core: "mgr_step act snap (w_mgr w c) s \<Longrightarrow> world_step X act snap w (set_mgr c s w)"
| world_in: "ProcessIncoming X act qlen ef c buf rest pinfo w = Inr (fr, w') \<Longrightarrow> world_step X act snap w w'"
| world_out: "ProcessOutgoing X c buf w = Inr w' \<Longrightarrow> world_step X act snap w w'"
| world_register: "held uid (w_mgr w c) = Some u \<Longrightarrow> RegisterPort port u (m_px (w_mgr w c)) = (u', p) \<Longrightarrow>
    world_step X act snap w (set_mgr c ((put_umi uid u' (w_mgr w c))\<lparr>m_px := p\<rparr>) w)"

inductive world_reach :: "ext \<Rightarrow> (u32 \<Rightarrow> mgr \<Rightarrow> mgr res) \<Rightarrow> (sv \<Rightarrow> mgr \<Rightarrow> mgr res) \<Rightarrow> world \<Rightarrow> world \<Rightarrow> bool"
  for X act snap where
  world_refl: "world_reach X act snap w w"
| world_more: "world_reach X act snap w w' \<Longrightarrow> world_step X act snap w' w'' \<Longrightarrow> world_reach X act snap w w''"

definition world_ok :: "world \<Rightarrow> bool" where
  "world_ok w \<longleftrightarrow> net_ok (net_of w) \<and> (\<forall>c. mgr_inv (w_mgr w c))"

text \<open>What a part of a step may do to the world.\<close>

definition world_le :: "world \<Rightarrow> world \<Rightarrow> bool" where
  "world_le w w' \<longleftrightarrow> (world_ok w \<longrightarrow> world_ok w' \<and> grows (net_of w) (net_of w'))"

definition only_at :: "u64 \<Rightarrow> net \<Rightarrow> net \<Rightarrow> bool" where
  "only_at c n n' \<longleftrightarrow> (\<forall>d. d \<noteq> c \<longrightarrow> n_px n d = n_px n' d)"

lemma world_le_refl [simp]: "world_le w w"
  by (simp add: world_le_def grows_def)

lemma world_le_trans: "world_le w w' \<Longrightarrow> world_le w' w'' \<Longrightarrow> world_le w w''"
  by (auto simp: world_le_def grows_def)

lemma emit_sel [simp]:
  "w_root (emit e w) = w_root w" "w_mgr (emit e w) = w_mgr w" "net_of (emit e w) = net_of w" "w_out (emit e w) = w_out w @ [e]"
  by (simp_all add: emit_def net_of_def)

lemma set_mgr_sel [simp]:
  "w_root (set_mgr c s w) = w_root w" "w_mgr (set_mgr c s w) d = (if d = c then s else w_mgr w d)" "w_out (set_mgr c s w) = w_out w"
  by (simp_all add: set_mgr_def)

lemma world_le_emit: "world_le w (emit e w)"
  by (simp add: world_le_def world_ok_def grows_def)

lemma put_net_sel [simp]:
  "w_out (put_net c n w) = w_out w" "w_mgr (put_net c n w) d = (if d = c then (w_mgr w c)\<lparr>m_px := n_px n c\<rparr> else w_mgr w d)"
  by (simp_all add: put_net_def set_mgr_def)

lemma net_of_put_net: "only_at c n (net_of w) \<Longrightarrow> net_of (put_net c n w) = n"
  by (cases n) (auto simp: only_at_def net_of_def put_net_def set_mgr_def fun_eq_iff)

lemma world_le_put_net:
  assumes "only_at c n (net_of w)" "net_ok (net_of w) \<Longrightarrow> net_ok n \<and> grows (net_of w) n"
  shows "world_le w (put_net c n w)"
  using assms by (auto simp: world_le_def world_ok_def net_of_put_net)

lemma world_le_set_mgr:
  assumes "mgr_inv (w_mgr w c) \<Longrightarrow> mgr_inv s" "port_map_cache (m_px s) = port_map_cache (m_px (w_mgr w c))"
  shows "world_le w (set_mgr c s w)"
proof -
  have "net_ok (net_of w) \<Longrightarrow> net_ok (net_of (set_mgr c s w))"
    using assms(2) by (simp add: net_ok_def zero_unused_def net_of_def)
  then show ?thesis using assms(1) by (simp add: world_le_def world_ok_def grows_def) (simp add: net_of_def)
qed

lemma only_at_refl [simp]: "only_at c n n"
  by (simp add: only_at_def)

lemma only_at_set_px: "only_at c (set_px c p n) n"
  by (simp add: only_at_def)

lemma only_at_lookup: "external_portmap_lookup c nport n = Inr (i, n') \<Longrightarrow> only_at c n' n"
  by (auto simp: external_portmap_lookup_def Let_def kassert_eq_Inr only_at_def split: option.splits)

lemma only_at_swizzle_in: "swizzle_port_in c nport n = Inr (i, n') \<Longrightarrow> only_at c n' n"
  by (auto simp: swizzle_port_in_def and_then_eq_Inr kassert_eq_Inr dest: only_at_lookup)

lemma only_at_swizzle_out: "swizzle_port_out c port n = (i, n') \<Longrightarrow> only_at c n' n"
  by (auto simp: swizzle_port_out_def Let_def only_at_def set_px_def split: option.splits prod.splits)

lemma world_le_lookup:
  "external_portmap_lookup c nport (net_of w) = Inr (i, n) \<Longrightarrow> world_le w (put_net c n w)"
  using only_at_lookup external_portmap_lookup_ok(1,2) by (intro world_le_put_net) blast+

lemma world_le_swizzle_out: "swizzle_port_out c port (net_of w) = (i, n) \<Longrightarrow> world_le w (put_net c n w)"
  using only_at_swizzle_out swizzle_port_out_ok(1,2) by (intro world_le_put_net) blast+

lemma world_le_masquerade_in: "nat_masquerade_in c buf w = Inr (go, buf', w') \<Longrightarrow> world_le w w'"
  by (auto simp: nat_masquerade_in_def kassert_eq_Inr in_pkt_def and_then_eq_Inr swizzle_port_in_def intro: world_le_lookup
      split: if_splits)

lemma world_le_masquerade_out: "nat_masquerade_out X c buf w = Inr (go, buf', w') \<Longrightarrow> world_le w w'"
  by (auto simp: nat_masquerade_out_def kassert_eq_Inr in_pkt_def and_then_eq_Inr Let_def intro: world_le_swizzle_out
      split: if_splits prod.splits)

lemma world_le_reset: "world_le w (nat_connection_reset X buf w)"
  by (simp add: nat_connection_reset_def world_le_emit)

lemma world_le_put_umi:
  assumes "held uid (w_mgr w c) = Some u" "u_id u' = u_id u"
  shows "world_le w (set_mgr c (put_umi uid u' (w_mgr w c)) w)"
proof (rule world_le_set_mgr)
  assume inv: "mgr_inv (w_mgr w c)"
  show "mgr_inv (put_umi uid u' (w_mgr w c))"
    using held_id[OF inv assms(1)] assms(2) by (intro put_umi_inv[OF inv assms(1)]) simp
qed simp

lemma world_le_incoming_internal: "incoming_internal X c t buf w = (r, w') \<Longrightarrow> world_le w w'"
  by (auto simp: incoming_internal_def Let_def intro!: world_le_set_mgr split: if_splits)

lemma world_le_deliver:
  assumes "deliver_external X c i pl buf w = Inr (r, w')"
  shows "world_le w w'"
proof (cases "GetInstance i (w_mgr w c)")
  case None
  then show ?thesis using assms by (auto simp: deliver_external_def world_le_reset)
next
  case (Some u)
  then obtain go buf1 w1 where m: "nat_masquerade_in c buf w = Inr (go, buf1, w1)"
    and rest: "w' = w1 \<or> (\<exists>u. held i (w_mgr w1 c) = Some u \<and> w' = set_mgr c (put_umi i (SetActive u) (w_mgr w1 c)) w1)"
    using assms by (auto simp: deliver_external_def and_then_eq_Inr kbugon_eq_Inr with_umi_eq_Inr split: if_splits)
  have "world_le w1 w'" using rest world_le_put_umi[of i w1 c] by auto
  then show ?thesis using world_le_masquerade_in[OF m] by (rule world_le_trans[rotated])
qed

lemma world_le_incoming_external:
  "incoming_external X c t buf rest pinfo w = Inr (r, w') \<Longrightarrow> world_le w w'"
  by (auto simp: incoming_external_def and_then_eq_Inr kassert_eq_Inr Let_def
      intro: world_le_trans[OF world_le_lookup world_le_deliver] world_le_trans[OF world_le_lookup world_le_emit] world_le_lookup
      split: if_splits)

lemma WritePacket_cache:
  "WritePacket act qlen ef uid buf s = Inr (fr, s') \<Longrightarrow> keeps_cache act \<Longrightarrow> port_map_cache (m_px s') = port_map_cache (m_px s)"
  by (rule cache.WritePacket_ok[OF _ refl keeps_cache])

lemma world_le_post_masq:
  assumes "post_masq X act qlen ef c pinfo uid buf rest w = Inr (fr, w')" "keeps_inv act" "keeps_cache act"
  shows "world_le w w'"
  using assms(1) WritePacket_inv[OF _ _ assms(2)] WritePacket_cache[OF _ assms(3)]
  by (auto simp: post_masq_def and_then_eq_Inr intro!: world_le_set_mgr split: option.splits)

lemma world_le_ProcessIncoming:
  assumes "ProcessIncoming X act qlen ef c buf rest pinfo w = Inr (fr, w')" "keeps_inv act" "keeps_cache act"
  shows "world_le w w'"
proof -
  consider "w' = w" | t b found w1 where
      "Inr (incoming_internal X c t b w) = (Inr (found, w1) :: _ res) \<or> incoming_external X c t b rest pinfo w = Inr (found, w1)"
      "(case found of None \<Rightarrow> Inr (None, w1) | Some (i, b) \<Rightarrow> post_masq X act qlen ef c pinfo i b rest w1) = Inr (fr, w')"
    using assms(1) unfolding ProcessIncoming_def Let_def kassert_eq_Inr and_then_eq_Inr
    by (auto simp: and_then_eq_Inr[of "internal_source _"] and_then_eq_Inr[of "if _ then _ else _"] split: if_splits)
  then show ?thesis
  proof cases
    case 2
    have w1: "world_le w w1" using 2(1) world_le_incoming_internal world_le_incoming_external by auto
    have "world_le w1 w'"
    proof (cases found)
      case (Some r)
      then show ?thesis using 2(2) world_le_post_masq[OF _ assms(2,3)] by (cases r) auto
    qed (use 2(2) in simp)
    then show ?thesis by (rule world_le_trans[OF w1])
  qed simp
qed

lemma world_le_outgoing_external:
  assumes "outgoing_external X c t b w = Inr w'"
  shows "world_le w w'"
proof -
  obtain w1 where w': "w' = emit (EthArpSend (eth_type b) (ld_bytes 14 20 b) b outgoing_pinfo) w1"
    and w1: "w1 = w \<or> (\<exists>u. held t (w_mgr w c) = Some u \<and> w1 = set_mgr c (put_umi t (SetInactive u) (w_mgr w c)) w)"
    using assms by (auto simp: outgoing_external_def in_pkt_def and_then_eq_Inr kbugon_eq_Inr with_umi_eq_Inr split: if_splits)
  have "world_le w w1" using w1 world_le_put_umi[of t w c _ "SetInactive _"] by (auto simp: SetInactive_def)
  then show ?thesis unfolding w' using world_le_emit by (rule world_le_trans)
qed

lemma world_le_outgoing_internal: "world_le w (outgoing_internal c b w)"
  by (simp add: outgoing_internal_def Let_def world_le_emit split: option.split)

lemma world_le_ProcessOutgoing:
  assumes "ProcessOutgoing X c buf w = Inr w'"
  shows "world_le w w'"
proof -
  consider "w' = w" | go b w1 where "nat_masquerade_out X c buf w = Inr (go, b, w1)"
      "w' = w1 \<or> w' = outgoing_internal c b w1 \<or> (\<exists>t. outgoing_external X c t b w1 = Inr w')"
    using assms unfolding ProcessOutgoing_def Let_def kassert_eq_Inr and_then_eq_Inr
    by (auto simp: and_then_eq_Inr[of "nat_masquerade_out _ _ _ _"] and_then_eq_Inr[of "internal_destination _"] split: if_splits)
  then show ?thesis
  proof cases
    case 2
    then show ?thesis
      using world_le_trans[OF world_le_masquerade_out[OF 2(1)]] world_le_outgoing_internal world_le_outgoing_external
        world_le_masquerade_out by blast
  qed simp
qed

lemma world_step_le:
  assumes "world_step X act snap w w'" "keeps_inv act" "keeps_inv snap" "keeps_cache act" "keeps_cache snap"
  shows "world_le w w'"
  using assms(1)
proof cases
  case (world_core c s)
  then show ?thesis using mgr_step_inv[OF world_core(2) _ assms(2,3)] mgr_step_cache[OF world_core(2) assms(4,5)]
    by (auto intro: world_le_set_mgr)
next
  case (world_register uid c u port u' p)
  have "mgr_inv (put_umi uid u' (w_mgr w c))" if inv: "mgr_inv (w_mgr w c)"
    using world_register held_id[OF inv world_register(2)] by (intro put_umi_inv[OF inv world_register(2)]) (auto simp: RegisterPort_def)
  then show ?thesis using world_register by (auto intro!: world_le_set_mgr simp: RegisterPort_def)
qed (use world_le_ProcessIncoming world_le_ProcessOutgoing assms(2-) in blast)+

lemma world_reach_le:
  assumes "world_reach X act snap w w'" "keeps_inv act" "keeps_inv snap" "keeps_cache act" "keeps_cache snap"
  shows "world_le w w'"
  using assms(1)
  by induction (use world_step_le[OF _ assms(2-)] world_le_trans in \<open>auto\<close>)

lemma world_init_ok: "world_ok (world_init m)"
proof -
  have "net_of (world_init m) = net_init" by (simp add: net_of_def world_init_def net_init_def mgr_init_def)
  then show ?thesis using net_init_ok mgr_inv_init by (simp add: world_ok_def) (simp add: world_init_def)
qed

section \<open>What the rewriting leaves of a packet\<close>

lemmas field_defs = eth_dst_def eth_src_def eth_type_def ip_proto_def ip_src_def ip_dst_def tcp_src_port_def tcp_dst_port_def
lemmas size_defs = sizeof_EthernetHeader_def sizeof_Ipv4Header_def sizeof_TcpHeader_def sizeof_ArpPacket_def

lemma length_set_ip_csum [simp]: "26 \<le> length buf \<Longrightarrow> length (set_ip_csum X buf) = length buf"
  by (simp add: set_ip_csum_def Let_def)

lemma nth_set_ip_csum: "26 \<le> length buf \<Longrightarrow> i \<notin> {24, 25} \<Longrightarrow> set_ip_csum X buf ! i = buf ! i"
  by (simp add: set_ip_csum_def Let_def nth_st16)

text \<open>Two packets of one length that agree outside a set of positions.\<close>

definition same_but :: "nat set \<Rightarrow> u8 list \<Rightarrow> u8 list \<Rightarrow> bool" where
  "same_but D a b \<longleftrightarrow> length a = length b \<and> (\<forall>i < length b. i \<notin> D \<longrightarrow> a ! i = b ! i)"

lemma same_but_trans: "same_but D a b \<Longrightarrow> same_but E b c \<Longrightarrow> same_but (D \<union> E) a c"
  by (auto simp: same_but_def)

lemma same_but_bytes:
  "same_but D a b \<Longrightarrow> off + n \<le> length b \<Longrightarrow> D \<inter> {off ..< off + n} = {} \<Longrightarrow> ld_bytes off n a = ld_bytes off n b"
proof (rule ld_bytes_cong)
  fix i assume same: "same_but D a b" "off + n \<le> length b" "D \<inter> {off ..< off + n} = {}" and i: "off \<le> i" "i < off + n"
  have "i \<notin> D" using same(3) i by fastforce
  then show "a ! i = b ! i" using same(1,2) i by (simp add: same_but_def)
qed

lemma same_but_16: "same_but D a b \<Longrightarrow> Suc off < length b \<Longrightarrow> off \<notin> D \<Longrightarrow> Suc off \<notin> D \<Longrightarrow> ld16 off a = ld16 off b"
  by (rule ld16_cong) (auto simp: same_but_def)

lemma same_but_byte: "same_but D a b \<Longrightarrow> i < length b \<Longrightarrow> i \<notin> D \<Longrightarrow> a ! i = b ! i"
  by (simp add: same_but_def)

lemma same_but_st_bytes: "off + length bs \<le> length b \<Longrightarrow> same_but {off ..< off + length bs} (st_bytes off bs b) b"
  by (auto simp: same_but_def nth_st_bytes)

lemma same_but_st16: "off + 2 \<le> length b \<Longrightarrow> same_but {off, Suc off} (st16 off v b) b"
  by (auto simp: same_but_def nth_st16)

lemma same_but_csum: "26 \<le> length b \<Longrightarrow> same_but {24, 25} (set_ip_csum X b) b"
  by (auto simp: same_but_def nth_set_ip_csum)

text \<open>An outgoing IPv4 packet for the external network.\<close>

definition masked :: "ext \<Rightarrow> u8 list \<Rightarrow> u8 list" where
  "masked X buf = set_ip_csum X (st_bytes 26 (host_external_ipv4 X) buf)"

lemma masked_same:
  assumes "34 \<le> length buf" "length (host_external_ipv4 X) = 4"
  shows "same_but {24, 25, 26, 27, 28, 29} (masked X buf) buf" "ip_src (masked X buf) = host_external_ipv4 X"
proof -
  let ?b = "st_bytes 26 (host_external_ipv4 X) buf"
  have l: "length ?b = length buf" using assms by simp
  have c: "same_but {24, 25} (masked X buf) ?b" unfolding masked_def using assms l by (intro same_but_csum) simp
  moreover have "same_but {26 ..< 30} ?b buf"
    using same_but_st_bytes[of 26 "host_external_ipv4 X" buf] assms by simp
  ultimately have "same_but ({24, 25} \<union> {26 ..< 30}) (masked X buf) buf" by (rule same_but_trans)
  moreover have "{24, 25} \<union> {26 ..< 30} = {24, 25, 26, 27, 28, 29 :: nat}" by auto
  ultimately show "same_but {24, 25, 26, 27, 28, 29} (masked X buf) buf" by simp
  have "ip_src (masked X buf) = ip_src ?b"
    unfolding ip_src_def using assms l by (intro same_but_bytes[OF c]) auto
  then show "ip_src (masked X buf) = host_external_ipv4 X" using assms by (simp add: ip_src_def ld_st_bytes)
qed

lemma net_of_set_mgr: "m_px s = m_px (w_mgr w c) \<Longrightarrow> net_of (set_mgr c s w) = net_of w"
  by (auto simp: net_of_def)

text \<open>What an outgoing IPv4 packet becomes.\<close>

definition sent_packet :: "ext \<Rightarrow> u64 \<Rightarrow> u8 list \<Rightarrow> world \<Rightarrow> u8 list" where
  "sent_packet X c buf w =
     (if ip_proto buf = 6 then st16 34 (htons (fst (swizzle_port_out c (tcp_src_port buf) (net_of w)))) (masked X buf)
      else masked X buf)"

definition sent_net :: "u64 \<Rightarrow> u8 list \<Rightarrow> world \<Rightarrow> net" where
  "sent_net c buf w = (if ip_proto buf = 6 then snd (swizzle_port_out c (tcp_src_port buf) (net_of w)) else net_of w)"

lemma sent_same:
  assumes "34 \<le> length buf" "length (host_external_ipv4 X) = 4" "ip_proto buf = 6 \<longrightarrow> 54 \<le> length buf"
  shows "same_but {24, 25, 26, 27, 28, 29, 34, 35} (sent_packet X c buf w) buf"
    "ip_src (sent_packet X c buf w) = host_external_ipv4 X"
    "ip_proto buf = 6 \<Longrightarrow> tcp_src_port (sent_packet X c buf w) = fst (swizzle_port_out c (tcp_src_port buf) (net_of w))"
proof -
  let ?m = "masked X buf" and ?p = "htons (fst (swizzle_port_out c (tcp_src_port buf) (net_of w)))"
  note M = masked_same[OF assms(1,2)]
  have len: "length ?m = length buf" using M(1) by (simp add: same_but_def)
  show "same_but {24, 25, 26, 27, 28, 29, 34, 35} (sent_packet X c buf w) buf"
    using M(1) assms(3) by (auto simp: sent_packet_def same_but_def nth_st16)
  show "ip_src (sent_packet X c buf w) = host_external_ipv4 X"
  proof (cases "ip_proto buf = 6")
    case True
    have "same_but {34, 35} (st16 34 ?p ?m) ?m" using same_but_st16[of 34 ?m ?p] True assms(3) len by simp
    then have "ip_src (st16 34 ?p ?m) = ip_src ?m" unfolding ip_src_def using len assms(1) by (intro same_but_bytes) auto
    then show ?thesis using M(2) True by (simp add: sent_packet_def)
  qed (use M(2) in \<open>simp add: sent_packet_def\<close>)
  show "tcp_src_port (sent_packet X c buf w) = fst (swizzle_port_out c (tcp_src_port buf) (net_of w))" if "ip_proto buf = 6"
    using that assms(3) len by (simp add: sent_packet_def tcp_src_port_def[of "st16 _ _ _"] ld16_st16)
qed

lemma internal_destination_False:
  "eth_type buf = kEthTypeIp \<Longrightarrow> internal_destination buf = Inr b \<Longrightarrow> 34 \<le> length buf \<and> b = (ip_dst buf = host_internal_ipv4)"
  by (auto simp: internal_destination_def kassert_eq_Inr in_pkt_def size_defs kEthTypeIp_def kEthTypeArp_def split: if_splits)

lemma masquerade_out_external:
  assumes "nat_masquerade_out X c buf w = Inr (go, b, w')" "eth_type buf = kEthTypeIp" "ip_dst buf \<noteq> host_internal_ipv4"
    and "length (host_external_ipv4 X) = 4"
  shows "34 \<le> length buf \<and> (ip_proto buf = 6 \<longrightarrow> 54 \<le> length buf) \<and> go \<and> b = sent_packet X c buf w \<and>
     w' = (if ip_proto buf = 6 then put_net c (sent_net c buf w) w else w)"
proof -
  obtain i where i: "internal_destination buf = Inr i" and run: "nat_masquerade_out X c buf w = Inr (go, b, w')"
    using assms(1) by (auto simp: nat_masquerade_out_def kassert_eq_Inr and_then_eq_Inr Let_def)
  have len: "34 \<le> length buf" and "i = False" using internal_destination_False[OF assms(2) i] assms(3) by auto
  then have id: "internal_destination buf = Inr False" using i by simp
  note M = masked_same(1)[OF len assms(4)]
  have p: "ip_proto (masked X buf) = ip_proto buf" unfolding ip_proto_def using same_but_byte[OF M, of 23] len by simp
  have "tcp_src_port (masked X buf) = tcp_src_port buf" if "54 \<le> length buf"
    unfolding tcp_src_port_def using same_but_16[OF M, of 34] that by simp
  moreover have "length (masked X buf) = length buf" using M by (simp add: same_but_def)
  ultimately show ?thesis
    using run len p assms(2)
    by (auto simp: nat_masquerade_out_def id kassert_eq_Inr in_pkt_def size_defs sent_packet_def sent_net_def Let_def
        split_def masked_def[symmetric] split: if_splits)
qed

lemma ProcessOutgoing_sent:
  assumes "ProcessOutgoing X c buf w = Inr w'" "eth_type buf = kEthTypeIp" "ip_dst buf \<noteq> host_internal_ipv4"
    and "length (host_external_ipv4 X) = 4"
  shows "34 \<le> length buf \<and> (ip_proto buf = 6 \<longrightarrow> 54 \<le> length buf) \<and>
     w_out w' = w_out w @ [EthArpSend kEthTypeIp (ld_bytes 14 20 (sent_packet X c buf w)) (sent_packet X c buf w) outgoing_pinfo] \<and>
     net_of w' = sent_net c buf w"
proof -
  have "14 \<le> length buf" using assms(1) by (simp add: ProcessOutgoing_def kassert_eq_Inr size_defs)
  then have "nat_preprocess_out buf = Inr True"
    using assms(2) by (simp add: nat_preprocess_out_def in_pkt_def size_defs kEthTypeIp_def kEthTypeArp_def)
  then obtain go b w1 where m: "nat_masquerade_out X c buf w = Inr (go, b, w1)"
    and rest: "if \<not> go then w1 = w' else and_then (internal_destination b)
      (\<lambda>i. if i then Inr (outgoing_internal c b w1) else outgoing_external X c (px_umi_id (m_px (w_mgr w c))) b w1) = Inr w'"
    using assms(1) unfolding ProcessOutgoing_def Let_def kassert_eq_Inr and_then_eq_Inr[of "nat_preprocess_out _"]
      and_then_eq_Inr[of "nat_masquerade_out _ _ _ _"]
    by (auto simp: and_then_eq_Inr[of "nat_masquerade_out _ _ _ _"] nat_postprocess_out_def split: if_splits)
  note M = masquerade_out_external[OF m assms(2-4)]
  then have len: "34 \<le> length buf" "ip_proto buf = 6 \<longrightarrow> 54 \<le> length buf" by blast+
  note S = sent_same[OF len(1) assms(4) len(2), of c w]
  have b: "b = sent_packet X c buf w" "length b = length buf" using M S(1) by (auto simp: same_but_def)
  have ety: "eth_type b = kEthTypeIp"
    unfolding eth_type_def b using same_but_16[OF S(1), of 12] len assms(2) by (simp add: eth_type_def)
  have "ip_dst b = ip_dst buf" unfolding ip_dst_def b using S(1) len by (intro same_but_bytes) auto
  then have "internal_destination b = Inr False"
    using ety assms(3) len b(2) by (simp add: internal_destination_def size_defs in_pkt_def kEthTypeIp_def kEthTypeArp_def)
  then have e: "outgoing_external X c (px_umi_id (m_px (w_mgr w c))) b w1 = Inr w'" using rest M by simp
  then obtain w2 where w': "w' = emit (EthArpSend kEthTypeIp (ld_bytes 14 20 b) b outgoing_pinfo) w2"
    and w2: "w2 = w1 \<or> (\<exists>u t. w2 = set_mgr c (put_umi t u (w_mgr w1 c)) w1)"
    by (auto simp: outgoing_external_def in_pkt_def and_then_eq_Inr kbugon_eq_Inr with_umi_eq_Inr ety split: if_splits)
  have n2: "net_of w2 = net_of w1" "w_out w2 = w_out w1" using w2 by (auto simp: net_of_set_mgr)
  have o: "only_at c (sent_net c buf w) (net_of w)"
    using only_at_swizzle_out[of c "tcp_src_port buf" "net_of w"] by (auto simp: sent_net_def split_def prod_eq_iff)
  have "net_of w1 = sent_net c buf w" "w_out w1 = w_out w"
    using M net_of_put_net[OF o] by (auto simp: sent_net_def)
  then show ?thesis using n2 len b(1) by (simp add: w')
qed

text \<open>An incoming IPv4 packet before its port is translated.\<close>

definition arriving :: "ext \<Rightarrow> u8 list \<Rightarrow> u8 list" where
  "arriving X buf = set_ip_csum X (st_bytes 30 client_internal_ipv4 (st_bytes 0 client_internal_macaddr buf))"

definition rewritten :: "nat set" where "rewritten = {0 ..< 6} \<union> {24, 25} \<union> {30 ..< 34}"

lemma client_lengths [simp]: "length client_internal_ipv4 = 4" "length client_internal_macaddr = 6"
  by (simp_all add: client_internal_ipv4_def client_internal_macaddr_def)

lemma arriving_same:
  assumes "34 \<le> length r"
  shows "same_but rewritten (arriving X r) r" "eth_dst (arriving X r) = client_internal_macaddr"
    "ip_dst (arriving X r) = client_internal_ipv4"
proof -
  let ?a = "st_bytes 0 client_internal_macaddr r"
  let ?b = "st_bytes 30 client_internal_ipv4 ?a"
  have l: "length ?a = length r" "length ?b = length r" using assms by simp_all
  have c: "same_but {24, 25} (arriving X r) ?b" unfolding arriving_def using assms l by (intro same_but_csum) simp
  have b: "same_but {30 ..< 34} ?b ?a"
    using same_but_st_bytes[of 30 client_internal_ipv4 ?a] assms l by simp
  have a: "same_but {0 ..< 6} ?a r"
    using same_but_st_bytes[of 0 client_internal_macaddr r] assms by simp
  have "same_but ({24, 25} \<union> {30 ..< 34} \<union> {0 ..< 6}) (arriving X r) r"
    using same_but_trans[OF same_but_trans[OF c b] a] .
  then show "same_but rewritten (arriving X r) r" by (simp add: rewritten_def Un_ac)
  have "eth_dst (arriving X r) = eth_dst ?b" "ip_dst (arriving X r) = ip_dst ?b"
    unfolding eth_dst_def ip_dst_def using assms l by (auto intro!: same_but_bytes[OF c])
  moreover have "eth_dst ?b = eth_dst ?a" unfolding eth_dst_def using assms l by (intro same_but_bytes[OF b]) auto
  ultimately show "eth_dst (arriving X r) = client_internal_macaddr" "ip_dst (arriving X r) = client_internal_ipv4"
    using assms l by (simp_all add: eth_dst_def ip_dst_def ld_st_bytes)
qed

lemma rewritten_free: "rewritten \<inter> {6 ..< 14} = {}" "23 \<notin> rewritten" "34 \<notin> rewritten" "35 \<notin> rewritten"
    "36 \<notin> rewritten" "37 \<notin> rewritten" "12 \<notin> rewritten" "13 \<notin> rewritten" "rewritten \<inter> {26 ..< 30} = {}"
    "rewritten \<inter> {6 ..< 12} = {}"
  by (auto simp: rewritten_def)

lemma arriving_fields:
  assumes "54 \<le> length r"
  shows "length (arriving X r) = length r" "eth_type (arriving X r) = eth_type r" "eth_src (arriving X r) = eth_src r"
    "ip_proto (arriving X r) = ip_proto r" "tcp_dst_port (arriving X r) = tcp_dst_port r"
proof -
  have S: "same_but rewritten (arriving X r) r" using assms by (intro arriving_same) simp
  show "length (arriving X r) = length r" using S by (simp add: same_but_def)
  show "eth_type (arriving X r) = eth_type r" "tcp_dst_port (arriving X r) = tcp_dst_port r"
    using same_but_16[OF S, of 12] same_but_16[OF S, of 36] assms by (simp_all add: field_defs rewritten_free)
  show "ip_proto (arriving X r) = ip_proto r" using same_but_byte[OF S, of 23] assms by (simp add: field_defs rewritten_free)
  show "eth_src (arriving X r) = eth_src r"
    unfolding eth_src_def using assms by (intro same_but_bytes[OF S]) (auto simp: rewritten_free)
qed

lemma incoming_start:
  assumes "54 \<le> length r" "eth_type r = kEthTypeIp" "eth_src r \<noteq> host_internal_macaddr"
  shows "ProcessIncoming X act qlen ef c r rest pinfo w =
     and_then (incoming_external X c (px_umi_id (m_px (w_mgr w c))) (arriving X r) rest pinfo w) (\<lambda>(found, w).
       case found of None \<Rightarrow> Inr (None, w)
       | Some (target_umi, buf) \<Rightarrow> post_masq X act qlen ef c pinfo target_umi buf rest w)"
proof -
  have "nat_preprocess_in X r = Inr (True, arriving X r)"
    using assms by (simp add: nat_preprocess_in_def size_defs in_pkt_def kEthTypeIp_def kEthTypeArp_def arriving_def Let_def)
  moreover have "internal_source (arriving X r) = Inr False"
    using assms by (simp add: internal_source_def size_defs arriving_fields)
  ultimately show ?thesis using assms(1) by (simp add: ProcessIncoming_def size_defs)
qed

text \<open>The packet of a known flow on another core than the flow's.\<close>

lemma incoming_other_core:
  assumes "net_ok (net_of w)" "bm_left (master_port_map (w_root w)) (tcp_dst_port r) = Some (uid, d, port)"
    and "tcp_dst_port r \<noteq> 0" "(uid, d, port) \<noteq> null_port_mapping" "c \<noteq> d" "d < x_cpu_count X"
    and "54 \<le> length r" "eth_type r = kEthTypeIp" "ip_proto r = 6" "eth_src r \<noteq> host_internal_macaddr"
  shows "\<exists>w'. ProcessIncoming X act qlen ef c r rest pinfo w = Inr (None, w') \<and>
     w_out w' = w_out w @ [SpawnRemoteIncoming d (arriving X r) rest pinfo]"
proof -
  obtain n where "external_portmap_lookup c (tcp_dst_port r) (net_of w) = Inr ((uid, d, port), n)"
    using swizzle_port_in_known[OF assms(1) _ assms(3,4), of c] assms(2) by (auto simp: net_of_def)
  then have "incoming_external X c t (arriving X r) rest pinfo w =
      Inr (None, emit (SpawnRemoteIncoming d (arriving X r) rest pinfo) (put_net c n w))" for t
    using assms by (simp add: incoming_external_def size_defs arriving_fields)
  then show ?thesis using assms by (simp add: incoming_start)
qed

text \<open>What the instance receives.\<close>

definition received :: "ext \<Rightarrow> pinfo \<Rightarrow> u16 \<Rightarrow> u8 list \<Rightarrow> u8 list list \<Rightarrow> u8 list" where
  "received X pinfo port r rest =
     (let b = st16 36 (htons port) (arriving X r)
      in if kNeedsCsum pinfo
         then st16 50 (x_pseudo_csum X (drop 34 (st16 50 0 b) @ concat rest) (ip_src (st16 50 0 b)) (ip_dst (st16 50 0 b))) (st16 50 0 b)
         else b)"

lemma received_same:
  assumes "54 \<le> length r"
  shows "same_but (rewritten \<union> {36, 37, 50, 51}) (received X pinfo port r rest) r"
    "eth_dst (received X pinfo port r rest) = client_internal_macaddr" "ip_dst (received X pinfo port r rest) = client_internal_ipv4"
    "tcp_dst_port (received X pinfo port r rest) = port"
proof -
  let ?a = "arriving X r" and ?b = "st16 36 (htons port) (arriving X r)" and ?r = "received X pinfo port r rest"
  note A = arriving_same[of r X]
  have l: "length ?a = length r" "length ?b = length r" using arriving_fields(1)[OF assms] assms by simp_all
  have rb: "same_but {50, 51} ?r ?b" using assms l by (auto simp: received_def same_but_def nth_st16 Let_def)
  have ba: "same_but {36, 37} ?b ?a" using assms l same_but_st16[of 36 ?a "htons port"] by simp
  have "same_but ({50, 51} \<union> {36, 37} \<union> rewritten) ?r r"
    using same_but_trans[OF same_but_trans[OF rb ba] A(1)] assms by simp
  moreover have "{50, 51} \<union> {36, 37} \<union> rewritten = rewritten \<union> {36, 37, 50, 51}" by auto
  ultimately show "same_but (rewritten \<union> {36, 37, 50, 51}) ?r r" by simp
  have ra: "same_but {36, 37, 50, 51} ?r ?a" using same_but_trans[OF rb ba] by simp
  have "eth_dst ?r = eth_dst ?a" "ip_dst ?r = ip_dst ?a"
    unfolding eth_dst_def ip_dst_def using assms l by (auto intro!: same_but_bytes[OF ra])
  then show "eth_dst ?r = client_internal_macaddr" "ip_dst ?r = client_internal_ipv4" using A(2,3) assms by simp_all
  have "ld16 36 ?r = ld16 36 ?b" using assms l by (intro same_but_16[OF rb]) auto
  then show "tcp_dst_port ?r = port" using assms l by (simp add: tcp_dst_port_def ld16_st16)
qed

text \<open>The packet of a known flow on the flow's core.\<close>

lemma incoming_own_core:
  assumes "net_ok (net_of w)" "bm_left (master_port_map (w_root w)) (tcp_dst_port r) = Some (uid, c, port)"
    and "tcp_dst_port r \<noteq> 0" "(uid, c, port) \<noteq> null_port_mapping"
    and "54 \<le> length r" "eth_type r = kEthTypeIp" "ip_proto r = 6" "eth_src r \<noteq> host_internal_macaddr"
    and "mgr_inv (w_mgr w c)" "GetInstance uid (w_mgr w c) = Some u" "kNeedsCsum pinfo \<longrightarrow> csum_offset pinfo = 16"
  shows "\<exists>w' u'. ProcessIncoming X act qlen ef c r rest pinfo w =
       and_then (WritePacket act qlen ef uid (received X pinfo port r rest # rest) (w_mgr w' c)) (\<lambda>(fr, s). Inr (fr, set_mgr c s w')) \<and>
     GetInstance uid (w_mgr w' c) = Some u' \<and> u' \<in> {u, SetActive u} \<and> w_out w' = w_out w \<and> m_status (w_mgr w' c) = m_status (w_mgr w c)"
proof -
  let ?b = "st16 36 (htons port) (arriving X r)"
  obtain n where look: "external_portmap_lookup c (tcp_dst_port r) (net_of w) = Inr ((uid, c, port), n)"
    using swizzle_port_in_known[OF assms(1) _ assms(3,4), of c] assms(2) by (auto simp: net_of_def)
  note o1 = only_at_lookup[OF look]
  let ?w = "put_net c n w"
  have n1: "net_of ?w = n" by (rule net_of_put_net[OF o1])
  have ok1: "net_ok n" and grows: "grows (net_of w) n" using external_portmap_lookup_ok(1,2)[OF assms(1) look] .
  then have "bm_left (master_port_map (n_root n)) (tcp_dst_port r) = Some (uid, c, port)"
    using assms(2) by (simp add: grows_def net_of_def)
  then obtain n2 where sw: "swizzle_port_in c (tcp_dst_port r) n = Inr (port, n2)"
    using swizzle_port_in_known[OF ok1 _ assms(3,4), of c] by auto
  let ?w2 = "put_net c n2 ?w"
  have nn: "uid \<noteq> null_id" using assms(10) by (auto simp: GetInstance_def)
  have get: "GetInstance uid (w_mgr ?w c) = Some u" "GetInstance uid (w_mgr ?w2 c) = Some u"
    using assms(10) by simp_all
  then have h: "held uid (w_mgr ?w2 c) = Some u" using GetInstance_held[OF nn] by metis
  have masq: "nat_masquerade_in c (arriving X r) ?w = Inr (True, ?b, ?w2)"
    using assms by (simp add: nat_masquerade_in_def size_defs in_pkt_def arriving_fields n1 sw)
  have inv: "mgr_inv (w_mgr ?w2 c)" using assms(9) by simp
  have id: "u_id (SetActive u) = uid" using held_id[OF inv h] by simp
  let ?w3 = "if payload_len X (arriving X r) > 0 then set_mgr c (put_umi uid (SetActive u) (w_mgr ?w2 c)) ?w2 else ?w2"
  have "incoming_external X c t (arriving X r) rest pinfo w = Inr (Some (uid, ?b), ?w3)" for t
    using assms look get masq h
    by (simp add: incoming_external_def size_defs arriving_fields deliver_external_def with_umi_held)
  moreover have "incoming_csum X pinfo ?b rest = Inr (received X pinfo port r rest)"
    using assms(5,11) arriving_fields(1)[OF assms(5)] by (simp add: incoming_csum_def received_def in_pkt_def size_defs Let_def)
  moreover obtain u' where g3: "GetInstance uid (w_mgr ?w3 c) = Some u'" "u' \<in> {u, SetActive u}"
    using get(2) held_put_umi[OF id, of "w_mgr ?w2 c"] by (cases "payload_len X (arriving X r) > 0") (auto simp: GetInstance_held[OF nn])
  ultimately have "ProcessIncoming X act qlen ef c r rest pinfo w =
      and_then (WritePacket act qlen ef uid (received X pinfo port r rest # rest) (w_mgr ?w3 c)) (\<lambda>(fr, s). Inr (fr, set_mgr c s ?w3))"
    using assms(5,6,8) by (simp add: incoming_start post_masq_def del: put_net_sel set_mgr_sel split del: if_split)
  then show ?thesis using g3 by (intro exI[of _ ?w3] exI[of _ u']) simp
qed

text \<open>
  The packet \<open>b\<close>, the first buffer of a packet that was \<open>r\<close> when it arrived, is processed by core
  \<open>c\<close> by writing it to the instance \<open>uid\<close>, addressed to the client's own addresses and the given
  port, and with no other byte changed than those and the checksums.
\<close>

definition handed_over ::
  "ext \<Rightarrow> (u32 \<Rightarrow> mgr \<Rightarrow> mgr res) \<Rightarrow> u64 \<Rightarrow> u32 \<Rightarrow> u16 \<Rightarrow> u8 list \<Rightarrow> u8 list list \<Rightarrow> pinfo \<Rightarrow> u8 list \<Rightarrow> umi \<Rightarrow> world \<Rightarrow> bool" where
  "handed_over X act c uid port r rest pinfo b u w \<longleftrightarrow>
     (\<forall>qlen ef. \<exists>r' w' u'. ProcessIncoming X act qlen ef c b rest pinfo w =
        and_then (WritePacket act qlen ef uid (r' # rest) (w_mgr w' c)) (\<lambda>(fr, s). Inr (fr, set_mgr c s w')) \<and>
      GetInstance uid (w_mgr w' c) = Some u' \<and> u' \<in> {u, SetActive u} \<and>
      tcp_dst_port r' = port \<and> ip_dst r' = client_internal_ipv4 \<and> eth_dst r' = client_internal_macaddr \<and>
      same_but (rewritten \<union> {36, 37, 50, 51}) r' r)"

lemma grows_trans: "grows n n' \<Longrightarrow> grows n' n'' \<Longrightarrow> grows n n''"
  by (simp add: grows_def)

lemma handed_over_own:
  assumes "net_ok (net_of w)" "bm_left (master_port_map (w_root w)) (tcp_dst_port r) = Some (uid, c, port)"
    and "tcp_dst_port r \<noteq> 0" "(uid, c, port) \<noteq> null_port_mapping"
    and "54 \<le> length r" "eth_type r = kEthTypeIp" "ip_proto r = 6" "eth_src r \<noteq> host_internal_macaddr"
    and "mgr_inv (w_mgr w c)" "GetInstance uid (w_mgr w c) = Some u" "kNeedsCsum pinfo \<longrightarrow> csum_offset pinfo = 16"
  shows "handed_over X act c uid port r rest pinfo r u w"
proof -
  have "\<exists>w' u'. ProcessIncoming X act qlen ef c r rest pinfo w =
       and_then (WritePacket act qlen ef uid (received X pinfo port r rest # rest) (w_mgr w' c)) (\<lambda>(fr, s). Inr (fr, set_mgr c s w')) \<and>
     GetInstance uid (w_mgr w' c) = Some u' \<and> u' \<in> {u, SetActive u}" for qlen ef
    using incoming_own_core[OF assms, of X act qlen ef rest] by blast
  then show ?thesis unfolding handed_over_def using received_same[OF assms(5), of X pinfo port rest] by blast
qed

text \<open>A packet that another core has passed on is handled as the packet that arrived there.\<close>

lemma handed_over_forwarded:
  assumes "54 \<le> length r" "handed_over X act c uid port (arriving X r) rest pinfo b u w"
  shows "handed_over X act c uid port r rest pinfo b u w"
proof -
  have "same_but (rewritten \<union> {36, 37, 50, 51}) r' r" if "same_but (rewritten \<union> {36, 37, 50, 51}) r' (arriving X r)" for r'
    using same_but_trans[OF that arriving_same(1)] assms(1) by (simp add: Un_commute Un_left_commute)
  then show ?thesis using assms(2) unfolding handed_over_def by blast
qed

lemma outgoing_runs:
  assumes "54 \<le> length buf" "eth_type buf = kEthTypeIp" "ip_dst buf \<noteq> host_internal_ipv4" "ip_proto buf = 6"
    and "length (host_external_ipv4 X) = 4" "ip_csum_ok X (masked X buf)"
    and "GetInstance (px_umi_id (m_px (w_mgr w c))) (w_mgr w c) = Some u" "mgr_inv (w_mgr w c)"
  shows "\<exists>w' u'. ProcessOutgoing X c buf w = Inr w' \<and> GetInstance (px_umi_id (m_px (w_mgr w c))) (w_mgr w' c) = Some u'"
proof -
  let ?n = "snd (swizzle_port_out c (tcp_src_port buf) (net_of w))"
  have len: "34 \<le> length buf" using assms(1) by simp
  note M = masked_same(1)[OF len assms(5)]
  have id: "internal_destination buf = Inr False"
    using assms by (simp add: internal_destination_def size_defs in_pkt_def kEthTypeIp_def kEthTypeArp_def)
  have p: "ip_proto (masked X buf) = 6" unfolding ip_proto_def using same_but_byte[OF M, of 23] len assms(4) by (simp add: ip_proto_def)
  have lm: "length (masked X buf) = length buf" using M by (simp add: same_but_def)
  have tp: "tcp_src_port (masked X buf) = tcp_src_port buf"
    unfolding tcp_src_port_def using same_but_16[OF M, of 34] assms(1) by simp
  have m: "nat_masquerade_out X c buf w = Inr (True, sent_packet X c buf w, put_net c ?n w)"
    using assms len p lm tp
    by (simp add: nat_masquerade_out_def id in_pkt_def size_defs sent_packet_def Let_def split_def masked_def[symmetric]
        kEthTypeIp_def kEthTypeArp_def)
  have S: "same_but {24, 25, 26, 27, 28, 29, 34, 35} (sent_packet X c buf w) buf"
    using sent_same(1)[OF len assms(5)] assms(1) by simp
  have "eth_type (sent_packet X c buf w) = kEthTypeIp" "ip_dst (sent_packet X c buf w) = ip_dst buf"
    "length (sent_packet X c buf w) = length buf" "ip_proto (sent_packet X c buf w) = 6"
    using same_but_16[OF S, of 12] len assms(1,2,4) same_but_byte[OF S, of 23] same_but_bytes[OF S, of 30 4] S
    by (simp_all add: field_defs same_but_def)
  then have o: "internal_destination (sent_packet X c buf w) = Inr False" "54 \<le> length (sent_packet X c buf w)"
    using assms by (simp_all add: internal_destination_def size_defs in_pkt_def kEthTypeIp_def kEthTypeArp_def)
  let ?w = "put_net c ?n w" and ?t = "px_umi_id (m_px (w_mgr w c))"
  have g: "GetInstance ?t (w_mgr ?w c) = Some u" using assms(7) by simp
  moreover have nn: "?t \<noteq> null_id" using assms(7) by (auto simp: GetInstance_def)
  ultimately have h: "held ?t (w_mgr ?w c) = Some u" using GetInstance_held by metis
  have id: "u_id (SetInactive u) = ?t" using held_id[OF _ h] assms(8) by (simp add: SetInactive_def)
  have "\<exists>w' u'. outgoing_external X c ?t (sent_packet X c buf w) ?w = Inr w' \<and> GetInstance ?t (w_mgr w' c) = Some u'"
    using g h o(2) \<open>ip_proto (sent_packet X c buf w) = 6\<close> held_put_umi[OF id, of "w_mgr ?w c"]
    by (cases "payload_len X (sent_packet X c buf w) > 0")
      (auto simp: outgoing_external_def in_pkt_def size_defs with_umi_held GetInstance_held[OF nn])
  then show ?thesis
    using assms len m o by (simp add: ProcessOutgoing_def size_defs nat_preprocess_out_def in_pkt_def kEthTypeIp_def kEthTypeArp_def
        nat_postprocess_out_def)
qed

text \<open>The example: an instance loaded on core 0, a request it sends and the reply to it.\<close>

definition tcp_pkt :: "u8 list \<Rightarrow> u8 list \<Rightarrow> u8 list \<Rightarrow> u8 list \<Rightarrow> u8 list" where
  "tcp_pkt smac dst sport dport =
     replicate 6 0 @ smac @ [8, 0] @ replicate 9 0 @ [6] @ replicate 6 0 @ dst @ sport @ dport @ replicate 16 0"

definition two_cores :: ext where
  "two_cores = \<lparr>x_IpAddress = [10, 0, 0, 1], x_cpu_count = 2, x_ip_checksum = (\<lambda>_. 0), x_pseudo_csum = (\<lambda>_ _ _. 0),
     x_HdrLen = (\<lambda>_. 20), x_SynFlag = (\<lambda>_. False)\<rparr>"

definition one_world :: world where
  "one_world = set_mgr 0 one_loaded (world_init (\<lambda>_. empty_slot []))"

definition request_pkt :: "u8 list" where
  "request_pkt = tcp_pkt client_internal_macaddr [93, 184, 216, 34] [0x1F, 0x90] [0, 80]"

definition reply_pkt :: "u8 list" where
  "reply_pkt = tcp_pkt [2, 0, 0, 0, 0, 1] [10, 0, 0, 1] [0, 80] [1, 0]"

lemma request_fields:
  "length request_pkt = 54" "eth_type request_pkt = kEthTypeIp" "ip_dst request_pkt = [93, 184, 216, 34]" "ip_proto request_pkt = 6"
  "tcp_src_port request_pkt = 0x1F90"
  by code_simp+

lemma reply_fields:
  "length reply_pkt = 54" "eth_type reply_pkt = kEthTypeIp" "ip_proto reply_pkt = 6" "eth_src reply_pkt = [2, 0, 0, 0, 0, 1]"
  "tcp_dst_port reply_pkt = 256"
  by code_simp+

lemma one_world_reach: "world_reach X (\<lambda>_. Inr) snap (world_init (\<lambda>_. empty_slot [])) one_world"
proof -
  have "fresh_umi (one_region Region_init) (mgr_init (empty_slot []))"
    by (simp add: fresh_umi_def outside_def one_region_def mgr_init_def null_id_def)
  then have "mgr_step (\<lambda>_. Inr) snap (w_mgr (world_init (\<lambda>_. empty_slot [])) 0) one_loaded"
    using step_load[OF load_first] by (simp add: world_init_def)
  then have "world_step X (\<lambda>_. Inr) snap (world_init (\<lambda>_. empty_slot [])) one_world"
    unfolding one_world_def by (rule world_core)
  then show ?thesis using world_refl world_more by metis
qed

lemma keeps_cache_simple: "keeps_cache (\<lambda>_. Inr)" by (simp add: keeps_cache_def)

lemma one_world_out: "w_out one_world = []"
  by (simp add: one_world_def world_init_def)

lemma two_cores_out: "host_external_ipv4 two_cores = [10, 0, 0, 1]"
  by (simp add: two_cores_def host_external_ipv4_def)

lemma one_world_sel: "px_umi_id (m_px (w_mgr one_world 0)) = 1"
   "GetInstance 1 (w_mgr one_world c) = (if c = 0 then Some (one_region Region_init) else None)"
  by (simp_all add: one_world_def one_loaded_def GetInstance_def null_id_def is_active_instance_def one_region_def Id_def mgr_init_def world_init_def)

lemma request_runs:
  "\<exists>w' u'. ProcessOutgoing two_cores 0 request_pkt one_world = Inr w' \<and> GetInstance 1 (w_mgr w' 0) = Some u'"
proof -
  have "mgr_inv (w_mgr one_world 0)"
    using world_reach_le[OF one_world_reach keeps_simple(1) keeps_simple(1) keeps_cache_simple keeps_cache_simple] world_init_ok
    by (simp add: world_le_def world_ok_def)
  moreover have "ip_dst request_pkt \<noteq> host_internal_ipv4" "length (host_external_ipv4 two_cores) = 4"
    "ip_csum_ok two_cores (masked two_cores request_pkt)"
    by (simp_all add: request_fields two_cores_def host_external_ipv4_def ip_csum_ok_def host_internal_ipv4_def)
  ultimately show ?thesis
    using outgoing_runs[of request_pkt two_cores one_world 0 "one_region Region_init"] by (simp add: request_fields one_world_sel)
qed

lemma request_port: "fst (swizzle_port_out 0 0x1F90 (net_of one_world)) = 256"
proof -
  obtain ps where hd: "port_set ProxyRoot_init = 256 # ps" using ProxyRoot_init_first by blast
  have mp: "master_port_map ProxyRoot_init = []" by (simp add: ProxyRoot_init_def)
  show ?thesis
    by (simp add: swizzle_port_out_def one_world_def one_loaded_def world_init_def net_of_def UmProxy_init_def bm_right_def
        SetupExternalPortMapping_def allocate_port_def Let_def internal_port_def hd mp)
qed
section \<open>Properties\<close>

text \<open>
  C4. In every reachable state of the machine the managers of all cores keep their
  bookkeeping, and the port tables are consistent: the master table and the cache of every core are
  one to one, no port that may still be allocated is in use, and every entry of a core's cache is
  the master's, as long as a port is left to allocate, and after that for every port but 0. (0 is
  what \<open>allocate_port\<close> answers from then on, and the code caches it as if it were a port.)
\<close>

theorem world_invariant:
  assumes "world_reach X act snap (world_init m) w" "keeps_inv act" "keeps_inv snap" "keeps_cache act" "keeps_cache snap"
  shows "(\<forall>c. mgr_inv (w_mgr w c) \<and> bm_ok (port_map_cache (m_px (w_mgr w c)))) \<and> bm_ok (master_port_map (w_root w)) \<and>
     (\<forall>n \<in> set (port_set (w_root w)). bm_left (master_port_map (w_root w)) n = None) \<and>
     (\<forall>c n i. n \<noteq> 0 \<or> port_set (w_root w) \<noteq> [] \<longrightarrow> bm_left (port_map_cache (m_px (w_mgr w c))) n = Some i \<longrightarrow>
        bm_left (master_port_map (w_root w)) n = Some i)"
proof -
  have ok: "net_ok (net_of w)" "\<forall>c. mgr_inv (w_mgr w c)"
    using world_reach_le[OF assms] world_init_ok by (simp_all add: world_le_def world_ok_def)
  have "bm_left (port_map_cache (m_px (w_mgr w c))) 0 = None" if "port_set (w_root w) \<noteq> []" for c
    using net_okD(7)[OF ok(1), of c] that by (simp add: net_of_def)
  moreover have "\<forall>n \<in> set (port_set (w_root w)). bm_left (master_port_map (w_root w)) n = None"
    using net_okD(1)[OF ok(1)] by (simp add: master_ok_def net_of_def)
  moreover have "n \<noteq> 0 \<longrightarrow> bm_left (port_map_cache (m_px (w_mgr w c))) n = Some i \<longrightarrow> bm_left (master_port_map (w_root w)) n = Some i"
      for c n i
    using net_okD(4)[OF ok(1), of c n i] by (simp add: net_of_def)
  moreover have "bm_ok (master_port_map (w_root w))" "bm_ok (port_map_cache (m_px (w_mgr w c)))" for c
    using net_okD(2,3)[OF ok(1)] by (simp_all add: net_of_def)
  ultimately show ?thesis using ok(2) by (metis option.distinct(1))
qed

theorem world_invariant_witness:
  "bm_ok (master_port_map (w_root one_world)) \<and> mgr_inv (w_mgr one_world 0)"
  using world_invariant[OF one_world_reach keeps_simple(1) keeps_simple(1) keeps_cache_simple keeps_cache_simple] by blast

text \<open>
  C16. An outgoing IPv4 packet for the external network leaves with the address of the host
  as its source, whatever the instance wrote there; a TCP segment gets the external port of its
  flow; and apart from the address, the port and the header checksum no byte changes.
\<close>

theorem outgoing_masqueraded:
  assumes "ProcessOutgoing X c buf w = Inr w'" "eth_type buf = kEthTypeIp" "ip_dst buf \<noteq> host_internal_ipv4"
    and "length (host_external_ipv4 X) = 4"
  shows "\<exists>sent. w_out w' = w_out w @ [EthArpSend kEthTypeIp (ld_bytes 14 20 sent) sent outgoing_pinfo] \<and>
     ip_src sent = host_external_ipv4 X \<and> length sent = length buf \<and>
     (\<forall>i < length buf. i \<notin> {24, 25, 26, 27, 28, 29, 34, 35} \<longrightarrow> sent ! i = buf ! i) \<and>
     (ip_proto buf = 6 \<longrightarrow> tcp_src_port sent = fst (swizzle_port_out c (tcp_src_port buf) (net_of w)))"
proof -
  note S = ProcessOutgoing_sent[OF assms]
  then have "34 \<le> length buf" "ip_proto buf = 6 \<longrightarrow> 54 \<le> length buf" by blast+
  note M = sent_same[OF this(1) assms(4) this(2), of c w]
  show ?thesis using S M by (intro exI[of _ "sent_packet X c buf w"]) (auto simp: same_but_def)
qed

theorem outgoing_masqueraded_witness:
  "\<exists>w' sent. ProcessOutgoing two_cores 0 request_pkt one_world = Inr w' \<and>
     w_out w' = [EthArpSend kEthTypeIp (ld_bytes 14 20 sent) sent outgoing_pinfo] \<and>
     ip_src sent = [10, 0, 0, 1] \<and> tcp_src_port sent = 256"
proof -
  obtain w' where run: "ProcessOutgoing two_cores 0 request_pkt one_world = Inr w'" using request_runs by blast
  have "ip_dst request_pkt \<noteq> host_internal_ipv4" "length (host_external_ipv4 two_cores) = 4"
    by (simp_all add: request_fields host_internal_ipv4_def two_cores_def host_external_ipv4_def)
  from outgoing_masqueraded[OF run request_fields(2) this] run show ?thesis
    by (auto simp: request_fields request_port two_cores_out one_world_out)
qed

text \<open>
  C11. A reply finds its instance. When a TCP segment of the instance loaded on core \<open>c\<close> has
  left with an external source port (not 0), then after anything that may happen on the machine,
  a TCP segment from outside for that port, whose headers are in its first buffer, is handed to that
  instance as long as core \<open>c\<close> holds it: on core \<open>c\<close> it is written to the instance, addressed to
  the client's own addresses and the port the instance used, with no other byte changed than those
  and the checksums; any other core passes it on to core \<open>c\<close>, and whatever happens before core
  \<open>c\<close> processes it, it is then written to the instance in the same form.
\<close>

theorem tcp_reply_delivered:
  assumes "world_reach X act snap (world_init m) w" "keeps_inv act" "keeps_inv snap" "keeps_cache act" "keeps_cache snap"
    and "length (host_external_ipv4 X) = 4" "ProcessOutgoing X c buf w = Inr w1" "eth_type buf = kEthTypeIp"
    "ip_dst buf \<noteq> host_internal_ipv4" "ip_proto buf = 6" "px_umi_id (m_px (w_mgr w c)) = uid"
    and "w_out w1 = w_out w @ [EthArpSend t h sent po]" "tcp_src_port sent \<noteq> 0" "world_reach X act snap w1 w2"
    and "54 \<le> length r" "eth_type r = kEthTypeIp" "ip_proto r = 6" "eth_src r \<noteq> host_internal_macaddr"
    "tcp_dst_port r = tcp_src_port sent" "kNeedsCsum pinfo \<longrightarrow> csum_offset pinfo = 16"
    and "GetInstance uid (w_mgr w2 c) = Some u"
  shows "handed_over X act c uid (tcp_src_port buf) r rest pinfo r u w2 \<and>
     (d \<noteq> c \<and> c < x_cpu_count X \<longrightarrow> (\<exists>w3 b. ProcessIncoming X act qlen ef d r rest pinfo w2 = Inr (None, w3) \<and>
       w_out w3 = w_out w2 @ [SpawnRemoteIncoming c b rest pinfo] \<and>
       (\<forall>w4 v. world_reach X act snap w3 w4 \<longrightarrow> GetInstance uid (w_mgr w4 c) = Some v \<longrightarrow>
          handed_over X act c uid (tcp_src_port buf) r rest pinfo b v w4)))"
proof -
  let ?i = "(uid, c, tcp_src_port buf)"
  have ok: "world_ok w" using world_reach_le[OF assms(1-5)] world_init_ok by (simp add: world_le_def)
  note S = ProcessOutgoing_sent[OF assms(7,8,9,6)]
  then have "34 \<le> length buf" "ip_proto buf = 6 \<longrightarrow> 54 \<le> length buf" by blast+
  note M = sent_same(3)[OF this(1) assms(6) this(2) assms(10), of c w]
  have sent: "sent = sent_packet X c buf w" using S assms(12) by simp
  obtain n where sw: "swizzle_port_out c (tcp_src_port buf) (net_of w) = (tcp_src_port sent, n)" and n: "net_of w1 = n"
    using M S assms(10) sent by (simp add: sent_net_def prod_eq_iff)
  have nok: "net_ok (net_of w)" using ok by (simp add: world_ok_def)
  have "px_umi_id (n_px (net_of w) c) = uid" using assms(11) by (simp add: net_of_def)
  then have m1: "bm_left (master_port_map (n_root (net_of w1))) (tcp_src_port sent) = Some ?i"
    using swizzle_port_out_ok(3)[OF nok sw assms(13)] n by simp
  have ok1: "world_ok w1" using world_le_ProcessOutgoing[OF assms(7)] ok by (simp add: world_le_def)
  then have ok2: "world_ok w2" and g: "grows (net_of w1) (net_of w2)"
    using world_reach_le[OF assms(14,2-5)] by (simp_all add: world_le_def)
  have m: "bm_left (master_port_map (w_root v)) (tcp_dst_port r) = Some ?i" if "grows (net_of w1) (net_of v)" for v
    using that m1 assms(19) by (auto simp: net_of_def grows_def)
  have nn: "?i \<noteq> null_port_mapping"
    using assms(21) by (auto simp: GetInstance_def null_id_def null_port_mapping_def split: if_splits)
  have nz: "tcp_dst_port r \<noteq> 0" using assms(13,19) by simp
  have n2: "net_ok (net_of w2)" "mgr_inv (w_mgr w2 c)" using ok2 by (simp_all add: world_ok_def)
  have own: "handed_over X act c uid (tcp_src_port buf) r rest pinfo r u w2"
    by (rule handed_over_own[OF n2(1) m[OF g] nz nn assms(15-18) n2(2) assms(21,20)])
  have other: "\<exists>w3 b. ProcessIncoming X act qlen ef d r rest pinfo w2 = Inr (None, w3) \<and>
       w_out w3 = w_out w2 @ [SpawnRemoteIncoming c b rest pinfo] \<and>
       (\<forall>w4 v. world_reach X act snap w3 w4 \<longrightarrow> GetInstance uid (w_mgr w4 c) = Some v \<longrightarrow>
          handed_over X act c uid (tcp_src_port buf) r rest pinfo b v w4)" if d: "d \<noteq> c" "c < x_cpu_count X"
  proof -
    obtain w3 where w3: "ProcessIncoming X act qlen ef d r rest pinfo w2 = Inr (None, w3)"
        "w_out w3 = w_out w2 @ [SpawnRemoteIncoming c (arriving X r) rest pinfo]"
      using incoming_other_core[OF n2(1) m[OF g] nz nn d assms(15-18), of act qlen ef rest pinfo] by blast
    have le3: "world_le w2 w3" by (rule world_le_ProcessIncoming[OF w3(1) assms(2,4)])
    note A = arriving_fields[OF assms(15), of X]
    have "handed_over X act c uid (tcp_src_port buf) r rest pinfo (arriving X r) v w4"
      if w4: "world_reach X act snap w3 w4" "GetInstance uid (w_mgr w4 c) = Some v" for w4 v
    proof -
      have le: "world_le w3 w4" by (rule world_reach_le[OF w4(1) assms(2-5)])
      have ok4: "net_ok (net_of w4)" "mgr_inv (w_mgr w4 c)" and "grows (net_of w2) (net_of w4)"
        using le le3 ok2 grows_trans by (auto simp: world_le_def world_ok_def)
      then have "grows (net_of w1) (net_of w4)" using g grows_trans by blast
      from m[OF this] have "handed_over X act c uid (tcp_src_port buf) (arriving X r) rest pinfo (arriving X r) v w4"
        using A assms(15-18) nz by (intro handed_over_own[OF ok4(1) _ _ nn _ _ _ _ ok4(2) w4(2) assms(20)]) simp_all
      then show ?thesis by (rule handed_over_forwarded[OF assms(15)])
    qed
    then show ?thesis using w3 by blast
  qed
  show ?thesis using own other by blast
qed

theorem tcp_reply_delivered_witness:
  "\<exists>w1 u w3 b. ProcessOutgoing two_cores 0 request_pkt one_world = Inr w1 \<and>
     handed_over two_cores (\<lambda>_. Inr) 0 1 0x1F90 reply_pkt [[7]] \<lparr>kNeedsCsum = True, csum_start = 34, csum_offset = 16\<rparr> reply_pkt u w1 \<and>
     ProcessIncoming two_cores (\<lambda>_. Inr) 0 ef_zero 1 reply_pkt [[7]] \<lparr>kNeedsCsum = True, csum_start = 34, csum_offset = 16\<rparr> w1 =
       Inr (None, w3) \<and>
     w_out w3 = w_out w1 @ [SpawnRemoteIncoming 0 b [[7]] \<lparr>kNeedsCsum = True, csum_start = 34, csum_offset = 16\<rparr>]"
proof -
  let ?po = "\<lparr>kNeedsCsum = True, csum_start = 34, csum_offset = 16\<rparr>"
  obtain w1 u where run: "ProcessOutgoing two_cores 0 request_pkt one_world = Inr w1"
    and get: "GetInstance 1 (w_mgr w1 0) = Some u" using request_runs by blast
  have x: "ip_dst request_pkt \<noteq> host_internal_ipv4" "length (host_external_ipv4 two_cores) = 4"
    by (simp_all add: request_fields host_internal_ipv4_def two_cores_def host_external_ipv4_def)
  note S = ProcessOutgoing_sent[OF run request_fields(2) x]
  let ?sent = "sent_packet two_cores 0 request_pkt one_world"
  have out: "w_out w1 = w_out one_world @ [EthArpSend kEthTypeIp (ld_bytes 14 20 ?sent) ?sent outgoing_pinfo]" using S by blast
  have port: "tcp_src_port ?sent = 256"
    using sent_same(3)[of request_pkt two_cores 0 one_world] x(2) by (simp add: request_fields request_port)
  note C = tcp_reply_delivered[OF one_world_reach keeps_simple(1) keeps_simple(1) keeps_cache_simple keeps_cache_simple x(2) run
      request_fields(2) x(1) request_fields(4) one_world_sel(1) out _ world_refl _ reply_fields(2,3) _ _ _ get,
      where pinfo = ?po and qlen = 0 and ef = ef_zero and d = 1 and rest = "[[7]]"]
  have "(0 :: u64) < x_cpu_count two_cores" by (simp add: two_cores_def)
  with C run show ?thesis by (simp add: reply_fields port request_fields host_internal_macaddr_def) blast
qed

text \<open>
  The kinds of outgoing packets: gratuitous ARP and IPv6 are ignored; every other
  Ethernet type than ARP and IPv4 stops the machine with a failed assertion.
\<close>

theorem outgoing_kinds:
  assumes "14 \<le> length buf"
  shows "(eth_type buf = 0x86dd \<longrightarrow> ProcessOutgoing X c buf w = Inr w) \<and>
     (eth_type buf = kEthTypeArp \<and> 42 \<le> length buf \<and> arp_spa buf = arp_tpa buf \<longrightarrow> ProcessOutgoing X c buf w = Inr w) \<and>
     (eth_type buf \<notin> {0x86dd, kEthTypeArp, kEthTypeIp} \<longrightarrow> ProcessOutgoing X c buf w = Inl KAssert)"
  using assms
  by (auto simp: ProcessOutgoing_def size_defs nat_preprocess_out_def in_pkt_def kEthTypeArp_def kEthTypeIp_def
      nat_masquerade_out_def internal_destination_def)

theorem outgoing_kinds_witness:
  "ProcessOutgoing two_cores 0 (replicate 12 0 @ [0x86, 0xdd] @ replicate 40 0) one_world = Inr one_world \<and>
   ProcessOutgoing two_cores 0 (replicate 12 0 @ [0x88, 0xcc] @ replicate 40 0) one_world = Inl KAssert"
proof -
  have "eth_type (replicate 12 0 @ [0x86, 0xdd] @ replicate 40 0) = 0x86dd" by code_simp
  moreover have "eth_type (replicate 12 0 @ [0x88, 0xcc] @ replicate 40 0) \<notin> {0x86dd, kEthTypeArp, kEthTypeIp}" by code_simp
  ultimately show ?thesis
    using outgoing_kinds[of "replicate 12 0 @ [0x86, 0xdd] @ replicate 40 0" two_cores 0 one_world]
      outgoing_kinds[of "replicate 12 0 @ [0x88, 0xcc] @ replicate 40 0" two_cores 0 one_world] by simp
qed

text \<open>
  A TCP segment from outside for a port nobody was given stops the core with a failed
  assertion; the reset the code has for this case is never sent.
\<close>

theorem unknown_port_asserts:
  assumes "54 \<le> length r" "eth_type r = kEthTypeIp" "ip_proto r = 6" "eth_src r \<noteq> host_internal_macaddr"
    and "bm_left (master_port_map (w_root w)) (tcp_dst_port r) = None"
    "bm_left (port_map_cache (m_px (w_mgr w c))) (tcp_dst_port r) = None"
  shows "ProcessIncoming X act qlen ef c r rest pinfo w = Inl KAssert"
proof -
  have "external_portmap_lookup c (tcp_dst_port r) (net_of w) = Inl KAssert"
    using assms(5,6) by (simp add: external_portmap_lookup_def net_of_def ExternalPortLookup_def)
  then have "incoming_external X c t (arriving X r) rest pinfo w = Inl KAssert" for t
    using assms(1,3) by (simp add: incoming_external_def size_defs arriving_fields)
  then show ?thesis using assms(1,2,4) by (simp add: incoming_start)
qed

theorem unknown_port_asserts_witness:
  "ProcessIncoming two_cores (\<lambda>_. Inr) 0 ef_zero 0 reply_pkt [] outgoing_pinfo one_world = Inl KAssert"
proof (rule unknown_port_asserts)
  have "w_root one_world = ProxyRoot_init" "port_map_cache (m_px (w_mgr one_world 0)) = []"
    by (simp_all add: one_world_def world_init_def one_loaded_def UmProxy_init_def)
  then show "bm_left (master_port_map (w_root one_world)) (tcp_dst_port reply_pkt) = None"
    "bm_left (port_map_cache (m_px (w_mgr one_world 0))) (tcp_dst_port reply_pkt) = None"
    by (simp_all add: bm_left_def ProxyRoot_init_def)
qed (simp_all add: reply_fields host_internal_macaddr_def)

end
