(* ===== verification/Umm_Syscall.thy ===== *)
theory Umm_Syscall
  imports Umm_World
begin

text \<open>
  System calls: how a core is set up to enter the kernel by \<open>syscall\<close> and leave it by \<open>sysret\<close>
  (\<^verbatim>\<open>src/src/UmSyscall.cc\<close>), and the hypercalls an instance makes
  (\<^verbatim>\<open>src/src/umm-solo5.cc\<close>, \<^verbatim>\<open>umm-solo5.h\<close>).

  The descriptor table and the model-specific registers are stores. \<open>rdmsr\<close> and \<open>wrmsr\<close> read and
  write a register in two halves; which selectors \<open>syscall\<close> and \<open>sysret\<close> load from \<open>IA32_STAR\<close>
  is quoted in the source from the processor's manual. A hypercall works on the structure the
  instance points to: \<open>hc_arg\<close> has the fields of all of them, with the bytes \<open>data\<close> points to.
  The event \<open>netwrite\<close> spawns to send its copy of the data is recorded in \<open>n_writes\<close>.
\<close>

section \<open>Segments and model-specific registers\<close>

record cpu =
  gdt :: "nat \<Rightarrow> u64"
  msr :: "u32 \<Rightarrow> u64"

definition d_lo_limit :: "u64 \<Rightarrow> u64" where "d_lo_limit = bf_get 0 16"
definition d_lo_base :: "u64 \<Rightarrow> u64" where "d_lo_base = bf_get 16 24"
definition d_type :: "u64 \<Rightarrow> u64" where "d_type = bf_get 40 4"
definition d_system_desc :: "u64 \<Rightarrow> u64" where "d_system_desc = bf_get 44 1"
definition d_privilege_level :: "u64 \<Rightarrow> u64" where "d_privilege_level = bf_get 45 2"
definition d_present :: "u64 \<Rightarrow> u64" where "d_present = bf_get 47 1"
definition d_hi_limit :: "u64 \<Rightarrow> u64" where "d_hi_limit = bf_get 48 4"
definition d_long_mode :: "u64 \<Rightarrow> u64" where "d_long_mode = bf_get 53 1"
definition d_hi_base :: "u64 \<Rightarrow> u64" where "d_hi_base = bf_get 56 8"

text \<open>The assignments to a cleared descriptor, in their order; the two segments differ in the type.\<close>

definition user_segment :: "u64 \<Rightarrow> u64" where
  "user_segment typ =
     (let raw = 0;
          raw = bf_set 0 16 0 raw;
          raw = bf_set 16 24 0 raw;
          raw = bf_set 40 4 typ raw;
          raw = bf_set 44 1 1 raw;
          raw = bf_set 45 2 3 raw;
          raw = bf_set 47 1 1 raw;
          raw = bf_set 48 4 0 raw;
          raw = bf_set 52 1 0 raw;
          raw = bf_set 53 1 1 raw;
          raw = bf_set 54 1 0 raw;
          raw = bf_set 55 1 0 raw
      in bf_set 56 8 0 raw)"

definition addUserSegments :: "cpu \<Rightarrow> cpu" where
  "addUserSegments c =
     (let c = c\<lparr>gdt := (gdt c)(3 := user_segment 2)\<rparr>
      in c\<lparr>gdt := (gdt c)(4 := user_segment 0xa)\<rparr>)"

definition cpuGetMSR :: "u32 \<Rightarrow> cpu \<Rightarrow> u32 \<times> u32" where
  "cpuGetMSR r c = (ucast (drop_bit 32 (msr c r)), ucast (msr c r))"

definition edx_eax :: "u32 \<Rightarrow> u32 \<Rightarrow> u64" where "edx_eax hi lo = push_bit 32 (ucast hi) OR ucast lo"

definition cpuSetMSR :: "u32 \<Rightarrow> u32 \<Rightarrow> u32 \<Rightarrow> cpu \<Rightarrow> cpu" where
  "cpuSetMSR r hi lo c = c\<lparr>msr := (msr c)(r := edx_eax hi lo)\<rparr>"

definition IA32_EFER_MSR :: u32 where "IA32_EFER_MSR = 0xC0000080"
definition IA32_STAR_MSR :: u32 where "IA32_STAR_MSR = 0xC0000081"
definition IA32_LSTAR_MSR :: u32 where "IA32_LSTAR_MSR = 0xC0000082"

definition enableCPUSyscallSysret :: "cpu \<Rightarrow> cpu" where
  "enableCPUSyscallSysret c =
     (let (hi, lo) = cpuGetMSR IA32_EFER_MSR c
      in if lo AND 1 = 0 then cpuSetMSR IA32_EFER_MSR hi (lo OR 1) c else c)"

definition configureSupSegments64 :: "u64 \<Rightarrow> cpu \<Rightarrow> cpu" where
  "configureSupSegments64 syscallHandler c =
     (let (hi, lo) = cpuGetMSR IA32_STAR_MSR c;
          lo = 0;
          hi = hi AND push_bit 16 0xFFFF;
          hi = hi OR (push_bit 3 1 OR 0);
          c = cpuSetMSR IA32_STAR_MSR hi lo c;
          lo = ucast (syscallHandler AND 0xFFFFFFFF);
          hi = ucast (drop_bit 32 syscallHandler)
      in cpuSetMSR IA32_LSTAR_MSR hi lo c)"

definition configureUserSegments64 :: "cpu \<Rightarrow> cpu" where
  "configureUserSegments64 c =
     (let (hi, lo) = cpuGetMSR IA32_STAR_MSR c;
          lo = 0;
          hi = hi AND 0xFFFF;
          hi = hi OR push_bit 16 (push_bit 3 2);
          hi = hi OR push_bit 16 3
      in cpuSetMSR IA32_STAR_MSR hi lo c)"

definition enableSyscallSysret :: "u64 \<Rightarrow> cpu \<Rightarrow> cpu" where
  "enableSyscallSysret syscall_path c =
     configureUserSegments64 (configureSupSegments64 syscall_path (enableCPUSyscallSysret c))"

text \<open>The constructor of the manager, with \<open>USE_SYSCALL\<close>; the counters are left out.\<close>

definition UmManager_setup :: "u64 \<Rightarrow> cpu \<Rightarrow> cpu" where
  "UmManager_setup syscall_path c = enableSyscallSysret syscall_path (addUserSegments c)"

text \<open>What the processor loads: the selectors of \<open>sysret\<close> and \<open>syscall\<close>, and the entry point.\<close>

definition star_sel :: "nat \<Rightarrow> cpu \<Rightarrow> u64" where
  "star_sel p c = bf_get p 16 (msr c IA32_STAR_MSR)"

definition sysret_cs :: "cpu \<Rightarrow> u64" where "sysret_cs c = star_sel 48 c + 16"
definition sysret_ss :: "cpu \<Rightarrow> u64" where "sysret_ss c = star_sel 48 c + 8"
definition syscall_cs :: "cpu \<Rightarrow> u64" where "syscall_cs c = star_sel 32 c"
definition syscall_ss :: "cpu \<Rightarrow> u64" where "syscall_ss c = star_sel 32 c + 8"

lemma user_segment_fields:
  "d_type (user_segment t) = take_bit 4 t" "d_privilege_level (user_segment t) = 3" "d_present (user_segment t) = 1"
  "d_system_desc (user_segment t) = 1" "d_long_mode (user_segment t) = 1"
  "d_lo_base (user_segment t) = 0" "d_hi_base (user_segment t) = 0"
  "d_lo_limit (user_segment t) = 0" "d_hi_limit (user_segment t) = 0"
  by (simp_all add: user_segment_def Let_def bf_simps d_type_def d_privilege_level_def d_present_def d_system_desc_def
      d_long_mode_def d_lo_base_def d_hi_base_def d_lo_limit_def d_hi_limit_def)

lemma bit_edx_eax: "bit (edx_eax hi lo) k \<longleftrightarrow> (if k < 32 then bit lo k else k < 64 \<and> bit hi (k - 32))"
  by (auto simp: edx_eax_def bit_or_iff bit_push_bit_iff bit_unsigned_iff dest: bit_imp_le_length)

lemma msr_cpuSetMSR [simp]:
  "msr (cpuSetMSR r hi lo c) = (msr c)(r := edx_eax hi lo)" "gdt (cpuSetMSR r hi lo c) = gdt c"
  by (simp_all add: cpuSetMSR_def)

lemma edx_eax_eqI:
  "(\<And>k. k < 32 \<Longrightarrow> bit lo k = bit v k) \<Longrightarrow> (\<And>k. 32 \<le> k \<Longrightarrow> k < 64 \<Longrightarrow> bit hi (k - 32) = bit v k) \<Longrightarrow> edx_eax hi lo = v"
  by (rule bit_word_eqI) (simp add: bit_edx_eax)

lemma bit_cpuGetMSR:
  "bit (fst (cpuGetMSR r c)) k \<longleftrightarrow> k < 32 \<and> bit (msr c r) (k + 32)" "bit (snd (cpuGetMSR r c)) k \<longleftrightarrow> k < 32 \<and> bit (msr c r) k"
  by (auto simp: cpuGetMSR_def bit_unsigned_iff bit_drop_bit_eq add.commute)

lemma even_iff_bit0: "(lo :: u32) AND 1 = 0 \<longleftrightarrow> \<not> bit lo 0"
  by (simp add: and_one_eq bit_0 even_iff_mod_2_eq_zero)

lemma EFER_after: "msr (enableCPUSyscallSysret c) IA32_EFER_MSR = msr c IA32_EFER_MSR OR 1"
proof (cases "bit (msr c IA32_EFER_MSR) 0")
  case True
  then have "msr c IA32_EFER_MSR OR 1 = msr c IA32_EFER_MSR"
    by (intro bit_word_eqI) (auto simp: bit_or_iff bit_1_iff)
  then show ?thesis using True by (simp add: enableCPUSyscallSysret_def split_def Let_def even_iff_bit0 bit_cpuGetMSR)
next
  case False
  have "edx_eax (fst (cpuGetMSR IA32_EFER_MSR c)) (snd (cpuGetMSR IA32_EFER_MSR c) OR 1) = msr c IA32_EFER_MSR OR 1"
    by (rule edx_eax_eqI) (auto simp: bit_or_iff bit_cpuGetMSR bit_1_iff)
  then show ?thesis using False by (simp add: enableCPUSyscallSysret_def split_def Let_def even_iff_bit0 bit_cpuGetMSR)
qed

lemma enableCPUSyscallSysret_other: "r \<noteq> IA32_EFER_MSR \<Longrightarrow> msr (enableCPUSyscallSysret c) r = msr c r"
  by (simp add: enableCPUSyscallSysret_def split_def Let_def)

lemma LSTAR_after: "msr (configureSupSegments64 h c) IA32_LSTAR_MSR = h"
proof -
  have "edx_eax (ucast (drop_bit 32 h)) (ucast (h AND 0xFFFFFFFF)) = h"
  proof (rule edx_eax_eqI)
    have "(0xFFFFFFFF :: u64) = mask 32" by (simp add: mask_eq_exp_minus_1)
    then show "bit (ucast (h AND 0xFFFFFFFF) :: u32) k = bit h k" if "k < 32" for k
      using that unfolding \<open>0xFFFFFFFF = mask 32\<close> by (simp add: bit_unsigned_iff bit_and_iff bit_mask_iff)
  qed (auto simp: bit_unsigned_iff bit_drop_bit_eq)
  then show ?thesis by (simp add: configureSupSegments64_def Let_def split_def)
qed

text \<open>The two halves of the high word of \<open>IA32_STAR\<close>.\<close>

lemma STAR_after:
  "msr (configureUserSegments64 (configureSupSegments64 h c)) IA32_STAR_MSR = 0x0013000800000000"
proof -
  let ?c = "configureSupSegments64 h c"
  have sup: "msr ?c IA32_STAR_MSR = edx_eax ((fst (cpuGetMSR IA32_STAR_MSR c) AND push_bit 16 0xFFFF) OR (push_bit 3 1 OR 0)) 0"
    by (simp add: configureSupSegments64_def Let_def split_def IA32_STAR_MSR_def IA32_LSTAR_MSR_def)
  have "fst (cpuGetMSR IA32_STAR_MSR ?c) = (fst (cpuGetMSR IA32_STAR_MSR c) AND push_bit 16 0xFFFF) OR 8"
    by (rule bit_word_eqI) (simp add: bit_cpuGetMSR(1) sup bit_edx_eax)
  moreover have "((x AND push_bit 16 0xFFFF) OR 8) AND 0xFFFF = (8 :: u32)" for x
  proof -
    have m: "(0xFFFF :: u32) = mask 16" by (simp add: mask_eq_exp_minus_1)
    have "(x AND push_bit 16 (mask 16)) AND mask 16 = (0 :: u32)"
      by (rule bit_word_eqI) (auto simp: bit_and_iff bit_push_bit_iff bit_mask_iff)
    moreover have "8 AND mask 16 = (8 :: u32)" by (simp add: m[symmetric])
    ultimately show ?thesis unfolding m by (simp add: bit.conj_disj_distrib2)
  qed
  ultimately have "msr (configureUserSegments64 ?c) IA32_STAR_MSR = edx_eax 0x00130008 0"
    by (simp add: configureUserSegments64_def Let_def split_def)
  then show ?thesis by (simp add: edx_eax_def)
qed

lemma setup_gdt: "gdt (UmManager_setup h c) = (gdt c)(3 := user_segment 2, 4 := user_segment 0xa)"
  by (simp add: UmManager_setup_def enableSyscallSysret_def configureUserSegments64_def configureSupSegments64_def
      enableCPUSyscallSysret_def addUserSegments_def Let_def split_def)

lemma setup_msr:
  "msr (UmManager_setup h c) IA32_STAR_MSR = 0x0013000800000000" "msr (UmManager_setup h c) IA32_LSTAR_MSR = h"
  "msr (UmManager_setup h c) IA32_EFER_MSR = msr c IA32_EFER_MSR OR 1"
  "r \<notin> {IA32_STAR_MSR, IA32_LSTAR_MSR, IA32_EFER_MSR} \<Longrightarrow> msr (UmManager_setup h c) r = msr c r"
proof -
  let ?c = "enableCPUSyscallSysret (addUserSegments c)"
  have u: "r \<noteq> IA32_STAR_MSR \<Longrightarrow> msr (configureUserSegments64 c) r = msr c r" for c r
    by (simp add: configureUserSegments64_def Let_def split_def)
  have v: "r \<noteq> IA32_STAR_MSR \<Longrightarrow> r \<noteq> IA32_LSTAR_MSR \<Longrightarrow> msr (configureSupSegments64 h c) r = msr c r" for c r
    by (simp add: configureSupSegments64_def Let_def split_def)
  have ne: "IA32_LSTAR_MSR \<noteq> IA32_STAR_MSR" "IA32_EFER_MSR \<noteq> IA32_STAR_MSR" "IA32_EFER_MSR \<noteq> IA32_LSTAR_MSR"
    by (simp_all add: IA32_EFER_MSR_def IA32_STAR_MSR_def IA32_LSTAR_MSR_def)
  have a: "msr (addUserSegments c) = msr c" by (simp add: addUserSegments_def Let_def)
  show "msr (UmManager_setup h c) IA32_STAR_MSR = 0x0013000800000000" "msr (UmManager_setup h c) IA32_LSTAR_MSR = h"
    "msr (UmManager_setup h c) IA32_EFER_MSR = msr c IA32_EFER_MSR OR 1"
    using ne by (simp_all add: UmManager_setup_def enableSyscallSysret_def STAR_after u v LSTAR_after EFER_after a)
  show "msr (UmManager_setup h c) r = msr c r" if "r \<notin> {IA32_STAR_MSR, IA32_LSTAR_MSR, IA32_EFER_MSR}"
    using that by (simp add: UmManager_setup_def enableSyscallSysret_def u v enableCPUSyscallSysret_other a)
qed

section \<open>Hypercalls\<close>

record hc_arg =
  a_data :: "u8 list"
  a_len :: nat
  a_ret :: u32
  a_timeout_nsecs :: u64
  a_mac_address :: "u8 list"
  a_nsecs :: u64

record kern =
  k_world :: world
  n_writes :: "u64 \<Rightarrow> u8 list list"
  k_console :: "u8 list"

datatype hcall =
  walltime | puts | poll | blkinfo | blkwrite | blkread | netinfo | netwrite | netread | halt

datatype hc_result = HcReturn hc_arg | HcBlocked hc_arg | HcHalted "eframe option"

definition k_mgr :: "u64 \<Rightarrow> kern \<Rightarrow> mgr" where "k_mgr c k = w_mgr (k_world k) c"

definition put_mgr :: "u64 \<Rightarrow> mgr \<Rightarrow> kern \<Rightarrow> kern" where
  "put_mgr c s k = k\<lparr>k_world := set_mgr c s (k_world k)\<rparr>"

text \<open>\<open>now\<close> is the wall clock in nanoseconds since its epoch.\<close>

definition solo5_hypercall_walltime :: "int \<Rightarrow> hc_arg \<Rightarrow> hc_arg" where
  "solo5_hypercall_walltime now a = a\<lparr>a_nsecs := of_int now\<rparr>"

text \<open>The 32-bit counter of the loop never reaches a length of \<open>2 ^ 32\<close> or more.\<close>

definition solo5_hypercall_puts :: "hc_arg \<Rightarrow> kern \<Rightarrow> kern res" where
  "solo5_hypercall_puts a k =
     (if 2 ^ 32 \<le> a_len a then Inl Hang
      else in_pkt (a_len a) (a_data a) (Inr (k\<lparr>k_console := k_console k @ take (a_len a) (a_data a)\<rparr>)))"

text \<open>After \<open>Block\<close>; and the whole call, \<open>HcBlocked\<close> when the instance is suspended in \<open>Block\<close>.\<close>

definition poll_return :: "hc_arg \<Rightarrow> mgr \<Rightarrow> hc_arg res" where
  "poll_return a s = with_active s (\<lambda>u. Inr (if HasData u then a\<lparr>a_ret := 1\<rparr> else a))"

definition solo5_hypercall_poll :: "int \<Rightarrow> hc_arg \<Rightarrow> mgr \<Rightarrow> (hc_result \<times> mgr) res" where
  "solo5_hypercall_poll now a s =
     (let a = a\<lparr>a_ret := 0\<rparr> in
      with_active s (\<lambda>u.
        if HasData u then Inr (HcReturn (a\<lparr>a_ret := 1\<rparr>), s)
        else and_then (Block now (a_timeout_nsecs a) s) (\<lambda>(suspended, s).
          if suspended then Inr (HcBlocked a, s)
          else and_then (poll_return a s) (\<lambda>a. Inr (HcReturn a, s)))))"

definition solo5_hypercall_netinfo :: "hc_arg \<Rightarrow> hc_arg" where
  "solo5_hypercall_netinfo a = a\<lparr>a_mac_address := client_internal_macaddr\<rparr>"

definition solo5_hypercall_netwrite :: "u64 \<Rightarrow> hc_arg \<Rightarrow> kern \<Rightarrow> (hc_arg \<times> kern) res" where
  "solo5_hypercall_netwrite c a k =
     in_pkt (a_len a) (a_data a)
       (let a = a\<lparr>a_ret := of_nat (a_len a)\<rparr>; buf = take (a_len a) (a_data a)
        in Inr (a, k\<lparr>n_writes := (n_writes k)(c := n_writes k c @ [buf])\<rparr>))"

text \<open>The event \<open>netwrite\<close> spawned runs.\<close>

definition run_netwrite :: "ext \<Rightarrow> u64 \<Rightarrow> kern \<Rightarrow> kern res" where
  "run_netwrite X c k =
     (case n_writes k c of
        [] \<Rightarrow> Inr k
      | buf # bufs \<Rightarrow>
          and_then (raw_to_iobuf buf (length buf)) (\<lambda>b.
          and_then (ProcessOutgoing X c b (k_world k)) (\<lambda>w.
          Inr (k\<lparr>k_world := w, n_writes := (n_writes k)(c := bufs)\<rparr>))))"

text \<open>The chain that is read is copied buffer by buffer (\<open>GetNoAdvance\<close>).\<close>

definition solo5_hypercall_netread :: "hc_arg \<Rightarrow> mgr \<Rightarrow> (hc_arg \<times> mgr) res" where
  "solo5_hypercall_netread a s =
     with_active s (\<lambda>u.
       if HasData u then
         and_then (ReadPacket (a_len a) u) (\<lambda>(b, u).
           case b of
             None \<Rightarrow> Inl KBug
           | Some buf \<Rightarrow>
               (let buflen = ComputeChainDataLength buf in
                kbugon (a_len a < buflen)
                  (in_pkt buflen (a_data a)
                    (Inr (a\<lparr>a_data := st_bytes 0 (concat buf) (a_data a), a_len := buflen, a_ret := 0\<rparr>,
                      s\<lparr>active_umi := Some u\<rparr>)))))
       else Inr (a\<lparr>a_ret := 1\<rparr>, s))"

definition sys_calls :: "hcall option list" where
  "sys_calls = [None, Some walltime, Some puts, Some poll, Some blkinfo, Some blkwrite, Some blkread,
     Some netinfo, Some netwrite, Some netread, Some halt]"

text \<open>The table is indexed without a check; the call of a null pointer has no model either.\<close>

definition sys_call_entry :: "int \<Rightarrow> hcall res" where
  "sys_call_entry n =
     (if n < 0 \<or> int (length sys_calls) \<le> n then Inl Undef
      else case sys_calls ! nat n of None \<Rightarrow> Inl Undef | Some h \<Rightarrow> Inr h)"

definition hypercall :: "int \<Rightarrow> nat \<Rightarrow> eframe \<Rightarrow> u64 \<Rightarrow> hcall \<Rightarrow> hc_arg \<Rightarrow> kern \<Rightarrow> (hc_result \<times> kern) res" where
  "hypercall now qlen ef c h a k =
     (case h of
        walltime \<Rightarrow> Inr (HcReturn (solo5_hypercall_walltime now a), k)
      | puts \<Rightarrow> and_then (solo5_hypercall_puts a k) (\<lambda>k. Inr (HcReturn a, k))
      | poll \<Rightarrow> and_then (solo5_hypercall_poll now a (k_mgr c k)) (\<lambda>(r, s). Inr (r, put_mgr c s k))
      | blkinfo \<Rightarrow> Inr (HcReturn a, k)
      | blkwrite \<Rightarrow> Inr (HcReturn a, k)
      | blkread \<Rightarrow> Inr (HcReturn a, k)
      | netinfo \<Rightarrow> Inr (HcReturn (solo5_hypercall_netinfo a), k)
      | netwrite \<Rightarrow> and_then (solo5_hypercall_netwrite c a k) (\<lambda>(a, k). Inr (HcReturn a, k))
      | netread \<Rightarrow> and_then (solo5_hypercall_netread a (k_mgr c k)) (\<lambda>(a, s). Inr (HcReturn a, put_mgr c s k))
      | halt \<Rightarrow> and_then (Halt qlen ef (k_mgr c k)) (\<lambda>(fr, s). Inr (HcHalted fr, put_mgr c s k)))"

text \<open>
  \<open>sys_call_handler\<close>: the result of the hypercall, the kernel stack it ran on and, when it
  returns, the stack pointer it goes back to.
\<close>

definition sys_call_handler ::
  "int \<Rightarrow> nat \<Rightarrow> eframe \<Rightarrow> u64 \<Rightarrow> int \<Rightarrow> u64 \<Rightarrow> hc_arg \<Rightarrow> kern \<Rightarrow> (hc_result \<times> u64 \<times> u64 option \<times> kern) res" where
  "sys_call_handler now qlen ef c n fnRSP a k =
     and_then (SaveFnStackPtr fnRSP (k_mgr c k)) (\<lambda>s.
     and_then (GetKernStackPtr s) (\<lambda>kern_rsp.
     and_then (sys_call_entry n) (\<lambda>h.
     and_then (hypercall now qlen ef c h a (put_mgr c s k)) (\<lambda>(r, k).
       case r of
         HcReturn _ \<Rightarrow> and_then (RestoreFnStackPtr (k_mgr c k)) (\<lambda>rsp. Inr (r, kern_rsp, Some rsp, k))
       | _ \<Rightarrow> Inr (r, kern_rsp, None, k)))))"

text \<open>
  The rest of a \<open>poll\<close> that was suspended in \<open>block_execution\<close>, when the event manager continues
  the context of its instance: it is suspended again when the instance may not enter the slot;
  otherwise \<open>Block\<close> and \<open>poll\<close> return, and the call goes back to a stack as above.
\<close>

definition sys_call_resumed :: "u64 \<Rightarrow> u32 \<Rightarrow> hc_arg \<Rightarrow> kern \<Rightarrow> (hc_result \<times> u64 option \<times> kern) res" where
  "sys_call_resumed c uid a k =
     (let s = k_mgr c k in
      and_then (request_slot_entry uid s) (\<lambda>may.
      and_then (context_resumed uid s) (\<lambda>s.
      if \<not> may then Inr (HcBlocked a, None, put_mgr c s k)
      else and_then (poll_return a s) (\<lambda>a.
           and_then (RestoreFnStackPtr s) (\<lambda>rsp. Inr (HcReturn a, Some rsp, put_mgr c s k))))))"

section \<open>Boot arguments\<close>

record boot_info =
  bi_mem_size :: u64
  bi_kernel_end :: u64
  bi_cmdline :: u64
  bi_tsc_freq :: u64
  bi_tsc_step :: u64
  bi_hypercall_ptr :: "nat \<Rightarrow> hcall option"

definition SOLO5_USR_REGION_SIZE :: u64 where "SOLO5_USR_REGION_SIZE = push_bit 28 1"
definition SOLO5_CPU_TSC_FREQ :: u64 where "SOLO5_CPU_TSC_FREQ = 2599997000"
definition SOLO5_CPU_TSC_STEP :: u64 where "SOLO5_CPU_TSC_STEP = 300000"

text \<open>
  \<open>ukvm\<close>: the number Solo5 gives each hypercall (\<open>UKVM_HYPERCALL_\<close>...); \<open>cmdline\<close>: the address
  of the characters of the command line.
\<close>

definition Solo5BootArguments :: "(hcall \<Rightarrow> nat) \<Rightarrow> u64 \<Rightarrow> u64 \<Rightarrow> u64 \<Rightarrow> boot_info" where
  "Solo5BootArguments ukvm kernel_end mem_size cmdline =
     \<lparr>bi_mem_size = mem_size, bi_kernel_end = kernel_end, bi_cmdline = cmdline,
      bi_tsc_freq = SOLO5_CPU_TSC_FREQ, bi_tsc_step = SOLO5_CPU_TSC_STEP,
      bi_hypercall_ptr = fold (\<lambda>h p. p(ukvm h \<mapsto> h))
        [walltime, puts, poll, blkinfo, blkwrite, blkread, netinfo, netwrite, netread, halt] (\<lambda>_. None)\<rparr>"

section \<open>Lemmas on hypercalls\<close>

lemma k_mgr_put [simp]: "k_mgr c (put_mgr d s k) = (if c = d then s else k_mgr c k)"
  by (simp add: k_mgr_def put_mgr_def)

lemma k_mgr_upd [simp]: "k_mgr c (k\<lparr>n_writes := x\<rparr>) = k_mgr c k" "k_mgr c (k\<lparr>k_console := y\<rparr>) = k_mgr c k"
  by (simp_all add: k_mgr_def)

text \<open>The saved stack pointer of the instance in the slot.\<close>

definition saved_stack :: "mgr \<Rightarrow> u64 option" where
  "saved_stack s = map_option u_fnStack (active_umi s)"

lemma saved_stack_status: "set_status n s = Inr s' \<Longrightarrow> saved_stack s' = saved_stack s"
  by (auto simp: set_status_eq_Inr saved_stack_def)

lemma ReadPacket_keeps: "ReadPacket len u = Inr (b, u') \<Longrightarrow> u_fnStack u' = u_fnStack u \<and> u_id u' = u_id u"
  by (auto simp: ReadPacket_def and_then_eq_Inr split: list.splits if_splits)

lemma Sleep_at_once: "Sleep uid now ns s = Inr (False, s') \<Longrightarrow> s' = s"
  by (auto simp: Sleep_def with_umi_eq_Inr Let_def and_then_eq_Inr split: if_splits)

lemma Block_at_once: "Block now ns s = Inr (False, s') \<Longrightarrow> saved_stack s' = saved_stack s"
  by (auto simp: Block_def with_active_def and_then_eq_Inr Block_return_def dest!: Sleep_at_once saved_stack_status
      split: option.splits if_splits)

lemma hypercall_stack:
  assumes "hypercall now qlen ef c h a k = Inr (HcReturn a', k')"
  shows "saved_stack (k_mgr c k') = saved_stack (k_mgr c k)"
proof (cases h)
  case poll
  then obtain s where s: "solo5_hypercall_poll now a (k_mgr c k) = Inr (HcReturn a', s)" and k': "k' = put_mgr c s k"
    using assms by (auto simp: hypercall_def and_then_eq_Inr)
  then have "saved_stack s = saved_stack (k_mgr c k)"
    by (auto simp: solo5_hypercall_poll_def Let_def with_active_def and_then_eq_Inr dest!: Block_at_once
        split: option.splits if_splits)
  then show ?thesis by (simp add: k')
next
  case netread
  then obtain s where s: "solo5_hypercall_netread a (k_mgr c k) = Inr (a', s)" and k': "k' = put_mgr c s k"
    using assms by (auto simp: hypercall_def and_then_eq_Inr)
  then have "saved_stack s = saved_stack (k_mgr c k)"
    by (auto simp: solo5_hypercall_netread_def with_active_def and_then_eq_Inr kbugon_eq_Inr in_pkt_def saved_stack_def Let_def
        dest!: ReadPacket_keeps split: option.splits if_splits)
  then show ?thesis by (simp add: k')
qed (use assms in \<open>auto simp: hypercall_def and_then_eq_Inr solo5_hypercall_puts_def solo5_hypercall_netwrite_def in_pkt_def Let_def
      split: if_splits\<close>)

text \<open>What \<open>netread\<close> does when a packet waits: the whole packet, or a part of its first buffer.\<close>

lemma netread_spec:
  assumes "solo5_hypercall_netread a s = Inr (a', s')" "active_umi s = Some u"
  shows "\<exists>u'. active_umi s' = Some u' \<and>
     (if u_recv_queue u = [] then a' = a\<lparr>a_ret := 1\<rparr> \<and> s' = s
      else a_ret a' = 0 \<and> a_len a' \<le> a_len a \<and> a_len a' \<le> length (a_data a) \<and>
        length (a_data a') = length (a_data a) \<and>
        concat (concat (u_recv_queue u)) = take (a_len a') (a_data a') @ concat (concat (u_recv_queue u')) \<and>
        drop (a_len a') (a_data a') = drop (a_len a') (a_data a))"
proof (cases "u_recv_queue u")
  case Nil
  then show ?thesis using assms by (simp add: solo5_hypercall_netread_def with_active_def HasData_def)
next
  case (Cons p ps)
  obtain buf u' where r: "ReadPacket (a_len a) u = Inr (Some buf, u')" "length (concat buf) \<le> a_len a" "length (concat buf) \<le> length (a_data a)"
    and s': "a' = a\<lparr>a_data := st_bytes 0 (concat buf) (a_data a), a_len := length (concat buf), a_ret := 0\<rparr>"
      "s' = s\<lparr>active_umi := Some u'\<rparr>"
    using assms Cons
    by (auto simp: solo5_hypercall_netread_def with_active_def HasData_def and_then_eq_Inr kbugon_eq_Inr in_pkt_def not_less
        ComputeChainDataLength_def Let_def split: option.splits if_splits)
  have "concat (concat (u_recv_queue u)) = concat buf @ concat (concat (u_recv_queue u'))"
  proof (cases "ComputeChainDataLength p \<le> a_len a")
    case True
    then show ?thesis using r(1) Cons by (auto simp: ReadPacket_def)
  next
    case False
    then have "p \<noteq> []" by (auto simp: ComputeChainDataLength_def)
    moreover have "buf = [take (a_len a) (hd p)]" "u_recv_queue u' = (drop (a_len a) (hd p) # tl p) # ps"
      using False r(1) Cons by (auto simp: ReadPacket_def raw_to_iobuf_def and_then_eq_Inr kassert_eq_Inr split: if_splits)
    ultimately show ?thesis using Cons by (cases p) simp_all
  qed
  then show ?thesis using r(2,3) Cons s' by (auto simp: st_bytes_def)
qed

text \<open>The bytes behind the end of the first buffer.\<close>

lemma netread_overread:
  assumes "active_umi s = Some u" "u_recv_queue u = p # ps" "length (hd p) < a_len a" "a_len a < length (concat p)"
    and "sizeof_EthernetHeader < a_len a"
  shows "solo5_hypercall_netread a s = Inl Undef"
  using assms by (simp add: solo5_hypercall_netread_def with_active_def HasData_def ReadPacket_def ComputeChainDataLength_def
      raw_to_iobuf_def)

lemma netread_whole:
  assumes "active_umi s = Some u" "u_recv_queue u = p # ps" "length (concat p) \<le> a_len a" "length (concat p) \<le> length (a_data a)"
  shows "solo5_hypercall_netread a s =
     Inr (a\<lparr>a_data := st_bytes 0 (concat p) (a_data a), a_len := length (concat p), a_ret := 0\<rparr>,
       s\<lparr>active_umi := Some (u\<lparr>u_recv_queue := ps\<rparr>)\<rparr>)"
  using assms
  by (simp add: solo5_hypercall_netread_def with_active_def HasData_def ReadPacket_def ComputeChainDataLength_def in_pkt_def)

lemma raw_to_iobuf_all: "raw_to_iobuf buf (length buf) = Inr b \<Longrightarrow> b = buf"
  by (simp add: raw_to_iobuf_def kassert_eq_Inr)

section \<open>Properties\<close>

text \<open>
  C22. After the set-up of a core \<open>syscall\<close> is enabled and enters at the given address, and the
  selectors of \<open>sysret\<close> are exactly those the gateway gives an instance: 0x23 for code and 0x1B
  for the stack, the table's entries 4 and 3, which are user-level code and data segments, the
  data entry right before the code entry. No other entry of the table changes, no other register
  does, and of \<open>IA32_EFER\<close> only the bit that enables \<open>syscall\<close>.
\<close>

theorem syscall_setup_correct:
  fixes h :: u64
  shows "bit (msr (UmManager_setup h c) IA32_EFER_MSR) 0 \<and> msr (UmManager_setup h c) IA32_LSTAR_MSR = h \<and>
     sysret_cs (UmManager_setup h c) = push_bit 3 4 OR 3 \<and> sysret_ss (UmManager_setup h c) = push_bit 3 3 OR 3 \<and>
     syscall_cs (UmManager_setup h c) = 8 \<and> syscall_ss (UmManager_setup h c) = 16 \<and>
     gdt (UmManager_setup h c) = (gdt c)(3 := user_segment 2, 4 := user_segment 0xa) \<and>
     (\<forall>i \<in> {3, 4}. d_privilege_level (gdt (UmManager_setup h c) i) = 3 \<and> d_present (gdt (UmManager_setup h c) i) = 1) \<and>
     d_type (gdt (UmManager_setup h c) 3) = 2 \<and> d_type (gdt (UmManager_setup h c) 4) = 0xa \<and>
     msr (UmManager_setup h c) IA32_EFER_MSR = msr c IA32_EFER_MSR OR 1 \<and>
     (\<forall>r. r \<notin> {IA32_STAR_MSR, IA32_LSTAR_MSR, IA32_EFER_MSR} \<longrightarrow> msr (UmManager_setup h c) r = msr c r)"
proof -
  have t: "take_bit 4 2 = (2 :: u64)" "take_bit 4 0xa = (0xa :: u64)" by code_simp+
  have s: "bf_get 48 16 (0x0013000800000000 :: u64) = 0x13" "bf_get 32 16 (0x0013000800000000 :: u64) = 8" by code_simp+
  show ?thesis
    by (simp add: setup_gdt setup_msr user_segment_fields t sysret_cs_def sysret_ss_def syscall_cs_def syscall_ss_def star_sel_def s
        bit_or_iff)
qed

theorem syscall_setup_correct_witness:
  "sysret_cs (UmManager_setup 0x1000 \<lparr>gdt = (\<lambda>_. 0), msr = (\<lambda>_. 0xFFFFFFFFFFFFFFFF)\<rparr>) = 0x23"
  using syscall_setup_correct[where h = "0x1000" and c = "\<lparr>gdt = (\<lambda>_. 0), msr = (\<lambda>_. 0xFFFFFFFFFFFFFFFF)\<rparr>"] by simp

text \<open>A core of the example in which the loaded instance makes a call.\<close>

definition one_kern :: kern where
  "one_kern = \<lparr>k_world = one_world, n_writes = (\<lambda>_. []), k_console = []\<rparr>"

definition arg0 :: hc_arg where
  "arg0 = \<lparr>a_data = replicate 100 0, a_len = 100, a_ret = 7, a_timeout_nsecs = 0, a_mac_address = [], a_nsecs = 0\<rparr>"

lemma one_kern_active: "active_umi (k_mgr 0 one_kern) = Some (one_region Region_init)"
  by (simp add: one_kern_def k_mgr_def one_world_def one_loaded_def)

text \<open>
  C24. When \<open>netread\<close> returns it has lost and invented nothing: a packet being a chain of
  buffers, what it puts at the start of the instance's buffer is the start of the bytes that were
  waiting, the rest of them keeps waiting, the reported length fits the buffer, and the buffer
  behind it is untouched; with nothing waiting the call reports 1 and changes nothing else. But a
  packet that does not fit and whose first buffer is shorter than the length asked for is read
  behind the end of that buffer (the call has no defined result; \<open>raw_to_iobuf\<close> stops it before
  when the length is not larger than an Ethernet header).
\<close>

theorem netread_stream:
  assumes "active_umi s = Some u"
  shows "(\<forall>a' s'. solo5_hypercall_netread a s = Inr (a', s') \<longrightarrow> (\<exists>u'. active_umi s' = Some u' \<and>
     (if u_recv_queue u = [] then a' = a\<lparr>a_ret := 1\<rparr> \<and> s' = s
      else a_ret a' = 0 \<and> a_len a' \<le> a_len a \<and> a_len a' \<le> length (a_data a) \<and>
        length (a_data a') = length (a_data a) \<and>
        concat (concat (u_recv_queue u)) = take (a_len a') (a_data a') @ concat (concat (u_recv_queue u')) \<and>
        drop (a_len a') (a_data a') = drop (a_len a') (a_data a)))) \<and>
     (\<forall>p ps. u_recv_queue u = p # ps \<longrightarrow> length (hd p) < a_len a \<longrightarrow> a_len a < length (concat p) \<longrightarrow>
        sizeof_EthernetHeader < a_len a \<longrightarrow> solo5_hypercall_netread a s = Inl Undef)"
  using netread_spec[OF _ assms] netread_overread[OF assms] by blast

theorem netread_stream_witness:
  "(\<exists>a' s' u'. solo5_hypercall_netread (arg0\<lparr>a_len := 20\<rparr>)
       (one_loaded\<lparr>active_umi := Some ((one_region Region_init)\<lparr>u_recv_queue := [[replicate 30 5, [2]], [[1]]]\<rparr>)\<rparr>) = Inr (a', s') \<and>
     active_umi s' = Some u' \<and> take (a_len a') (a_data a') @ concat (concat (u_recv_queue u')) = replicate 30 5 @ [2, 1]) \<and>
   solo5_hypercall_netread (arg0\<lparr>a_len := 20\<rparr>)
       (one_loaded\<lparr>active_umi := Some ((one_region Region_init)\<lparr>u_recv_queue := [[replicate 10 5, replicate 50 2]]\<rparr>)\<rparr>) = Inl Undef"
proof -
  let ?u = "(one_region Region_init)\<lparr>u_recv_queue := [[replicate 30 5, [2]], [[1]]]\<rparr>"
  let ?v = "(one_region Region_init)\<lparr>u_recv_queue := [[replicate 10 5, replicate 50 2]]\<rparr>"
  let ?s = "one_loaded\<lparr>active_umi := Some ?u\<rparr>" and ?t = "one_loaded\<lparr>active_umi := Some ?v\<rparr>"
  have "\<exists>a' s'. solo5_hypercall_netread (arg0\<lparr>a_len := 20\<rparr>) ?s = Inr (a', s')"
    by (simp add: solo5_hypercall_netread_def with_active_def HasData_def ReadPacket_def raw_to_iobuf_def size_defs arg0_def
        in_pkt_def ComputeChainDataLength_def)
  then obtain a' s' where r: "solo5_hypercall_netread (arg0\<lparr>a_len := 20\<rparr>) ?s = Inr (a', s')" by blast
  have u: "active_umi ?s = Some ?u" "active_umi ?t = Some ?v" by simp_all
  have "solo5_hypercall_netread (arg0\<lparr>a_len := 20\<rparr>) ?t = Inl Undef"
    using netread_stream[OF u(2), of "arg0\<lparr>a_len := 20\<rparr>"] by (simp add: size_defs)
  then show ?thesis using netread_stream[OF u(1), of "arg0\<lparr>a_len := 20\<rparr>"] r by (intro conjI) auto
qed

text \<open>Calls of \<open>netread\<close>, one after the other.\<close>

fun netreads :: "hc_arg list \<Rightarrow> mgr \<Rightarrow> (hc_arg list \<times> mgr) res" where
  "netreads [] s = Inr ([], s)"
| "netreads (a # as) s =
     and_then (solo5_hypercall_netread a s) (\<lambda>(a, s). and_then (netreads as s) (\<lambda>(as, s). Inr (a # as, s)))"

definition has_room :: "u8 list list \<Rightarrow> hc_arg \<Rightarrow> bool" where
  "has_room p a \<longleftrightarrow> length (concat p) \<le> a_len a \<and> length (concat p) \<le> length (a_data a)"

definition was_read :: "u8 list list \<Rightarrow> hc_arg \<Rightarrow> bool" where
  "was_read p a \<longleftrightarrow> a_ret a = 0 \<and> a_len a = length (concat p) \<and> take (a_len a) (a_data a) = concat p"

lemma netreads_all:
  "list_all2 has_room ps as \<Longrightarrow> active_umi s = Some u \<Longrightarrow> u_recv_queue u = ps \<Longrightarrow>
   \<exists>rs. netreads as s = Inr (rs, s\<lparr>active_umi := Some (u\<lparr>u_recv_queue := []\<rparr>)\<rparr>) \<and> list_all2 was_read ps rs"
proof (induction ps as arbitrary: s u rule: list_all2_induct)
  case Nil
  have "u\<lparr>u_recv_queue := []\<rparr> = u" "s\<lparr>active_umi := Some u\<rparr> = s" using Nil by simp_all
  then show ?case by simp
next
  case (Cons p ps a as)
  let ?r = "a\<lparr>a_data := st_bytes 0 (concat p) (a_data a), a_len := length (concat p), a_ret := 0\<rparr>"
  let ?s = "s\<lparr>active_umi := Some (u\<lparr>u_recv_queue := ps\<rparr>)\<rparr>"
  have room: "length (concat p) \<le> a_len a" "length (concat p) \<le> length (a_data a)" using Cons.hyps(1) by (simp_all add: has_room_def)
  have "solo5_hypercall_netread a s = Inr (?r, ?s)" by (rule netread_whole[OF Cons.prems room])
  moreover obtain rs where "netreads as ?s = Inr (rs, s\<lparr>active_umi := Some (u\<lparr>u_recv_queue := []\<rparr>)\<rparr>)" "list_all2 was_read ps rs"
    using Cons.IH[of ?s "u\<lparr>u_recv_queue := ps\<rparr>"] by auto
  moreover have "was_read p ?r" by (simp add: was_read_def st_bytes_def)
  ultimately show ?case by (intro exI[of _ "?r # rs"]) simp
qed

text \<open>
  C25. Packets reach the running instance whole and in the order of their arrival: when a
  packet is delivered to the instance in the slot while it is not blocked, and \<open>netread\<close> is then called once
  for each packet that was waiting and once more, each time with room for the packet whose turn it
  is, the calls return exactly those packets, the new one last, and then nothing is waiting.
\<close>

theorem packet_then_netread:
  assumes "active_umi s = Some u" "\<not> u_blocked u" "list_all2 has_room (u_recv_queue u @ [p]) as"
  shows "\<exists>s1 s2 rs. WritePacket act qlen ef (u_id u) p s = Inr (None, s1) \<and> netreads as s1 = Inr (rs, s2) \<and>
     list_all2 was_read (u_recv_queue u @ [p]) rs \<and> active_umi s2 = Some (u\<lparr>u_recv_queue := []\<rparr>)"
proof -
  let ?u = "u\<lparr>u_recv_queue := u_recv_queue u @ [p]\<rparr>"
  let ?s1 = "s\<lparr>active_umi := Some ?u\<rparr>"
  have "WritePacket act qlen ef (u_id u) p s = Inr (None, ?s1)"
    using assms(1,2) by (simp add: WritePacket_def SignalResume_def ActiveInstanceId_def ActiveInstance_def Kick_def with_umi_def
        is_active_instance_def with_active_def put_umi_def Id_def)
  moreover obtain rs where "netreads as ?s1 = Inr (rs, ?s1\<lparr>active_umi := Some (?u\<lparr>u_recv_queue := []\<rparr>)\<rparr>)"
    "list_all2 was_read (u_recv_queue u @ [p]) rs"
    using netreads_all[OF assms(3), of ?s1 ?u] by auto
  ultimately show ?thesis by (intro exI[of _ ?s1] exI[of _ "?s1\<lparr>active_umi := Some (?u\<lparr>u_recv_queue := []\<rparr>)\<rparr>"] exI[of _ rs]) simp
qed

theorem packet_then_netread_witness:
  "\<exists>s1 s2 r1 r2. WritePacket (\<lambda>_. Inr) 0 ef_zero 1 [[1, 2], [3]]
       (one_loaded\<lparr>active_umi := Some ((one_region Region_init)\<lparr>u_recv_queue := [[[9]]]\<rparr>)\<rparr>) = Inr (None, s1) \<and>
     netreads [arg0, arg0] s1 = Inr ([r1, r2], s2) \<and> take (a_len r1) (a_data r1) = [9] \<and> take (a_len r2) (a_data r2) = [1, 2, 3]"
proof -
  let ?u = "(one_region Region_init)\<lparr>u_recv_queue := [[[9]]]\<rparr>"
  let ?s = "one_loaded\<lparr>active_umi := Some ?u\<rparr>"
  have a: "active_umi ?s = Some ?u" "\<not> u_blocked ?u" "list_all2 has_room (u_recv_queue ?u @ [[[1, 2], [3]]]) [arg0, arg0]"
    by (simp_all add: one_region_def has_room_def arg0_def)
  have "u_id ?u = 1" "u_recv_queue ?u = [[[9]]]" by (simp_all add: one_region_def)
  with packet_then_netread[OF a, of "\<lambda>_. Inr" 0 ef_zero] show ?thesis
    by (auto simp: was_read_def list_all2_Cons1)
qed

text \<open>
  C40. Whose flow an outgoing segment starts is decided when the spawned event runs, not when
  the instance writes it: if the slot has changed from \<open>a\<close> to \<open>b\<close> in between, the
  external port of the segment written by \<open>a\<close> is registered for \<open>b\<close>, who will get the replies.
\<close>

theorem netwrite_misattributed:
  assumes "solo5_hypercall_netwrite c arg k = Inr (arg', k1)" "n_writes k c = []" "px_umi_id (m_px (k_mgr c k)) = a"
    and "n_writes k2 c = n_writes k1 c" "px_umi_id (m_px (k_mgr c k2)) = b" "world_ok (k_world k2)"
    and "eth_type buf = kEthTypeIp" "ip_dst buf \<noteq> host_internal_ipv4" "ip_proto buf = 6" "length (host_external_ipv4 X) = 4"
    and "buf = take (a_len arg) (a_data arg)" "run_netwrite X c k2 = Inr k3"
    and "n = fst (swizzle_port_out c (tcp_src_port buf) (net_of (k_world k2)))" "n \<noteq> 0"
  shows "bm_left (master_port_map (w_root (k_world k3))) n = Some (b, c, tcp_src_port buf)"
proof -
  have "n_writes k2 c = [buf]"
    using assms(1,2,4,11) by (auto simp: solo5_hypercall_netwrite_def in_pkt_def Let_def split: if_splits)
  then obtain w where w: "ProcessOutgoing X c buf (k_world k2) = Inr w" and k3: "k_world k3 = w"
    using assms(12) by (auto simp: run_netwrite_def and_then_eq_Inr dest!: raw_to_iobuf_all)
  have "net_of w = snd (swizzle_port_out c (tcp_src_port buf) (net_of (k_world k2)))"
    using ProcessOutgoing_sent[OF w assms(7,8,10)] assms(9) by (simp add: sent_net_def)
  then obtain nt where sw: "swizzle_port_out c (tcp_src_port buf) (net_of (k_world k2)) = (n, nt)" and nt: "net_of w = nt"
    using assms(13) by (simp add: prod_eq_iff)
  have ok: "net_ok (net_of (k_world k2))" using assms(6) by (simp add: world_ok_def)
  have "px_umi_id (n_px (net_of (k_world k2)) c) = b" using assms(5) by (simp add: net_of_def k_mgr_def)
  then have "bm_left (master_port_map (n_root nt)) n = Some (b, c, tcp_src_port buf)"
    using swizzle_port_out_ok(3)[OF ok sw assms(14)] by simp
  then show ?thesis using nt k3 by (auto simp: net_of_def)
qed

text \<open>The segment is written while instance 9 is loaded and sent after instance 1 was loaded.\<close>

theorem netwrite_misattributed_witness:
  "\<exists>arg' k1 k3. solo5_hypercall_netwrite 0 (arg0\<lparr>a_data := request_pkt, a_len := 54\<rparr>)
       (put_mgr 0 (one_loaded\<lparr>m_px := UmProxy_init\<lparr>px_umi_id := 9\<rparr>\<rparr>) one_kern) = Inr (arg', k1) \<and>
     run_netwrite two_cores 0 (put_mgr 0 one_loaded k1) = Inr k3 \<and>
     bm_left (master_port_map (w_root (k_world k3))) 256 = Some (1, 0, 0x1F90)"
proof -
  let ?arg = "arg0\<lparr>a_data := request_pkt, a_len := 54\<rparr>"
  let ?k = "put_mgr 0 (one_loaded\<lparr>m_px := UmProxy_init\<lparr>px_umi_id := 9\<rparr>\<rparr>) one_kern"
  let ?k1 = "?k\<lparr>n_writes := (\<lambda>_. [])(0 := [request_pkt])\<rparr>"
  let ?k2 = "put_mgr 0 one_loaded ?k1"
  have w: "solo5_hypercall_netwrite 0 ?arg ?k = Inr (?arg\<lparr>a_ret := 54\<rparr>, ?k1)"
    by (simp add: solo5_hypercall_netwrite_def in_pkt_def request_fields one_kern_def put_mgr_def)
  have w2: "k_world ?k2 = one_world" by (simp add: put_mgr_def one_kern_def one_world_def set_mgr_def)
  obtain w' where run: "ProcessOutgoing two_cores 0 request_pkt one_world = Inr w'" using request_runs by blast
  have "n_writes ?k2 0 = [request_pkt]" by (simp add: put_mgr_def)
  then have r: "run_netwrite two_cores 0 ?k2 = Inr (?k2\<lparr>k_world := w', n_writes := (n_writes ?k2)(0 := [])\<rparr>)"
    using run by (simp add: run_netwrite_def w2 raw_to_iobuf_def size_defs request_fields)
  have ok: "world_ok (k_world ?k2)" unfolding w2
    using world_reach_le[OF one_world_reach keeps_simple(1) keeps_simple(1) keeps_cache_simple keeps_cache_simple] world_init_ok
    by (simp add: world_le_def)
  have x: "ip_dst request_pkt \<noteq> host_internal_ipv4" "length (host_external_ipv4 two_cores) = 4" "request_pkt = take (a_len ?arg) (a_data ?arg)"
    by (simp_all add: request_fields host_internal_ipv4_def two_cores_out)
  have n: "256 = fst (swizzle_port_out 0 (tcp_src_port request_pkt) (net_of (k_world ?k2)))"
    unfolding w2 by (simp add: request_fields request_port)
  have px: "px_umi_id (m_px (k_mgr 0 ?k2)) = 1" by (simp add: one_loaded_def)
  have nw: "n_writes ?k 0 = []" "n_writes ?k2 0 = n_writes ?k1 0" by (simp_all add: put_mgr_def one_kern_def)
  from netwrite_misattributed[OF w nw(1) refl nw(2) px ok request_fields(2) x(1) request_fields(4) x(2,3) r n]
  have "bm_left (master_port_map (w_root w')) 256 = Some (1, 0, 0x1F90)" by (simp add: request_fields)
  then show ?thesis using w r by simp
qed

text \<open>
  The two ways to a hypercall agree: when Solo5 numbers the hypercalls in the order of
  the table \<open>sys_calls\<close>, the pointer an instance finds in its boot arguments under a number and
  the table's entry for the same system call number are the same function.
\<close>

theorem boot_table_agrees:
  assumes "\<forall>h. ukvm h < 11 \<and> sys_calls ! ukvm h = Some h"
  shows "bi_hypercall_ptr (Solo5BootArguments ukvm e m cmd) (ukvm h) = Some h \<and> sys_call_entry (int (ukvm h)) = Inr h"
proof -
  have inj: "ukvm g = ukvm h \<longleftrightarrow> g = h" for g h using assms by (metis option.inject)
  have "bi_hypercall_ptr (Solo5BootArguments ukvm e m cmd) (ukvm h) = Some h"
    by (cases h) (simp_all add: Solo5BootArguments_def inj)
  moreover have "sys_call_entry (int (ukvm h)) = Inr h"
  proof -
    have "length sys_calls = 11" by (simp add: sys_calls_def)
    moreover have "ukvm h < 11" "sys_calls ! ukvm h = Some h" using assms by blast+
    ultimately show ?thesis by (simp add: sys_call_entry_def)
  qed
  ultimately show ?thesis by blast
qed

theorem boot_table_agrees_witness:
  "\<exists>ukvm. (\<forall>h. sys_call_entry (int (ukvm h)) = Inr h) \<and> ukvm halt = 10"
proof -
  let ?f = "\<lambda>h. case h of walltime \<Rightarrow> 1 | puts \<Rightarrow> 2 | poll \<Rightarrow> 3 | blkinfo \<Rightarrow> 4 | blkwrite \<Rightarrow> 5 | blkread \<Rightarrow> 6
     | netinfo \<Rightarrow> 7 | netwrite \<Rightarrow> 8 | netread \<Rightarrow> 9 | halt \<Rightarrow> (10 :: nat)"
  have "\<forall>h. ?f h < 11 \<and> sys_calls ! ?f h = Some h" by (auto simp: sys_calls_def split: hcall.split)
  from boot_table_agrees[OF this] show ?thesis by (intro exI[of _ ?f]) auto
qed

lemma enable_timer_Inr:
  assumes "enable_timer now (u\<lparr>u_time_wait := now + d\<rparr>) = Inr v" "\<not> u_timer_set u"
  shows "v = (if 0 < d then u\<lparr>u_time_wait := now + d, u_timer_due := now + 1000 * (d div 1000), u_timer_set := True\<rparr>
     else u\<lparr>u_time_wait := now + d\<rparr>)"
  using assms by (auto simp: enable_timer_def chrono_def Let_def split: if_splits)

lemma poll_blocked:
  assumes "solo5_hypercall_poll now a s = Inr (HcBlocked a1, s1)" "active_umi s = Some u"
  shows "a1 = a\<lparr>a_ret := 0\<rparr> \<and> m_status s1 = idle \<and>
     (\<exists>u1. active_umi s1 = Some u1 \<and> u_id u1 = u_id u \<and> u_fnStack u1 = u_fnStack u \<and> u_blocked u1 \<and> u_context u1 \<and>
       u_recv_queue u1 = [] \<and> u_timer_set u1 = (IsActive u \<and> 0 < sint (a_timeout_nsecs a)) \<and>
       (u_timer_set u1 \<longrightarrow> u_time_wait u1 = now + sint (a_timeout_nsecs a) \<and>
          u_timer_due u1 = now + 1000 * (sint (a_timeout_nsecs a) div 1000)))"
proof -
  let ?n = "a_timeout_nsecs a"
  have "\<not> HasData u" using assms by (auto simp: solo5_hypercall_poll_def with_active_def Let_def)
  then have b: "Block now ?n s = Inr (True, s1)" and a1: "a1 = a\<lparr>a_ret := 0\<rparr>"
    using assms by (auto simp: solo5_hypercall_poll_def with_active_def Let_def and_then_eq_Inr split: if_splits)
  then have sl: "Sleep (u_id u) now ?n (s\<lparr>m_status := idle\<rparr>) = Inr (True, s1)"
    using assms(2) by (auto simp: Block_def with_active_def and_then_eq_Inr set_status_eq_Inr Id_def split: if_splits)
  have q: "u_recv_queue u = []" using \<open>\<not> HasData u\<close> by (simp add: HasData_def)
  obtain v where v: "s1 = s\<lparr>m_status := idle, active_umi := Some (v\<lparr>u_context := True, u_blocked := True\<rparr>)\<rparr>" "\<not> u_timer_set u"
    and e: "if IsActive u then enable_timer now (u\<lparr>u_time_wait := now + sint ?n\<rparr>) = Inr v else v = u"
    and id: "u_id v = u_id u"
  proof -
    have id: "u_id w = u_id u" if "enable_timer now (u\<lparr>u_time_wait := t\<rparr>) = Inr w" for t w
      using that by (auto simp: enable_timer_def Let_def and_then_eq_Inr split: if_splits)
    show thesis using sl assms(2) that id
      by (auto simp: Sleep_def with_umi_def is_active_instance_def with_active_def put_umi_def Id_def block_execution_def
          nanoseconds_def chrono_def and_then_eq_Inr split: if_splits)
  qed
  have "v = (if IsActive u then if 0 < sint ?n
       then u\<lparr>u_time_wait := now + sint ?n, u_timer_due := now + 1000 * (sint ?n div 1000), u_timer_set := True\<rparr>
       else u\<lparr>u_time_wait := now + sint ?n\<rparr> else u)"
    using e enable_timer_Inr[OF _ v(2)] by (auto split: if_splits)
  then show ?thesis using v a1 q by (auto split: if_splits)
qed

text \<open>The wake-up of the blocked instance in the slot, and its return to the hypercall.\<close>

lemma kick_blocked:
  assumes "active_umi s = Some u" "u_blocked u" "u_context u"
  shows "Kick (u_id u) s = Inr (SpawnLocal (EvContext (u_id u)) (s\<lparr>active_umi := Some (disable_timer (u\<lparr>u_blocked := False\<rparr>))\<rparr>))"
  using assms
  by (simp add: Kick_def unblock_execution_def with_umi_def is_active_instance_def with_active_def put_umi_def Id_def)

lemma poll_returns:
  assumes "active_umi s = Some u" "m_status s = idle" "a_ret a = 0"
  shows "\<exists>s'. run_event act qlen ef (EvContext (u_id u)) s = Inr (None, s') \<and> m_status s' = active \<and>
     poll_return a s' = Inr (a\<lparr>a_ret := (if u_recv_queue u = [] then 0 else 1)\<rparr>)"
proof -
  have "run_event act qlen ef (EvContext (u_id u)) s = Inr (None, s\<lparr>active_umi := Some (u\<lparr>u_context := False\<rparr>), m_status := active\<rparr>)"
    using assms(1,2)
    by (simp add: run_event_def context_resumed_def request_slot_entry_def ActiveInstanceId_def Block_return_def set_status_def
        status_change_def with_umi_def is_active_instance_def with_active_def put_umi_def Id_def)
  then show ?thesis using assms(3) by (simp add: poll_return_def with_active_def HasData_def)
qed

lemma Fire_late:
  assumes "active_umi s = Some u" "u_blocked u" "u_context u" "m_status s = idle" "u_timer_set u" "u_time_wait u \<noteq> 0" "u_time_wait u \<le> t"
  shows "Fire (u_id u) t s = Inr (SpawnLocal (EvContext (u_id u)) (s\<lparr>active_umi := Some (disable_timer (u\<lparr>u_blocked := False\<rparr>))\<rparr>))"
proof -
  let ?f = "u\<lparr>u_timer_set := False, u_time_wait := 0\<rparr>"
  have "Kick (u_id ?f) (s\<lparr>active_umi := Some ?f\<rparr>) =
      Inr (SpawnLocal (EvContext (u_id u)) (s\<lparr>active_umi := Some (disable_timer (u\<lparr>u_blocked := False\<rparr>))\<rparr>))"
    using kick_blocked[of "s\<lparr>active_umi := Some ?f\<rparr>" ?f] assms(2,3) by (simp add: disable_timer_def)
  then show ?thesis using assms
    by (simp add: Fire_def with_umi_def is_active_instance_def with_active_def put_umi_def Id_def
        request_slot_entry_def ActiveInstanceId_def Let_def)
qed

lemma Fire_early:
  assumes "active_umi s = Some u" "u_timer_set u" "t < u_time_wait u"
  shows "Fire (u_id u) t s = Inr (s\<lparr>active_umi := Some (u\<lparr>u_timer_set := False\<rparr>)\<rparr>)"
  using assms by (simp add: Fire_def with_umi_def is_active_instance_def with_active_def put_umi_def Id_def Let_def)

text \<open>
  C18. What wakes the instance that \<open>poll\<close> has suspended in the slot (by a clock not before its epoch). A packet does: its delivery schedules the
  saved context, and when that runs the instance is active in the slot again and \<open>poll\<close> returns 1.
  A timer is set only if the instance is marked active and the timeout, read as a signed
  number, is positive. It is given the timeout in whole microseconds, cut off. When it fires no
  earlier than the time to wait for, \<open>poll\<close> returns 0 in the same way; so it does whenever the timeout is a
  multiple of a microsecond. But when it fires in the gap before that time, which a timeout that is no such
  multiple leaves, nothing is scheduled, the timer is gone and the instance stays blocked.
\<close>

theorem blocked_poll_wakes:
  assumes "solo5_hypercall_poll now a s = Inr (HcBlocked a1, s1)" "active_umi s = Some u" "0 \<le> now"
    and "ns = sint (a_timeout_nsecs a)" "due = now + 1000 * (ns div 1000)"
  shows "(\<exists>s2 s3. WritePacket act qlen ef (u_id u) p s1 = Inr (None, s2) \<and> m_events s2 = m_events s1 @ [EvContext (u_id u)] \<and>
       run_event act qlen ef (EvContext (u_id u)) s2 = Inr (None, s3) \<and> m_status s3 = active \<and>
       poll_return a1 s3 = Inr (a\<lparr>a_ret := 1\<rparr>)) \<and>
     (\<exists>u1. active_umi s1 = Some u1 \<and> u_blocked u1 \<and> u_timer_set u1 = (IsActive u \<and> 0 < ns) \<and>
       (u_timer_set u1 \<longrightarrow> u_timer_due u1 = due \<and> due \<le> now + ns \<and> (1000 dvd ns \<longrightarrow> due = now + ns) \<and>
         (\<forall>t. now + ns \<le> t \<longrightarrow> (\<exists>s2 s3. Fire (u_id u) t s1 = Inr s2 \<and> m_events s2 = m_events s1 @ [EvContext (u_id u)] \<and>
            run_event act qlen ef (EvContext (u_id u)) s2 = Inr (None, s3) \<and> m_status s3 = active \<and>
            poll_return a1 s3 = Inr (a\<lparr>a_ret := 0\<rparr>))) \<and>
         (\<forall>t < now + ns. Fire (u_id u) t s1 = Inr (s1\<lparr>active_umi := Some (u1\<lparr>u_timer_set := False\<rparr>)\<rparr>))))"
proof
  obtain u1 where P: "a1 = a\<lparr>a_ret := 0\<rparr>" "m_status s1 = idle" "active_umi s1 = Some u1" "u_id u1 = u_id u" "u_blocked u1" "u_context u1"
      "u_recv_queue u1 = []" "u_timer_set u1 = (IsActive u \<and> 0 < ns)"
      "u_timer_set u1 \<longrightarrow> u_time_wait u1 = now + ns \<and> u_timer_due u1 = due"
    using poll_blocked[OF assms(1,2)] assms(4,5) by blast
  let ?e = "EvContext (u_id u)"
  let ?w = "disable_timer (u1\<lparr>u_blocked := False\<rparr>)"
  let ?p = "?w\<lparr>u_recv_queue := [p]\<rparr>"
  let ?s = "SpawnLocal ?e (s1\<lparr>active_umi := Some ?w\<rparr>)"
  have w: "Id ?w = u_id u" "u_recv_queue ?w = []" "u_id ?p = u_id u" using P(4,7) by (simp_all add: disable_timer_def Id_def)
  have "WritePacket act qlen ef (u_id u) p s1 = Inr (None, ?s\<lparr>active_umi := Some ?p\<rparr>)"
    using P(3,4) kick_blocked[OF P(3,5,6)] w(1,2)
    by (simp add: WritePacket_def SignalResume_def ActiveInstanceId_def ActiveInstance_def Id_def with_umi_def
        is_active_instance_def with_active_def put_umi_def SpawnLocal_def)
  moreover have "m_events (?s\<lparr>active_umi := Some ?p\<rparr>) = m_events s1 @ [?e]" by (simp add: SpawnLocal_def)
  moreover have "m_status (?s\<lparr>active_umi := Some ?p\<rparr>) = idle" "a_ret a1 = 0" using P(1,2) by (simp_all add: SpawnLocal_def)
  moreover obtain s3 where "run_event act qlen ef ?e (?s\<lparr>active_umi := Some ?p\<rparr>) = Inr (None, s3)" "m_status s3 = active"
    "poll_return a1 s3 = Inr (a1\<lparr>a_ret := 1\<rparr>)"
    using poll_returns[of "?s\<lparr>active_umi := Some ?p\<rparr>" ?p a1 act qlen ef, unfolded w(3)] calculation by auto
  ultimately show "\<exists>s2 s3. WritePacket act qlen ef (u_id u) p s1 = Inr (None, s2) \<and> m_events s2 = m_events s1 @ [?e] \<and>
       run_event act qlen ef ?e s2 = Inr (None, s3) \<and> m_status s3 = active \<and> poll_return a1 s3 = Inr (a\<lparr>a_ret := 1\<rparr>)"
    using P(1) by (intro exI[of _ "?s\<lparr>active_umi := Some ?p\<rparr>"] exI[of _ s3]) simp
  have due: "due \<le> now + ns" "1000 dvd ns \<longrightarrow> due = now + ns"
    using assms(5) by simp_all
  have late: "\<exists>s2 s3. Fire (u_id u) t s1 = Inr s2 \<and> m_events s2 = m_events s1 @ [?e] \<and>
      run_event act qlen ef ?e s2 = Inr (None, s3) \<and> m_status s3 = active \<and> poll_return a1 s3 = Inr (a\<lparr>a_ret := 0\<rparr>)"
    if "u_timer_set u1" "now + ns \<le> t" for t
  proof -
    have "Fire (u_id u) t s1 = Inr ?s"
      using Fire_late[OF P(3,5,6,2), of t] P(4,8,9) that assms(3) by simp
    moreover have "m_status ?s = idle" "active_umi ?s = Some ?w" "a_ret a1 = 0" "m_events ?s = m_events s1 @ [?e]"
      using P(1,2) by (simp_all add: SpawnLocal_def)
    moreover obtain s3 where "run_event act qlen ef ?e ?s = Inr (None, s3)" "m_status s3 = active"
      "poll_return a1 s3 = Inr (a1\<lparr>a_ret := 0\<rparr>)"
      using poll_returns[of ?s ?w a1 act qlen ef] calculation w(1,2) by (auto simp: Id_def)
    ultimately show ?thesis using P(1) by (intro exI[of _ ?s] exI[of _ s3]) simp
  qed
  have early: "Fire (u_id u) t s1 = Inr (s1\<lparr>active_umi := Some (u1\<lparr>u_timer_set := False\<rparr>)\<rparr>)" if "u_timer_set u1" "t < now + ns" for t
    using Fire_early[OF P(3), of t] P(4,9) that by simp
  show "\<exists>u1. active_umi s1 = Some u1 \<and> u_blocked u1 \<and> u_timer_set u1 = (IsActive u \<and> 0 < ns) \<and>
       (u_timer_set u1 \<longrightarrow> u_timer_due u1 = due \<and> due \<le> now + ns \<and> (1000 dvd ns \<longrightarrow> due = now + ns) \<and>
         (\<forall>t. now + ns \<le> t \<longrightarrow> (\<exists>s2 s3. Fire (u_id u) t s1 = Inr s2 \<and> m_events s2 = m_events s1 @ [?e] \<and>
            run_event act qlen ef ?e s2 = Inr (None, s3) \<and> m_status s3 = active \<and> poll_return a1 s3 = Inr (a\<lparr>a_ret := 0\<rparr>))) \<and>
         (\<forall>t < now + ns. Fire (u_id u) t s1 = Inr (s1\<lparr>active_umi := Some (u1\<lparr>u_timer_set := False\<rparr>)\<rparr>)))"
    using P(3,5,8,9) due late early by (intro exI[of _ u1]) simp
qed

text \<open>A timeout of 10 nanoseconds: the timer is due at once, and when it fires then, the instance stays blocked.\<close>

theorem blocked_poll_wakes_witness:
  "\<exists>s1 s2 s3 u1. solo5_hypercall_poll 5 (arg0\<lparr>a_timeout_nsecs := 10\<rparr>) (one_loaded\<lparr>m_status := active\<rparr>) =
       Inr (HcBlocked (arg0\<lparr>a_timeout_nsecs := 10, a_ret := 0\<rparr>), s1) \<and>
     Fire 1 20 s1 = Inr s2 \<and> run_event (\<lambda>_. Inr) 0 ef_zero (EvContext 1) s2 = Inr (None, s3) \<and> m_status s3 = active \<and>
     active_umi s1 = Some u1 \<and> u_timer_due u1 = 5 \<and> Fire 1 5 s1 = Inr (s1\<lparr>active_umi := Some (u1\<lparr>u_timer_set := False\<rparr>)\<rparr>)"
proof -
  let ?s = "one_loaded\<lparr>m_status := active\<rparr>" and ?a = "arg0\<lparr>a_timeout_nsecs := 10\<rparr>" and ?u = "one_region Region_init"
  have u: "active_umi ?s = Some ?u" "u_id ?u = 1" "IsActive ?u" "(0 :: int) \<le> 5" by (simp_all add: one_loaded_def one_region_def IsActive_def)
  have ns: "sint (a_timeout_nsecs ?a) = 10" by simp
  obtain s1 where r: "solo5_hypercall_poll 5 ?a ?s = Inr (HcBlocked (?a\<lparr>a_ret := 0\<rparr>), s1)"
    using u by (simp add: solo5_hypercall_poll_def with_active_def HasData_def Block_def Sleep_def set_status_def status_change_def
        with_umi_def is_active_instance_def block_execution_def enable_timer_def put_umi_def Id_def one_region_def arg0_def
        nanoseconds_def chrono_def in_int64_def Let_def)
  from blocked_poll_wakes[OF r u(1,4) ns[symmetric] refl, where p = "[]" and act = "\<lambda>_. Inr" and qlen = 0 and ef = ef_zero] u(2,3)
  obtain u1 where u1: "active_umi s1 = Some u1" "u_timer_due u1 = 5"
    and late: "\<And>t. 15 \<le> t \<Longrightarrow> \<exists>s2 s3. Fire 1 t s1 = Inr s2 \<and> run_event (\<lambda>_. Inr) 0 ef_zero (EvContext 1) s2 = Inr (None, s3) \<and> m_status s3 = active"
    and early: "Fire 1 5 s1 = Inr (s1\<lparr>active_umi := Some (u1\<lparr>u_timer_set := False\<rparr>)\<rparr>)"
    by (auto simp: arg0_def) blast
  from late[of 20] show ?thesis using r u1 early by auto
qed

end
