(* ===== verification/Umm_Resume.thy ===== *)
theory Umm_Resume
  imports Umm_Syscall
begin

text \<open>
  The stack a system call goes back to (\<^verbatim>\<open>src/src/UmSyscall.cc\<close>, \<^verbatim>\<open>UmManager.cc\<close>): every
  instance keeps the pointer its last call has saved, whatever the machine does in between. The
  steps of the machine are those of its managers and of the network, the calls other instances
  make, and the continuation of calls that were suspended.
\<close>

section \<open>Ids and saved stacks\<close>

text \<open>The id and the saved stack pointer of the instance in the slot, and of those in the map.\<close>

type_synonym face = "(u32 \<times> u64) option \<times> (u32 \<Rightarrow> (u32 \<times> u64) option)"

definition id_stack :: "umi \<Rightarrow> u32 \<times> u64" where "id_stack u = (u_id u, u_fnStack u)"

definition face :: "mgr \<Rightarrow> face" where
  "face s = (map_option id_stack (active_umi s), \<lambda>i. map_option id_stack (inactive_umi_map s i))"

text \<open>Wherever the manager keeps an instance with id \<open>i\<close>, its saved stack pointer is \<open>r\<close>.\<close>

definition own_stack :: "u32 \<Rightarrow> u64 \<Rightarrow> mgr \<Rightarrow> bool" where
  "own_stack i r s \<longleftrightarrow> (\<forall>x. fst (face s) = Some (i, x) \<longrightarrow> x = r) \<and> (\<forall>j x. snd (face s) j = Some (i, x) \<longrightarrow> x = r)"

abbreviation fits :: "u32 \<Rightarrow> u64 \<Rightarrow> umi \<Rightarrow> bool" where
  "fits i r u \<equiv> u_id u = i \<longrightarrow> u_fnStack u = r"

lemma own_stack_face: "face s' = face s \<Longrightarrow> own_stack i r s \<Longrightarrow> own_stack i r s'"
  by (simp add: own_stack_def)

lemma own_stack_iff:
  "own_stack i r s \<longleftrightarrow> (\<forall>u. active_umi s = Some u \<longrightarrow> fits i r u) \<and> (\<forall>j u. inactive_umi_map s j = Some u \<longrightarrow> fits i r u)"
  unfolding own_stack_def face_def id_stack_def by auto (metis option.inject)

text \<open>What is assumed of the continuations of clients: they leave the saved stacks alone.\<close>

definition keeps_stacks :: "('a \<Rightarrow> mgr \<Rightarrow> mgr res) \<Rightarrow> bool" where
  "keeps_stacks f \<longleftrightarrow> (\<forall>x s s' i r. own_stack i r s \<longrightarrow> f x s = Inr s' \<longrightarrow> own_stack i r s')"

section \<open>Operations that keep all of them\<close>

named_theorems faces \<open>ids and saved stacks after an operation\<close>

lemma face_upd [simp]:
  "face (s\<lparr>m_status := n\<rparr>) = face s" "face (s\<lparr>m_px := p\<rparr>) = face s" "face (s\<lparr>m_events := es\<rparr>) = face s"
  "face (s\<lparr>idle_umi_queue := q\<rparr>) = face s" "face (s\<lparr>inactive_umi_halt_map := h\<rparr>) = face s" "face (s\<lparr>ms := m\<rparr>) = face s"
  "face (s\<lparr>activation_promise_map := a\<rparr>) = face s" "face (SpawnLocal e s) = face s" "face (slot_queue_push i s) = face s"
  "face (set_snapshot v s) = face s"
  by (simp_all add: face_def SpawnLocal_def slot_queue_push_def set_snapshot_def Let_def)

lemma id_stack_upd [simp]:
  "id_stack (disable_timer u) = id_stack u" "id_stack (SetActive u) = id_stack u" "id_stack (SetInactive u) = id_stack u"
  "id_stack (u\<lparr>u_caller_frame := ef\<rparr>) = id_stack u" "id_stack (u\<lparr>u_blocked := b\<rparr>) = id_stack u"
  "id_stack (u\<lparr>u_context := b\<rparr>) = id_stack u" "id_stack (u\<lparr>u_timer_set := b\<rparr>) = id_stack u"
  "id_stack (u\<lparr>u_time_wait := t\<rparr>) = id_stack u" "id_stack (u\<lparr>u_timer_due := t\<rparr>) = id_stack u"
  "id_stack (u\<lparr>u_recv_queue := q\<rparr>) = id_stack u" "id_stack (u\<lparr>u_snap_p := p\<rparr>) = id_stack u"
  "id_stack (u\<lparr>u_src_ports := ps\<rparr>) = id_stack u"
  by (simp_all add: id_stack_def disable_timer_def SetActive_def SetInactive_def)

lemma face_active: "active_umi s = Some u \<Longrightarrow> id_stack u' = id_stack u \<Longrightarrow> face (s\<lparr>active_umi := Some u'\<rparr>) = face s"
  by (simp add: face_def)

lemma face_put_umi: "held uid s = Some u \<Longrightarrow> id_stack u' = id_stack u \<Longrightarrow> face (put_umi uid u' s) = face s"
  by (auto simp: held_def put_umi_def face_def fun_eq_iff split: if_splits)

lemma held_put_same: "held uid s = Some u \<Longrightarrow> u_id u' = u_id u \<Longrightarrow> held uid (put_umi uid u' s) = Some u'"
  by (auto simp: held_def put_umi_def is_active_instance_def Id_def split: if_splits option.splits)

lemma face_status [faces]: "set_status n s = Inr s' \<Longrightarrow> face s' = face s"
  by (auto simp: set_status_eq_Inr)

lemma face_gateway [faces]: "process_gateway ef s = Inr (fr, s') \<Longrightarrow> face s' = face s"
  by (auto simp: process_gateway_def Let_def with_active_def and_then_eq_Inr set_status_eq_Inr
      intro!: face_active split: if_splits option.splits)

lemma face_Halt [faces]: "Halt qlen ef s = Inr (fr, s') \<Longrightarrow> face s' = face s"
  using face_active[of s]
  by (auto simp: Halt_def with_active_def and_then_eq_Inr kbugon_eq_Inr kassert_eq_Inr Let_def
      dest!: faces split: option.splits if_splits)

lemma face_Start_enter [faces]: "Start_enter uid ef s = Inr (fr, s') \<Longrightarrow> face s' = face s"
  by (auto simp: Start_enter_def with_active_def kassert_eq_Inr dest!: faces split: option.splits)

lemma face_unblock [faces]: "unblock_execution uid s = Inr s' \<Longrightarrow> face s' = face s"
  by (auto simp: unblock_execution_def with_umi_eq_Inr kassert_eq_Inr intro!: face_put_umi)

lemma face_Kick [faces]: "Kick uid s = Inr s' \<Longrightarrow> face s' = face s"
  by (auto simp: Kick_def with_umi_eq_Inr dest!: faces split: if_splits)

lemma face_block [faces]: "block_execution uid s = Inr s' \<Longrightarrow> face s' = face s"
  by (auto simp: block_execution_def with_umi_eq_Inr intro!: face_put_umi)

lemma face_Sleep [faces]: "Sleep uid now ns s = Inr (b, s') \<Longrightarrow> face s' = face s"
  using face_put_umi[of uid s] by (fastforce dest!: Sleep_run faces split: if_splits)

lemma face_Block_return [faces]: "Block_return s = Inr s' \<Longrightarrow> face s' = face s"
  by (auto simp: Block_return_def dest!: faces split: if_splits)

lemma face_Block [faces]: "Block now ns s = Inr (b, s') \<Longrightarrow> face s' = face s"
  by (auto simp: Block_def with_active_def and_then_eq_Inr dest!: faces split: option.splits if_splits)

lemma face_context_resumed [faces]: "context_resumed uid s = Inr s' \<Longrightarrow> face s' = face s"
  using face_put_umi[of uid s]
  by (auto simp: context_resumed_def with_umi_eq_Inr Let_def and_then_eq_Inr kassert_eq_Inr dest!: faces split: if_splits)

lemma face_Fire [faces]:
  assumes "Fire uid now s = Inr s'"
  shows "face s' = face s"
proof -
  obtain u where u: "held uid s = Some u" using assms by (auto simp: Fire_def with_umi_eq_Inr)
  let ?u = "u\<lparr>u_timer_set := False\<rparr>"
  let ?s = "put_umi uid ?u s"
  have v: "face ?s = face s" by (rule face_put_umi[OF u]) simp
  have "held uid ?s = Some ?u" by (rule held_put_same[OF u]) simp
  then have "face (put_umi uid (?u\<lparr>u_time_wait := 0\<rparr>) ?s) = face ?s" by (rule face_put_umi) simp
  then show ?thesis using assms u v
    by (auto simp: Fire_def with_umi_held Let_def and_then_eq_Inr kassert_eq_Inr dest!: faces split: if_splits)
qed

lemma face_move_to_front [faces]: "slot_queue_move_to_front uid s = Inr (b, s') \<Longrightarrow> face s' = face s"
  by (auto simp: slot_queue_move_to_front_eq split: if_splits)

lemma resolve_fault_stack: "resolve_fault v ec u m = Inr (u', m') \<Longrightarrow> id_stack u' = id_stack u"
  by (auto simp: resolve_fault_def GetBackingPage_def logFault_def Let_def and_then_eq_Inr kassert_eq_Inr id_stack_def split: if_splits)

lemma face_process_pagefault [faces]: "process_pagefault ef v s = Inr s' \<Longrightarrow> face s' = face s"
  by (auto simp: process_pagefault_def kassert_eq_Inr with_active_def and_then_eq_Inr
      dest!: resolve_fault_stack intro!: face_active split: option.splits)

lemma face_unload [faces]: "slot_unload_instance s = Inr (u, s') \<Longrightarrow>
    u = active_umi s \<and> snd (face s') = snd (face s) \<and> fst (face s') = None"
  using slot_unload_spec[of s u s'] by (auto simp: face_def sched_def)

section \<open>Operations that move instances\<close>

lemma own_load:
  "slot_load_instance u s = Inr (j, s') \<Longrightarrow> own_stack i r s \<Longrightarrow> fits i r u \<Longrightarrow> own_stack i r s'"
  using slot_load_spec[of u s j s'] by (auto simp: own_stack_iff sched_def)

lemma own_unload: "slot_unload_instance s = Inr (u, s') \<Longrightarrow> own_stack i r s \<Longrightarrow> own_stack i r s'"
  by (auto simp: own_stack_def dest!: face_unload)

lemma own_yield_out:
  assumes "and_then (slot_unload_instance s) retire = Inr s'" "own_stack i r s"
  shows "own_stack i r s'"
proof -
  obtain o1 s1 where un: "slot_unload_instance s = Inr (o1, s1)" and re: "retire (o1, s1) = Inr s'"
    using assms(1) by (auto simp: and_then_eq_Inr)
  note U = slot_unload_spec[OF un]
  obtain a where a: "o1 = Some a" using re by (cases o1) (auto simp: retire_def)
  have a2: "active_umi s = Some a" using U a by simp
  have "active_umi s' = None" "inactive_umi_map s' = emplace (inactive_umi_map s) (u_id a) a"
    using retire_spec[OF re[unfolded a]] U by (auto simp: sched_def)
  then show ?thesis using assms(2) a2 by (auto simp: own_stack_iff emplace_def split: if_splits)
qed

lemma own_swap:
  assumes "slot_swap_instance u s = Inr (j, s')" "own_stack i r s" "fits i r u"
  shows "own_stack i r s'"
proof -
  obtain s1 where load: "slot_load_instance u s1 = Inr (j, s')"
    and out: "s1 = s \<or> and_then (slot_unload_instance s) retire = Inr s1"
    using assms(1) by (auto simp: slot_swap_instance_def and_then_eq_Inr[of _ "slot_load_instance u"] kassert_eq_Inr split: if_splits)
  have "own_stack i r s1" using out own_yield_out assms(2) by blast
  then show ?thesis using own_load[OF load] assms(3) by blast
qed

lemma own_queue:
  "queue_instance_activation u s = Inr s' \<Longrightarrow> own_stack i r s \<Longrightarrow> fits i r u \<Longrightarrow> own_stack i r s'"
  by (auto simp: queue_instance_activation_def kassert_eq_Inr Let_def Id_def slot_queue_push_def own_stack_iff emplace_def split: if_splits)

lemma own_Load: "Load u s = Inr (b, s') \<Longrightarrow> own_stack i r s \<Longrightarrow> fits i r u \<Longrightarrow> own_stack i r s'"
  using own_load[of u s] own_swap[of u s] own_queue[of u s]
  by (auto simp: Load_def and_then_eq_Inr kbugon_eq_Inr split: if_splits)

lemma own_Run_enter:
  assumes "Run_enter u ef s = Inr (fr, s')" "own_stack i r s" "fits i r u"
  shows "own_stack i r s'"
proof -
  obtain j s1 where load: "slot_load_instance u s = Inr (j, s1)" and g: "process_gateway ef s1 = Inr (fr, s')"
    using assms(1) by (auto simp: Run_enter_def with_active_def and_then_eq_Inr kassert_eq_Inr split: if_splits option.splits)
  show ?thesis by (rule own_stack_face[OF face_gateway[OF g] own_load[OF load assms(2,3)]])
qed

lemma own_Start_return: "Start_return s = Inr (u, s') \<Longrightarrow> own_stack i r s \<Longrightarrow> own_stack i r s'"
  using own_unload own_stack_face[of "SpawnLocal EvYield s" s]
  by (auto simp: Start_return_def Let_def split: if_splits)

lemma own_take_inactive:
  assumes "take_inactive j s = Inr (u, s')" "own_stack i r s"
  shows "own_stack i r s'" "fits i r u"
  using assms by (auto simp: take_inactive_def slot_queue_remove_eq Let_def own_stack_iff split: option.splits if_splits)

lemma own_yield_load: "yield_load u s = Inr s' \<Longrightarrow> own_stack i r s \<Longrightarrow> fits i r u \<Longrightarrow> own_stack i r s'"
  using own_swap[of u s] own_load[of u s] by (auto simp: yield_load_def and_then_eq_Inr kassert_eq_Inr split: if_splits)

lemma own_yield_finish:
  assumes run: "yield_finish act qlen ef j s = Inr (fr, s')" and own: "own_stack i r s" and K: "keeps_stacks act"
  shows "own_stack i r s'"
proof (cases "activation_promise_map s j")
  case (Some p)
  have "own_stack i r (s\<lparr>activation_promise_map := (activation_promise_map s)(j := None)\<rparr>)"
    by (rule own_stack_face[OF _ own]) simp
  then show ?thesis using run Some K unfolding keeps_stacks_def
    by (auto simp: yield_finish_def and_then_eq_Inr kassert_eq_Inr)
next
  case None
  then show ?thesis using run
    by (auto simp: yield_finish_def with_active_def Let_def and_then_eq_Inr dest!: faces
        intro!: own_stack_face[OF _ own] split: option.splits)
qed

lemma own_Yield:
  assumes "Yield act qlen ef s = Inr (fr, s')" "own_stack i r s" "keeps_stacks act"
  shows "own_stack i r s'"
proof -
  consider "s' = s" | "yield_out s = Inr s'"
    | j u s1 s2 where "take_inactive j s = Inr (u, s1)" "yield_load u s1 = Inr s2" "yield_finish act qlen ef j s2 = Inr (fr, s')"
    using assms(1) by (auto simp: Yield_def and_then_eq_Inr split: if_splits)
  then show ?thesis
  proof cases
    case 2
    then show ?thesis using own_yield_out assms(2) by (auto simp: yield_out_def)
  next
    case 3
    show ?thesis by (rule own_yield_finish[OF 3(3) own_yield_load[OF 3(2) own_take_inactive[OF 3(1) assms(2)]] assms(3)])
  qed (use assms(2) in simp)
qed

lemma own_SignalHalt:
  assumes "SignalHalt act qlen ef uid s = Inr (fr, s')" "own_stack i r s" "keeps_stacks act"
  shows "own_stack i r s'"
proof (cases "is_active_instance uid s")
  case True
  then show ?thesis using assms(1,2) face_Halt own_stack_face by (auto simp: SignalHalt_def kassert_eq_Inr)
next
  case False
  then obtain b s1 where s1: "slot_queue_move_to_front uid s = Inr (b, s1)"
    and y: "Yield act qlen ef (s1\<lparr>inactive_umi_halt_map := emplace (inactive_umi_halt_map s1) uid True\<rparr>) = Inr (fr, s')"
    using assms(1) by (auto simp: SignalHalt_def kassert_eq_Inr and_then_eq_Inr)
  show ?thesis by (rule own_Yield[OF y own_stack_face[OF _ assms(2)] assms(3)]) (simp add: face_move_to_front[OF s1])
qed

lemma own_SignalResume:
  assumes "SignalResume act qlen ef uid s = Inr (fr, s')" "own_stack i r s" "keeps_stacks act"
  shows "own_stack i r s'"
proof (cases "ActiveInstanceId s = uid")
  case True
  then show ?thesis using assms(1,2) face_Kick own_stack_face by (auto simp: SignalResume_def and_then_eq_Inr split: option.splits)
next
  case False
  then obtain b s1 where s1: "slot_queue_move_to_front uid s = Inr (b, s1)" and y: "Yield act qlen ef s1 = Inr (fr, s')"
    using assms(1) by (auto simp: SignalResume_def and_then_eq_Inr)
  show ?thesis by (rule own_Yield[OF y own_stack_face[OF face_move_to_front[OF s1] assms(2)] assms(3)])
qed

lemma own_WritePacket:
  assumes "WritePacket act qlen ef uid buf s = Inr (fr, s')" "own_stack i r s" "keeps_stacks act"
  shows "own_stack i r s'"
proof -
  obtain s1 u where s1: "SignalResume act qlen ef uid s = Inr (fr, s1)" and u: "held uid s1 = Some u"
    and s': "s' = put_umi uid (u\<lparr>u_recv_queue := u_recv_queue u @ [buf]\<rparr>) s1"
    using assms(1) by (auto simp: WritePacket_def and_then_eq_Inr with_umi_eq_Inr)
  show ?thesis unfolding s'
    by (rule own_stack_face[OF face_put_umi[OF u] own_SignalResume[OF s1 assms(2,3)]]) simp
qed

lemma own_run_event:
  assumes "run_event act qlen ef e s = Inr (fr, s')" "own_stack i r s" "keeps_stacks act"
  shows "own_stack i r s'"
  using assms own_Yield[of act qlen ef s fr s' i r]
  by (auto simp: run_event_def and_then_eq_Inr dest!: faces intro: own_stack_face split: event.splits)

lemma own_checkpoint:
  assumes "process_checkpoint snap ef s = Inr s'" "own_stack i r s" "keeps_stacks snap"
  shows "own_stack i r s'"
proof -
  obtain u where u: "active_umi s = Some u" using assms(1)
    by (auto simp: process_checkpoint_def kassert_eq_Inr with_active_def split: option.splits)
  show ?thesis
  proof (cases "u_snap_addr u = 0")
    case False
    then obtain s1 v m s2 where s1: "set_status snapshot s = Inr s1"
      and s2: "snap v (s1\<lparr>ms := m, active_umi := Some (u\<lparr>u_snap_p := Some [v]\<rparr>)\<rparr>) = Inr s2"
      and s': "set_status active s2 = Inr s'"
      using assms(1) u
      by (cases "u_snap_p u"; cases "the (u_snap_p u)")
        (auto simp: process_checkpoint_def kassert_eq_Inr with_active_def and_then_eq_Inr Let_def)
    have "active_umi (s1\<lparr>ms := m\<rparr>) = Some u" using s1 u by (auto simp: set_status_eq_Inr)
    then have "face (s1\<lparr>ms := m, active_umi := Some (u\<lparr>u_snap_p := Some [v]\<rparr>)\<rparr>) = face s1"
      using face_active[of "s1\<lparr>ms := m\<rparr>" u] by simp
    then have "own_stack i r (s1\<lparr>ms := m, active_umi := Some (u\<lparr>u_snap_p := Some [v]\<rparr>)\<rparr>)"
      using own_stack_face assms(2) face_status[OF s1] by metis
    then have "own_stack i r s2" using s2 assms(3) unfolding keeps_stacks_def by blast
    then show ?thesis using own_stack_face[OF face_status[OF s']] by blast
  qed (use assms u in \<open>simp add: process_checkpoint_def kassert_eq_Inr with_active_def\<close>)
qed

text \<open>An instance new to the manager is none it holds.\<close>

lemma fresh_not_held: "fresh_umi u s \<Longrightarrow> held i s \<noteq> None \<Longrightarrow> u_id u \<noteq> i"
  by (auto simp: fresh_umi_def outside_def held_def is_active_instance_def Id_def split: if_splits option.splits)

lemma mgr_step_own:
  assumes "mgr_step act snap s s'" "own_stack i r s" "held i s \<noteq> None" "keeps_stacks act" "keeps_stacks snap"
  shows "own_stack i r s'"
  using assms(1)
proof cases
  case (step_event e es qlen ef fr)
  have "own_stack i r (s\<lparr>m_events := es\<rparr>)" by (rule own_stack_face[OF _ assms(2)]) simp
  then show ?thesis by (rule own_run_event[OF step_event(2) _ assms(4)])
next
  case (step_checkpoint ef fr)
  then show ?thesis using own_checkpoint[OF _ assms(2,5)] by (auto simp: DebugException_def Let_def and_then_eq_Inr)
next
  case (step_run_return u)
  then show ?thesis using own_unload assms(2) by (auto simp: Run_return_def)
next
  case (step_load u b)
  then show ?thesis using own_Load fresh_not_held assms(2,3) by blast
next
  case (step_run u ef fr)
  then show ?thesis using own_Run_enter fresh_not_held assms(2,3) by blast
next
  case (step_signal_yield uid)
  then show ?thesis using own_stack_face[of "SpawnLocal EvYield s" s] assms(2) by (simp add: SignalYield_def)
next
  case (step_packet qlen ef uid buf fr)
  then show ?thesis using own_WritePacket assms(2,4) by blast
next
  case (step_signal_halt qlen ef uid fr)
  then show ?thesis using own_SignalHalt assms(2,4) by blast
next
  case (step_signal_resume qlen ef uid fr)
  then show ?thesis using own_SignalResume assms(2,4) by blast
next
  case (step_start_return u)
  then show ?thesis using own_Start_return assms(2) by blast
qed (use own_stack_face[OF _ assms(2)] in \<open>auto simp: HandleFault_def dest!: faces\<close>)

section \<open>The network\<close>

lemma face_put_net [simp]: "face (w_mgr (put_net c n w) d) = face (w_mgr w d)"
  by (simp add: put_net_def set_mgr_def)

lemma face_set_mgr: "face s = face (w_mgr w c) \<Longrightarrow> face (w_mgr (set_mgr c s w) d) = face (w_mgr w d)"
  by simp

lemma face_masquerade_in: "nat_masquerade_in c buf w = Inr (go, buf', w') \<Longrightarrow> face (w_mgr w' d) = face (w_mgr w d)"
  by (auto simp: nat_masquerade_in_def kassert_eq_Inr in_pkt_def and_then_eq_Inr simp del: put_net_sel split: if_splits)

lemma face_masquerade_out: "nat_masquerade_out X c buf w = Inr (go, buf', w') \<Longrightarrow> face (w_mgr w' d) = face (w_mgr w d)"
  by (auto simp: nat_masquerade_out_def kassert_eq_Inr in_pkt_def and_then_eq_Inr Let_def simp del: put_net_sel
      split: if_splits prod.splits)

lemma face_reset: "w_mgr (nat_connection_reset X buf w) = w_mgr w"
  by (simp add: nat_connection_reset_def)

lemma face_incoming_internal: "incoming_internal X c t buf w = (r, w') \<Longrightarrow> face (w_mgr w' d) = face (w_mgr w d)"
  by (auto simp: incoming_internal_def Let_def split: if_splits)

lemma face_deliver: "deliver_external X c j pl buf w = Inr (r, w') \<Longrightarrow> face (w_mgr w' d) = face (w_mgr w d)"
  by (auto simp: deliver_external_def face_reset and_then_eq_Inr kbugon_eq_Inr with_umi_eq_Inr face_put_umi
      dest: face_masquerade_in[where d = d] split: option.splits if_splits)

lemma face_incoming_external:
  "incoming_external X c t buf rest pinfo w = Inr (r, w') \<Longrightarrow> face (w_mgr w' d) = face (w_mgr w d)"
  by (auto simp: incoming_external_def and_then_eq_Inr kassert_eq_Inr Let_def face_reset dest!: face_deliver
      simp del: put_net_sel split: if_splits)

lemma own_post_masq:
  assumes "post_masq X act qlen ef c pinfo uid buf rest w = Inr (fr, w')" "own_stack i r (w_mgr w d)" "keeps_stacks act"
  shows "own_stack i r (w_mgr w' d)"
  using assms own_WritePacket by (auto simp: post_masq_def and_then_eq_Inr split: option.splits)

lemma own_ProcessIncoming:
  assumes "ProcessIncoming X act qlen ef c buf rest pinfo w = Inr (fr, w')" "own_stack i r (w_mgr w d)" "keeps_stacks act"
  shows "own_stack i r (w_mgr w' d)"
proof -
  consider "w' = w" | t b found w1 where
      "Inr (incoming_internal X c t b w) = (Inr (found, w1) :: _ res) \<or> incoming_external X c t b rest pinfo w = Inr (found, w1)"
      "(case found of None \<Rightarrow> Inr (None, w1) | Some (j, b) \<Rightarrow> post_masq X act qlen ef c pinfo j b rest w1) = Inr (fr, w')"
    using assms(1) unfolding ProcessIncoming_def Let_def kassert_eq_Inr and_then_eq_Inr
    by (auto simp: and_then_eq_Inr[of "internal_source _"] and_then_eq_Inr[of "if _ then _ else _"] split: if_splits)
  then show ?thesis
  proof cases
    case 2
    have "face (w_mgr w1 d) = face (w_mgr w d)" using 2(1) face_incoming_internal face_incoming_external by auto
    then have w1: "own_stack i r (w_mgr w1 d)" by (rule own_stack_face[OF _ assms(2)])
    show ?thesis
    proof (cases found)
      case (Some x)
      then show ?thesis using 2(2) own_post_masq[OF _ w1 assms(3)] by (cases x) auto
    qed (use 2(2) w1 in simp)
  qed (use assms(2) in simp)
qed

lemma face_outgoing_external: "outgoing_external X c t b w = Inr w' \<Longrightarrow> face (w_mgr w' d) = face (w_mgr w d)"
  by (auto simp: outgoing_external_def in_pkt_def and_then_eq_Inr kbugon_eq_Inr with_umi_eq_Inr face_put_umi split: if_splits)

lemma face_outgoing_internal: "w_mgr (outgoing_internal c b w) = w_mgr w"
  by (simp add: outgoing_internal_def Let_def split: option.split)

lemma face_ProcessOutgoing:
  assumes "ProcessOutgoing X c buf w = Inr w'"
  shows "face (w_mgr w' d) = face (w_mgr w d)"
proof -
  consider "w' = w" | go b w1 where "nat_masquerade_out X c buf w = Inr (go, b, w1)"
      "w' = w1 \<or> w' = outgoing_internal c b w1 \<or> (\<exists>t. outgoing_external X c t b w1 = Inr w')"
    using assms unfolding ProcessOutgoing_def Let_def kassert_eq_Inr and_then_eq_Inr
    by (auto simp: and_then_eq_Inr[of "nat_masquerade_out _ _ _ _"] and_then_eq_Inr[of "internal_destination _"] split: if_splits)
  then show ?thesis
  proof cases
    case 2
    then show ?thesis using face_masquerade_out[OF 2(1)] face_outgoing_internal face_outgoing_external by metis
  qed simp
qed

lemma world_step_own:
  assumes "world_step X act snap w w'" "own_stack i r (w_mgr w c)" "held i (w_mgr w c) \<noteq> None" "keeps_stacks act" "keeps_stacks snap"
  shows "own_stack i r (w_mgr w' c)"
  using assms(1)
proof cases
  case (world_core d s)
  then show ?thesis using mgr_step_own[OF world_core(2) _ _ assms(4,5)] assms(2,3) by auto
next
  case (world_out d buf)
  then show ?thesis using own_stack_face[OF face_ProcessOutgoing assms(2)] by blast
next
  case (world_register uid d u port u' p)
  have "id_stack u' = id_stack u" using world_register by (auto simp: RegisterPort_def)
  then have "face (w_mgr w' c) = face (w_mgr w c)" using world_register(1) face_put_umi[OF world_register(2)] by simp
  then show ?thesis by (rule own_stack_face[OF _ assms(2)])
qed (use own_ProcessIncoming assms in blast)

section \<open>System calls\<close>

lemma face_hypercall:
  assumes "hypercall now qlen ef d h a k = Inr (res, k')"
  shows "face (k_mgr c k') = face (k_mgr c k)"
proof (cases h)
  case poll
  then obtain s where s: "solo5_hypercall_poll now a (k_mgr d k) = Inr (res, s)" and k': "k' = put_mgr d s k"
    using assms by (auto simp: hypercall_def and_then_eq_Inr)
  then have "face s = face (k_mgr d k)"
    by (auto simp: solo5_hypercall_poll_def Let_def with_active_def and_then_eq_Inr dest!: faces split: option.splits if_splits)
  then show ?thesis by (simp add: k')
next
  case netread
  then obtain a' s where s: "solo5_hypercall_netread a (k_mgr d k) = Inr (a', s)" and k': "k' = put_mgr d s k"
    using assms by (auto simp: hypercall_def and_then_eq_Inr)
  then have "face s = face (k_mgr d k)"
    by (auto simp: solo5_hypercall_netread_def with_active_def and_then_eq_Inr kbugon_eq_Inr in_pkt_def Let_def id_stack_def
        dest!: ReadPacket_keeps intro!: face_active split: option.splits if_splits)
  then show ?thesis by (simp add: k')
next
  case halt
  then obtain fr s where s: "Halt qlen ef (k_mgr d k) = Inr (fr, s)" and k': "k' = put_mgr d s k"
    using assms by (auto simp: hypercall_def and_then_eq_Inr)
  then show ?thesis using face_Halt[OF s] by (simp add: k')
qed (use assms in \<open>auto simp: hypercall_def and_then_eq_Inr solo5_hypercall_puts_def solo5_hypercall_netwrite_def in_pkt_def Let_def
      split: if_splits\<close>)

text \<open>The call up to the end of its hypercall.\<close>

lemma sys_call_run:
  assumes "sys_call_handler now qlen ef c n fnRSP a k = Inr (res, kern_rsp, ret, k')"
  obtains u h where "active_umi (k_mgr c k) = Some u" "sys_call_entry n = Inr h" "kern_rsp = ef_rsp (u_caller_frame u)"
    "hypercall now qlen ef c h a (put_mgr c ((k_mgr c k)\<lparr>active_umi := Some (u\<lparr>u_fnStack := fnRSP\<rparr>)\<rparr>) k) = Inr (res, k')"
    "\<And>rsp. ret = Some rsp \<Longrightarrow> RestoreFnStackPtr (k_mgr c k') = Inr rsp"
proof -
  obtain u where u: "active_umi (k_mgr c k) = Some u"
    using assms by (auto simp: sys_call_handler_def SaveFnStackPtr_def and_then_eq_Inr kbugon_eq_Inr with_active_def split: option.splits)
  let ?s = "(k_mgr c k)\<lparr>active_umi := Some (u\<lparr>u_fnStack := fnRSP\<rparr>)\<rparr>"
  have s: "SaveFnStackPtr fnRSP (k_mgr c k) = Inr ?s" "GetKernStackPtr ?s = Inr (ef_rsp (u_caller_frame u))"
    using u by (simp_all add: SaveFnStackPtr_def GetKernStackPtr_def slot_has_instance_def with_active_def)
  obtain h r1 k1 where h: "sys_call_entry n = Inr h" "hypercall now qlen ef c h a (put_mgr c ?s k) = Inr (r1, k1)"
    and r: "(case r1 of HcReturn _ \<Rightarrow> and_then (RestoreFnStackPtr (k_mgr c k1)) (\<lambda>rsp. Inr (r1, ef_rsp (u_caller_frame u), Some rsp, k1))
      | _ \<Rightarrow> Inr (r1, ef_rsp (u_caller_frame u), None, k1)) = Inr (res, kern_rsp, ret, k')"
    using assms s unfolding sys_call_handler_def
    by (auto simp: and_then_eq_Inr[of "sys_call_entry _"] and_then_eq_Inr[of "hypercall _ _ _ _ _ _ _"])
  have "r1 = res \<and> k1 = k' \<and> kern_rsp = ef_rsp (u_caller_frame u) \<and> (\<forall>rsp. ret = Some rsp \<longrightarrow> RestoreFnStackPtr (k_mgr c k') = Inr rsp)"
    using r by (cases r1) (auto simp: and_then_eq_Inr)
  then show thesis using that[OF u h(1)] h(2) by blast
qed

lemma own_sys_call:
  assumes "sys_call_handler now qlen ef d n fnRSP a k = Inr (res, kern_rsp, ret, k')" "own_stack i r (k_mgr c k)"
    and "d = c \<Longrightarrow> ActiveInstanceId (k_mgr c k) \<noteq> i"
  shows "own_stack i r (k_mgr c k')"
proof -
  obtain u h where u: "active_umi (k_mgr d k) = Some u"
    and h: "hypercall now qlen ef d h a (put_mgr d ((k_mgr d k)\<lparr>active_umi := Some (u\<lparr>u_fnStack := fnRSP\<rparr>)\<rparr>) k) = Inr (res, k')"
    using assms(1) by (rule sys_call_run)
  have "d = c \<Longrightarrow> u_id u \<noteq> i" using u assms(3) by (auto simp: ActiveInstanceId_def Id_def)
  then have "own_stack i r (k_mgr c (put_mgr d ((k_mgr d k)\<lparr>active_umi := Some (u\<lparr>u_fnStack := fnRSP\<rparr>)\<rparr>) k))"
    using assms(2) by (auto simp: own_stack_iff)
  then show ?thesis by (rule own_stack_face[OF face_hypercall[OF h]])
qed

lemma face_sys_call_resumed:
  assumes "sys_call_resumed d j a k = Inr (res, ret, k')"
  shows "face (k_mgr c k') = face (k_mgr c k)"
  using assms by (auto simp: sys_call_resumed_def Let_def and_then_eq_Inr dest!: face_context_resumed split: if_splits)

lemma face_run_netwrite: "run_netwrite X d k = Inr k' \<Longrightarrow> face (k_mgr c k') = face (k_mgr c k)"
  by (auto simp: run_netwrite_def and_then_eq_Inr k_mgr_def dest: face_ProcessOutgoing[where d = c] split: list.splits)

text \<open>
  What may happen on the machine while a call of instance \<open>i\<close> on core \<open>c\<close> is suspended, as long as
  the core's manager holds the instance: anything on its cores and its network, calls of other
  instances and their returns, packets sent, and attempts to continue the call itself.
\<close>

inductive meanwhile :: "ext \<Rightarrow> (u32 \<Rightarrow> mgr \<Rightarrow> mgr res) \<Rightarrow> (sv \<Rightarrow> mgr \<Rightarrow> mgr res) \<Rightarrow> u64 \<Rightarrow> u32 \<Rightarrow> kern \<Rightarrow> kern \<Rightarrow> bool"
  for X act snap c i where
  mw_start: "meanwhile X act snap c i k k"
| mw_world: "meanwhile X act snap c i k k1 \<Longrightarrow> held i (k_mgr c k1) \<noteq> None \<Longrightarrow> world_step X act snap (k_world k1) w \<Longrightarrow>
    meanwhile X act snap c i k (k1\<lparr>k_world := w\<rparr>)"
| mw_call: "meanwhile X act snap c i k k1 \<Longrightarrow> sys_call_handler now qlen ef d n fnRSP a k1 = Inr (res, kern_rsp, ret, k2) \<Longrightarrow>
    (d = c \<Longrightarrow> ActiveInstanceId (k_mgr c k1) \<noteq> i) \<Longrightarrow> meanwhile X act snap c i k k2"
| mw_resumed: "meanwhile X act snap c i k k1 \<Longrightarrow> sys_call_resumed d j a k1 = Inr (res, ret, k2) \<Longrightarrow>
    (d = c \<Longrightarrow> j = i \<Longrightarrow> ret = None) \<Longrightarrow> meanwhile X act snap c i k k2"
| mw_sent: "meanwhile X act snap c i k k1 \<Longrightarrow> run_netwrite X d k1 = Inr k2 \<Longrightarrow> meanwhile X act snap c i k k2"

lemma meanwhile_own:
  assumes "meanwhile X act snap c i k k'" "own_stack i r (k_mgr c k)" "keeps_stacks act" "keeps_stacks snap"
  shows "own_stack i r (k_mgr c k')"
  using assms(1,2)
proof induction
  case (mw_world k k1 w)
  then show ?case using world_step_own[OF mw_world(3), of i r c] assms(3,4) by (simp add: k_mgr_def)
next
  case (mw_resumed k k1 d j a res ret k2)
  show ?case by (rule own_stack_face[OF face_sys_call_resumed[OF mw_resumed(2)] mw_resumed(4)[OF mw_resumed(5)]])
next
  case (mw_sent k k1 d k2)
  show ?case by (rule own_stack_face[OF face_run_netwrite[OF mw_sent(2)] mw_sent(3)[OF mw_sent(4)]])
next
  case (mw_call k k1 now qlen ef d n fnRSP a res kern_rsp ret k2)
  show ?case by (rule own_sys_call[OF mw_call(2) mw_call(4)[OF mw_call(5)] mw_call(3)])
qed

section \<open>Properties\<close>

text \<open>
  C23. A system call runs on the stack of the frame that entered the slot and goes back to the
  stack it came from, when it returns at once and also when it was suspended: whatever has
  happened on the machine before it is continued, system calls of other instances on the same core
  included, as long as the core's manager held its instance all the time (and the continuations of clients
  leave the saved stack pointers alone). A system call
  whose number is not that of a hypercall (0, negative, above 10) has no defined behaviour: the
  table is read without a check.
\<close>

theorem sys_call_restores_stack:
  assumes "active_umi (k_mgr c k) = Some u" "mgr_inv (k_mgr c k)" "keeps_stacks act" "keeps_stacks snap"
  shows "(sys_call_handler now qlen ef c n fnRSP a k = Inr (r, kern_rsp, ret, k1) \<longrightarrow>
       kern_rsp = ef_rsp (u_caller_frame u) \<and>
       (\<forall>rsp. ret = Some rsp \<longrightarrow> rsp = fnRSP) \<and>
       (\<forall>k2 r2 rsp k3. meanwhile X act snap c (u_id u) k1 k2 \<longrightarrow>
          sys_call_resumed c (u_id u) a1 k2 = Inr (r2, Some rsp, k3) \<longrightarrow> rsp = fnRSP)) \<and>
     (n \<notin> {1..10} \<longrightarrow> sys_call_handler now qlen ef c n fnRSP a k = Inl Undef)"
proof (intro conjI impI)
  assume n: "n \<notin> {1..10}"
  have "sys_call_entry n = Inl Undef"
  proof (cases "n = 0")
    case False
    then have "n < 0 \<or> 10 < n" using n by auto
    then show ?thesis by (auto simp: sys_call_entry_def sys_calls_def)
  qed (simp add: sys_call_entry_def sys_calls_def)
  then show "sys_call_handler now qlen ef c n fnRSP a k = Inl Undef"
    using assms(1) by (simp add: sys_call_handler_def SaveFnStackPtr_def GetKernStackPtr_def slot_has_instance_def with_active_def)
next
  assume "sys_call_handler now qlen ef c n fnRSP a k = Inr (r, kern_rsp, ret, k1)"
  then obtain h where kern: "kern_rsp = ef_rsp (u_caller_frame u)"
    and h: "hypercall now qlen ef c h a (put_mgr c ((k_mgr c k)\<lparr>active_umi := Some (u\<lparr>u_fnStack := fnRSP\<rparr>)\<rparr>) k) = Inr (r, k1)"
    and ret: "\<And>rsp. ret = Some rsp \<Longrightarrow> RestoreFnStackPtr (k_mgr c k1) = Inr rsp"
    using assms(1) by (elim sys_call_run) auto
  let ?k = "put_mgr c ((k_mgr c k)\<lparr>active_umi := Some (u\<lparr>u_fnStack := fnRSP\<rparr>)\<rparr>) k"
  have f1: "face (k_mgr c k1) = face (k_mgr c ?k)" by (rule face_hypercall[OF h])
  have "inactive_umi_map (k_mgr c k) j = Some v \<Longrightarrow> u_id v \<noteq> u_id u" for j v
    using assms(1,2) by (auto simp: mgr_inv_on_def sched_ok_def sched_def outside_def)
  then have "own_stack (u_id u) fnRSP (k_mgr c ?k)" by (auto simp: own_stack_iff)
  then have own: "own_stack (u_id u) fnRSP (k_mgr c k1)" by (rule own_stack_face[OF f1])
  show "kern_rsp = ef_rsp (u_caller_frame u)" by (rule kern)
  have goes_back: "rsp = fnRSP" if "RestoreFnStackPtr s = Inr rsp" "own_stack (u_id u) fnRSP s" "fst (face s) = Some (u_id u, x)" for s rsp x
    using that by (auto simp: RestoreFnStackPtr_def kbugon_eq_Inr with_active_def own_stack_iff face_def id_stack_def split: option.splits)
  have "fst (face (k_mgr c k1)) = Some (u_id u, fnRSP)" unfolding f1 by (simp add: face_def id_stack_def)
  then show "\<forall>rsp. ret = Some rsp \<longrightarrow> rsp = fnRSP" using goes_back[OF ret own] by blast
  show "\<forall>k2 r2 rsp k3. meanwhile X act snap c (u_id u) k1 k2 \<longrightarrow>
      sys_call_resumed c (u_id u) a1 k2 = Inr (r2, Some rsp, k3) \<longrightarrow> rsp = fnRSP"
  proof (intro allI impI)
    fix k2 r2 rsp k3
    assume mw: "meanwhile X act snap c (u_id u) k1 k2" and res: "sys_call_resumed c (u_id u) a1 k2 = Inr (r2, Some rsp, k3)"
    obtain s where s: "context_resumed (u_id u) (k_mgr c k2) = Inr s" "RestoreFnStackPtr s = Inr rsp"
      and may: "request_slot_entry (u_id u) (k_mgr c k2) = Inr True"
      using res by (auto simp: sys_call_resumed_def Let_def and_then_eq_Inr split: if_splits)
    obtain v where "active_umi (k_mgr c k2) = Some v" "u_id v = u_id u"
      using may by (auto simp: request_slot_entry_def with_active_def kassert_eq_Inr Id_def split: if_splits option.splits)
    then have "fst (face s) = Some (u_id u, u_fnStack v)"
      unfolding face_context_resumed[OF s(1)] by (simp add: face_def id_stack_def)
    then show "rsp = fnRSP"
      by (rule goes_back[OF s(2) own_stack_face[OF face_context_resumed[OF s(1)] meanwhile_own[OF mw own assms(3,4)]]])
  qed
qed

text \<open>The instance of the example polls for a millisecond, a packet comes in, and the call continues.\<close>

definition polling :: kern where
  "polling = put_mgr 0 (one_loaded\<lparr>m_status := active\<rparr>) one_kern"

definition poll_arg :: hc_arg where "poll_arg = arg0\<lparr>a_timeout_nsecs := 1000000\<rparr>"

definition polled :: mgr where
  "polled = one_loaded\<lparr>m_status := idle, active_umi := Some ((one_region Region_init)\<lparr>u_fnStack := 0x7FF0, u_time_wait := 1000005,
     u_timer_due := 1000005, u_timer_set := True, u_context := True, u_blocked := True\<rparr>)\<rparr>"

lemma put_put [simp]: "put_mgr c s (put_mgr c s' k) = put_mgr c s k"
  by (simp add: put_mgr_def set_mgr_def)

lemma polling_blocks:
  "sys_call_handler 5 0 ef_zero 0 3 0x7FF0 poll_arg polling = Inr (HcBlocked (poll_arg\<lparr>a_ret := 0\<rparr>), 0, None, put_mgr 0 polled polling)"
  by (simp add: sys_call_handler_def SaveFnStackPtr_def GetKernStackPtr_def slot_has_instance_def with_active_def polling_def
      sys_call_entry_def sys_calls_def hypercall_def solo5_hypercall_poll_def HasData_def Block_def Sleep_def set_status_def
      status_change_def with_umi_def is_active_instance_def block_execution_def enable_timer_def put_umi_def Id_def one_region_def
      arg0_def nanoseconds_def chrono_def in_int64_def Let_def one_loaded_def IsActive_def poll_arg_def polled_def ef_zero_def)

theorem sys_call_restores_stack_witness:
  "\<exists>k2 k3. meanwhile two_cores (\<lambda>_. Inr) (\<lambda>_. Inr) 0 1 (put_mgr 0 polled polling) k2 \<and>
     sys_call_resumed 0 1 (poll_arg\<lparr>a_ret := 0\<rparr>) k2 = Inr (HcReturn (poll_arg\<lparr>a_ret := 1\<rparr>), Some 0x7FF0, k3) \<and>
     sys_call_handler 5 0 ef_zero 0 11 0x7FF0 poll_arg polling = Inl Undef"
proof -
  let ?k1 = "put_mgr 0 polled polling"
  have K: "keeps_stacks (\<lambda>_ :: u32. Inr)" "keeps_stacks (\<lambda>_ :: sv. Inr)" by (simp_all add: keeps_stacks_def)
  have a: "active_umi (k_mgr 0 polling) = Some (one_region Region_init)" "mgr_inv (k_mgr 0 polling)" "u_id (one_region Region_init) = 1"
    by (simp_all add: polling_def one_loaded_def one_region_def mgr_inv_on_def sched_ok_def sched_def outside_def mgr_init_def null_id_def)
  note T = sys_call_restores_stack[OF a(1,2) K, unfolded a(3)]
  obtain s2 where s2: "WritePacket (\<lambda>_. Inr) 0 ef_zero 1 [[7]] polled = Inr (None, s2)" "m_status s2 = idle"
    "\<exists>u2. active_umi s2 = Some u2 \<and> u_id u2 = 1 \<and> u_recv_queue u2 = [[[7]]]"
    by (simp add: WritePacket_def SignalResume_def ActiveInstanceId_def ActiveInstance_def Kick_def with_umi_def polled_def
        is_active_instance_def with_active_def put_umi_def Id_def unblock_execution_def SpawnLocal_def disable_timer_def one_region_def
        one_loaded_def)
  let ?k2 = "?k1\<lparr>k_world := set_mgr 0 s2 (k_world ?k1)\<rparr>"
  have "held 1 polled \<noteq> None" by (simp add: held_def is_active_instance_def polled_def Id_def one_region_def)
  then have "held 1 (k_mgr 0 ?k1) \<noteq> None" "w_mgr (k_world ?k1) 0 = polled" by (simp_all flip: k_mgr_def)
  moreover from this have "world_step two_cores (\<lambda>_. Inr) (\<lambda>_. Inr) (k_world ?k1) (set_mgr 0 s2 (k_world ?k1))"
    using s2(1) by (intro world_core step_packet[where uid = 1]) simp
  ultimately have mw: "meanwhile two_cores (\<lambda>_. Inr) (\<lambda>_. Inr) 0 1 ?k1 ?k2" by (intro mw_world mw_start)
  have k2: "k_mgr 0 ?k2 = s2" by (simp add: k_mgr_def)
  obtain rsp k3 where "sys_call_resumed 0 1 (poll_arg\<lparr>a_ret := 0\<rparr>) ?k2 = Inr (HcReturn (poll_arg\<lparr>a_ret := 1\<rparr>), Some rsp, k3)"
    using s2(2,3)
    by (auto simp: sys_call_resumed_def Let_def k2 request_slot_entry_def ActiveInstanceId_def context_resumed_def with_umi_def
        is_active_instance_def with_active_def put_umi_def Id_def Block_return_def set_status_def status_change_def poll_return_def
        HasData_def RestoreFnStackPtr_def slot_has_instance_def poll_arg_def)
  then show ?thesis using T[of 5 0 ef_zero 3 "0x7FF0" poll_arg] polling_blocks T[of 5 0 ef_zero 11 "0x7FF0" poll_arg] mw by fastforce
qed

end
