(* ===== verification/Umm_Slot.thy ===== *)
theory Umm_Slot
  imports Umm_Schedule
begin

text \<open>
  The slot as a whole: what loading and unloading do to the address space, entering and
  leaving through the gateway, page faults and checkpoints of the running instance, and who
  may enter when a saved context wakes up.
\<close>

section \<open>The slot's entry\<close>

lemma slot_entry_set:
  assumes "pg_ok r" "r \<noteq> 0"
  shows "mgr_getSlotPDPTRoot (st (getSlotRoot m) (pte_build r False True True True False) m) = Inr r"
    "slot_root (st (getSlotRoot m) (pte_build r False True True True False) m) = r"
proof -
  let ?m = "st (getSlotRoot m) (pte_build r False True True True False) m"
  have "getPML4Root ?m = getPML4Root m" by (simp add: getPML4Root_def mach_simps)
  then have "getSlotRoot ?m = getSlotRoot m" by (simp add: slot_cell)
  then show root: "slot_root ?m = r"
    using assms by (simp add: slot_root_def Let_def st_def pte_simps)
  show "mgr_getSlotPDPTRoot ?m = Inr r" by (simp add: mgr_getSlotPDPTRoot_eq root)
qed

lemma slot_empty_root: "mem m (getSlotRoot m) = 0 \<Longrightarrow> slot_root m = 0"
  by (simp add: slot_root_def pte_exists_def pte_SEL_def)

lemma getSlotRoot_upd [simp]:
  "getSlotRoot (st a v m) = getSlotRoot m" "getSlotRoot (flushTranslationCaches m) = getSlotRoot m"
  "getSlotRoot (m\<lparr>dr0 := x, dr7 := y\<rparr>) = getSlotRoot m" "getSlotRoot (m\<lparr>mem := h\<rparr>) = getSlotRoot m"
  by (simp_all add: getSlotRoot_def getPML4Root_def mach_simps)

lemma mem_set_snapshot [simp]:
  "mem (ms (set_snapshot v s)) = mem (ms s)" "cr3 (ms (set_snapshot v s)) = cr3 (ms s)"
  by (simp_all add: set_snapshot_def Let_def)

lemma slot_root_cong: "mem m' = mem m \<Longrightarrow> cr3 m' = cr3 m \<Longrightarrow> slot_root m' = slot_root m"
  by (simp add: slot_root_def getSlotRoot_def getPML4Root_def)

text \<open>Unloading empties the slot's entry and changes no other cell.\<close>

lemma slot_unload_mem:
  assumes "slot_unload_instance s = Inr (u, s')"
  shows "mem (ms s') = (mem (ms s))(getSlotRoot (ms s) := 0)" "cr3 (ms s') = cr3 (ms s)" "slot_root (ms s') = 0"
    "tlb_log (ms s') = tlb_log (ms s) @ [FlushAll]"
proof -
  have s': "ms s' = flushTranslationCaches (st (getSlotRoot (ms s)) 0 (ms s))"
    using assms by (auto simp: slot_unload_instance_def Let_def and_then_eq_Inr kassert_eq_Inr set_status_eq_Inr
        clearPTE_def slot_cell(2))
  then show "mem (ms s') = (mem (ms s))(getSlotRoot (ms s) := 0)" "cr3 (ms s') = cr3 (ms s)"
    "tlb_log (ms s') = tlb_log (ms s) @ [FlushAll]"
    by (simp_all add: mach_defs)
  then show "slot_root (ms s') = 0" by (intro slot_empty_root) (simp add: s' mach_simps)
qed

lemma slot_unload_run:
  assumes "pte_exists (mem (ms s) (getSlotRoot (ms s)))" "m_status s \<noteq> active" "m_status s \<noteq> snapshot"
  shows "\<exists>s'. slot_unload_instance s = Inr (active_umi s, s')"
  using assms
  by (auto simp: slot_unload_instance_def Let_def slot_cell(2) ld_def set_status_def status_change_def
      clearPTE_def mach_simps pte_exists_def pte_SEL_def)

text \<open>Loading installs the instance's page table, or leaves the entry empty.\<close>

lemma slot_install_root_run:
  assumes "r \<noteq> 0" "pg_ok r"
  shows "slot_install_root r s = Inr (s\<lparr>ms := st (getSlotRoot (ms s)) (pte_build r False True True True False) (ms s)\<rparr>)"
proof -
  have set: "setSlotPDPTRoot r (ms s) = Inr (st (getSlotRoot (ms s)) (pte_build r False True True True False) (ms s))"
    using assms by (simp add: setSlotPDPTRoot_def setPte_ok slot_cell(2))
  show ?thesis using assms(1) by (simp add: slot_install_root_def set slot_entry_set(1)[OF assms(2,1)])
qed

lemma slot_occupy_run:
  assumes "m_status s = empty"
  shows "\<exists>s'. slot_occupy u s = Inr (u_id u, s') \<and> mem (ms s') = mem (ms s) \<and> cr3 (ms s') = cr3 (ms s) \<and>
     tlb_log (ms s') = tlb_log (ms s) \<and> px_umi_id (m_px s') = u_id u"
  using assms
  by (cases "valid_address (u_snap_addr u)")
    (simp_all add: slot_occupy_def Let_def set_status_def status_change_def Id_def SetActiveInstance_def set_snapshot_def)

lemma slot_load_run:
  assumes "m_status s = empty" "mem (ms s) (getSlotRoot (ms s)) = 0" "Root (sv_pth (u_sv u)) = r" "r = 0 \<or> pg_ok r"
  shows "\<exists>s'. slot_load_instance u s = Inr (u_id u, s') \<and> slot_root (ms s') = r \<and> cr3 (ms s') = cr3 (ms s) \<and>
     mem (ms s') = (mem (ms s))(getSlotRoot (ms s) := (if r = 0 then 0 else pte_build r False True True True False)) \<and>
     tlb_log (ms s') = tlb_log (ms s) \<and> px_umi_id (m_px s') = u_id u"
proof -
  have z: "mgr_getSlotPDPTRoot (ms s) = Inr 0"
    using slot_empty_root[OF assms(2)] by (simp add: mgr_getSlotPDPTRoot_eq)
  define m where "m = (if r = 0 then ms s else st (getSlotRoot (ms s)) (pte_build r False True True True False) (ms s))"
  have inst: "slot_install_root r s = Inr (s\<lparr>ms := m\<rparr>)"
    using assms(4) slot_install_root_run[of r s] by (cases "r = 0") (simp_all add: m_def, simp add: slot_install_root_def)
  obtain s' where occ: "slot_occupy u (s\<lparr>ms := m\<rparr>) = Inr (u_id u, s')" and s': "mem (ms s') = mem m" "cr3 (ms s') = cr3 m"
      "tlb_log (ms s') = tlb_log m" "px_umi_id (m_px s') = u_id u"
    using slot_occupy_run[of "s\<lparr>ms := m\<rparr>" u] assms(1) by auto
  have "slot_load_instance u s = Inr (u_id u, s')" using assms(1,3) by (simp add: slot_load_instance_def z inst occ)
  moreover have "slot_root (ms s') = r"
    using slot_root_cong[OF s'(1,2)] slot_empty_root[OF assms(2)] slot_entry_set(2)[of r "ms s"] assms(4) by (auto simp: m_def)
  moreover have "mem m = (mem (ms s))(getSlotRoot (ms s) := (if r = 0 then 0 else pte_build r False True True True False))"
    using assms(2) by (auto simp: m_def st_def fun_upd_idem)
  ultimately show ?thesis using s' by (intro exI[of _ s']) (simp add: m_def mach_simps)
qed

section \<open>Properties\<close>

text \<open>
  Loading an instance into an empty slot and unloading it is a round trip: while it is
  loaded the slot translates through the instance's own page table, the proxy is told its id,
  and unloading hands back the same instance, restores every memory cell and flushes the
  translation caches.
\<close>

theorem load_unload_round_trip:
  assumes "m_status s = empty" "mem (ms s) (getSlotRoot (ms s)) = 0" "pg_ok (Root (sv_pth (u_sv u)))" "Root (sv_pth (u_sv u)) \<noteq> 0"
  shows "\<exists>s1 s2. slot_load_instance u s = Inr (u_id u, s1) \<and> slot_root (ms s1) = Root (sv_pth (u_sv u)) \<and>
     px_umi_id (m_px s1) = u_id u \<and>
     slot_unload_instance s1 = Inr (Some u, s2) \<and> m_status s2 = empty \<and> active_umi s2 = None \<and>
     mem (ms s2) = mem (ms s) \<and> tlb_log (ms s2) = tlb_log (ms s) @ [FlushAll]"
proof -
  let ?r = "Root (sv_pth (u_sv u))"
  obtain s1 where l: "slot_load_instance u s = Inr (u_id u, s1)" "slot_root (ms s1) = ?r" "cr3 (ms s1) = cr3 (ms s)"
      "mem (ms s1) = (mem (ms s))(getSlotRoot (ms s) := pte_build ?r False True True True False)"
      "tlb_log (ms s1) = tlb_log (ms s)" "px_umi_id (m_px s1) = u_id u"
    using slot_load_run[OF assms(1,2), of u ?r] assms(3,4) by auto
  have st1: "m_status s1 = loaded" "active_umi s1 = Some u" using slot_load_spec[OF l(1)] by auto
  have a: "getSlotRoot (ms s1) = getSlotRoot (ms s)" using l(3) by (simp add: getSlotRoot_def getPML4Root_def)
  have "pte_exists (mem (ms s1) (getSlotRoot (ms s1)))" using l(4) a by (simp add: pte_simps)
  then obtain o2 s2 where un: "slot_unload_instance s1 = Inr (o2, s2)"
    using slot_unload_run[of s1] st1(1) by auto
  note U = slot_unload_spec[OF un] slot_unload_mem[OF un]
  have "mem (ms s2) = mem (ms s)" using U(2) l(4) a assms(2) by (simp add: fun_upd_idem)
  then show ?thesis using l(1,2,5,6) un U(1,5) st1 by (intro exI[of _ s1] exI[of _ s2]) simp
qed

theorem load_unload_round_trip_witness:
  "\<exists>s1 s2. slot_load_instance ((one_region Region_init)\<lparr>u_sv := UmSV_init\<lparr>sv_pth := UmPth_of 0x3000 3\<rparr>\<rparr>)
       (mgr_init (empty_slot [])) = Inr (1, s1) \<and> slot_root (ms s1) = 0x3000 \<and>
     slot_unload_instance s1 = Inr (Some ((one_region Region_init)\<lparr>u_sv := UmSV_init\<lparr>sv_pth := UmPth_of 0x3000 3\<rparr>\<rparr>), s2) \<and>
     mem (ms s2) = (\<lambda>_. 0)"
  using load_unload_round_trip[of "mgr_init (empty_slot [])" "(one_region Region_init)\<lparr>u_sv := UmSV_init\<lparr>sv_pth := UmPth_of 0x3000 3\<rparr>\<rparr>"]
  by (auto simp: mgr_init_def empty_slot_def one_region_def Root_def UmPth_of_def pg_ok_small)

text \<open>
  An instance that started without a page table loses its memory when it is swapped out:
  the tables its faults built hang in the slot only, unloading clears the slot's entry, and the
  instance's own root stays null, so when it is loaded again no slot address translates.
\<close>

theorem swapped_out_memory_lost:
  assumes "slot_unload_instance s = Inr (Some u, s1)" "Root (sv_pth (u_sv u)) = 0"
    and "ms s2 = ms s1" "slot_load_instance u s2 = Inr (i, s3)" "getPML4Root (ms s) \<noteq> 0" "lin_index va 4 = 0x180"
  shows "mmu (ms s3) va = None"
proof -
  have e: "m_status s2 = empty" using slot_load_spec[OF assms(4)] by blast
  note U = slot_unload_mem[OF assms(1)]
  have a: "getSlotRoot (ms s1) = getSlotRoot (ms s)" "getPML4Root (ms s1) = getPML4Root (ms s)"
    using U(2) by (simp_all add: getSlotRoot_def getPML4Root_def)
  have "mem (ms s2) (getSlotRoot (ms s2)) = 0" using U(1) a assms(3) by simp
  from slot_load_run[OF e this assms(2)] assms(3,4) obtain
    m3: "slot_root (ms s3) = 0" "cr3 (ms s3) = cr3 (ms s1)" "mem (ms s3) (getSlotRoot (ms s1)) = 0" by auto
  have R: "getSlotRoot (ms s3) = getSlotRoot (ms s1)" "getPML4Root (ms s3) = getPML4Root (ms s)"
    using m3(2) a by (simp_all add: getSlotRoot_def getPML4Root_def)
  have "slot_ok (ms s3)" using m3 R assms(5) by (simp add: slot_ok_def)
  then show ?thesis using mmu_slot[OF _ assms(6)] m3(1) by simp
qed

definition idle_mapped :: mgr where
  "idle_mapped = one_loaded\<lparr>m_status := idle,
     ms := st (getSlotRoot (empty_slot [])) (pte_build 0x3000 False True True True False) (empty_slot [])\<rparr>"

theorem swapped_out_memory_lost_witness:
  "\<exists>s1 s3. slot_unload_instance idle_mapped = Inr (Some (one_region Region_init), s1) \<and>
     slot_load_instance (one_region Region_init) s1 = Inr (1, s3) \<and> mmu (ms s3) 0xFFFFC00000403000 = None"
proof -
  let ?u = "one_region Region_init"
  have sel: "m_status idle_mapped = idle" "active_umi idle_mapped = Some ?u"
    "mem (ms idle_mapped) (getSlotRoot (ms idle_mapped)) = pte_build 0x3000 False True True True False"
    by (simp_all add: idle_mapped_def one_loaded_def mach_simps)
  obtain s1 where un: "slot_unload_instance idle_mapped = Inr (Some ?u, s1)"
    using slot_unload_run[of idle_mapped] by (auto simp: sel pte_simps)
  have r0: "Root (sv_pth (u_sv ?u)) = 0" by (simp add: one_region_def UmSV_init_def UmPth_init_def Root_def)
  have a: "getSlotRoot (ms s1) = getSlotRoot (ms idle_mapped)"
    using slot_unload_mem(2)[OF un] by (simp add: getSlotRoot_def getPML4Root_def)
  have "m_status s1 = empty" "mem (ms s1) (getSlotRoot (ms s1)) = 0"
    using slot_unload_spec[OF un] slot_unload_mem(1)[OF un] a by simp_all
  from slot_load_run[OF this r0] obtain s3 where ld: "slot_load_instance ?u s1 = Inr (u_id ?u, s3)" by auto
  have "getPML4Root (ms idle_mapped) \<noteq> 0"
    using empty_slot_ok(4) by (simp add: idle_mapped_def getPML4Root_def mach_simps)
  moreover have "lin_index 0xFFFFC00000403000 4 = 0x180" by code_simp
  ultimately show ?thesis using un ld swapped_out_memory_lost[OF un r0 refl ld] by (auto simp: one_region_def)
qed

text \<open>
  The gateway is a round trip: entering the slot runs the instance with its own frame, on
  user segments, and halting it later, with no event pending, continues the caller with exactly
  the frame that entered.
\<close>

theorem gateway_round_trip:
  assumes "Start_enter uid ef s = Inr (fr, s1)" "active_umi s1 = Some u1"
    and "active_umi s2 = Some u2" "u_caller_frame u2 = u_caller_frame u1" "m_status s2 \<noteq> empty" "m_status s2 \<noteq> finished"
  shows "m_status s1 = active \<and> fr = (sv_ef (u_sv u1))\<lparr>ef_ss := 0x1B, ef_cs := 0x23\<rparr> \<and>
     (\<exists>s3. Halt 0 ef' s2 = Inr (Some ef, s3) \<and> m_status s3 = finished \<and> slot_id s3 = slot_id s2)"
proof -
  have enter: "m_status s1 = active" "fr = (sv_ef (u_sv u1))\<lparr>ef_ss := 0x1B, ef_cs := 0x23\<rparr>" "u_caller_frame u1 = ef"
    using assms(1,2)
    by (auto simp: Start_enter_def process_gateway_def with_active_def kassert_eq_Inr and_then_eq_Inr set_status_eq_Inr Let_def
        split: option.splits)
  have "status_change (m_status s2) halting" using assms(5,6) by (simp add: status_change_def)
  then obtain s3 where h: "Halt 0 ef' s2 = Inr (Some ef, s3)" "m_status s3 = finished"
    using assms(3-6) enter(3)
    by (simp add: Halt_def with_active_def set_status_def Let_def process_gateway_def SetActive_def status_change_def)
  show ?thesis using enter h slot_id_Halt[OF h(1)] by blast
qed

theorem gateway_round_trip_witness:
  "\<exists>s1 s3. Start_enter 1 (ef_zero\<lparr>ef_rsp := 0x7000\<rparr>) one_loaded =
       Inr ((sv_ef UmSV_init)\<lparr>ef_ss := 0x1B, ef_cs := 0x23\<rparr>, s1) \<and>
     Halt 0 ef_zero s1 = Inr (Some (ef_zero\<lparr>ef_rsp := 0x7000\<rparr>), s3)"
proof -
  let ?u = "(one_region Region_init)\<lparr>u_caller_frame := ef_zero\<lparr>ef_rsp := 0x7000\<rparr>\<rparr>"
  let ?s1 = "one_loaded\<lparr>active_umi := Some ?u, m_status := active\<rparr>"
  have run: "Start_enter 1 (ef_zero\<lparr>ef_rsp := 0x7000\<rparr>) one_loaded =
      Inr ((sv_ef UmSV_init)\<lparr>ef_ss := 0x1B, ef_cs := 0x23\<rparr>, ?s1)"
    by (simp add: Start_enter_def one_loaded_def with_active_def process_gateway_def set_status_def status_change_def
        one_region_def Id_def)
  from gateway_round_trip[OF run, of ?u ?s1 ?u ef_zero] show ?thesis using run by auto
qed

text \<open>
  C27. A saved context that wakes up only runs in the slot when its instance is the loaded one
  and the slot is neither halting, finished nor in a checkpoint; otherwise it is blocked again.
\<close>

theorem woken_context_enters_only_own_slot:
  assumes "context_resumed uid s = Inr s'" "mgr_inv s"
  shows "(\<exists>u. active_umi s' = Some u \<and> u_id u = uid \<and> m_status s' = active \<and> m_status s \<in> {loaded, idle})
     \<or> (\<exists>u. held uid s' = Some u \<and> u_blocked u \<and> u_context u \<and> m_status s' = m_status s)"
proof -
  obtain u may where u: "held uid s = Some u"
    and r: "request_slot_entry uid (put_umi uid (u\<lparr>u_context := False\<rparr>) s) = Inr may"
    and rest: "if \<not> may then block_execution uid (put_umi uid (u\<lparr>u_context := False\<rparr>) s) = Inr s'
       else Block_return (put_umi uid (u\<lparr>u_context := False\<rparr>) s) = Inr s'"
    using assms(1) by (auto simp: context_resumed_def with_umi_eq_Inr Let_def and_then_eq_Inr kassert_eq_Inr split: if_splits)
  let ?u = "u\<lparr>u_context := False\<rparr>"
  have id: "u_id ?u = uid" using held_id[OF assms(2) u] by simp
  show ?thesis
  proof (cases may)
    case True
    then obtain a where a: "active_umi (put_umi uid ?u s) = Some a" "u_id a = uid"
      and st: "m_status s \<notin> {halting, snapshot, finished}"
      using r by (auto simp: request_slot_entry_def with_active_def kassert_eq_Inr Id_def split: if_splits option.splits)
    have "s' = (put_umi uid ?u s)\<lparr>m_status := active\<rparr>" "m_status s \<in> {loaded, idle}"
      using rest True st by (auto simp: Block_return_def set_status_eq_Inr status_change_def split: if_splits)
    then show ?thesis using a by simp
  next
    case False
    then have "block_execution uid (put_umi uid ?u s) = Inr s'" using rest by simp
    then have s': "s' = put_umi uid (?u\<lparr>u_context := True, u_blocked := True\<rparr>) (put_umi uid ?u s)"
      by (auto simp: block_execution_def with_umi_eq_Inr held_put_umi[OF id])
    have "held uid s' = Some (?u\<lparr>u_context := True, u_blocked := True\<rparr>)" unfolding s' using id by (intro held_put_umi) simp
    then show ?thesis by (simp add: s')
  qed
qed

theorem woken_context_enters_only_own_slot_witness:
  "\<exists>s' u. context_resumed 2 one_queued = Inr s' \<and> held 2 s' = Some u \<and> u_blocked u \<and> m_status s' = loaded"
proof -
  have inv: "mgr_inv one_queued" using mgr_reach_inv[OF reach_one_queued mgr_inv_init keeps_simple(1) keeps_simple(1)] .
  obtain s' where run: "context_resumed 2 one_queued = Inr s'"
    by (simp add: context_resumed_def with_umi_def one_queued_def one_loaded_def is_active_instance_def Id_def one_region_def
        put_umi_def request_slot_entry_def ActiveInstanceId_def block_execution_def Let_def)
  have one: "slot_id one_queued = Some 1" "m_status one_queued = loaded"
    by (simp_all add: slot_id_def one_queued_def one_loaded_def one_region_def)
  have "\<not> (active_umi s' = Some u \<and> u_id u = 2)" for u
    using slot_id_context_resumed[OF run inv] one(1) by (auto simp: slot_id_def)
  then show ?thesis using run woken_context_enters_only_own_slot[OF run inv] one(2) by auto
qed

lemma slot_bounds_nat:
  fixes n :: nat
  shows "(0xFFFFC00000000000 \<le> n \<and> n < 0xFFFFC07FFFFFFFFF) = (n div 0x8000000000 = 0x1FFFF80 \<and> n \<noteq> 0xFFFFC07FFFFFFFFF)"
proof -
  have "n div 0x8000000000 = 0x1FFFF80 \<longleftrightarrow> 0x1FFFF80 \<le> n div 0x8000000000 \<and> n div 0x8000000000 < 0x1FFFF81" by linarith
  also have "\<dots> \<longleftrightarrow> 0x1FFFF80 * 0x8000000000 \<le> n \<and> n < 0x1FFFF81 * 0x8000000000"
    by (simp only: less_eq_div_iff_mult_less_eq div_less_iff_less_mult zero_less_numeral)
  finally show ?thesis by linarith
qed

lemma valid_address_iff: "valid_address va \<longleftrightarrow> drop_bit 39 va = 0x1FFFF80 \<and> va \<noteq> kSlotEndVAddr"
proof -
  have "valid_address va \<longleftrightarrow> 0xFFFFC00000000000 \<le> unat va \<and> unat va < 0xFFFFC07FFFFFFFFF"
    by (auto simp: valid_address_def kSlotStartVAddr_def kSlotEndVAddr_def word_le_nat_alt word_less_nat_alt)
  moreover have "drop_bit 39 va = 0x1FFFF80 \<longleftrightarrow> unat va div 0x8000000000 = 0x1FFFF80"
    by (simp add: word_unat_eq_iff unsigned_drop_bit_eq drop_bit_eq_div unat_div)
  moreover have "va = kSlotEndVAddr \<longleftrightarrow> unat va = 0xFFFFC07FFFFFFFFF"
    by (simp add: word_unat_eq_iff kSlotEndVAddr_def)
  ultimately show ?thesis using slot_bounds_nat by blast
qed

lemma valid_address_lin_index: "valid_address va \<Longrightarrow> lin_index va 4 = kSlotPML4Offset"
proof -
  assume "valid_address va"
  then have "drop_bit 39 va = 0x1FFFF80" by (simp add: valid_address_iff)
  then show ?thesis by (simp add: lin_index_eq bf_get_def kSlotPML4Offset_def)
qed

text \<open>
  C38. The bounds of the slot: every address the fault handler accepts is translated through
  the slot's entry of the top-level table, and every address of the slot is accepted, except
  its last byte.
\<close>

theorem valid_address_bounds:
  "(valid_address va \<longleftrightarrow> drop_bit 39 va = 0x1FFFF80 \<and> va \<noteq> kSlotEndVAddr) \<and>
   (valid_address va \<longrightarrow> lin_index va 4 = kSlotPML4Offset)"
  using valid_address_iff valid_address_lin_index by blast

theorem valid_address_bounds_witness: "lin_index 0xFFFFC00000403010 4 = kSlotPML4Offset \<and> valid_address 0xFFFFC00000403010"
proof -
  have "valid_address 0xFFFFC00000403010" by (simp add: valid_address_def kSlotStartVAddr_def kSlotEndVAddr_def)
  then show ?thesis using valid_address_bounds[of "0xFFFFC00000403010"] by blast
qed

lemma lin_index_pfn_down: "lin_index (pfn_down va) l = lin_index va l"
proof -
  have "bf_get (12 + 9 * (l - 1)) 9 (pfn_down va) = bf_get (12 + 9 * (l - 1)) 9 va"
    by (rule bit_word_eqI) (auto simp: bf_get_def bit_take_bit_iff bit_drop_bit_eq bit_pfn_down)
  then show ?thesis by (simp add: lin_index_eq)
qed

text \<open>Within the slot, the three lower indices determine the page.\<close>

lemma slot_page_eq:
  assumes "valid_address a" "valid_address b" "\<forall>l \<in> {1..3}. lin_index a l = lin_index b l"
  shows "pfn_down a = pfn_down b"
proof (rule bit_word_eqI)
  fix k assume "k < LENGTH(64)"
  have hi: "bit a k = bit b k" if "39 \<le> k" for k
  proof -
    have "drop_bit 39 a = drop_bit 39 b" using assms(1,2) by (simp add: valid_address_iff)
    then have "bit (drop_bit 39 a) (k - 39) = bit (drop_bit 39 b) (k - 39)" by simp
    then show ?thesis using that by (simp add: bit_drop_bit_eq)
  qed
  have lo: "bit a k = bit b k" if "l \<in> {1..3}" "12 + 9 * (l - 1) \<le> k" "k < 12 + 9 * l" for k l
  proof -
    have "bf_get (12 + 9 * (l - 1)) 9 a = bf_get (12 + 9 * (l - 1)) 9 b"
    proof -
      have "lin_index a l = lin_index b l" using assms(3) that(1) by blast
      then show ?thesis unfolding lin_index_eq by (rule word_unat_eq_iff[THEN iffD2])
    qed
    then have "bit (bf_get (12 + 9 * (l - 1)) 9 a) (k - (12 + 9 * (l - 1))) = bit (bf_get (12 + 9 * (l - 1)) 9 b) (k - (12 + 9 * (l - 1)))"
      by simp
    moreover have "k - (12 + 9 * (l - 1)) < 9" using that by auto
    ultimately show ?thesis using that(2) by (simp add: bf_get_def bit_take_bit_iff bit_drop_bit_eq)
  qed
  consider "k < 12" | "39 \<le> k" | "12 \<le> k" "k < 21" | "21 \<le> k" "k < 30" | "30 \<le> k" "k < 39" by linarith
  then show "bit (pfn_down a) k = bit (pfn_down b) k"
    by cases (use hi lo[of 1 k] lo[of 2 k] lo[of 3 k] in \<open>auto simp: bit_pfn_down\<close>)
qed

text \<open>
  C6. A page fault of the running instance, end to end: on a writable region the handler
  returns, the faulting address then translates to a page that was free before, and the other
  addresses of the slot translate as before.
\<close>

theorem page_fault_handled:
  assumes "active_umi s = Some u" "m_status s \<noteq> empty" "m_status s \<noteq> snapshot" "valid_address va"
    and "slot_ok (ms s)" "answers (ms s) = p # ps"
    and "fresh_pages 4 (ms s) (insert (getPML4Root (ms s)) (tbls (mem (ms s)) 3 (slot_root (ms s))))"
    and "GetRegionOfAddr (sv_regions (u_sv u)) (pfn_down va) = Inr i"
    and "r_writable (sv_regions (u_sv u) ! i)" "r_page_order (sv_regions (u_sv u) ! i) = 0"
    and "fault_source (sv_regions (u_sv u) ! i) (pfn_down va) (ef_error_code ef) (ms s) = Some c"
  shows "\<exists>s'. HandleFault ef va s = Inr s' \<and> slot_ok (ms s') \<and> slot_id s' = slot_id s \<and> m_status s' = m_status s \<and>
     mmu (ms s') va = Some p \<and>
     (\<forall>a. valid_address a \<longrightarrow> pfn_down a \<noteq> pfn_down va \<longrightarrow> mmu (ms s') a = mmu (ms s) a)"
proof -
  obtain u' m' where run: "resolve_fault va (ef_error_code ef) u (ms s) = Inr (u', m')" and ok: "slot_ok m'"
    and tr: "\<forall>a. lin_index a 4 = 0x180 \<longrightarrow> mmu m' a =
        (if \<forall>l \<in> {1..3}. lin_index a l = lin_index (pfn_down va) l then Some p else mmu (ms s) a)"
    using resolve_fault_ok[OF assms(5-11)] by auto
  let ?s' = "s\<lparr>active_umi := Some u', ms := m'\<rparr>"
  have h: "HandleFault ef va s = Inr ?s'"
    using assms(1-4) run by (simp add: HandleFault_def process_pagefault_def with_active_def)
  have hit: "mmu m' va = Some p"
    using tr valid_address_lin_index[OF assms(4)] by (simp add: kSlotPML4Offset_def lin_index_pfn_down)
  have miss: "mmu m' a = mmu (ms s) a" if "valid_address a" "pfn_down a \<noteq> pfn_down va" for a
  proof -
    have "\<not> (\<forall>l \<in> {1..3}. lin_index a l = lin_index va l)"
    proof
      assume "\<forall>l \<in> {1..3}. lin_index a l = lin_index va l"
      moreover have "lin_index a 4 = lin_index va 4" using that(1) assms(4) by (simp add: valid_address_lin_index)
      ultimately have "pfn_down a = pfn_down va" using that(1) assms(4) by (intro slot_page_eq) auto
      then show False using that(2) by simp
    qed
    moreover have "lin_index a 4 = 0x180" using valid_address_lin_index[OF that(1)] by (simp add: kSlotPML4Offset_def)
    ultimately show ?thesis using tr unfolding lin_index_pfn_down by auto
  qed
  show ?thesis
    using h ok hit miss resolve_fault_id[OF run] assms(1) by (intro exI[of _ ?s']) (simp add: slot_id_def)
qed

theorem page_fault_handled_witness:
  "\<exists>s'. HandleFault (ef_zero\<lparr>ef_error_code := 2\<rparr>) 0xFFFFC00000403010
       (one_loaded\<lparr>active_umi := Some (one_region (Region_init\<lparr>r_name := ''usr'', r_start := 0xFFFFC00000400000,
            r_length := 0x100000, r_writable := True\<rparr>)), ms := empty_slot [0x5000, 0x6000, 0x7000, 0x8000]\<rparr>) = Inr s' \<and>
     mmu (ms s') 0xFFFFC00000403010 = Some 0x5000"
proof -
  let ?r = "Region_init\<lparr>r_name := ''usr'', r_start := 0xFFFFC00000400000, r_length := 0x100000, r_writable := True\<rparr>"
  let ?s = "one_loaded\<lparr>active_umi := Some (one_region ?r), ms := empty_slot [0x5000, 0x6000, 0x7000, 0x8000]\<rparr>"
  have sel: "active_umi ?s = Some (one_region ?r)" "m_status ?s \<noteq> empty" "m_status ?s \<noteq> snapshot"
    "valid_address 0xFFFFC00000403010" "ms ?s = empty_slot [0x5000, 0x6000, 0x7000, 0x8000]"
    "ef_error_code (ef_zero\<lparr>ef_error_code := 2\<rparr>) = 2"
    by (simp_all add: one_loaded_def valid_address_def kSlotStartVAddr_def kSlotEndVAddr_def)
  show ?thesis
    using page_fault_handled[OF sel(1-4), where ef = "ef_zero\<lparr>ef_error_code := 2\<rparr>", unfolded sel(5,6),
        OF empty_slot_ok(1,2) usr_fault(3,2,4-6)] by blast
qed

section \<open>Checkpoints\<close>

text \<open>
  The debug registers after a checkpoint was set: the address is in \<open>DR0\<close>, breakpoint 0 is
  enabled locally, on instruction execution with length 0, and the other bits are untouched.
\<close>

theorem set_snapshot_bits:
  "dr0 (ms (set_snapshot v s)) = v \<and> mem (ms (set_snapshot v s)) = mem (ms s) \<and>
   (k < 64 \<longrightarrow> bit (dr7 (ms (set_snapshot v s))) k = (if k = 0 then True else if k \<in> {16, 17, 18, 19} then False else bit (dr7 (ms s)) k))"
  by (auto simp: set_snapshot_def Let_def bit_set_bit_iff bit_unset_bit_iff)

theorem set_snapshot_bits_witness:
  "bit (dr7 (ms (set_snapshot 0xFFFFC00000403010 one_loaded))) 0"
  using set_snapshot_bits[where k = 0 and v = "0xFFFFC00000403010" and s = one_loaded] by simp

lemma fold_AddRegion:
  "sv_regions (fold AddRegion rs s) = sv_regions s @ rs" "sv_ef (fold AddRegion rs s) = sv_ef s"
  "sv_pth (fold AddRegion rs s) = sv_pth s"
  by (induction rs arbitrary: s) (simp_all add: AddRegion_def)

lemma flush_sel [simp]:
  "slot_root (flushTranslationCaches m) = slot_root m" "copy_budget (flushTranslationCaches m) r = copy_budget m r"
  "fresh_pages n (flushTranslationCaches m) T = fresh_pages n m T" "mem (flushTranslationCaches m) = mem m"
  by (simp_all add: slot_root_def copy_budget_def fresh_pages_def flushTranslationCaches_def getSlotRoot_def getPML4Root_def)

text \<open>Copying the slot's pages into a fresh handle.\<close>

lemma copyInPages_walk:
  assumes "wf_pt (mem m) 3 root" "root \<noteq> 0" "source_in (mem m) root S" "fresh_pages (copy_budget m root) m S"
  shows "\<exists>copy m'. copyInPages UmPth_init root m = kassert (copy \<noteq> 0) (Inr (\<lparr>p_root = copy, p_lvl = 3\<rparr>, m')) \<and>
     snapshot_of pte_RW m root S m' copy \<and> cr3 m' = cr3 m"
proof -
  let ?m = "flushTranslationCaches m"
  have pre: "wf_pt (mem ?m) 3 root" "source_in (mem ?m) root S" "fresh_pages (copy_budget ?m root) ?m S"
    using assms(1,3,4) by simp_all
  from copy_snapshot[OF pre(1) assms(2) pre(2,3), of pte_RW] obtain copy idx m' where
    run: "copy_walk (copy_leaf pte_RW) 3 root (0, slot_idx, ?m) = Inr (copy, idx, m')"
    and snap: "snapshot_of pte_RW ?m root S m' copy" by blast
  have snap': "snapshot_of pte_RW m root S m' copy"
    using snap unfolding snapshot_of_def snapshot_entry_def flush_sel .
  have cr: "cr3 m' = cr3 m" using copy_walk_cr3[OF run] by (simp add: mach_simps)
  have "walkPgTblCopyDirtyCOW root 0 3 ?m = Inr (copy, m')"
    by (simp add: walkPgTblCopyDirtyCOW_def walkPgTblCopyDirtyCOWHelper_def copy_leaf_eqs run)
  then have "copyInPages UmPth_init root m = kassert (copy \<noteq> 0) (Inr (\<lparr>p_root = copy, p_lvl = 3\<rparr>, m'))"
    by (simp add: copyInPages_def UmPth_init_def level_defs lamb_counts Let_def)
  then show ?thesis using snap' cr by blast
qed

lemma copyInPages_ok:
  assumes "wf_pt (mem m) 3 root" "root \<noteq> 0" "source_in (mem m) root S" "fresh_pages (copy_budget m root) m S"
    and "\<forall>j. ix j < 512" "pt_lookup (mem m) 3 root ix = Some e" "pte_DIRTY e"
  shows "\<exists>copy m'. copyInPages UmPth_init root m = Inr (\<lparr>p_root = copy, p_lvl = 3\<rparr>, m') \<and> copy \<noteq> 0 \<and>
     snapshot_of pte_RW m root S m' copy"
proof -
  obtain copy m' where run: "copyInPages UmPth_init root m = kassert (copy \<noteq> 0) (Inr (\<lparr>p_root = copy, p_lvl = 3\<rparr>, m'))"
    and snap: "snapshot_of pte_RW m root S m' copy"
    using copyInPages_walk[OF assms(1-4)] by blast
  have "snapshot_entry pte_RW m S m' copy (Some e) (pt_lookup (mem m') 3 copy ix)"
    using snap assms(5,6) unfolding snapshot_of_def by metis
  then have "pt_lookup (mem m') 3 copy ix \<noteq> None" using assms(7) by (auto simp: snapshot_entry_def split: if_splits)
  then have nz: "copy \<noteq> 0" by (metis pt_lookup.simps(2) numeral_3_eq_3)
  then show ?thesis using run snap by (intro exI[of _ copy] exI[of _ m']) simp
qed

text \<open>Taking a checkpoint of the running instance.\<close>

lemma process_checkpoint_ok:
  assumes "m_status s = active" "active_umi s = Some u" "u_snap_addr u \<noteq> 0" "u_snap_p u = Some []"
    and "slot_ok (ms s)" "slot_root (ms s) = root" "source_in (mem (ms s)) root S" "fresh_pages (copy_budget (ms s) root) (ms s) S"
    and "\<forall>j. ix j < 512" "pt_lookup (mem (ms s)) 3 root ix = Some e" "pte_DIRTY e" "root \<noteq> 0"
  shows "\<exists>v m' s'. process_checkpoint (\<lambda>_. Inr) ef s = Inr s' \<and>
     s' = s\<lparr>active_umi := Some (u\<lparr>u_snap_p := Some [v]\<rparr>), ms := m'\<rparr> \<and>
     sv_ef v = ef \<and> sv_regions v = sv_regions (u_sv u) \<and> Root (sv_pth v) \<noteq> 0 \<and> p_lvl (sv_pth v) = 3 \<and>
     snapshot_of pte_RW (ms s) root S m' (Root (sv_pth v))"
proof -
  have wf: "wf_pt (mem (ms s)) 3 root" using slot_okD(2)[OF assms(5)] assms(6) by simp
  obtain copy m' where cp: "copyInPages UmPth_init root (ms s) = Inr (\<lparr>p_root = copy, p_lvl = 3\<rparr>, m')"
    and nz: "copy \<noteq> 0" and snap: "snapshot_of pte_RW (ms s) root S m' copy"
    using copyInPages_ok[OF wf assms(12,7-11)] by blast
  let ?v = "(fold AddRegion (sv_regions (u_sv u)) (UmSV_init\<lparr>sv_ef := ef\<rparr>))\<lparr>sv_pth := \<lparr>p_root = copy, p_lvl = 3\<rparr>\<rparr>"
  have take: "take_snapshot ef u (ms s) = Inr (?v, m')"
    using cp assms(6) by (simp add: take_snapshot_def mgr_getSlotPDPTRoot_eq fold_AddRegion UmSV_init_def)
  have "process_checkpoint (\<lambda>_. Inr) ef s = Inr (s\<lparr>active_umi := Some (u\<lparr>u_snap_p := Some [?v]\<rparr>), ms := m'\<rparr>)"
    using assms(1-4) take
    by (simp add: process_checkpoint_def with_active_def set_status_def status_change_def Let_def)
  then show ?thesis using snap nz
    by (intro exI[of _ ?v] exI[of _ m'] exI[of _ "s\<lparr>active_umi := Some (u\<lparr>u_snap_p := Some [?v]\<rparr>), ms := m'\<rparr>"])
      (simp add: fold_AddRegion UmSV_init_def Root_def)
qed

text \<open>The running instance of the example: one dirty page in the slot, and a checkpoint set.\<close>

definition snap_mem :: "u64 \<Rightarrow> u64" where
  "snap_mem = (small_tree (pte_build 0x4000 True True True True False))
     (pte_at 0x9000 0x180 := pte_build 0x1000 False True True True False)"

definition snap_ready :: mgr where
  "snap_ready = one_loaded\<lparr>m_status := active,
     active_umi := Some ((one_region Region_init)\<lparr>u_snap_addr := 0xFFFFC00000001000, u_snap_p := Some []\<rparr>),
     ms := (mach_of snap_mem [0x5000, 0x6000, 0x7000, 0x8000])\<lparr>cr3 := 0x9000\<rparr>\<rparr>"

lemma snap_page: "pte_exists (pte_build 0x4000 True True True True False)"
  "ent_addr (pte_build 0x4000 True True True True False) = 0x4000"
  "pte_DIRTY (pte_build 0x4000 True True True True False)"
  by (simp_all add: pte_simps pg_ok_small)

lemma snap_cells: "same_cells (small_tree (pte_build 0x4000 True True True True False)) snap_mem {0x1000, 0x2000, 0x3000}"
  by (auto simp: same_cells_def snap_mem_def pg_ok_small)

lemma snap_tree:
  "wf_pt snap_mem 3 0x1000" "tbls snap_mem 3 0x1000 = {0x1000, 0x2000, 0x3000}"
  "source_in snap_mem 0x1000 {0x1000, 0x2000, 0x3000, 0x4000}"
  "pt_lookup snap_mem 3 0x1000 (\<lambda>l. 4 - l) = Some (pte_build 0x4000 True True True True False)"
  "length (leaves snap_mem 3 0x1000 idx) = 1"
proof -
  let ?h = "small_tree (pte_build 0x4000 True True True True False)"
  have t: "tbls ?h 3 0x1000 = {0x1000, 0x2000, 0x3000}"
    using small_tree_tbls(3)[OF snap_page(1)] by (simp add: numeral_3_eq_3)
  note wf = small_tree_wf[OF snap_page(1)]
  have sc: "same_cells ?h snap_mem (tbls ?h 3 0x1000)" using snap_cells t by simp
  note F = tree_frame[OF wf sc]
  show "wf_pt snap_mem 3 0x1000" "tbls snap_mem 3 0x1000 = {0x1000, 0x2000, 0x3000}" using F(1,2) t by simp_all
  show "source_in snap_mem 0x1000 {0x1000, 0x2000, 0x3000, 0x4000}"
    using small_tree_source[OF snap_page(1)] F(1,3) snap_page(2) by (simp add: source_in_def)
  show "pt_lookup snap_mem 3 0x1000 (\<lambda>l. 4 - l) = Some (pte_build 0x4000 True True True True False)"
    using F(3)[of "\<lambda>l. 4 - l"] by (simp add: small_tree_lookup[OF snap_page(1)])
  show "length (leaves snap_mem 3 0x1000 idx) = 1"
    by (simp add: leaves_frame[OF wf _ sc] small_tree_leaves[OF snap_page(1)])
qed

lemma snap_ready_sel:
  "m_status snap_ready = active"
  "active_umi snap_ready = Some ((one_region Region_init)\<lparr>u_snap_addr := 0xFFFFC00000001000, u_snap_p := Some []\<rparr>)"
  "ms snap_ready = (mach_of snap_mem [0x5000, 0x6000, 0x7000, 0x8000])\<lparr>cr3 := 0x9000\<rparr>"
  by (simp_all add: snap_ready_def)

lemma snap_slot:
  "slot_root (ms snap_ready) = 0x1000" "slot_ok (ms snap_ready)"
  "source_in (mem (ms snap_ready)) 0x1000 {0x1000, 0x2000, 0x3000, 0x4000}"
  "fresh_pages (copy_budget (ms snap_ready) 0x1000) (ms snap_ready) {0x1000, 0x2000, 0x3000, 0x4000}"
  "pt_lookup (mem (ms snap_ready)) 3 0x1000 (\<lambda>l. 4 - l) = Some (pte_build 0x4000 True True True True False)"
proof -
  have m: "mem (ms snap_ready) = snap_mem" "answers (ms snap_ready) = [0x5000, 0x6000, 0x7000, 0x8000]"
    and "cr3 (ms snap_ready) = 0x9000"
    by (simp_all add: snap_ready_def mach_of_def)
  moreover have "cr3ToAddr 0x9000 = 0x9000" by (simp add: cr3ToAddr_def) code_simp
  ultimately have r: "getPML4Root (ms snap_ready) = 0x9000" by (simp add: getPML4Root_def)
  have cell: "mem (ms snap_ready) (getSlotRoot (ms snap_ready)) = pte_build 0x1000 False True True True False"
    by (simp add: m r getSlotRoot_def kSlotPML4Offset_def snap_mem_def)
  have e: "pte_exists (pte_build 0x1000 False True True True False)" "ent_addr (pte_build 0x1000 False True True True False) = 0x1000"
    "\<not> pte_MAPS (pte_build 0x1000 False True True True False)"
    by (simp_all add: pte_simps pg_ok_small)
  show sr: "slot_root (ms snap_ready) = 0x1000" by (simp add: slot_root_def cell e)
  show "slot_ok (ms snap_ready)" by (simp add: slot_ok_def sr cell[unfolded m(1)] e r m(1) snap_tree(1,2))
  show "source_in (mem (ms snap_ready)) 0x1000 {0x1000, 0x2000, 0x3000, 0x4000}" by (simp add: m snap_tree(3))
  show "fresh_pages (copy_budget (ms snap_ready) 0x1000) (ms snap_ready) {0x1000, 0x2000, 0x3000, 0x4000}"
    by (simp add: copy_budget_def m snap_tree(5) fresh_pages_def pg_ok_small)
  show "pt_lookup (mem (ms snap_ready)) 3 0x1000 (\<lambda>l. 4 - l) = Some (pte_build 0x4000 True True True True False)"
    by (simp add: m snap_tree(4))
qed

text \<open>
  C12. Taking a checkpoint of the running instance: the client receives a state vector with the
  frame of the breakpoint and the instance's regions, whose page table holds copies of the
  dirty writable pages of the slot and shares its dirty read-only pages, while the slot itself
  and its pages are unchanged; afterwards the instance is active again.
\<close>

theorem checkpoint_captures:
  assumes "m_status s = active" "active_umi s = Some u" "u_snap_addr u \<noteq> 0" "u_snap_p u = Some []"
    and "slot_ok (ms s)" "slot_root (ms s) = root" "source_in (mem (ms s)) root S" "fresh_pages (copy_budget (ms s) root) (ms s) S"
    and "\<forall>j. ix j < 512" "pt_lookup (mem (ms s)) 3 root ix = Some e" "pte_DIRTY e" "root \<noteq> 0"
  shows "\<exists>v m' s'. process_checkpoint (\<lambda>_. Inr) ef s = Inr s' \<and>
     s' = s\<lparr>active_umi := Some (u\<lparr>u_snap_p := Some [v]\<rparr>), ms := m'\<rparr> \<and>
     sv_ef v = ef \<and> sv_regions v = sv_regions (u_sv u) \<and> Root (sv_pth v) \<noteq> 0 \<and> p_lvl (sv_pth v) = 3 \<and>
     snapshot_of pte_RW (ms s) root S m' (Root (sv_pth v))"
  using assms by (rule process_checkpoint_ok)

theorem checkpoint_captures_witness:
  "\<exists>v m' s'. process_checkpoint (\<lambda>_. Inr) ef_zero snap_ready = Inr s' \<and>
     active_umi s' = Some ((one_region Region_init)\<lparr>u_snap_addr := 0xFFFFC00000001000, u_snap_p := Some [v]\<rparr>) \<and>
     snapshot_of pte_RW (ms snap_ready) 0x1000 {0x1000, 0x2000, 0x3000, 0x4000} m' (Root (sv_pth v))"
proof -
  have a: "\<forall>j. 4 - j < (512::nat)" by (simp add: less_imp_diff_less)
  from checkpoint_captures[OF snap_ready_sel(1,2) _ _ snap_slot(2,1,3,4) a snap_slot(5) snap_page(3), of ef_zero]
  obtain v m' s' where
    "process_checkpoint (\<lambda>_. Inr) ef_zero snap_ready = Inr s'"
    "s' = snap_ready\<lparr>active_umi := Some ((one_region Region_init)\<lparr>u_snap_addr := 0xFFFFC00000001000,
        u_snap_p := Some []\<rparr>\<lparr>u_snap_p := Some [v]\<rparr>), ms := m'\<rparr>"
    "snapshot_of pte_RW (ms snap_ready) 0x1000 {0x1000, 0x2000, 0x3000, 0x4000} m' (Root (sv_pth v))" by auto
  then show ?thesis by (intro exI[of _ v] exI[of _ m'] exI[of _ s']) simp
qed

text \<open>
  A checkpoint can be taken once: the snapshot address is never cleared, so when the
  breakpoint is reached again after a checkpoint, the handler cannot return normally (the
  promise would be set twice), whatever the client does.
\<close>

theorem checkpoint_only_once:
  assumes "process_checkpoint (\<lambda>_. Inr) ef s = Inr s1" "active_umi s = Some u" "u_snap_addr u \<noteq> 0"
  shows "process_checkpoint snap ef' s1 \<noteq> Inr s2"
proof -
  have "u_snap_p u = Some []"
    using assms
    by (cases "u_snap_p u"; cases "the (u_snap_p u)")
      (auto simp: process_checkpoint_def kassert_eq_Inr with_active_def and_then_eq_Inr Let_def)
  with assms obtain v where "active_umi s1 = Some (u\<lparr>u_snap_p := Some [v]\<rparr>)"
    by (auto simp: process_checkpoint_def kassert_eq_Inr with_active_def and_then_eq_Inr Let_def set_status_eq_Inr)
  then show ?thesis using assms(3)
    by (auto simp: process_checkpoint_def kassert_eq_Inr with_active_def and_then_eq_Inr Let_def)
qed

theorem checkpoint_only_once_witness:
  "\<exists>s1. process_checkpoint (\<lambda>_. Inr) ef_zero snap_ready = Inr s1 \<and>
     (\<forall>s2. process_checkpoint (\<lambda>_. Inr) ef_zero s1 \<noteq> Inr s2)"
proof -
  have a: "\<forall>j. 4 - j < (512::nat)" by (simp add: less_imp_diff_less)
  from process_checkpoint_ok[OF snap_ready_sel(1,2) _ _ snap_slot(2,1,3,4) a snap_slot(5) snap_page(3), of ef_zero]
  obtain s1 where run: "process_checkpoint (\<lambda>_. Inr) ef_zero snap_ready = Inr s1" by auto
  show ?thesis
    using run checkpoint_only_once[OF run snap_ready_sel(2)] by (intro exI[of _ s1]) simp
qed

end
