(* ===== verification/Umm_Deploy.thy ===== *)
theory Umm_Deploy
  imports Umm_Slot
begin

text \<open>
  From a checkpoint to a new instance: the composition of \<open>UmManager::process_checkpoint\<close>
  (\<^verbatim>\<open>src/src/UmManager.cc\<close>), the constructor \<open>UmInstance(const UmSV &)\<close> with the copies it runs
  (\<^verbatim>\<open>UmInstance.cc\<close>, \<^verbatim>\<open>UmSV.cc\<close>, \<^verbatim>\<open>UmPth.cc\<close>, \<^verbatim>\<open>UmPgTblMgr.cc\<close>), \<open>UmManager::Load\<close> and the
  page faults of the instance deployed. It has no operations of its own: it states what a
  snapshot is worth to its users.
\<close>

section \<open>Pages of a snapshot\<close>

text \<open>
  The machine \<open>m'\<close> shows in its slot what the tree at \<open>root\<close> held in \<open>m\<close>: every dirty page at
  its address, with its contents, and no other page.
\<close>

definition shows_pages :: "mach \<Rightarrow> u64 \<Rightarrow> mach \<Rightarrow> bool" where
  "shows_pages m root m' \<longleftrightarrow>
     (\<forall>va. lin_index va 4 = 0x180 \<longrightarrow>
       (case pt_lookup (mem m) 3 root (lin_index va) of
          Some e \<Rightarrow>
            if pte_DIRTY e
            then \<exists>f. mmu m' va = Some f \<and> (\<forall>j < 512. mem m' (pte_at f j) = mem m (pte_at (ent_addr e) j))
            else mmu m' va = None
        | None \<Rightarrow> mmu m' va = None))"

lemma snapshot_ofD:
  assumes "snapshot_of deep m root S m' copy"
  shows "wf_pt (mem m') 3 copy" "tbls (mem m') 3 copy \<inter> S = {}"
    "t \<in> S \<Longrightarrow> j < 512 \<Longrightarrow> pg_ok t \<Longrightarrow> mem m' (pte_at t j) = mem m (pte_at t j)"
    "(\<And>j. ix j < 512) \<Longrightarrow> snapshot_entry deep m S m' copy (pt_lookup (mem m) 3 root ix) (pt_lookup (mem m') 3 copy ix)"
  using assms unfolding snapshot_of_def by blast+

text \<open>What a snapshot's entry says of the frame it maps.\<close>

lemma snapshot_frame:
  assumes "snapshot_of deep m root S m' copy" "source_in (mem m) root S" "\<And>j. ix j < 512"
    and "pt_lookup (mem m) 3 root ix = Some e" "pte_DIRTY e"
  shows "\<exists>e'. pt_lookup (mem m') 3 copy ix = Some e' \<and> pte_DIRTY e' \<and>
     (\<forall>j < 512. mem m' (pte_at (ent_addr e') j) = mem m (pte_at (ent_addr e) j))"
proof -
  have E: "snapshot_entry deep m S m' copy (Some e) (pt_lookup (mem m') 3 copy ix)"
    using snapshot_ofD(4)[OF assms(1), of ix, OF assms(3)] assms(4) by simp
  show ?thesis
  proof (cases "deep e")
    case True
    then obtain p where "pg_ok p" "pt_lookup (mem m') 3 copy ix = Some (pte_build p True True True True False)"
      "\<forall>j < 512. mem m' (pte_at p j) = mem m (pte_at (ent_addr e) j)"
      using E assms(5) by (auto simp: snapshot_entry_def)
    then show ?thesis by (simp add: pte_simps)
  next
    case False
    then have "pt_lookup (mem m') 3 copy ix = Some (pte_build (ent_addr e) True True False True False)"
      using E assms(5) by (simp add: snapshot_entry_def)
    moreover have "ent_addr e \<in> S" using assms(2-5) unfolding source_in_def by blast
    ultimately show ?thesis using snapshot_ofD(3)[OF assms(1)] by (simp add: pte_simps)
  qed
qed

lemma snapshot_none:
  assumes "snapshot_of deep m root S m' copy" "\<And>j. ix j < 512"
    and "\<And>e. pt_lookup (mem m) 3 root ix = Some e \<Longrightarrow> \<not> pte_DIRTY e"
  shows "pt_lookup (mem m') 3 copy ix = None"
  using snapshot_ofD(4)[OF assms(1), of ix, OF assms(2)] assms(3)
  by (cases "pt_lookup (mem m) 3 root ix") (auto simp: snapshot_entry_def)

text \<open>The tree of a snapshot and its pages stay what they are while no cell of theirs is written.\<close>

lemma snapshot_kept:
  assumes "wf_pt (mem m) 3 root" "source_in (mem m) root T" "same_cells (mem m) (mem m') T"
  shows "wf_pt (mem m') 3 root" "source_in (mem m') root T"
    "(\<And>j. ix j < 512) \<Longrightarrow> pt_lookup (mem m') 3 root ix = pt_lookup (mem m) 3 root ix"
proof -
  have "same_cells (mem m) (mem m') (tbls (mem m) 3 root)"
    using assms(2,3) same_cells_mono unfolding source_in_def by blast
  note F = tree_frame[OF assms(1) this]
  show "wf_pt (mem m') 3 root" by (rule F(2))
  show look: "(\<And>j. ix j < 512) \<Longrightarrow> pt_lookup (mem m') 3 root ix = pt_lookup (mem m) 3 root ix" for ix by (rule F(3))
  show "source_in (mem m') root T" using assms(2) F(1) look unfolding source_in_def by auto
qed

section \<open>A new instance of a snapshot\<close>

lemma UmInstance_new_copy:
  assumes "p_lvl (sv_pth v) = 3" "Root (sv_pth v) \<noteq> 0" "wf_pt (mem m) 3 (Root (sv_pth v))"
    and "source_in (mem m) (Root (sv_pth v)) T" "fresh_pages (copy_budget m (Root (sv_pth v))) m T"
  shows "\<exists>u m'. UmInstance_new v n m = Inr (u, n + 1, m') \<and> u_id u = n + 1 \<and>
     sv_ef (u_sv u) = sv_ef v \<and> sv_regions (u_sv u) = sv_regions v \<and>
     snapshot_of (\<lambda>_. False) m (Root (sv_pth v)) T m' (Root (sv_pth (u_sv u))) \<and> cr3 m' = cr3 m"
proof -
  from copy_snapshot[OF assms(3,2,4,5), of "\<lambda>_. False"] obtain copy idx m' where
    run: "copy_walk (copy_leaf (\<lambda>_. False)) 3 (Root (sv_pth v)) (0, slot_idx, m) = Inr (copy, idx, m')"
    and snap: "snapshot_of (\<lambda>_. False) m (Root (sv_pth v)) T m' copy" by blast
  have "UmSV_copy v m = Inr (\<lparr>sv_regions = sv_regions v, sv_ef = sv_ef v, sv_pth = \<lparr>p_root = copy, p_lvl = 3\<rparr>\<rparr>, m')"
    using assms(1,2) run
    by (simp add: UmSV_copy_def UmPth_assign_def UmPth_init_def walkPgTblCOW_def walkPgTblCOWHelper_def copy_leaf_eqs Root_def)
  then show ?thesis using snap copy_walk_cr3[OF run] by (simp add: UmInstance_new_def Root_def Let_def)
qed

text \<open>
  Loading an instance whose page table was copied from the tree at \<open>root\<close>: the slot shows the
  pages of that tree.
\<close>

lemma load_shows:
  assumes snap: "snapshot_of (\<lambda>_. False) m root (insert (getPML4Root m) T) m' (Root (sv_pth (u_sv u)))"
    and src: "source_in (mem m) root T" and cr: "cr3 m' = cr3 m"
    and pml4: "getPML4Root m \<noteq> 0" "getPML4Root m \<notin> T" "mem m (getSlotRoot m) = 0" and s: "m_status s = empty" "ms s = m'"
  shows "\<exists>s3. Load u s = Inr (True, s3) \<and> active_umi s3 = Some u \<and> slot_ok (ms s3) \<and>
     same_cells (mem m) (mem (ms s3)) T \<and> tbls (mem (ms s3)) 3 (slot_root (ms s3)) \<inter> T = {} \<and>
     getPML4Root (ms s3) = getPML4Root m \<and> shows_pages m root (ms s3)"
proof -
  let ?R = "getPML4Root m" and ?r = "Root (sv_pth (u_sv u))"
  note D = snapshot_ofD[OF snap]
  have src': "source_in (mem m) root (insert ?R T)" using src unfolding source_in_def by blast
  have R': "getPML4Root m' = ?R" "getSlotRoot m' = getSlotRoot m" using cr by (simp_all add: getSlotRoot_def getPML4Root_def)
  have z: "mem m' (getSlotRoot m') = 0" using D(3)[of ?R "0x180"] pml4(3) by (simp add: slot_cell R')
  have rk: "?r = 0 \<or> pg_ok ?r" using wf_pt_pg_ok[OF D(1)] by auto
  obtain s3 where l: "slot_load_instance u s = Inr (u_id u, s3)" and r3: "slot_root (ms s3) = ?r" "cr3 (ms s3) = cr3 m'"
    and m3: "mem (ms s3) = (mem m')(getSlotRoot m' := (if ?r = 0 then 0 else pte_build ?r False True True True False))"
    using slot_load_run[OF s(1), of u ?r] z rk s(2) by auto
  have ld: "Load u s = Inr (True, s3)" "active_umi s3 = Some u" using s(1) l slot_load_spec[OF l] by (simp_all add: Load_def)
  have R3: "getPML4Root (ms s3) = ?R" using r3(2) R'(1) by (simp add: getPML4Root_def)
  have cell: "mem (ms s3) (pte_at t j) = mem m' (pte_at t j)" if "pg_ok t" "j < 512" "t \<noteq> ?R" for t j
    using that by (simp add: m3 slot_cell R')
  have notin: "?R \<notin> tbls (mem m') 3 ?r" "tbls (mem m') 3 ?r \<inter> T = {}" using D(2) by auto
  have "same_cells (mem m') (mem (ms s3)) (tbls (mem m') 3 ?r)" using cell notin(1) by (auto simp: same_cells_def)
  note F = tree_frame[OF D(1) this]
  have ok: "slot_ok (ms s3)"
    unfolding slot_ok_def r3(1) R3 using F(1,2) notin(1) pml4(1) rk z
    by (auto simp: m3 slot_cell R' R3 pte_simps)
  have sc: "same_cells (mem m) (mem (ms s3)) T"
    unfolding same_cells_def using cell D(3) pml4(2) by (metis insertI2)
  have look: "mmu (ms s3) va = map_option ent_addr (pt_lookup (mem m') 3 ?r (lin_index va))" if "lin_index va 4 = 0x180" for va
    using mmu_slot[OF ok that] F(3)[of "lin_index va"] by (simp add: r3(1))
  have sh: "shows_pages m root (ms s3)"
    unfolding shows_pages_def
  proof (intro allI impI)
    fix va assume va: "lin_index va 4 = 0x180"
    show "case pt_lookup (mem m) 3 root (lin_index va) of
          Some e \<Rightarrow> if pte_DIRTY e then \<exists>f. mmu (ms s3) va = Some f \<and> (\<forall>j < 512. mem (ms s3) (pte_at f j) = mem m (pte_at (ent_addr e) j))
                    else mmu (ms s3) va = None
        | None \<Rightarrow> mmu (ms s3) va = None"
    proof (cases "\<exists>e. pt_lookup (mem m) 3 root (lin_index va) = Some e \<and> pte_DIRTY e")
      case True
      then obtain e where e: "pt_lookup (mem m) 3 root (lin_index va) = Some e" "pte_DIRTY e" by blast
      have "snapshot_entry (\<lambda>_. False) m (insert ?R T) m' ?r (Some e) (pt_lookup (mem m') 3 ?r (lin_index va))"
        using D(4)[of "lin_index va"] e(1) by simp
      then have "mmu (ms s3) va = Some (ent_addr e)" using e(2) by (simp add: look[OF va] snapshot_entry_def pte_simps)
      moreover have "ent_addr e \<in> T" using src e unfolding source_in_def by (meson lin_index_bound)
      ultimately show ?thesis using sc e by (simp add: same_cells_def)
    next
      case False
      then have "pt_lookup (mem m') 3 ?r (lin_index va) = None" by (intro snapshot_none[OF snap]) auto
      then show ?thesis using False by (auto simp: look[OF va] split: option.splits)
    qed
  qed
  show ?thesis using ld ok sc R3 sh F(1) notin(2) r3(1) by auto
qed

text \<open>Two steps compose: a snapshot, kept, and what shows its pages.\<close>

lemma shows_snapshot:
  assumes snap: "snapshot_of deep m root S m1 copy" "source_in (mem m) root S"
    and kept: "source_in (mem m1) copy T" "same_cells (mem m1) (mem m2) T"
    and sh: "shows_pages m2 copy m3"
  shows "shows_pages m root m3"
  unfolding shows_pages_def
proof (intro allI impI)
  fix va assume va: "lin_index va 4 = 0x180"
  have look: "pt_lookup (mem m2) 3 copy (lin_index va) = pt_lookup (mem m1) 3 copy (lin_index va)"
    by (rule snapshot_kept(3)[OF snapshot_ofD(1)[OF snap(1)] kept]) simp
  show "case pt_lookup (mem m) 3 root (lin_index va) of
        Some e \<Rightarrow> if pte_DIRTY e then \<exists>f. mmu m3 va = Some f \<and> (\<forall>j < 512. mem m3 (pte_at f j) = mem m (pte_at (ent_addr e) j))
                  else mmu m3 va = None
      | None \<Rightarrow> mmu m3 va = None"
  proof (cases "\<exists>e. pt_lookup (mem m) 3 root (lin_index va) = Some e \<and> pte_DIRTY e")
    case True
    then obtain e where e: "pt_lookup (mem m) 3 root (lin_index va) = Some e" "pte_DIRTY e" by blast
    obtain e' where e': "pt_lookup (mem m1) 3 copy (lin_index va) = Some e'" "pte_DIRTY e'"
      and c: "\<forall>j < 512. mem m1 (pte_at (ent_addr e') j) = mem m (pte_at (ent_addr e) j)"
      using snapshot_frame[OF snap, of "lin_index va" e] e by auto
    obtain f where f: "mmu m3 va = Some f" "\<forall>j < 512. mem m3 (pte_at f j) = mem m2 (pte_at (ent_addr e') j)"
      using sh va look e' unfolding shows_pages_def by fastforce
    have "ent_addr e' \<in> T" using kept(1) e' unfolding source_in_def by (meson lin_index_bound)
    then have "\<forall>j < 512. mem m3 (pte_at f j) = mem m (pte_at (ent_addr e) j)"
      using f(2) kept(2) c by (simp add: same_cells_def)
    then show ?thesis using e f(1) by simp
  next
    case False
    then have "pt_lookup (mem m1) 3 copy (lin_index va) = None" by (intro snapshot_none[OF snap(1)]) auto
    then have "mmu m3 va = None" using sh va look unfolding shows_pages_def by fastforce
    then show ?thesis using False by (auto split: option.splits)
  qed
qed

section \<open>Properties\<close>

text \<open>
  C2. Deploying a snapshot restores the memory it was taken of. A checkpoint of a running
  instance delivers a state vector; later, on any core whose slot is empty and whose machine
  still has the pages of the snapshot, an instance constructed from it and loaded starts with
  the frame of the breakpoint and the regions of the first instance, and its slot shows the
  dirty pages the slot had at the checkpoint, at the same addresses and with the same
  contents, and no other page; the tables of its slot are its own and no page of the snapshot
  is written.
\<close>

theorem snapshot_deploys:
  assumes "m_status s = active" "active_umi s = Some u" "u_snap_addr u \<noteq> 0" "u_snap_p u = Some []"
    and "slot_ok (ms s)" "slot_root (ms s) = root" "source_in (mem (ms s)) root S" "fresh_pages (copy_budget (ms s) root) (ms s) S"
    and "\<forall>j. ix j < 512" "pt_lookup (mem (ms s)) 3 root ix = Some e" "pte_DIRTY e" "root \<noteq> 0"
    and "process_checkpoint (\<lambda>_. Inr) ef s = Inr s1" "active_umi s1 = Some u1" "u_snap_p u1 = Some [v]"
    and "source_in (mem (ms s1)) (Root (sv_pth v)) T" "same_cells (mem (ms s1)) (mem m2) T"
    and "getPML4Root m2 \<noteq> 0" "getPML4Root m2 \<notin> T" "mem m2 (getSlotRoot m2) = 0" "m_status s2 = empty"
    and "fresh_pages (copy_budget m2 (Root (sv_pth v))) m2 (insert (getPML4Root m2) T)"
  shows "\<exists>u3 m3 s3. UmInstance_new v n m2 = Inr (u3, n + 1, m3) \<and> Load u3 (s2\<lparr>ms := m3\<rparr>) = Inr (True, s3) \<and>
     active_umi s3 = Some u3 \<and> sv_ef (u_sv u3) = ef \<and> sv_regions (u_sv u3) = sv_regions (u_sv u) \<and>
     slot_ok (ms s3) \<and> shows_pages (ms s) root (ms s3) \<and>
     same_cells (mem m2) (mem (ms s3)) T \<and> tbls (mem (ms s3)) 3 (slot_root (ms s3)) \<inter> T = {}"
proof -
  obtain v' m' where v: "s1 = s\<lparr>active_umi := Some (u\<lparr>u_snap_p := Some [v']\<rparr>), ms := m'\<rparr>" "sv_ef v' = ef"
      "sv_regions v' = sv_regions (u_sv u)" "Root (sv_pth v') \<noteq> 0" "p_lvl (sv_pth v') = 3"
      "snapshot_of pte_RW (ms s) root S m' (Root (sv_pth v'))"
    using process_checkpoint_ok[OF assms(1-12), of ef] assms(13) by auto
  have vv: "v' = v" "ms s1 = m'" using v(1) assms(14,15) by auto
  note V = v(2-6)[unfolded vv]
  have T: "source_in (mem m') (Root (sv_pth v)) T" "same_cells (mem m') (mem m2) T" using assms(16,17) vv(2) by simp_all
  note K = snapshot_kept[OF snapshot_ofD(1)[OF V(5)] T]
  have src: "source_in (mem m2) (Root (sv_pth v)) (insert (getPML4Root m2) T)" using K(2) unfolding source_in_def by blast
  obtain u3 m3 where n: "UmInstance_new v n m2 = Inr (u3, n + 1, m3)" "sv_ef (u_sv u3) = ef"
      "sv_regions (u_sv u3) = sv_regions (u_sv u)" "cr3 m3 = cr3 m2"
    and sn: "snapshot_of (\<lambda>_. False) m2 (Root (sv_pth v)) (insert (getPML4Root m2) T) m3 (Root (sv_pth (u_sv u3)))"
    using UmInstance_new_copy[OF V(4,3) K(1) src assms(22), of n] V(1,2) by auto
  have s2: "m_status (s2\<lparr>ms := m3\<rparr>) = empty" "ms (s2\<lparr>ms := m3\<rparr>) = m3" using assms(21) by simp_all
  obtain s3 where l: "Load u3 (s2\<lparr>ms := m3\<rparr>) = Inr (True, s3)" "active_umi s3 = Some u3" "slot_ok (ms s3)"
      "same_cells (mem m2) (mem (ms s3)) T" "tbls (mem (ms s3)) 3 (slot_root (ms s3)) \<inter> T = {}"
      "shows_pages m2 (Root (sv_pth v)) (ms s3)"
    using load_shows[OF sn K(2) n(4) assms(18-20) s2] by blast
  have "shows_pages (ms s) root (ms s3)" by (rule shows_snapshot[OF V(5) assms(7) T l(6)])
  then show ?thesis using n(1-3) l(1-5) by blast
qed

lemma leaves_length: "length (leaves h l root idx) \<le> 512 ^ l"
proof (induction l arbitrary: root idx)
  case (Suc l)
  have "length (leaves h (Suc l) root idx) \<le> (\<Sum>i \<leftarrow> [0 ..< 512]. 512 ^ l)"
    unfolding leaves.simps length_concat map_map comp_def
    by (rule sum_list_mono) (use Suc.IH in \<open>simp add: Let_def Suc_leI\<close>)
  then show ?case by (simp add: sum_list_const_mult map_replicate_const sum_list_replicate)
qed simp

text \<open>The machine of the core the example is deployed on: plenty of free pages from \<open>0x10000\<close> on.\<close>

definition deploy_mach :: "mach \<Rightarrow> mach" where
  "deploy_mach m = m\<lparr>mem := (mem m)(pte_at 0xA000 0x180 := 0), cr3 := 0xA000,
     answers := map (\<lambda>i. push_bit 12 (of_nat (i + 16))) [0 ..< 4 * 512 ^ 3]\<rparr>"

lemma deploy_mach_ok:
  "getPML4Root (deploy_mach m) = 0xA000" "mem (deploy_mach m) (getSlotRoot (deploy_mach m)) = 0"
  "same_cells (mem m) (mem (deploy_mach m)) {0x5000, 0x6000, 0x7000, 0x8000}"
  "fresh_pages (copy_budget (deploy_mach m) r) (deploy_mach m) (insert 0xA000 {0x5000, 0x6000, 0x7000, 0x8000})"
proof -
  have "cr3ToAddr 0xA000 = 0xA000" by (simp add: cr3ToAddr_def) code_simp
  then show r: "getPML4Root (deploy_mach m) = 0xA000" by (simp add: getPML4Root_def deploy_mach_def)
  show "mem (deploy_mach m) (getSlotRoot (deploy_mach m)) = 0" by (simp add: slot_cell r) (simp add: deploy_mach_def)
  have pA: "pg_ok 0xA000" by (simp add: pg_ok_iff)
  show "same_cells (mem m) (mem (deploy_mach m)) {0x5000, 0x6000, 0x7000, 0x8000}"
    using pA by (auto simp: same_cells_def deploy_mach_def)
  let ?f = "\<lambda>i. push_bit 12 (of_nat (i + 16)) :: u64"
  let ?n = "copy_budget (deploy_mach m) r"
  have n: "?n \<le> 4 * 512 ^ 3" using leaves_length[of "mem (deploy_mach m)" 3 r slot_idx] by (simp add: copy_budget_def)
  have u: "unat (?f i) = 4096 * (i + 16)" if "i < 4 * 512 ^ 3" for i
  proof -
    have "of_nat (4096 * (i + 16)) = ?f i" by (simp add: push_bit_eq_mult)
    then show ?thesis by (rule of_nat_inverse) (use that in simp)
  qed
  have tk: "take ?n (answers (deploy_mach m)) = map ?f [0 ..< ?n]" using n by (simp add: deploy_mach_def take_map min_def)
  have inj: "inj_on ?f {0 ..< ?n}"
  proof (rule inj_onI)
    fix i j assume "i \<in> {0 ..< ?n}" "j \<in> {0 ..< ?n}" "?f i = ?f j"
    then have "4096 * (i + 16) = 4096 * (j + 16)" using u[of i] u[of j] n by (metis atLeastLessThan_iff order.strict_trans2)
    then show "i = j" by simp
  qed
  have big: "?f i \<notin> insert 0 (insert 0xA000 {0x5000, 0x6000, 0x7000, 0x8000})" if "i < ?n" for i
    using u[of i] that n by auto
  show "fresh_pages ?n (deploy_mach m) (insert 0xA000 {0x5000, 0x6000, 0x7000, 0x8000})"
  proof -
    have pg: "pg_ok (?f i)" if "i < ?n" for i by (rule pg_ok_of_nat) (use that n in simp)
    have "?n \<le> length (answers (deploy_mach m))" using n by (simp add: deploy_mach_def)
    moreover have "distinct (map ?f [0 ..< ?n])" using inj by (simp only: distinct_map distinct_upt set_upt)
    moreover have "\<forall>p \<in> set (map ?f [0 ..< ?n]). pg_ok p \<and> p \<noteq> 0 \<and> p \<notin> insert 0xA000 {0x5000, 0x6000, 0x7000, 0x8000}"
    proof
      fix p assume "p \<in> set (map ?f [0 ..< ?n])"
      then obtain i where "i < ?n" "p = ?f i" unfolding set_map set_upt by fastforce
      then show "pg_ok p \<and> p \<noteq> 0 \<and> p \<notin> insert 0xA000 {0x5000, 0x6000, 0x7000, 0x8000}" using big pg by simp
    qed
    ultimately show ?thesis unfolding fresh_pages_def tk by blast
  qed
qed

lemma snap_lookup:
  assumes "\<And>j. ix j < 512" "pt_lookup snap_mem 3 0x1000 ix = Some e"
  shows "e = pte_build 0x4000 True True True True False"
proof -
  let ?h = "small_tree (pte_build 0x4000 True True True True False)"
  have "same_cells ?h snap_mem (tbls ?h 3 0x1000)"
    using snap_cells small_tree_tbls(3)[OF snap_page(1)] by (simp add: numeral_3_eq_3)
  from tree_frame(3)[OF small_tree_wf[OF snap_page(1)] this assms(1)] show ?thesis
    using assms(2) by (simp add: small_tree_lookup[OF snap_page(1) assms(1)] split: if_splits)
qed

theorem snapshot_deploys_witness:
  "\<exists>s1 v u3 m3 s3. process_checkpoint (\<lambda>_. Inr) ef_zero snap_ready = Inr s1 \<and>
     UmInstance_new v 7 (deploy_mach (ms s1)) = Inr (u3, 8, m3) \<and>
     Load u3 ((mgr_init (deploy_mach (ms s1)))\<lparr>ms := m3\<rparr>) = Inr (True, s3) \<and> shows_pages (ms snap_ready) 0x1000 (ms s3)"
proof -
  let ?T = "{0x5000, 0x6000, 0x7000, 0x8000} :: u64 set" and ?m = "ms snap_ready"
  have lt: "\<forall>j. 4 - j < (512::nat)" by (simp add: less_imp_diff_less)
  have "{0x1000, 0x2000, 0x3000, 0x4000} \<subseteq> - ?T" by simp
  then have src: "source_in (mem ?m) 0x1000 (- ?T)" using snap_slot(3) unfolding source_in_def by blast
  have "set (answers ?m) = ?T" by (simp add: snap_ready_sel(3))
  then have "set (take (copy_budget ?m 0x1000) (answers ?m)) \<subseteq> ?T" using set_take_subset[of _ "answers ?m"] by blast
  then have fr: "fresh_pages (copy_budget ?m 0x1000) ?m (- ?T)" using snap_slot(4) unfolding fresh_pages_def by blast
  let ?u = "(one_region Region_init)\<lparr>u_snap_addr := 0xFFFFC00000001000, u_snap_p := Some []\<rparr>"
  have pre: "u_snap_addr ?u \<noteq> 0" "u_snap_p ?u = Some []" "(0x1000 :: u64) \<noteq> 0" by simp_all
  note C = process_checkpoint_ok[OF snap_ready_sel(1,2) pre(1,2) snap_slot(2,1) src fr lt snap_slot(5) snap_page(3) pre(3), of ef_zero]
  obtain v m' s1 where run: "process_checkpoint (\<lambda>_. Inr) ef_zero snap_ready = Inr s1"
    and s1': "s1 = snap_ready\<lparr>active_umi := Some (?u\<lparr>u_snap_p := Some [v]\<rparr>), ms := m'\<rparr>"
    and sn: "snapshot_of pte_RW ?m 0x1000 (- ?T) m' (Root (sv_pth v))" using C by blast
  have s1: "active_umi s1 = Some (?u\<lparr>u_snap_p := Some [v]\<rparr>)" "ms s1 = m'" "u_snap_p (?u\<lparr>u_snap_p := Some [v]\<rparr>) = Some [v]"
    by (simp_all add: s1')
  note D = snapshot_ofD[OF sn]
  have "ent_addr e' \<in> ?T" if "\<forall>j. ix j < 512" "pt_lookup (mem m') 3 (Root (sv_pth v)) ix = Some e'" for ix e'
  proof -
    have E: "snapshot_entry pte_RW ?m (- ?T) m' (Root (sv_pth v)) (pt_lookup snap_mem 3 0x1000 ix) (Some e')"
      using D(4)[of ix] that by (simp add: snap_ready_sel(3))
    show ?thesis
    proof (cases "pt_lookup snap_mem 3 0x1000 ix")
      case (Some e)
      then have "e = pte_build 0x4000 True True True True False" by (intro snap_lookup) (use that(1) in auto)
      then show ?thesis using E Some by (auto simp: snapshot_entry_def pte_simps pg_ok_small)
    qed (use E in \<open>simp add: snapshot_entry_def\<close>)
  qed
  then have T: "source_in (mem (ms s1)) (Root (sv_pth v)) ?T" using D(2) s1(2) unfolding source_in_def by auto
  have dep: "getPML4Root (deploy_mach m') \<noteq> 0" "getPML4Root (deploy_mach m') \<notin> ?T" by (simp_all add: deploy_mach_ok)
  have fr2: "fresh_pages (copy_budget (deploy_mach m') (Root (sv_pth v))) (deploy_mach m') (insert (getPML4Root (deploy_mach m')) ?T)"
    using deploy_mach_ok(4) by (simp only: deploy_mach_ok(1))
  have sc: "same_cells (mem (ms s1)) (mem (deploy_mach m')) ?T" using deploy_mach_ok(3) s1(2) by simp
  have e: "m_status (mgr_init (deploy_mach m')) = empty" by (simp add: mgr_init_def)
  obtain u3 m3 s3 where "UmInstance_new v 7 (deploy_mach m') = Inr (u3, 7 + 1, m3)"
    "Load u3 ((mgr_init (deploy_mach m'))\<lparr>ms := m3\<rparr>) = Inr (True, s3)" "shows_pages ?m 0x1000 (ms s3)"
    using snapshot_deploys[OF snap_ready_sel(1,2) pre(1,2) snap_slot(2,1) src fr lt snap_slot(5) snap_page(3) pre(3) run s1(1,3) T sc dep
        deploy_mach_ok(2) e fr2, of 7] by blast
  then show ?thesis using run s1(2) by (intro exI[of _ s1] exI[of _ v] exI[of _ u3] exI[of _ m3] exI[of _ s3]) simp
qed

text \<open>
  C10. Writing to a page an instance shares with a snapshot: the fault gives the instance a
  page of its own, holding what the shared page held, and no page of the snapshot is written;
  the tables of the slot stay apart from the snapshot, so the same holds for the next write.
\<close>

theorem shared_page_write_isolated:
  assumes "active_umi s = Some u" "m_status s \<noteq> empty" "m_status s \<noteq> snapshot" "valid_address va"
    and "slot_ok (ms s)" "answers (ms s) = p # ps" "getPML4Root (ms s) \<notin> T" "tbls (mem (ms s)) 3 (slot_root (ms s)) \<inter> T = {}"
    and "fresh_pages 4 (ms s) (insert (getPML4Root (ms s)) (tbls (mem (ms s)) 3 (slot_root (ms s)) \<union> T))"
    and "GetRegionOfAddr (sv_regions (u_sv u)) (pfn_down va) = Inr i"
    and "r_writable (sv_regions (u_sv u) ! i)" "r_page_order (sv_regions (u_sv u) ! i) = 0"
    and "isPresent (ef_error_code ef)" "isWriteFault (ef_error_code ef)" "mmu (ms s) va = Some f"
  shows "\<exists>s'. HandleFault ef va s = Inr s' \<and> mmu (ms s') va = Some p \<and> p \<notin> T \<and>
     (\<forall>j < 512. mem (ms s') (pte_at p j) = mem (ms s) (pte_at f j)) \<and>
     same_cells (mem (ms s)) (mem (ms s')) T \<and> tbls (mem (ms s')) 3 (slot_root (ms s')) \<inter> T = {}"
proof -
  let ?m = "ms s"
  have fr: "fresh_pages 4 ?m (insert (getPML4Root ?m) (tbls (mem ?m) 3 (slot_root ?m)))"
    using assms(9) by (auto simp: fresh_pages_def)
  have pT: "p \<notin> T" "set (take 3 ps) \<inter> T = {}"
    using assms(6,9) by (auto simp: fresh_pages_def)
  have i4: "lin_index va 4 = 0x180" using valid_address_lin_index[OF assms(4)] by (simp add: kSlotPML4Offset_def)
  have "lin_index (pfn_down va) = lin_index va" by (rule ext) (rule lin_index_pfn_down)
  then have "mmu ?m (pfn_down va) = Some f" using assms(15) by (simp add: mmu_def)
  then have c: "fault_source (sv_regions (u_sv u) ! i) (pfn_down va) (ef_error_code ef) ?m = Some (\<lambda>j. mem ?m (pte_at f j))"
    using assms(13,14) by (simp add: fault_source_def)
  obtain u' m' where run: "resolve_fault va (ef_error_code ef) u ?m = Inr (u', m')"
    and tr: "\<forall>a. lin_index a 4 = 0x180 \<longrightarrow> mmu m' a =
        (if \<forall>l \<in> {1..3}. lin_index a l = lin_index (pfn_down va) l then Some p else mmu ?m a)"
    and cells: "\<forall>j < 512. mem m' (pte_at p j) = mem ?m (pte_at f j)"
    and frame: "\<forall>t j. pg_ok t \<longrightarrow> j < 512 \<longrightarrow> t \<noteq> p \<longrightarrow> t \<notin> tbls (mem m') 3 (slot_root m') \<longrightarrow>
        \<not> (t = getPML4Root ?m \<and> j = 0x180) \<longrightarrow> mem m' (pte_at t j) = mem ?m (pte_at t j)"
    and tb: "tbls (mem m') 3 (slot_root m') \<subseteq> tbls (mem ?m) 3 (slot_root ?m) \<union> set (take 3 ps)"
    using resolve_fault_ok[OF assms(5,6) fr assms(10-12) c] by auto
  have "HandleFault ef va s = Inr (s\<lparr>active_umi := Some u', ms := m'\<rparr>)"
    using assms(1-4) run by (simp add: HandleFault_def process_pagefault_def with_active_def)
  moreover have "mmu m' va = Some p" using tr i4 by (simp add: lin_index_pfn_down)
  moreover have t3: "tbls (mem m') 3 (slot_root m') \<inter> T = {}" using tb pT(2) assms(8) by blast
  moreover have "same_cells (mem ?m) (mem m') T"
    unfolding same_cells_def using frame t3 pT(1) assms(7) by (metis disjoint_iff)
  ultimately show ?thesis using pT(1) cells by simp
qed

text \<open>A loaded instance whose one page is shared with a snapshot, and a write to it.\<close>

definition sharing :: mgr where
  "sharing = snap_ready\<lparr>active_umi := Some (one_region (Region_init\<lparr>r_name := ''usr'', r_start := 0xFFFFC00000000000,
     r_length := 0x1000000000, r_writable := True\<rparr>))\<rparr>"

theorem shared_page_write_isolated_witness:
  "\<exists>s'. HandleFault (ef_zero\<lparr>ef_error_code := 3\<rparr>) 0xFFFFC00040403010 sharing = Inr s' \<and>
     mmu (ms s') 0xFFFFC00040403010 = Some 0x5000 \<and> same_cells (mem (ms sharing)) (mem (ms s')) {0x4000}"
proof -
  let ?va = "0xFFFFC00040403010 :: u64" and ?ef = "ef_zero\<lparr>ef_error_code := 3\<rparr>"
  let ?r = "Region_init\<lparr>r_name := ''usr'', r_start := 0xFFFFC00000000000, r_length := 0x1000000000, r_writable := True\<rparr>"
  have sel: "active_umi sharing = Some (one_region ?r)" "m_status sharing = active" "ms sharing = ms snap_ready"
    by (simp_all add: sharing_def snap_ready_sel)
  have va: "valid_address ?va" by (simp add: valid_address_def kSlotStartVAddr_def kSlotEndVAddr_def)
  have ix: "lin_index ?va 4 = 0x180" "lin_index ?va 3 = 1" "lin_index ?va 2 = 2" "lin_index ?va 1 = 3" by code_simp+
  have R: "getPML4Root (ms snap_ready) = 0x9000"
    by (simp add: snap_ready_sel(3) getPML4Root_def cr3ToAddr_def) code_simp
  have tb: "tbls (mem (ms snap_ready)) 3 (slot_root (ms snap_ready)) = {0x1000, 0x2000, 0x3000}"
    by (simp add: snap_slot(1)) (simp add: snap_ready_sel(3) snap_tree(2))
  have "pt_lookup (mem (ms snap_ready)) 3 0x1000 (lin_index ?va) = pt_lookup (mem (ms snap_ready)) 3 0x1000 (\<lambda>l. 4 - l)"
  proof -
    have "lin_index ?va k = 4 - k" if "0 < k" "k \<le> 3" for k
    proof -
      from that have "k = 1 \<or> k = 2 \<or> k = 3" by linarith
      then show ?thesis using ix(2-4) by (elim disjE) simp_all
    qed
    then show ?thesis unfolding pt_lookup_leaf_at by (simp cong: leaf_at_cong)
  qed
  then have "mmu (ms snap_ready) ?va = Some 0x4000"
    by (simp add: mmu_slot[OF snap_slot(2) ix(1)] snap_slot(1,5) snap_page(2))
  then have mm: "mmu (ms sharing) ?va = Some 0x4000" by (simp add: sel(3))
  have v: "pfn_down ?va = 0xFFFFC00040403000" by code_simp
  have reg: "GetRegionOfAddr (sv_regions (u_sv (one_region ?r))) (pfn_down ?va) = Inr 0"
    "r_writable (sv_regions (u_sv (one_region ?r)) ! 0)" "r_page_order (sv_regions (u_sv (one_region ?r)) ! 0) = 0"
    by (simp_all add: v one_region_def AddrIsInRegion_def Region_init_def)
  have ans: "answers (ms sharing) = [0x5000, 0x6000, 0x7000, 0x8000]" by (simp add: sel(3) snap_ready_sel(3))
  have fr: "fresh_pages 4 (ms sharing) (insert (getPML4Root (ms sharing)) (tbls (mem (ms sharing)) 3 (slot_root (ms sharing)) \<union> {0x4000}))"
    unfolding fresh_pages_def ans unfolding sel(3) R tb by (simp add: pg_ok_small)
  have dis: "getPML4Root (ms sharing) \<notin> {0x4000}" "tbls (mem (ms sharing)) 3 (slot_root (ms sharing)) \<inter> {0x4000} = {}"
    unfolding sel(3) R tb by simp_all
  have ok: "slot_ok (ms sharing)" by (simp add: sel(3) snap_slot(2))
  have ec: "isPresent (ef_error_code ?ef)" "isWriteFault (ef_error_code ?ef)"
    by (simp_all add: isPresent_def isWriteFault_def ec_P_def ec_WR_def)
  have st: "m_status sharing \<noteq> empty" "m_status sharing \<noteq> snapshot" by (simp_all add: sel(2))
  show ?thesis
    using shared_page_write_isolated[OF sel(1) st va ok ans dis fr reg ec mm] by blast
qed

end
