(* ===== verification/Umm_Trees.thy ===== *)
theory Umm_Trees
  imports Umm_Deploy
begin

text \<open>
  All page tables in memory together, those of the instances and those of the snapshots: which
  pages they use, when they are apart from each other, and which changes of memory keep them so.
\<close>

section \<open>The pages of a tree\<close>

abbreviation small_ix :: "(nat \<Rightarrow> nat) \<Rightarrow> bool" where "small_ix ix \<equiv> \<forall>j. ix j < 512"

definition frames :: "(u64 \<Rightarrow> u64) \<Rightarrow> u64 \<Rightarrow> u64 set" where
  "frames h r = {ent_addr e | ix e. small_ix ix \<and> pt_lookup h 3 r ix = Some e}"

definition wframes :: "(u64 \<Rightarrow> u64) \<Rightarrow> u64 \<Rightarrow> u64 set" where
  "wframes h r = {ent_addr e | ix e. small_ix ix \<and> pt_lookup h 3 r ix = Some e \<and> pte_RW e}"

definition pages :: "(u64 \<Rightarrow> u64) \<Rightarrow> u64 \<Rightarrow> u64 set" where
  "pages h r = tbls h 3 r \<union> frames h r"

text \<open>A page that is mapped writable is mapped at one place only.\<close>

definition once :: "(u64 \<Rightarrow> u64) \<Rightarrow> u64 \<Rightarrow> bool" where
  "once h r \<longleftrightarrow> (\<forall>ix jx e e'. small_ix ix \<longrightarrow> small_ix jx \<longrightarrow> pt_lookup h 3 r ix = Some e \<longrightarrow> pte_RW e \<longrightarrow>
     pt_lookup h 3 r jx = Some e' \<longrightarrow> ent_addr e = ent_addr e' \<longrightarrow> (\<forall>l \<in> {1..3}. ix l = jx l))"

text \<open>
  The trees of the instances, with roots in \<open>A\<close>, and of the snapshots, with roots in \<open>S\<close>, beside
  the top-level table \<open>R\<close> and the pages \<open>Im\<close> of the images that were loaded into memory.
\<close>

definition tree_ok :: "u64 set \<Rightarrow> (u64 \<Rightarrow> u64) \<Rightarrow> u64 \<Rightarrow> u64 \<Rightarrow> bool" where
  "tree_ok Im h R r \<longleftrightarrow> wf_pt h 3 r \<and> R \<notin> pages h r \<and> tbls h 3 r \<inter> Im = {}"

definition apart :: "(u64 \<Rightarrow> u64) \<Rightarrow> u64 \<Rightarrow> u64 \<Rightarrow> bool" where
  "apart h r s \<longleftrightarrow> tbls h 3 r \<inter> frames h s = {} \<and> (r \<noteq> s \<longrightarrow> tbls h 3 r \<inter> tbls h 3 s = {})"

definition owner_ok :: "u64 set \<Rightarrow> (u64 \<Rightarrow> u64) \<Rightarrow> u64 \<Rightarrow> bool" where
  "owner_ok Im h r \<longleftrightarrow> (r = 0 \<or> acc_below h 3 r) \<and> once h r \<and> wframes h r \<inter> Im = {}"

definition exclusive :: "(u64 \<Rightarrow> u64) \<Rightarrow> u64 \<Rightarrow> u64 \<Rightarrow> bool" where
  "exclusive h r s \<longleftrightarrow> (s \<noteq> r \<longrightarrow> wframes h r \<inter> frames h s = {})"

definition trees_ok :: "u64 set \<Rightarrow> (u64 \<Rightarrow> u64) \<Rightarrow> u64 \<Rightarrow> u64 set \<Rightarrow> u64 set \<Rightarrow> bool" where
  "trees_ok Im h R A S \<longleftrightarrow>
     (\<forall>t \<in> Im. pg_ok t) \<and> R \<notin> Im \<and> A \<inter> S \<subseteq> {0} \<and> (\<forall>r \<in> A \<union> S. tree_ok Im h R r) \<and>
     (\<forall>r \<in> A \<union> S. \<forall>s \<in> A \<union> S. apart h r s) \<and> (\<forall>r \<in> A. owner_ok Im h r \<and> (\<forall>s \<in> A \<union> S. exclusive h r s))"

definition in_use :: "u64 set \<Rightarrow> (u64 \<Rightarrow> u64) \<Rightarrow> u64 \<Rightarrow> u64 set \<Rightarrow> u64 set \<Rightarrow> u64 set" where
  "in_use Im h R A S = insert R (Im \<union> (\<Union>r \<in> A \<union> S. pages h r))"

lemma trees_okD:
  assumes "trees_ok Im h R A S"
  shows "t \<in> Im \<Longrightarrow> pg_ok t" "R \<notin> Im" "r \<in> A \<Longrightarrow> r \<in> S \<Longrightarrow> r = 0"
    "r \<in> A \<union> S \<Longrightarrow> tree_ok Im h R r" "r \<in> A \<union> S \<Longrightarrow> s \<in> A \<union> S \<Longrightarrow> apart h r s"
    "r \<in> A \<Longrightarrow> owner_ok Im h r" "r \<in> A \<Longrightarrow> s \<in> A \<union> S \<Longrightarrow> exclusive h r s"
proof -
  note D = assms[unfolded trees_ok_def]
  have d: "\<forall>t \<in> Im. pg_ok t" "R \<notin> Im" "A \<inter> S \<subseteq> {0}" "\<forall>r \<in> A \<union> S. tree_ok Im h R r"
    "\<forall>r \<in> A \<union> S. \<forall>s \<in> A \<union> S. apart h r s" "\<forall>r \<in> A. owner_ok Im h r \<and> (\<forall>s \<in> A \<union> S. exclusive h r s)"
    using D by - (elim conjE, assumption)+
  show "t \<in> Im \<Longrightarrow> pg_ok t" by (rule bspec[OF d(1)])
  show "R \<notin> Im" by (rule d(2))
  show "r \<in> A \<Longrightarrow> r \<in> S \<Longrightarrow> r = 0" using d(3) by auto
  show "r \<in> A \<union> S \<Longrightarrow> tree_ok Im h R r" by (rule bspec[OF d(4)])
  show "r \<in> A \<union> S \<Longrightarrow> s \<in> A \<union> S \<Longrightarrow> apart h r s" by (rule bspec[OF bspec[OF d(5)]])
  show "r \<in> A \<Longrightarrow> owner_ok Im h r" by (rule conjunct1[OF bspec[OF d(6)]])
  show "r \<in> A \<Longrightarrow> s \<in> A \<union> S \<Longrightarrow> exclusive h r s" by (rule bspec[OF conjunct2[OF bspec[OF d(6)]]])
qed

lemma trees_okI:
  assumes "\<And>t. t \<in> Im \<Longrightarrow> pg_ok t" "R \<notin> Im" "\<And>r. r \<in> A \<Longrightarrow> r \<in> S \<Longrightarrow> r = 0"
    and "\<And>r. r \<in> A \<union> S \<Longrightarrow> tree_ok Im h R r" "\<And>r s. r \<in> A \<union> S \<Longrightarrow> s \<in> A \<union> S \<Longrightarrow> apart h r s"
    and "\<And>r. r \<in> A \<Longrightarrow> owner_ok Im h r" "\<And>r s. r \<in> A \<Longrightarrow> s \<in> A \<union> S \<Longrightarrow> exclusive h r s"
  shows "trees_ok Im h R A S"
  unfolding trees_ok_def by (intro conjI ballI subsetI assms) (use assms(3) in auto)

lemmas tree_okD = tree_ok_def[THEN iffD1, THEN conjunct1] tree_ok_def[THEN iffD1, THEN conjunct2, THEN conjunct1]
  tree_ok_def[THEN iffD1, THEN conjunct2, THEN conjunct2]

lemma wframes_sub: "wframes h r \<subseteq> frames h r"
  by (auto simp: wframes_def frames_def)

lemma framesI: "small_ix ix \<Longrightarrow> pt_lookup h 3 r ix = Some e \<Longrightarrow> ent_addr e \<in> frames h r"
  by (auto simp: frames_def)

lemma null_tree [simp]: "frames h 0 = {}" "wframes h 0 = {}" "pages h 0 = {}" "once h 0" "tbls h 3 0 = {}"
proof -
  show t: "tbls h 3 0 = {}" by (simp add: numeral_3_eq_3)
  show f: "frames h 0 = {}" "wframes h 0 = {}" "once h 0" by (simp_all add: frames_def wframes_def once_def)
  show "pages h 0 = {}" by (simp add: pages_def t f)
qed

lemma in_use_pages: "r \<in> A \<union> S \<Longrightarrow> pages h r \<subseteq> in_use Im h R A S"
  by (auto simp: in_use_def)

lemma trees_mono: "trees_ok Im h R A S \<Longrightarrow> A' \<subseteq> A \<Longrightarrow> S' \<subseteq> S \<Longrightarrow> trees_ok Im h R A' S'"
proof (rule trees_okI)
  assume T: "trees_ok Im h R A S" and sub: "A' \<subseteq> A" "S' \<subseteq> S"
  note D = trees_okD[OF T]
  have in1: "r \<in> A' \<Longrightarrow> r \<in> A" and in2: "r \<in> A' \<union> S' \<Longrightarrow> r \<in> A \<union> S" for r using sub by auto
  show "t \<in> Im \<Longrightarrow> pg_ok t" for t by (rule D(1))
  show "R \<notin> Im" by (rule D(2))
  show "r \<in> A' \<Longrightarrow> r \<in> S' \<Longrightarrow> r = 0" for r using D(3) sub by auto
  show "r \<in> A' \<union> S' \<Longrightarrow> tree_ok Im h R r" for r by (rule D(4)[OF in2])
  show "r \<in> A' \<Longrightarrow> owner_ok Im h r" for r by (rule D(6)[OF in1])
  show "r \<in> A' \<union> S' \<Longrightarrow> s \<in> A' \<union> S' \<Longrightarrow> apart h r s" for r s by (rule D(5)[OF in2 in2])
  show "r \<in> A' \<Longrightarrow> s \<in> A' \<union> S' \<Longrightarrow> exclusive h r s" for r s by (rule D(7)[OF in1 in2])
qed

text \<open>A lookup depends on the path only.\<close>

lemma lookup_path: "(\<And>l. 1 \<le> l \<Longrightarrow> l \<le> n \<Longrightarrow> ix l = jx l) \<Longrightarrow> pt_lookup h n r ix = pt_lookup h n r jx"
proof (induction n arbitrary: r)
  case (Suc n)
  have a: "pt_lookup h n s ix = pt_lookup h n s jx" for s by (rule Suc.IH) (simp add: Suc.prems)
  have b: "ix (Suc n) = jx (Suc n)" by (rule Suc.prems) simp_all
  show ?case unfolding pt_lookup.simps Let_def a b ..
qed simp

lemma leaf_at_path: "(\<And>l. 1 \<le> l \<Longrightarrow> l \<le> n \<Longrightarrow> ix l = jx l) \<Longrightarrow> leaf_at h n r ix = leaf_at h n r jx"
proof (induction n arbitrary: r)
  case (Suc n)
  have a: "leaf_at h n s ix = leaf_at h n s jx" for s by (rule Suc.IH) (simp add: Suc.prems)
  have b: "ix (Suc n) = jx (Suc n)" by (rule Suc.prems) simp_all
  show ?case unfolding leaf_at.simps Let_def a b ..
qed simp

lemma onceD:
  assumes "once h r" "small_ix ix" "small_ix jx" "pt_lookup h 3 r ix = Some e" "pte_RW e" "pt_lookup h 3 r jx = Some e'"
    "ent_addr e = ent_addr e'"
  shows "e' = e"
proof -
  have "\<forall>l \<in> {1..3}. ix l = jx l" using assms unfolding once_def by blast
  then have "pt_lookup h 3 r ix = pt_lookup h 3 r jx" by (intro lookup_path) simp
  then show ?thesis using assms(4,6) by simp
qed

section \<open>Changes that keep the trees apart\<close>

text \<open>No cell of a table changes.\<close>

lemma tree_same:
  assumes "wf_pt h 3 r" "same_cells h h' (tbls h 3 r)"
  shows "frames h' r = frames h r" "wframes h' r = wframes h r" "pages h' r = pages h r" "once h' r = once h r"
    "tbls h' 3 r = tbls h 3 r" "wf_pt h' 3 r" "r = 0 \<or> acc_below h' 3 r \<longleftrightarrow> r = 0 \<or> acc_below h 3 r"
proof -
  note F = tree_frame[OF assms]
  have look: "small_ix ix \<and> pt_lookup h' 3 r ix = x \<longleftrightarrow> small_ix ix \<and> pt_lookup h 3 r ix = x" for ix x
    using F(3)[of ix] by auto
  show f: "frames h' r = frames h r" by (simp add: frames_def look)
  have look': "small_ix ix \<and> pt_lookup h' 3 r ix = x \<and> P \<longleftrightarrow> small_ix ix \<and> pt_lookup h 3 r ix = x \<and> P" for ix x P
    using look by blast
  show "wframes h' r = wframes h r" by (simp add: wframes_def look')
  show "once h' r = once h r" unfolding once_def using look by blast
  show "tbls h' 3 r = tbls h 3 r" "wf_pt h' 3 r" "r = 0 \<or> acc_below h' 3 r \<longleftrightarrow> r = 0 \<or> acc_below h 3 r"
    using F(1,2,4) by auto
  then show "pages h' r = pages h r" using f by (simp add: pages_def)
qed

lemma trees_same:
  assumes "trees_ok Im h R A S" "\<And>r. r \<in> A \<union> S \<Longrightarrow> same_cells h h' (tbls h 3 r)"
  shows "trees_ok Im h' R A S" "in_use Im h' R A S = in_use Im h R A S"
proof -
  note E = tree_same[OF tree_okD(1)[OF trees_okD(4)[OF assms(1)]] assms(2)]
  have p: "pages h' r = pages h r" if "r \<in> A \<union> S" for r by (rule E(3)[OF that that])
  then show "in_use Im h' R A S = in_use Im h R A S" by (simp add: in_use_def)
  show "trees_ok Im h' R A S"
  proof (rule trees_okI)
    show "t \<in> Im \<Longrightarrow> pg_ok t" for t by (rule trees_okD(1)[OF assms(1)])
    show "R \<notin> Im" by (rule trees_okD(2)[OF assms(1)])
    show "r \<in> A \<Longrightarrow> r \<in> S \<Longrightarrow> r = 0" for r by (rule trees_okD(3)[OF assms(1)])
    show "tree_ok Im h' R r" if "r \<in> A \<union> S" for r
      using trees_okD(4)[OF assms(1) that] E[OF that that] by (simp add: tree_ok_def)
    show "apart h' r s" if "r \<in> A \<union> S" "s \<in> A \<union> S" for r s
      using trees_okD(5)[OF assms(1) that] E[OF that(1) that(1)] E[OF that(2) that(2)] by (simp add: apart_def)
    show "owner_ok Im h' r" if "r \<in> A" for r
      using trees_okD(6)[OF assms(1) that] E[OF UnI1[OF that] UnI1[OF that]] by (simp add: owner_ok_def)
    show "exclusive h' r s" if "r \<in> A" "s \<in> A \<union> S" for r s
      using trees_okD(7)[OF assms(1) that] E[OF UnI1[OF that(1)] UnI1[OF that(1)]] E[OF that(2) that(2)]
      by (simp add: exclusive_def)
  qed
qed

text \<open>
  Only marks change: bits for user, accessed and dirty, as the processor and the setting of user
  pages do it; no accessed bit is cleared, and entries that do not exist are left alone.
\<close>

definition only_marks :: "(u64 \<Rightarrow> u64) \<Rightarrow> (u64 \<Rightarrow> u64) \<Rightarrow> bool" where
  "only_marks h h' \<longleftrightarrow> (\<forall>c. (\<forall>k. k \<notin> {2, 5, 6} \<longrightarrow> bit (h' c) k = bit (h c) k) \<and> (isAccessed (h c) \<longrightarrow> isAccessed (h' c)) \<and>
     (\<not> pte_exists (h c) \<longrightarrow> h' c = h c))"

lemma only_marksD:
  assumes "only_marks h h'"
  shows "same_shape h h'" "pte_RW (h' c) = pte_RW (h c)" "isAccessed (h c) \<Longrightarrow> isAccessed (h' c)"
proof -
  have b: "bit (h' c) k = bit (h c) k" if "k \<notin> {2, 5, 6}" for c k using assms that by (simp add: only_marks_def)
  show "pte_RW (h' c) = pte_RW (h c)" by (simp add: pte_field_defs b)
  show "isAccessed (h c) \<Longrightarrow> isAccessed (h' c)" using assms by (simp add: only_marks_def)
  have "ent_addr (h' c) = ent_addr (h c)" for c
  proof (rule bit_word_eqI)
    fix n
    show "bit (ent_addr (h' c)) n = bit (ent_addr (h c)) n" using b[of n c] by (cases "12 \<le> n") (simp_all add: bit_ent_addr)
  qed
  then show "same_shape h h'" by (simp add: same_shape_def pte_exists_def pte_field_defs b)
qed

lemma acc_below_marks:
  assumes "only_marks h h'"
  shows "acc_below h l r \<Longrightarrow> acc_below h' l r"
proof (induction l arbitrary: r)
  case (Suc l)
  then show ?case using only_marksD(3)[OF assms] by (simp add: Let_def same_shapeD[OF only_marksD(1)[OF assms]])
qed simp

text \<open>The pages of a tree in terms of its leaf cells.\<close>

lemma by_leaf:
  "frames h r = (\<lambda>a. ent_addr (h a)) ` {a. \<exists>ix. small_ix ix \<and> leaf_at h 3 r ix = Some a}"
  "wframes h r = (\<lambda>a. ent_addr (h a)) ` {a. pte_RW (h a) \<and> (\<exists>ix. small_ix ix \<and> leaf_at h 3 r ix = Some a)}"
  "once h r \<longleftrightarrow> (\<forall>ix jx a b. small_ix ix \<longrightarrow> small_ix jx \<longrightarrow> leaf_at h 3 r ix = Some a \<longrightarrow> pte_RW (h a) \<longrightarrow>
     leaf_at h 3 r jx = Some b \<longrightarrow> ent_addr (h a) = ent_addr (h b) \<longrightarrow> (\<forall>l \<in> {1..3}. ix l = jx l))"
proof -
  have L: "pt_lookup h 3 r ix = Some e \<longleftrightarrow> (\<exists>a. leaf_at h 3 r ix = Some a \<and> e = h a)" for ix e
    by (auto simp: pt_lookup_leaf_at)
  show "frames h r = (\<lambda>a. ent_addr (h a)) ` {a. \<exists>ix. small_ix ix \<and> leaf_at h 3 r ix = Some a}"
    "wframes h r = (\<lambda>a. ent_addr (h a)) ` {a. pte_RW (h a) \<and> (\<exists>ix. small_ix ix \<and> leaf_at h 3 r ix = Some a)}"
    unfolding frames_def wframes_def L by blast+
  show "once h r \<longleftrightarrow> (\<forall>ix jx a b. small_ix ix \<longrightarrow> small_ix jx \<longrightarrow> leaf_at h 3 r ix = Some a \<longrightarrow> pte_RW (h a) \<longrightarrow>
     leaf_at h 3 r jx = Some b \<longrightarrow> ent_addr (h a) = ent_addr (h b) \<longrightarrow> (\<forall>l \<in> {1..3}. ix l = jx l))"
    unfolding once_def L by blast
qed

lemma root_in_tree: "r \<noteq> 0 \<Longrightarrow> r \<in> tbls h 3 r"
  by (simp add: numeral_3_eq_3 pt_simps)

lemma trees_marks:
  assumes "trees_ok Im h R A S" "only_marks h h'"
  shows "trees_ok Im h' R A S"
proof -
  note M = only_marksD[OF assms(2)]
  note T = same_shape_tree[OF M(1)]
  have fr: "frames h' r = frames h r" and wf: "wframes h' r = wframes h r" and oc: "once h' r = once h r" for r
    by (simp_all add: by_leaf T(3) same_shapeD(3)[OF M(1)] M(2))
  have tr: "tree_ok Im h' R r = tree_ok Im h R r" "apart h' r s = apart h r s" "exclusive h' r s = exclusive h r s" for r s
    by (simp_all add: tree_ok_def apart_def exclusive_def pages_def T fr wf)
  have ow: "owner_ok Im h r \<Longrightarrow> owner_ok Im h' r" for r
    using acc_below_marks[OF assms(2)] by (auto simp: owner_ok_def oc wf)
  note D = trees_okD[OF assms(1)]
  show ?thesis
    by (rule trees_okI) (use D in \<open>simp_all add: tr ow\<close>)
qed

text \<open>A tree is added that has its own tables, and maps fresh pages or pages nobody can write.\<close>

lemma trees_insert:
  assumes T: "trees_ok Im h R A S" and keep: "same_cells h h' (in_use Im h R A S)"
    and c: "wf_pt h' 3 c" "tbls h' 3 c \<inter> in_use Im h R A S = {}"
    and fr: "\<And>f. f \<in> frames h' c \<Longrightarrow> f \<notin> in_use Im h R A S \<and> f \<notin> tbls h' 3 c \<or>
         (\<exists>s \<in> A \<union> S. f \<in> frames h s) \<and> (\<forall>r \<in> A. f \<notin> wframes h r)"
  shows "trees_ok Im h' R A (insert c S)"
    "c = 0 \<or> acc_below h' 3 c \<Longrightarrow> wframes h' c = {} \<Longrightarrow> trees_ok Im h' R (insert c A) S"
proof -
  let ?U = "in_use Im h R A S"
  have sub: "pages h r \<subseteq> ?U" if "r \<in> A \<union> S" for r using in_use_pages[OF that] .
  have cells: "same_cells h h' (tbls h 3 r)" if "r \<in> A \<union> S" for r
    using keep sub[OF that] by (auto simp: pages_def intro: same_cells_mono)
  have T': "trees_ok Im h' R A S" by (rule trees_same(1)[OF T cells])
  note E = tree_same[OF tree_okD(1)[OF trees_okD(4)[OF T]] cells]
  have eq: "frames h' r = frames h r" "wframes h' r = wframes h r" "tbls h' 3 r = tbls h 3 r" "pages h' r = pages h r"
    if "r \<in> A \<union> S" for r using E(1,2,5,3)[OF that that] .
  note D = trees_okD[OF T'] and D0 = trees_okD[OF T]
  have inU: "tbls h 3 r \<subseteq> ?U" "frames h r \<subseteq> ?U" if "r \<in> A \<union> S" for r
    using sub[OF that] by (auto simp: pages_def)
  have RI: "R \<in> ?U" "Im \<subseteq> ?U" by (auto simp: in_use_def)
  have new: "c = 0" if "c \<in> A \<union> S"
  proof (rule ccontr)
    assume "c \<noteq> 0"
    then have "c \<in> tbls h' 3 c" by (rule root_in_tree)
    moreover from this have "c \<in> ?U" using inU(1)[OF that] eq(3)[OF that] by auto
    ultimately show False using c(2) by auto
  qed
  have "R \<notin> frames h' c" using fr[of R] RI(1) tree_okD(2)[OF D0(4)] by (auto simp: pages_def)
  then have tc: "tree_ok Im h' R c" using c RI by (auto simp: tree_ok_def pages_def)
  have cc: "apart h' c c" using fr c(2) inU(2) by (fastforce simp: apart_def)
  have cs: "apart h' c s" if "s \<in> A \<union> S" for s
    using c(2) inU[OF that] eq[OF that] by (auto simp: apart_def)
  have sc: "apart h' s c" if "s \<in> A \<union> S" for s
  proof -
    have "f \<notin> tbls h' 3 s" if f: "f \<in> frames h' c" for f
      using fr[OF f] inU(1)[OF \<open>s \<in> A \<union> S\<close>] D0(5)[OF \<open>s \<in> A \<union> S\<close>] eq(3)[OF \<open>s \<in> A \<union> S\<close>] by (auto simp: apart_def)
    then show ?thesis using cs[OF that] by (auto simp: apart_def)
  qed
  have ex: "exclusive h' r c" if "r \<in> A" for r
  proof -
    have r: "r \<in> A \<union> S" using that by simp
    have "f \<notin> wframes h' r" if f: "f \<in> frames h' c" for f
      using fr[OF f] inU(2)[OF r] eq(2)[OF r] wframes_sub[of h r] \<open>r \<in> A\<close> by auto
    then show ?thesis by (auto simp: exclusive_def)
  qed
  show "trees_ok Im h' R A (insert c S)"
  proof (rule trees_okI)
    show "t \<in> Im \<Longrightarrow> pg_ok t" for t by (rule D(1))
    show "R \<notin> Im" by (rule D(2))
    show "r \<in> A \<Longrightarrow> r \<in> insert c S \<Longrightarrow> r = 0" for r using D(3)[of r] new by auto
    show "r \<in> A \<union> insert c S \<Longrightarrow> tree_ok Im h' R r" for r using D(4)[of r] tc by auto
    show "r \<in> A \<union> insert c S \<Longrightarrow> s \<in> A \<union> insert c S \<Longrightarrow> apart h' r s" for r s
      using D(5)[of r s] cc cs[of s] sc[of r] by auto
    show "r \<in> A \<Longrightarrow> owner_ok Im h' r" for r by (rule D(6))
    show "r \<in> A \<Longrightarrow> s \<in> A \<union> insert c S \<Longrightarrow> exclusive h' r s" for r s using D(7)[of r s] ex[of r] by auto
  qed
  assume ac: "c = 0 \<or> acc_below h' 3 c" and w: "wframes h' c = {}"
  then have oc: "owner_ok Im h' c" by (auto simp: owner_ok_def once_def wframes_def)
  show "trees_ok Im h' R (insert c A) S"
  proof (rule trees_okI)
    show "t \<in> Im \<Longrightarrow> pg_ok t" for t by (rule D(1))
    show "R \<notin> Im" by (rule D(2))
    show "r \<in> insert c A \<Longrightarrow> r \<in> S \<Longrightarrow> r = 0" for r using D(3)[of r] new by auto
    show "r \<in> insert c A \<union> S \<Longrightarrow> tree_ok Im h' R r" for r using D(4)[of r] tc by auto
    show "r \<in> insert c A \<union> S \<Longrightarrow> s \<in> insert c A \<union> S \<Longrightarrow> apart h' r s" for r s
      using D(5)[of r s] cc cs[of s] sc[of r] by auto
    show "r \<in> insert c A \<Longrightarrow> owner_ok Im h' r" for r using D(6)[of r] oc by auto
    show "r \<in> insert c A \<Longrightarrow> s \<in> insert c A \<union> S \<Longrightarrow> exclusive h' r s" for r s
      using D(7)[of r s] ex[of r] w by (auto simp: exclusive_def)
  qed
qed

text \<open>
  One page is mapped into the tree at \<open>c\<close> (at \<open>c'\<close> when there was none): a fresh page, or a
  page of an image, read-only. \<open>F\<close> are the fresh pages taken for tables.
\<close>

lemma once_map:
  assumes o: "once h c"
    and look: "\<And>ix. small_ix ix \<Longrightarrow> pt_lookup h' 3 c' ix = (if same_path 3 va ix then Some e else pt_lookup h 3 c ix)"
    and e: "pte_RW e \<Longrightarrow> ent_addr e \<notin> frames h c" "\<not> pte_RW e \<Longrightarrow> ent_addr e \<notin> wframes h c"
  shows "once h' c'"
  unfolding once_def
proof (intro allI impI)
  fix ix jx x y
  assume s: "small_ix ix" "small_ix jx" and x: "pt_lookup h' 3 c' ix = Some x" "pte_RW x"
    and y: "pt_lookup h' 3 c' jx = Some y" and eq: "ent_addr x = ent_addr y"
  show "\<forall>l \<in> {1..3}. ix l = jx l"
  proof (cases "same_path 3 va ix"; cases "same_path 3 va jx")
    assume "same_path 3 va ix" "same_path 3 va jx"
    then show ?thesis by (simp add: same_path_def)
  next
    assume p: "same_path 3 va ix" "\<not> same_path 3 va jx"
    then have "x = e" "pt_lookup h 3 c jx = Some y" using look[OF s(1)] look[OF s(2)] x(1) y by auto
    then show ?thesis using e(1) x(2) eq framesI[OF s(2)] by metis
  next
    assume p: "\<not> same_path 3 va ix" "same_path 3 va jx"
    then have q: "y = e" "pt_lookup h 3 c ix = Some x" using look[OF s(1)] look[OF s(2)] x(1) y by auto
    then have "ent_addr x \<in> wframes h c" using s(1) x(2) by (auto simp: wframes_def)
    then show ?thesis using e q(1) eq wframes_sub[of h c] by (cases "pte_RW e") auto
  next
    assume p: "\<not> same_path 3 va ix" "\<not> same_path 3 va jx"
    then have "pt_lookup h 3 c ix = Some x" "pt_lookup h 3 c jx = Some y"
      using look[OF s(1)] look[OF s(2)] x(1) y by auto
    then show ?thesis using o s x(2) eq unfolding once_def by blast
  qed
qed

lemma trees_map:
  assumes T: "trees_ok Im h R A S" and cA: "c \<in> A" and c': "c = 0 \<or> c' = c" "c' \<noteq> 0"
    and wf: "wf_pt h' 3 c'" "acc_below h' 3 c'"
    and F: "tbls h' 3 c' \<subseteq> tbls h 3 c \<union> F" "F \<inter> in_use Im h R A S = {}"
    and look: "\<And>ix. small_ix ix \<Longrightarrow> pt_lookup h' 3 c' ix = (if same_path 3 va ix then Some e else pt_lookup h 3 c ix)"
    and keep: "\<And>r. r \<in> A \<union> S \<Longrightarrow> r \<noteq> c \<Longrightarrow> same_cells h h' (tbls h 3 r)"
    and e: "if pte_RW e then ent_addr e \<notin> in_use Im h R A S \<and> ent_addr e \<notin> F else ent_addr e \<in> Im"
  shows "trees_ok Im h' R (insert c' A) S"
proof -
  let ?U = "in_use Im h R A S"
  note D = trees_okD[OF T]
  have cT: "c \<in> A \<union> S" using cA by simp
  have inU: "tbls h 3 r \<subseteq> ?U" "frames h r \<subseteq> ?U" if "r \<in> A \<union> S" for r
    using in_use_pages[OF that] by (auto simp: pages_def)
  have RI: "R \<in> ?U" "Im \<subseteq> ?U" by (auto simp: in_use_def)
  have cells: "same_cells h h' (tbls h 3 r)" if "r \<in> A \<union> S" "r \<noteq> c'" for r
  proof (cases "r = c")
    case True
    then have "r = 0" using that(2) c'(1) by auto
    then show ?thesis by (simp add: same_cells_def)
  qed (rule keep[OF that(1)])
  note E = tree_same[OF tree_okD(1)[OF D(4)] cells]
  have eq: "frames h' r = frames h r" "wframes h' r = wframes h r" "tbls h' 3 r = tbls h 3 r" "tree_ok Im h' R r"
    "r \<in> A \<Longrightarrow> owner_ok Im h' r" if "r \<in> A \<union> S" "r \<noteq> c'" for r
    using E[OF that(1) that] D(4)[OF that(1)] D(6)[of r] by (simp_all add: tree_ok_def owner_ok_def)
  have fr: "frames h' c' \<subseteq> insert (ent_addr e) (frames h c)"
  proof
    fix f assume "f \<in> frames h' c'"
    then obtain ix x where "small_ix ix" "pt_lookup h' 3 c' ix = Some x" "f = ent_addr x" by (auto simp: frames_def)
    then show "f \<in> insert (ent_addr e) (frames h c)" using look[of ix] framesI[of ix h c x] by (auto split: if_splits)
  qed
  have wfr: "wframes h' c' \<subseteq> wframes h c \<union> (if pte_RW e then {ent_addr e} else {})"
  proof
    fix f assume "f \<in> wframes h' c'"
    then obtain ix x where "small_ix ix" "pt_lookup h' 3 c' ix = Some x" "f = ent_addr x" "pte_RW x" by (auto simp: wframes_def)
    then show "f \<in> wframes h c \<union> (if pte_RW e then {ent_addr e} else {})"
      using look[of ix] by (auto simp: wframes_def split: if_splits)
  qed
  have new: "c' = c" if "c' \<in> A \<union> S"
  proof (rule ccontr)
    assume ne: "c' \<noteq> c"
    then have "c' \<in> F" using root_in_tree[OF c'(2), of h'] F(1) c'(1) by auto
    moreover have "c' \<in> ?U" using root_in_tree[OF c'(2), of h] inU(1)[OF that] by auto
    ultimately show False using F(2) by auto
  qed
  have eIm: "ent_addr e \<in> Im" if "\<not> pte_RW e" using e that by simp
  have eU: "ent_addr e \<notin> ?U" "ent_addr e \<notin> F" if "pte_RW e" using e that by simp_all
  have Dc: "wf_pt h 3 c" "R \<notin> pages h c" "tbls h 3 c \<inter> Im = {}" using D(4)[OF cT] by (simp_all add: tree_ok_def)
  have eR: "ent_addr e \<noteq> R" "ent_addr e \<notin> tbls h 3 r" if "r \<in> A \<union> S" for r
    using eIm eU(1) D(2) RI inU(1)[OF that] tree_okD(3)[OF D(4)[OF that]] by (cases "pte_RW e"; auto)+
  have eF: "ent_addr e \<notin> F" using eIm eU(2) F(2) RI(2) by (cases "pte_RW e") auto
  have FI: "F \<inter> Im = {}" "R \<notin> F" using F(2) RI by blast+
  have "R \<notin> tbls h 3 c" "R \<notin> frames h c" using Dc(2) by (simp_all add: pages_def)
  then have "R \<notin> tbls h' 3 c'" "R \<notin> frames h' c'" using F(1) fr FI(2) eR(1)[OF cT] by blast+
  moreover have "tbls h' 3 c' \<inter> Im = {}" using F(1) FI(1) Dc(3) by blast
  ultimately have tc: "tree_ok Im h' R c'"
    using wf(1) by (simp add: tree_ok_def pages_def)
  have cc: "apart h' c' c'"
  proof -
    have "tbls h 3 c \<inter> frames h c = {}" using D(5)[OF cT cT] by (simp add: apart_def)
    then have "tbls h' 3 c' \<inter> frames h' c' = {}" using F fr eR(2)[OF cT] eF inU(2)[OF cT] by blast
    then show ?thesis by (simp add: apart_def)
  qed
  have cs: "apart h' c' s" if s: "s \<in> A \<union> S" "s \<noteq> c'" for s
  proof -
    have "tbls h 3 c \<inter> frames h s = {}" "tbls h 3 c \<inter> tbls h 3 s = {}"
      using D(5)[OF cT s(1)] s(2) c'(1) by (cases "c = s"; auto simp: apart_def)+
    then have "tbls h' 3 c' \<inter> frames h s = {}" "tbls h' 3 c' \<inter> tbls h 3 s = {}" using F inU[OF s(1)] by blast+
    then show ?thesis using eq(1,3)[OF s] by (simp add: apart_def)
  qed
  have sc: "apart h' s c'" if s: "s \<in> A \<union> S" "s \<noteq> c'" for s
  proof -
    have "tbls h 3 s \<inter> frames h c = {}" using D(5)[OF s(1) cT] by (simp add: apart_def)
    then have "tbls h 3 s \<inter> frames h' c' = {}" using fr eR(2)[OF s(1)] by blast
    then show ?thesis using cs[OF s] eq(3)[OF s] s(2) by (auto simp: apart_def)
  qed
  have ow: "owner_ok Im h c" using D(6)[OF cA] .
  have oc: "once h' c'"
  proof (rule once_map[OF _ look])
    show "once h c" using ow by (simp add: owner_ok_def)
    show "pte_RW e \<Longrightarrow> ent_addr e \<notin> frames h c" using eU(1) inU(2)[OF cT] by auto
    show "\<not> pte_RW e \<Longrightarrow> ent_addr e \<notin> wframes h c" using eIm ow by (auto simp: owner_ok_def)
  qed
  have owc: "owner_ok Im h' c'"
  proof -
    have "wframes h c \<inter> Im = {}" using ow by (simp add: owner_ok_def)
    moreover have "pte_RW e \<Longrightarrow> ent_addr e \<notin> Im" using eU(1) RI(2) by blast
    ultimately have "wframes h' c' \<inter> Im = {}" using wfr by (cases "pte_RW e") auto
    then show ?thesis using wf(2) oc by (simp add: owner_ok_def)
  qed
  have xs: "exclusive h' c' s" if s: "s \<in> A \<union> S" "s \<noteq> c'" for s
  proof -
    have "wframes h c \<inter> frames h s = {}"
      using D(7)[OF cA s(1)] s(2) c'(1) by (cases "s = c") (auto simp: exclusive_def)
    moreover have "pte_RW e \<Longrightarrow> ent_addr e \<notin> frames h s" using eU(1) inU(2)[OF s(1)] by blast
    ultimately have "wframes h' c' \<inter> frames h s = {}" using wfr by (cases "pte_RW e") auto
    then show ?thesis using eq(1)[OF s] by (simp add: exclusive_def)
  qed
  have xr: "exclusive h' r c'" if r: "r \<in> A" "r \<noteq> c'" for r
  proof -
    have r': "r \<in> A \<union> S" using r(1) by simp
    have "wframes h r \<inter> frames h c = {}"
      using D(7)[OF r(1) cT] r(2) c'(1) by (cases "r = c") (auto simp: exclusive_def)
    moreover have "ent_addr e \<notin> wframes h r"
      using eIm eU(1) D(6)[OF r(1)] inU(2)[OF r'] wframes_sub[of h r] by (cases "pte_RW e") (auto simp: owner_ok_def)
    ultimately have "wframes h r \<inter> frames h' c' = {}" using fr by blast
    then show ?thesis using eq(2)[OF r' r(2)] by (simp add: exclusive_def)
  qed
  show ?thesis
  proof (rule trees_okI)
    show "t \<in> Im \<Longrightarrow> pg_ok t" for t by (rule D(1))
    show "R \<notin> Im" by (rule D(2))
    show "r \<in> insert c' A \<Longrightarrow> r \<in> S \<Longrightarrow> r = 0" for r using D(3)[of r] D(3)[of c] new cA c'(2) by auto
    show "tree_ok Im h' R r" if "r \<in> insert c' A \<union> S" for r using eq(4)[of r] tc that by (cases "r = c'") auto
    show "apart h' r s" if "r \<in> insert c' A \<union> S" "s \<in> insert c' A \<union> S" for r s
    proof (cases "r = c'"; cases "s = c'")
      assume "r \<noteq> c'" "s \<noteq> c'"
      then show ?thesis using that D(5)[of r s] eq(1,3)[of r] eq(1,3)[of s] by (auto simp: apart_def)
    qed (use that cc cs[of s] sc[of r] in auto)
    show "owner_ok Im h' r" if "r \<in> insert c' A" for r using that owc eq(5)[of r] by (cases "r = c'") auto
    show "exclusive h' r s" if "r \<in> insert c' A" "s \<in> insert c' A \<union> S" for r s
    proof (cases "r = c'"; cases "s = c'")
      assume "r \<noteq> c'" "s \<noteq> c'"
      then show ?thesis using that D(7)[of r s] eq(2)[of r] eq(1)[of s] by (auto simp: exclusive_def)
    qed (use that xs[of s] xr[of r] in \<open>auto simp: exclusive_def\<close>)
  qed
qed

text \<open>The frames an instance can write are its own, so its page table can be reclaimed.\<close>

lemma trees_owns:
  assumes "trees_ok Im h R A S" "r \<in> A"
  shows "owns_frames h 3 r"
  unfolding owns_frames_def
proof (intro allI impI conjI)
  fix ix a assume ix: "small_ix ix" and a: "leaf_at h 3 r ix = Some a" "pte_RW (h a)"
  have "ent_addr (h a) \<in> frames h r" using framesI[OF ix, of h r "h a"] a(1) by (simp add: pt_lookup_leaf_at)
  then show "ent_addr (h a) \<notin> tbls h 3 r" using trees_okD(5)[OF assms(1), of r r] assms(2) by (auto simp: apart_def)
  fix jx b assume jx: "small_ix jx" and b: "leaf_at h 3 r jx = Some b" "pte_RW (h b)" "ent_addr (h a) = ent_addr (h b)"
  have "once h r" using trees_okD(6)[OF assms] by (simp add: owner_ok_def)
  then have "\<forall>l \<in> {1..3}. ix l = jx l" using ix jx a b unfolding by_leaf(3) by blast
  then have "leaf_at h 3 r ix = leaf_at h 3 r jx" by (intro leaf_at_path) simp
  then show "a = b" using a(1) b(1) by simp
qed

end
