(* ===== verification/Umm_Isolation.thy ===== *)
theory Umm_Isolation
  imports Umm_Trees
begin

text \<open>
  Isolation of the instances of a core over every operation that touches page tables: page
  faults, checkpoints, new instances, loading, unloading and destroying them
  (\<^verbatim>\<open>src/src/UmManager.cc\<close>, \<^verbatim>\<open>UmInstance.cc\<close>, \<^verbatim>\<open>UmPth.cc\<close>, \<^verbatim>\<open>UmPgTblMgr.cc\<close>), the
  stores of the running instance and the marks the processor sets. No page an instance can
  write is mapped by, or is a table of, any other instance or snapshot.
\<close>

section \<open>Faults\<close>

text \<open>The read-only regions of an instance are backed by pages of the images.\<close>

definition images_in :: "u64 set \<Rightarrow> umi \<Rightarrow> bool" where
  "images_in Im u \<longleftrightarrow> (\<forall>reg \<in> set (sv_regions (u_sv u)). \<not> r_writable reg \<longrightarrow>
     (\<forall>v. AddrIsInRegion reg (pfn_down v) \<longrightarrow> r_data reg + GetOffset reg (pfn_down v) \<in> Im))"

text \<open>What a resolved fault has done: filled a fresh page, if it took one, and mapped a page.\<close>

lemma resolve_fault_did:
  assumes run: "resolve_fault va ec u m = Inr (u', m')" and ok: "slot_ok m"
    and fr: "fresh_pages 4 m U" "getPML4Root m \<in> U" "tbls (mem m) 3 (slot_root m) \<subseteq> U"
    and im: "images_in Im u" "\<forall>t \<in> Im. pg_ok t"
  shows "\<exists>m1 e. slot_mapped e (pfn_down va) m1 m' \<and> cr3 m1 = cr3 m \<and> slot_ok m1 \<and> slot_root m1 = slot_root m \<and>
     (\<forall>t j. pg_ok t \<longrightarrow> j < 512 \<longrightarrow> t \<in> U \<longrightarrow> mem m1 (pte_at t j) = mem m (pte_at t j)) \<and>
     fresh_pages 3 m1 U \<and>
     (if pte_RW e then ent_addr e \<notin> U \<and> ent_addr e \<notin> set (take 3 (answers m1)) else ent_addr e \<in> Im)"
proof -
  let ?v = "pfn_down va"
  obtain i where i: "GetRegionOfAddr (sv_regions (u_sv u)) ?v = Inr i"
    using run by (auto simp: resolve_fault_def GetBackingPage_def Let_def and_then_eq_Inr)
  define reg where "reg = sv_regions (u_sv u) ! i"
  have ri: "reg \<in> set (sv_regions (u_sv u))" "AddrIsInRegion reg ?v"
    using i GetRegionOfAddr_Inr[of "sv_regions (u_sv u)" ?v i] by (auto simp: reg_def)
  have po: "r_page_order reg = 0"
    using run i by (auto simp: resolve_fault_def GetBackingPage_def Let_def and_then_eq_Inr kassert_eq_Inr simp flip: reg_def)
  have R3: "fresh_pages 3 m1 (insert (getPML4Root m1) (tbls (mem m1) 3 (slot_root m1)))"
    if "fresh_pages 3 m1 U" "getPML4Root m1 = getPML4Root m" "tbls (mem m1) 3 (slot_root m1) = tbls (mem m) 3 (slot_root m)" for m1
    using that fr(2,3) by (intro fresh_pages_mono[OF that(1)]) auto
  show ?thesis
  proof (cases "r_writable reg")
    case False
    let ?p = "r_data reg + GetOffset reg ?v"
    have pIm: "?p \<in> Im" using im(1) ri False by (simp add: images_in_def)
    have g: "\<not> isWriteFault ec" "r_name reg \<in> {''.text'', ''.rodata''}"
      using run i False by (auto simp: resolve_fault_def GetBackingPage_def Let_def and_then_eq_Inr kassert_eq_Inr simp flip: reg_def split: if_splits)
    have f3: "fresh_pages 3 m U" by (rule fresh_pages_mono[OF fr(1)]) simp_all
    from map_fault_ok[OF ok R3[OF f3 refl refl], of ?p "reg\<lparr>r_count := r_count reg + 1\<rparr>" ?v ec] im(2) pIm
    obtain m2 e where mf: "map_fault (reg\<lparr>r_count := r_count reg + 1\<rparr>) ?p ?v ec m = Inr m2" and sm: "slot_mapped e ?v m m2"
      and e: "\<not> pte_RW e" "ent_addr e = ?p"
      using False by (auto simp: pte_simps)
    have "m2 = m'"
      using run resolve_fault_step_ro[OF i reg_def False po g(2,1) refl] im(2) pIm by (simp add: mf)
    then show ?thesis using sm e pIm ok f3 by (intro exI[of _ m] exI[of _ e]) simp
  next
    case True
    obtain p ps where ps: "answers m = p # ps"
      using run i True po by (auto simp: resolve_fault_def GetBackingPage_def Let_def and_then_eq_Inr kassert_eq_Inr page_alloc_eq_Inr
          simp flip: reg_def split: if_splits)
    have "fresh_pages (Suc 3) m U" using fr(1) by simp
    note fp = fresh_pages_tl[OF this ps]
    have p: "pg_ok p" "p \<notin> U" "p \<notin> set (take 3 ps)" using fp(2-5)[of "m\<lparr>answers := ps\<rparr>"] by simp_all
    obtain m1 where fill: "fill_page reg ?v ec p (m\<lparr>answers := ps\<rparr>) = Inr m1"
      using run i True po ps by (auto simp: resolve_fault_def GetBackingPage_def Let_def and_then_eq_Inr kassert_eq_Inr page_alloc_def
          simp flip: reg_def split: if_splits)
    then have "fault_source reg ?v ec m \<noteq> None"
      by (auto simp: fill_page_def fault_source_def split: if_splits option.splits)
    then obtain c where "fault_source reg ?v ec m = Some c" by blast
    from fill_page_ok[OF this p(1), of ps] fill obtain h where m1: "m1 = m\<lparr>answers := ps, mem := h\<rparr>"
      and h: "\<forall>t j. pg_ok t \<longrightarrow> j < 512 \<longrightarrow> t \<noteq> p \<longrightarrow> h (pte_at t j) = mem m (pte_at t j)" by auto
    have same: "\<forall>t j. pg_ok t \<longrightarrow> j < 512 \<longrightarrow> t \<in> U \<longrightarrow> mem m1 (pte_at t j) = mem m (pte_at t j)"
      using h p(2) by (auto simp: m1)
    have c1: "cr3 m1 = cr3 m" "getPML4Root m1 = getPML4Root m" "answers m1 = ps" by (simp_all add: m1 getPML4Root_def)
    have tc: "mem m1 (pte_at t j) = mem m (pte_at t j)"
      if "pg_ok t" "j < 512" "t = getPML4Root m \<or> t \<in> tbls (mem m) 3 (slot_root m)" for t j
      using same that fr(2,3) by blast
    have s1: "slot_root m1 = slot_root m" "slot_ok m1" by (rule slot_ok_frame[OF ok c1(1) tc]; assumption)+
    have tb: "tbls (mem m1) 3 (slot_root m) = tbls (mem m) 3 (slot_root m)"
      by (rule slot_frame(1)[OF ok, of m1, OF tc]) simp_all
    have f3: "fresh_pages 3 m1 U" by (rule fp(1)) (rule c1(3))
    from map_fault_ok[OF s1(2) R3[OF f3 c1(2)] p(1), of "reg\<lparr>r_count := r_count reg + 1\<rparr>" ?v ec] tb s1(1) True
    obtain m2 e where mf: "map_fault (reg\<lparr>r_count := r_count reg + 1\<rparr>) p ?v ec m1 = Inr m2" and sm: "slot_mapped e ?v m1 m2"
      and e: "pte_RW e" "ent_addr e = p"
      using p(1) by (auto simp: pte_simps)
    have "m2 = m'" using run resolve_fault_step[OF i reg_def po True ps fill] by (simp add: mf)
    then show ?thesis using sm e p s1 c1 same f3 by (intro exI[of _ m1] exI[of _ e]) simp
  qed
qed

section \<open>The state of memory\<close>

text \<open>
  A core with the roots of the trees of its instances and of the snapshots. The slot's tree is
  among those of the instances; a null root stands for an instance without a page table.
\<close>

definition isolated :: "u64 set \<Rightarrow> mgr \<Rightarrow> u64 set \<Rightarrow> u64 set \<Rightarrow> bool" where
  "isolated Im s A S \<longleftrightarrow> slot_ok (ms s) \<and> 0 \<in> A \<and> slot_root (ms s) \<in> A \<and> trees_ok Im (mem (ms s)) (getPML4Root (ms s)) A S"

abbreviation used :: "u64 set \<Rightarrow> mgr \<Rightarrow> u64 set \<Rightarrow> u64 set \<Rightarrow> u64 set" where
  "used Im s A S \<equiv> in_use Im (mem (ms s)) (getPML4Root (ms s)) A S"

lemma isolatedD:
  assumes "isolated Im s A S"
  shows "slot_ok (ms s)" "0 \<in> A" "slot_root (ms s) \<in> A" "trees_ok Im (mem (ms s)) (getPML4Root (ms s)) A S"
  using assms by (simp_all add: isolated_def)

text \<open>The pages in use hold the whole tree of each root.\<close>

lemma used_source: "r \<in> A \<union> S \<Longrightarrow> source_in (mem (ms s)) r (used Im s A S)"
  using in_use_pages[of r A S "mem (ms s)" Im "getPML4Root (ms s)"] framesI
  unfolding source_in_def pages_def by blast

lemma fault_isolated:
  assumes I: "isolated Im s A S" and run: "HandleFault ef va s = Inr s'" and u: "active_umi s = Some u" "images_in Im u"
    and fr: "fresh_pages 4 (ms s) (used Im s A S)"
  shows "isolated Im s' (insert (slot_root (ms s')) A) S"
    "slot_root (ms s') = slot_root (ms s) \<or> slot_root (ms s) = 0 \<and> slot_root (ms s') \<notin> A"
proof -
  let ?U = "used Im s A S" and ?c = "slot_root (ms s)" and ?R = "getPML4Root (ms s)"
  note D = isolatedD[OF I]
  have cT: "?c \<in> A \<union> S" using D(3) by simp
  have U: "?R \<in> ?U" "tbls (mem (ms s)) 3 ?c \<subseteq> ?U" using in_use_pages[OF cT] by (auto simp: in_use_def pages_def)
  obtain u' m' where rf: "resolve_fault va (ef_error_code ef) u (ms s) = Inr (u', m')" and s': "ms s' = m'"
    using run u(1) by (auto simp: HandleFault_def process_pagefault_def with_active_def and_then_eq_Inr kassert_eq_Inr)
  obtain m1 e where sm: "slot_mapped e (pfn_down va) m1 m'" and m1: "cr3 m1 = cr3 (ms s)" "slot_ok m1" "slot_root m1 = ?c"
      "\<forall>t j. pg_ok t \<longrightarrow> j < 512 \<longrightarrow> t \<in> ?U \<longrightarrow> mem m1 (pte_at t j) = mem (ms s) (pte_at t j)" "fresh_pages 3 m1 ?U"
      and e: "if pte_RW e then ent_addr e \<notin> ?U \<and> ent_addr e \<notin> set (take 3 (answers m1)) else ent_addr e \<in> Im"
    using resolve_fault_did[OF rf D(1) fr U u(2)] trees_okD(1)[OF D(4)] by blast
  have R1: "getPML4Root m1 = ?R" using m1(1) by (simp add: getPML4Root_def)
  note M = slot_mappedD[OF sm, unfolded m1(3) R1]
  have cells: "same_cells (mem (ms s)) (mem m1) (tbls (mem (ms s)) 3 r)" if "r \<in> A \<union> S" for r
  proof -
    have "tbls (mem (ms s)) 3 r \<subseteq> ?U" using in_use_pages[OF that] unfolding pages_def by blast
    then show ?thesis using m1(4) unfolding same_cells_def by blast
  qed
  have T1: "trees_ok Im (mem m1) ?R A S" "in_use Im (mem m1) ?R A S = ?U"
    by (rule trees_same[OF D(4) cells]; assumption)+
  let ?F = "set (take 3 (answers m1))"
  have F: "?F \<inter> ?U = {}" using m1(5) by (auto simp: fresh_pages_def)
  have "trees_ok Im (mem m') ?R (insert (slot_root m') A) S"
  proof (rule trees_map[OF T1(1) D(3) _ M(2) _ _ M(5), unfolded T1(2)])
    show "?c = 0 \<or> slot_root m' = ?c" using M(7) by blast
    show "wf_pt (mem m') 3 (slot_root m')" using slot_okD(2)[OF M(1)] .
    show "acc_below (mem m') 3 (slot_root m')"
      using M(8) trees_okD(6)[OF T1(1) D(3)] by (simp add: owner_ok_def)
    show "?F \<inter> ?U = {}" by (rule F)
    show "pt_lookup (mem m') 3 (slot_root m') ix = (if same_path 3 (pfn_down va) ix then Some e else pt_lookup (mem m1) 3 ?c ix)"
      if "small_ix ix" for ix by (rule M(4)) (use that in blast)
    show "if pte_RW e then ent_addr e \<notin> ?U \<and> ent_addr e \<notin> ?F else ent_addr e \<in> Im" by (rule e)
    fix r assume r: "r \<in> A \<union> S" "r \<noteq> ?c"
    have ap: "tbls (mem m1) 3 r \<inter> tbls (mem m1) 3 ?c = {}" using trees_okD(5)[OF T1(1) r(1) cT] r(2) by (simp add: apart_def)
    have tU: "tbls (mem m1) 3 r \<subseteq> ?U" "?R \<notin> tbls (mem m1) 3 r"
      using in_use_pages[OF r(1), of "mem m1" Im ?R] T1(2) tree_okD(2)[OF trees_okD(4)[OF T1(1) r(1)]] by (auto simp: pages_def)
    have "t \<notin> tbls (mem m') 3 (slot_root m') \<and> t \<noteq> ?R" if "t \<in> tbls (mem m1) 3 r" for t
      using that ap tU F M(5) by blast
    then show "same_cells (mem m1) (mem m') (tbls (mem m1) 3 r)" using M(6) by (auto simp: same_cells_def)
  qed
  then show "isolated Im s' (insert (slot_root (ms s')) A) S" using M(1,3) D(2) by (simp add: isolated_def s')
  show "slot_root (ms s') = slot_root (ms s) \<or> slot_root (ms s) = 0 \<and> slot_root (ms s') \<notin> A"
  proof (cases "?c = 0")
    case True
    have "slot_root m' \<in> ?F" using root_in_tree[OF M(2)] M(5) by (auto simp: True null_tree)
    moreover have "slot_root m' \<in> ?U" if "slot_root m' \<in> A"
      using in_use_pages[of "slot_root m'" A S "mem (ms s)" Im ?R] root_in_tree[OF M(2)] that unfolding pages_def by blast
    ultimately show ?thesis using F True s' by blast
  qed (use M(7) s' in simp)
qed

text \<open>A copy of a tree is apart from all others.\<close>

lemma copy_isolated:
  assumes T: "trees_ok Im h R A S" and h: "h = mem m" and snap: "snapshot_of deep m root (in_use Im h R A S) m' c"
    and root: "deep = pte_RW \<and> root \<in> A \<or> deep = (\<lambda>_. False) \<and> root \<in> S"
  shows "trees_ok Im (mem m') R A (insert c S)" "deep = (\<lambda>_. False) \<Longrightarrow> trees_ok Im (mem m') R (insert c A) S"
proof -
  let ?U = "in_use Im h R A S"
  note N = snapshot_ofD[OF snap]
  have rT: "root \<in> A \<union> S" using root by blast
  have keep: "same_cells h (mem m') ?U" using N(3) by (auto simp: same_cells_def h)
  have ent: "\<exists>ix x. small_ix ix \<and> pt_lookup (mem m') 3 c ix = Some e \<and> pt_lookup h 3 root ix = Some x \<and>
      (if deep x then ent_addr e \<notin> ?U \<and> ent_addr e \<notin> tbls (mem m') 3 c else ent_addr e = ent_addr x \<and> \<not> pte_RW e)"
    if "small_ix ix" "pt_lookup (mem m') 3 c ix = Some e" for ix e
    using N(4)[of ix] that by (intro exI[of _ ix]) (auto simp: snapshot_entry_def h pte_simps split: option.splits if_splits)
  have notw: "ent_addr x \<notin> wframes h r"
    if x: "small_ix ix" "pt_lookup h 3 root ix = Some x" "\<not> deep x" and r: "r \<in> A" for ix x r
  proof
    assume w: "ent_addr x \<in> wframes h r"
    have "ent_addr x \<in> frames h root" by (rule framesI[OF x(1,2)])
    then have eq: "r = root" using trees_okD(7)[OF T r rT] w by (auto simp: exclusive_def)
    show False
    proof (cases "root \<in> A \<and> deep = pte_RW")
      case True
      obtain jx y where y: "small_ix jx" "pt_lookup h 3 root jx = Some y" "pte_RW y" "ent_addr y = ent_addr x"
        using w eq unfolding wframes_def by auto
      have "once h root" using trees_okD(6)[OF T, of root] True by (simp add: owner_ok_def)
      from onceD[OF this y(1) x(1) y(2,3) x(2) y(4)] show False using y(3) x(3) True by simp
    next
      case False
      then have "root = 0" using root eq r trees_okD(3)[OF T] by blast
      then show False using w eq by simp
    qed
  qed
  have fr: "f \<notin> ?U \<and> f \<notin> tbls (mem m') 3 c \<or> (\<exists>s \<in> A \<union> S. f \<in> frames h s) \<and> (\<forall>r \<in> A. f \<notin> wframes h r)"
    if f: "f \<in> frames (mem m') c" for f
  proof -
    obtain ix e where "small_ix ix" "pt_lookup (mem m') 3 c ix = Some e" "f = ent_addr e" using f by (auto simp: frames_def)
    from ent[OF this(1,2)] this(3) obtain jx x where x: "small_ix jx" "pt_lookup h 3 root jx = Some x"
      "if deep x then f \<notin> ?U \<and> f \<notin> tbls (mem m') 3 c else f = ent_addr x" by metis
    show ?thesis
    proof (cases "deep x")
      case False
      then show ?thesis using x notw[OF x(1,2) False] framesI[OF x(1,2)] rT by auto
    qed (use x(3) in simp)
  qed
  note ins = trees_insert[OF T keep N(1,2) fr]
  show "trees_ok Im (mem m') R A (insert c S)" by (rule ins(1))
  assume d: "deep = (\<lambda>_. False)"
  have "wframes (mem m') c = {}"
  proof (rule ccontr)
    assume "wframes (mem m') c \<noteq> {}"
    then obtain ix e where "small_ix ix" "pt_lookup (mem m') 3 c ix = Some e" "pte_RW e" by (auto simp: wframes_def)
    then show False using N(4)[of ix] d by (auto simp: snapshot_entry_def pte_simps split: option.splits if_splits)
  qed
  moreover have "c = 0 \<or> acc_below (mem m') 3 c" using snap by (simp add: snapshot_of_def)
  ultimately show "trees_ok Im (mem m') R (insert c A) S" by (intro ins(2))
qed

text \<open>No cell of a table or of the top-level table changes.\<close>

lemma isolated_frame:
  assumes I: "isolated Im s A S" and cr: "cr3 (ms s') = cr3 (ms s)"
    and cells: "\<And>t j. pg_ok t \<Longrightarrow> j < 512 \<Longrightarrow> t = getPML4Root (ms s) \<or> (\<exists>r \<in> A \<union> S. t \<in> tbls (mem (ms s)) 3 r) \<Longrightarrow>
          mem (ms s') (pte_at t j) = mem (ms s) (pte_at t j)"
  shows "isolated Im s' A S" "slot_root (ms s') = slot_root (ms s)" "slot_ok (ms s')"
proof -
  note D = isolatedD[OF I]
  have R: "getPML4Root (ms s') = getPML4Root (ms s)" using cr by (simp add: getPML4Root_def)
  have c: "mem (ms s') (pte_at t j) = mem (ms s) (pte_at t j)"
    if "pg_ok t" "j < 512" "t = getPML4Root (ms s) \<or> t \<in> tbls (mem (ms s)) 3 (slot_root (ms s))" for t j
    using cells[OF that(1,2)] that(3) D(3) by blast
  show s: "slot_root (ms s') = slot_root (ms s)" "slot_ok (ms s')" by (rule slot_ok_frame[OF D(1) cr c]; assumption)+
  have sc: "same_cells (mem (ms s)) (mem (ms s')) (tbls (mem (ms s)) 3 r)" if "r \<in> A \<union> S" for r
    using cells that unfolding same_cells_def by blast
  have "trees_ok Im (mem (ms s')) (getPML4Root (ms s)) A S" by (rule trees_same(1)[OF D(4) sc])
  then show "isolated Im s' A S" using s D(2,3) R by (simp add: isolated_def)
qed

lemma checkpoint_isolated:
  assumes I: "isolated Im s A S" and run: "process_checkpoint (\<lambda>_. Inr) ef s = Inr s'"
    and u: "active_umi s = Some u" "u_snap_addr u \<noteq> 0" "slot_root (ms s) \<noteq> 0"
    and fr: "fresh_pages (copy_budget (ms s) (slot_root (ms s))) (ms s) (used Im s A S)"
    and v: "active_umi s' = Some u'" "u_snap_p u' = Some [v]"
  shows "isolated Im s' A (insert (Root (sv_pth v)) S)" "slot_root (ms s') = slot_root (ms s)"
proof -
  let ?U = "used Im s A S" and ?c = "slot_root (ms s)" and ?R = "getPML4Root (ms s)"
  note D = isolatedD[OF I]
  obtain w m' where take: "take_snapshot ef u (ms s) = Inr (w, m')" and s': "ms s' = m'" "active_umi s' = Some (u\<lparr>u_snap_p := Some [w]\<rparr>)"
    using run u(1,2)
    by (cases "u_snap_p u"; cases "the (u_snap_p u)")
      (auto simp: process_checkpoint_def with_active_def and_then_eq_Inr kassert_eq_Inr set_status_eq_Inr Let_def)
  have vw: "w = v" using s'(2) v by auto
  have cT: "?c \<in> A \<union> S" using D(3) by simp
  obtain copy m1 where cp: "copyInPages UmPth_init ?c (ms s) = kassert (copy \<noteq> 0) (Inr (\<lparr>p_root = copy, p_lvl = 3\<rparr>, m1))"
    and snap: "snapshot_of pte_RW (ms s) ?c ?U m1 copy" and cr: "cr3 m1 = cr3 (ms s)"
    using copyInPages_walk[OF slot_okD(2)[OF D(1)] u(3) used_source[OF cT] fr] by blast
  have m: "m' = m1" "Root (sv_pth v) = copy"
    using take cp unfolding vw
    by (auto simp: take_snapshot_def mgr_getSlotPDPTRoot_eq fold_AddRegion UmSV_init_def Let_def Root_def and_then_eq_Inr kassert_eq_Inr)
  note N = snapshot_ofD[OF snap]
  have frame: "mem m1 (pte_at t j) = mem (ms s) (pte_at t j)"
    if "pg_ok t" "j < 512" "t = ?R \<or> (\<exists>r \<in> A \<union> S. t \<in> tbls (mem (ms s)) 3 r)" for t j
    using that N(3)[of t j] in_use_pages[of _ A S "mem (ms s)" Im ?R] by (auto simp: in_use_def pages_def)
  note F = isolated_frame[OF I, of s', unfolded s'(1) m(1), OF cr frame]
  have T: "trees_ok Im (mem m1) ?R A (insert copy S)"
    by (rule copy_isolated(1)[OF D(4) refl snap]) (use D(3) in blast)
  have R: "getPML4Root m1 = ?R" using cr by (simp add: getPML4Root_def)
  have "slot_ok m1" and root: "slot_root m1 = ?c" using F(2,3) by blast+
  then show "isolated Im s' A (insert (Root (sv_pth v)) S)" using T D(2,3) by (simp add: isolated_def s'(1) m R)
  show "slot_root (ms s') = slot_root (ms s)" using root by (simp add: s'(1) m)
qed

lemma deploy_isolated:
  assumes I: "isolated Im s A S" and run: "UmInstance_new v n (ms s) = Inr (u, n', m')"
    and v: "Root (sv_pth v) \<in> S" "Root (sv_pth v) \<noteq> 0" "p_lvl (sv_pth v) = 3"
    and fr: "fresh_pages (copy_budget (ms s) (Root (sv_pth v))) (ms s) (used Im s A S)"
  shows "isolated Im (s\<lparr>ms := m'\<rparr>) (insert (Root (sv_pth (u_sv u))) A) S" "slot_root m' = slot_root (ms s)"
proof -
  let ?U = "used Im s A S" and ?r = "Root (sv_pth v)" and ?R = "getPML4Root (ms s)"
  note D = isolatedD[OF I]
  have rT: "?r \<in> A \<union> S" using v(1) by simp
  have snap: "snapshot_of (\<lambda>_. False) (ms s) ?r ?U m' (Root (sv_pth (u_sv u)))" and cr: "cr3 m' = cr3 (ms s)"
    using UmInstance_new_copy[OF v(3,2) tree_okD(1)[OF trees_okD(4)[OF D(4) rT]] used_source[OF rT] fr, of n] run by auto
  note N = snapshot_ofD[OF snap]
  have frame: "mem m' (pte_at t j) = mem (ms s) (pte_at t j)"
    if "pg_ok t" "j < 512" "t = ?R \<or> (\<exists>r \<in> A \<union> S. t \<in> tbls (mem (ms s)) 3 r)" for t j
    using that N(3)[of t j] in_use_pages[of _ A S "mem (ms s)" Im ?R] by (auto simp: in_use_def pages_def)
  note F = isolated_frame[OF I, of "s\<lparr>ms := m'\<rparr>", simplified, OF cr frame]
  have "trees_ok Im (mem m') ?R (insert (Root (sv_pth (u_sv u))) A) S"
    by (rule copy_isolated(2)[OF D(4) refl snap]) (use v(1) in blast)+
  moreover have "getPML4Root m' = ?R" using cr by (simp add: getPML4Root_def)
  moreover have "slot_ok m'" using F(3) by blast
  moreover show root: "slot_root m' = slot_root (ms s)" using F(2) by blast
  ultimately show "isolated Im (s\<lparr>ms := m'\<rparr>) (insert (Root (sv_pth (u_sv u))) A) S" using D(2,3) by (simp add: isolated_def)
qed

lemma R_not_table:
  assumes "trees_ok Im h R A S" "r \<in> A \<union> S"
  shows "R \<notin> tbls h 3 r"
  using tree_okD(2)[OF trees_okD(4)[OF assms]] by (simp add: pages_def)

text \<open>Only the slot's entry changes.\<close>

lemma slot_cell_isolated:
  assumes I: "isolated Im s A S" and cr: "cr3 (ms s') = cr3 (ms s)"
    and m: "mem (ms s') = (mem (ms s))(getSlotRoot (ms s) := e)"
    and r: "r \<in> A" "e = (if r = 0 then 0 else pte_build r False True True True False)"
  shows "isolated Im s' A S"
proof -
  note D = isolatedD[OF I]
  let ?R = "getPML4Root (ms s)"
  have R: "getPML4Root (ms s') = ?R" using cr by (simp add: getPML4Root_def)
  have cell: "mem (ms s') (pte_at t j) = mem (ms s) (pte_at t j)" if "pg_ok t" "j < 512" "t \<noteq> ?R" for t j
    using that by (simp add: m slot_cell)
  have sc: "same_cells (mem (ms s)) (mem (ms s')) (tbls (mem (ms s)) 3 q)" if "q \<in> A \<union> S" for q
    using cell R_not_table[OF D(4) that] unfolding same_cells_def by metis
  have T: "trees_ok Im (mem (ms s')) ?R A S" by (rule trees_same(1)[OF D(4) sc])
  have rT: "r \<in> A \<union> S" using r(1) by simp
  note W = tree_okD(1)[OF trees_okD(4)[OF T rT]] R_not_table[OF T rT]
  have pr: "r = 0 \<or> pg_ok r" using wf_pt_pg_ok[OF W(1)] by auto
  have e: "mem (ms s') (getSlotRoot (ms s')) = e" by (simp add: m slot_cell R)
  have root: "slot_root (ms s') = r"
    using pr by (auto simp: slot_root_def e r(2) pte_simps)
  have "slot_ok (ms s')"
    unfolding slot_ok_def root R e using slot_okD(1)[OF D(1)] W pr by (auto simp: r(2) pte_simps)
  then show ?thesis using T D(2) r(1) R root by (simp add: isolated_def)
qed

lemma load_isolated:
  assumes I: "isolated Im s A S" and run: "slot_load_instance u s = Inr (i, s')" and r: "Root (sv_pth (u_sv u)) \<in> A"
  shows "isolated Im s' A S"
proof -
  note D = isolatedD[OF I]
  have e: "m_status s = empty" "slot_root (ms s) = 0"
    using run by (auto simp: slot_load_instance_def kassert_eq_Inr and_then_eq_Inr mgr_getSlotPDPTRoot_eq)
  then have z: "mem (ms s) (getSlotRoot (ms s)) = 0" using slot_okD(4)[OF D(1)] by simp
  have rT: "Root (sv_pth (u_sv u)) \<in> A \<union> S" using r by simp
  have "Root (sv_pth (u_sv u)) = 0 \<or> pg_ok (Root (sv_pth (u_sv u)))"
    using wf_pt_pg_ok[OF tree_okD(1)[OF trees_okD(4)[OF D(4) rT]]] by auto
  from slot_load_run[OF e(1) z refl this] run show ?thesis
    by (intro slot_cell_isolated[OF I _ _ r refl]) auto
qed

lemma unload_isolated:
  assumes I: "isolated Im s A S" and run: "slot_unload_instance s = Inr (u, s')"
  shows "isolated Im s' A S"
  using slot_unload_mem(1,2)[OF run] by (intro slot_cell_isolated[OF I _ _ isolatedD(2)[OF I] refl]) simp_all

text \<open>The running instance writes to a page it can write.\<close>

lemma writable_not_table:
  assumes "trees_ok Im h R A S" "c \<in> A" "small_ix ix" "pt_lookup h 3 c ix = Some e" "pte_RW e"
  shows "ent_addr e \<noteq> R" "r \<in> A \<union> S \<Longrightarrow> ent_addr e \<notin> tbls h 3 r" "r \<in> A \<union> S \<Longrightarrow> r \<noteq> c \<Longrightarrow> ent_addr e \<notin> pages h r"
    "ent_addr e \<notin> Im"
proof -
  have f: "ent_addr e \<in> frames h c" by (rule framesI[OF assms(3,4)])
  have w: "ent_addr e \<in> wframes h c" using assms(3-5) by (auto simp: wframes_def)
  have c: "c \<in> A \<union> S" using assms(2) by simp
  show "ent_addr e \<noteq> R" using f tree_okD(2)[OF trees_okD(4)[OF assms(1) c]] by (auto simp: pages_def)
  show t: "ent_addr e \<notin> tbls h 3 r" if "r \<in> A \<union> S"
    using f trees_okD(5)[OF assms(1) that c] by (auto simp: apart_def)
  show "ent_addr e \<notin> pages h r" if "r \<in> A \<union> S" "r \<noteq> c"
    using t[OF that(1)] w trees_okD(7)[OF assms(1,2) that(1)] that(2) by (auto simp: pages_def exclusive_def)
  show "ent_addr e \<notin> Im" using w trees_okD(6)[OF assms(1,2)] by (auto simp: owner_ok_def)
qed

definition store :: "u64 \<Rightarrow> nat \<Rightarrow> u64 \<Rightarrow> mach \<Rightarrow> mach option" where
  "store va j x m =
     (case pt_lookup (mem m) 3 (slot_root m) (lin_index va) of
        Some e \<Rightarrow> if pte_RW e \<and> j < 512 then Some (st (pte_at (ent_addr e) j) x m) else None
      | None \<Rightarrow> None)"

lemma store_isolated:
  assumes I: "isolated Im s A S" and run: "store va j x (ms s) = Some m'"
  shows "isolated Im (s\<lparr>ms := m'\<rparr>) A S" "slot_root m' = slot_root (ms s)"
proof -
  note D = isolatedD[OF I]
  obtain e where e: "pt_lookup (mem (ms s)) 3 (slot_root (ms s)) (lin_index va) = Some e" "pte_RW e" "j < 512"
    and m': "m' = st (pte_at (ent_addr e) j) x (ms s)"
    using run by (auto simp: store_def split: option.splits if_splits)
  have ix: "small_ix (lin_index va)" by simp
  note W = writable_not_table[OF D(4,3) ix e(1,2)]
  note F = isolated_frame[OF I, of "s\<lparr>ms := m'\<rparr>"]
  show "isolated Im (s\<lparr>ms := m'\<rparr>) A S" by (rule F(1)) (use W(1,2) e(3) in \<open>auto simp: m' mach_simps\<close>)
  have "slot_root (ms (s\<lparr>ms := m'\<rparr>)) = slot_root (ms s)"
    by (rule F(2)) (use W(1,2) e(3) in \<open>auto simp: m' mach_simps\<close>)
  then show "slot_root m' = slot_root (ms s)" by simp
qed

lemma marks_isolated:
  assumes I: "isolated Im s A S" and m: "only_marks (mem (ms s)) (mem m')" "cr3 m' = cr3 (ms s)"
  shows "isolated Im (s\<lparr>ms := m'\<rparr>) A S" "slot_root m' = slot_root (ms s)"
proof -
  note D = isolatedD[OF I]
  note M = same_shapeD[OF only_marksD(1)[OF m(1)]]
  have R: "getPML4Root m' = getPML4Root (ms s)" "getSlotRoot m' = getSlotRoot (ms s)"
    using m(2) by (simp_all add: getSlotRoot_def getPML4Root_def)
  show root: "slot_root m' = slot_root (ms s)" by (simp add: slot_root_def R M Let_def)
  have "mem (ms s) (getSlotRoot (ms s)) = 0 \<Longrightarrow> mem m' (getSlotRoot (ms s)) = 0"
    using m(1) not_exists_0 unfolding only_marks_def by metis
  then have "slot_ok m'"
    using D(1) unfolding slot_ok_def root R same_shape_tree[OF only_marksD(1)[OF m(1)]] M by blast
  moreover have "trees_ok Im (mem m') (getPML4Root (ms s)) A S" by (rule trees_marks[OF D(4) m(1)])
  ultimately show "isolated Im (s\<lparr>ms := m'\<rparr>) A S" using D(2,3) by (simp add: isolated_def root R)
qed

text \<open>Reclaiming the tree of an instance frees no page that is used by others.\<close>

lemma destroy_frees:
  assumes T: "trees_ok Im (mem m) R A S" and r: "r \<in> A" "r \<noteq> 0"
  shows "\<exists>ps. UmPth_destroy \<lparr>p_root = r, p_lvl = 3\<rparr> m = Inr (m\<lparr>freed := freed m @ map (\<lambda>p. (p, 0)) ps\<rparr>) \<and> distinct ps \<and>
     set ps = tbls (mem m) 3 r \<union> {ent_addr e | ix e. small_ix ix \<and> pt_lookup (mem m) 3 r ix = Some e \<and> isAccessed e \<and> pte_RW e} \<and>
     R \<notin> set ps \<and> set ps \<inter> Im = {} \<and> (\<forall>t \<in> A \<union> S. t \<noteq> r \<longrightarrow> set ps \<inter> pages (mem m) t = {})"
proof -
  let ?h = "mem m"
  have rT: "r \<in> A \<union> S" using r(1) by simp
  have "acc_below ?h 3 r" using trees_okD(6)[OF T r(1)] r(2) by (simp add: owner_ok_def)
  from free_correct[OF tree_okD(1)[OF trees_okD(4)[OF T rT]] r(2) _ _ this trees_owns[OF T r(1)]] obtain ps where
    ps: "freePageTableLamb r 3 m = Inr (m\<lparr>freed := freed m @ map (\<lambda>p. (p, 0)) ps\<rparr>)" "distinct ps"
      "set ps = tbls ?h 3 r \<union> {ent_addr e | ix e. small_ix ix \<and> pt_lookup ?h 3 r ix = Some e \<and> isAccessed e \<and> pte_RW e}" by auto
  have sub: "p \<in> tbls ?h 3 r \<or> (\<exists>ix e. small_ix ix \<and> pt_lookup ?h 3 r ix = Some e \<and> pte_RW e \<and> p = ent_addr e)" if "p \<in> set ps" for p
    using that ps(3) by blast
  have "R \<notin> set ps" using sub R_not_table[OF T rT] writable_not_table(1)[OF T r(1)] by metis
  moreover have "set ps \<inter> Im = {}"
    using sub tree_okD(3)[OF trees_okD(4)[OF T rT]] writable_not_table(4)[OF T r(1)] by blast
  moreover have "set ps \<inter> pages ?h t = {}" if t: "t \<in> A \<union> S" "t \<noteq> r" for t
  proof -
    have "p \<notin> pages ?h t" if "p \<in> tbls ?h 3 r" for p
      using trees_okD(5)[OF T rT t(1)] t(2) that by (auto simp: apart_def pages_def)
    then show ?thesis using sub writable_not_table(3)[OF T r(1)] t by blast
  qed
  ultimately show ?thesis using ps r(2) by (intro exI[of _ ps]) (simp add: UmPth_destroy_def)
qed

section \<open>Runs\<close>

text \<open>
  The steps that touch memory. The premises on \<open>fresh_pages\<close> say that the page allocator hands
  out pages that nobody uses; \<open>quiet\<close> stands for everything the manager does without writing
  memory, and for the allocator's own business.
\<close>

inductive mem_step :: "u64 set \<Rightarrow> mgr \<times> u64 set \<times> u64 set \<Rightarrow> mgr \<times> u64 set \<times> u64 set \<Rightarrow> bool" for Im where
  iso_fault: "HandleFault ef va s = Inr s' \<Longrightarrow> active_umi s = Some u \<Longrightarrow> images_in Im u \<Longrightarrow>
    fresh_pages 4 (ms s) (used Im s A S) \<Longrightarrow> mem_step Im (s, A, S) (s', insert (slot_root (ms s')) A, S)"
| iso_checkpoint: "process_checkpoint (\<lambda>_. Inr) ef s = Inr s' \<Longrightarrow> active_umi s = Some u \<Longrightarrow> u_snap_addr u \<noteq> 0 \<Longrightarrow>
    slot_root (ms s) \<noteq> 0 \<Longrightarrow> fresh_pages (copy_budget (ms s) (slot_root (ms s))) (ms s) (used Im s A S) \<Longrightarrow>
    active_umi s' = Some u' \<Longrightarrow> u_snap_p u' = Some [v] \<Longrightarrow> mem_step Im (s, A, S) (s', A, insert (Root (sv_pth v)) S)"
| iso_deploy: "UmInstance_new v n (ms s) = Inr (u, n', m') \<Longrightarrow> Root (sv_pth v) \<in> S \<Longrightarrow> Root (sv_pth v) \<noteq> 0 \<Longrightarrow>
    p_lvl (sv_pth v) = 3 \<Longrightarrow> fresh_pages (copy_budget (ms s) (Root (sv_pth v))) (ms s) (used Im s A S) \<Longrightarrow>
    mem_step Im (s, A, S) (s\<lparr>ms := m'\<rparr>, insert (Root (sv_pth (u_sv u))) A, S)"
| iso_load: "slot_load_instance u s = Inr (i, s') \<Longrightarrow> Root (sv_pth (u_sv u)) \<in> A \<Longrightarrow> mem_step Im (s, A, S) (s', A, S)"
| iso_unload: "slot_unload_instance s = Inr (o', s') \<Longrightarrow> mem_step Im (s, A, S) (s', A, S)"
| iso_destroy: "UmPth_destroy \<lparr>p_root = r, p_lvl = 3\<rparr> (ms s) = Inr m' \<Longrightarrow> r \<in> A \<Longrightarrow> r \<noteq> 0 \<Longrightarrow> r \<noteq> slot_root (ms s) \<Longrightarrow>
    mem_step Im (s, A, S) (s\<lparr>ms := m'\<rparr>, A - {r}, S)"
| iso_store: "store va j x (ms s) = Some m' \<Longrightarrow> mem_step Im (s, A, S) (s\<lparr>ms := m'\<rparr>, A, S)"
| iso_marks: "only_marks (mem (ms s)) (mem m') \<Longrightarrow> cr3 m' = cr3 (ms s) \<Longrightarrow> mem_step Im (s, A, S) (s\<lparr>ms := m'\<rparr>, A, S)"
| iso_quiet: "mem (ms s') = mem (ms s) \<Longrightarrow> cr3 (ms s') = cr3 (ms s) \<Longrightarrow> mem_step Im (s, A, S) (s', A, S)"

lemma mem_step_isolated:
  assumes "mem_step Im (s, A, S) (s', A', S')" "isolated Im s A S"
  shows "isolated Im s' A' S'"
  using assms(1)
proof (cases rule: mem_step.cases)
  case (iso_destroy r m')
  note D = isolatedD[OF assms(2)]
  obtain ps where "m' = (ms s)\<lparr>freed := freed (ms s) @ map (\<lambda>p. (p, 0)) ps\<rparr>"
    using destroy_frees[OF D(4) iso_destroy(5,6)] iso_destroy(4) by auto
  then have "isolated Im s' A S" using iso_destroy(1) by (intro isolated_frame(1)[OF assms(2)]) simp_all
  moreover have "slot_root (ms s') = slot_root (ms s)"
    using iso_destroy(1) \<open>m' = _\<close> by (simp add: slot_root_def getSlotRoot_def getPML4Root_def)
  ultimately show ?thesis
    using trees_mono[of Im "mem (ms s')" "getPML4Root (ms s')" A S "A - {r}" S] iso_destroy(2,3,6,7)
    by (auto simp: isolated_def)
next
  case iso_quiet
  then show ?thesis using isolated_frame(1)[OF assms(2), of s'] by simp
qed (use assms(2) in \<open>auto intro: fault_isolated(1) checkpoint_isolated(1) deploy_isolated(1) load_isolated unload_isolated store_isolated(1) marks_isolated(1)\<close>)

inductive mem_reach :: "u64 set \<Rightarrow> mgr \<times> u64 set \<times> u64 set \<Rightarrow> mgr \<times> u64 set \<times> u64 set \<Rightarrow> bool" for Im w where
  iso_refl: "mem_reach Im w w"
| iso_step: "mem_reach Im w v \<Longrightarrow> mem_step Im v v' \<Longrightarrow> mem_reach Im w v'"

lemma isolated_init:
  assumes "slot_ok (ms s)" "slot_root (ms s) = 0" "\<forall>t \<in> Im. pg_ok t" "getPML4Root (ms s) \<notin> Im"
  shows "isolated Im s {0} {}"
  using assms by (simp add: isolated_def trees_ok_def tree_ok_def apart_def owner_ok_def exclusive_def)

lemma mem_reach_isolated:
  assumes "mem_reach Im (s0, {0}, {}) (s, A, S)" "slot_ok (ms s0)" "slot_root (ms s0) = 0" "\<forall>t \<in> Im. pg_ok t" "getPML4Root (ms s0) \<notin> Im"
  shows "isolated Im s A S"
  using assms(1)
proof (induction "(s, A, S)" arbitrary: s A S rule: mem_reach.induct)
  case iso_refl
  then show ?case using isolated_init[OF assms(2-5)] by simp
next
  case (iso_step v)
  obtain s1 A1 S1 where v: "v = (s1, A1, S1)" by (cases v)
  show ?case by (rule mem_step_isolated[OF iso_step(3)[unfolded v] iso_step(2)[OF v]])
qed

lemma isolated_apart:
  assumes I: "isolated Im s A S" and r: "r \<in> A" and t: "t \<in> A \<union> S" "t \<noteq> r"
  shows "(wframes (mem (ms s)) r \<union> tbls (mem (ms s)) 3 r) \<inter> (pages (mem (ms s)) t \<union> Im \<union> {getPML4Root (ms s)}) = {}"
proof -
  note D = isolatedD[OF I]
  have rT: "r \<in> A \<union> S" using r by simp
  have "wframes (mem (ms s)) r \<inter> (pages (mem (ms s)) t \<union> Im \<union> {getPML4Root (ms s)}) = {}"
  proof (rule ccontr)
    assume "wframes (mem (ms s)) r \<inter> (pages (mem (ms s)) t \<union> Im \<union> {getPML4Root (ms s)}) \<noteq> {}"
    then obtain ix e where e: "small_ix ix" "pt_lookup (mem (ms s)) 3 r ix = Some e" "pte_RW e"
      "ent_addr e \<in> pages (mem (ms s)) t \<union> Im \<union> {getPML4Root (ms s)}" by (auto simp: wframes_def)
    note W = writable_not_table[OF D(4) r e(1-3)]
    show False using W(1,4) W(3)[OF t] e(4) by simp
  qed
  moreover have "tbls (mem (ms s)) 3 r \<inter> (pages (mem (ms s)) t \<union> Im \<union> {getPML4Root (ms s)}) = {}"
    using trees_okD(5)[OF D(4) rT t(1)] t(2) tree_okD(3)[OF trees_okD(4)[OF D(4) rT]] R_not_table[OF D(4) rT]
    by (auto simp: apart_def pages_def)
  ultimately show ?thesis by blast
qed

section \<open>Two instances after one another, for examples\<close>

definition usr_umi :: umi where
  "usr_umi = one_region (Region_init\<lparr>r_name := ''usr'', r_start := 0xFFFFC00000400000, r_length := 0x100000, r_writable := True\<rparr>)"

abbreviation write_fault :: "mgr \<Rightarrow> mgr res" where
  "write_fault \<equiv> HandleFault (ef_zero\<lparr>ef_error_code := 2\<rparr>) 0xFFFFC00000403010"

lemma usr_fault_runs:
  assumes s: "active_umi s = Some usr_umi" "m_status s = active" "isolated {} s A S" "slot_root (ms s) = 0" "answers (ms s) = p # ps"
    and fr: "fresh_pages 4 (ms s) (used {} s A S)"
  shows "\<exists>s'. write_fault s = Inr s' \<and> m_status s' = active \<and> getPML4Root (ms s') = getPML4Root (ms s) \<and> slot_root (ms s') \<noteq> 0 \<and>
     pages (mem (ms s')) (slot_root (ms s')) \<subseteq> insert p (set (take 3 ps)) \<and>
     (\<exists>e. pt_lookup (mem (ms s')) 3 (slot_root (ms s')) (lin_index 0xFFFFC00000403000) = Some e \<and> pte_RW e)"
proof -
  note D = isolatedD[OF s(3)]
  let ?U = "used {} s A S" and ?R = "getPML4Root (ms s)"
  have U: "?R \<in> ?U" "tbls (mem (ms s)) 3 (slot_root (ms s)) \<subseteq> ?U" by (simp_all add: in_use_def s(4))
  have fr': "fresh_pages 4 (ms s) (insert ?R (tbls (mem (ms s)) 3 (slot_root (ms s))))"
    by (rule fresh_pages_mono[OF fr]) (use U in auto)
  have v: "pfn_down 0xFFFFC00000403010 = 0xFFFFC00000403000" by (rule usr_fault(1))
  have src: "fault_source (sv_regions (u_sv usr_umi) ! 0) (pfn_down 0xFFFFC00000403010) 2 (ms s) = Some (\<lambda>_. 0)"
    by (simp add: usr_umi_def one_region_def Region_init_def fault_source_def isPresent_def ec_P_def)
  note uf = usr_fault(2,4,5)[folded usr_umi_def]
  obtain u' m' e where run: "resolve_fault 0xFFFFC00000403010 2 usr_umi (ms s) = Inr (u', m')"
    and e: "pt_lookup (mem m') 3 (slot_root m') (lin_index 0xFFFFC00000403000) = Some e" "ent_addr e = p" "pte_RW e"
    and tb: "tbls (mem m') 3 (slot_root m') \<subseteq> set (take 3 ps)"
    using resolve_fault_ok[OF D(1) s(5) fr' uf src] unfolding v s(4) by (auto simp: null_tree(5))
  have im: "images_in {} usr_umi" by (simp add: images_in_def usr_umi_def one_region_def)
  obtain m1 e1 where sm: "slot_mapped e1 (pfn_down 0xFFFFC00000403010) m1 m'" and m1: "cr3 m1 = cr3 (ms s)" "slot_root m1 = 0"
    using resolve_fault_did[OF run D(1) fr U im] s(4) by auto
  note M = slot_mappedD[OF sm, unfolded m1(2) v]
  have "e1 = e" using M(4)[of "lin_index 0xFFFFC00000403000"] e(1) by (simp add: same_path_def)
  then have "frames (mem m') (slot_root m') \<subseteq> {p}"
    using M(4) e(2) unfolding frames_def by (auto split: if_splits)
  then have pg: "pages (mem m') (slot_root m') \<subseteq> insert p (set (take 3 ps))" using tb by (auto simp: pages_def)
  have "write_fault s = Inr (s\<lparr>active_umi := Some u', ms := m'\<rparr>)"
    using run s(1,2)
    by (simp add: HandleFault_def process_pagefault_def with_active_def valid_address_def kSlotStartVAddr_def kSlotEndVAddr_def)
  then show ?thesis using M(2,3) m1(1) e(1,3) pg s(2)
    by (intro exI[of _ "s\<lparr>active_umi := Some u', ms := m'\<rparr>"]) (simp add: getPML4Root_def)
qed

text \<open>
  An instance takes a fault, is unloaded, and another one starts and takes a fault: two trees,
  the second in the slot.
\<close>

definition iso_start :: mgr where "iso_start = mgr_init (empty_slot [])"

lemma iso_start_ok: "slot_ok (ms iso_start)" "slot_root (ms iso_start) = 0" "\<forall>t \<in> {}. pg_ok t" "getPML4Root (ms iso_start) \<notin> {}"
  by (simp_all add: iso_start_def mgr_init_def empty_slot_ok)

lemma two_instances:
  "\<exists>s t. mem_reach {} (iso_start, {0}, {}) (s, {slot_root (ms s), t, 0}, {}) \<and> t \<noteq> 0 \<and> t \<noteq> slot_root (ms s) \<and> slot_root (ms s) \<noteq> 0 \<and>
     (\<exists>e. pt_lookup (mem (ms s)) 3 (slot_root (ms s)) (lin_index 0xFFFFC00000403000) = Some e \<and> pte_RW e)"
proof -
  let ?I = "\<lambda>s A. isolated {} s A {}"
  define s1 where "s1 = iso_start\<lparr>m_status := active, active_umi := Some usr_umi, ms := empty_slot [0x5000, 0x6000, 0x7000, 0x8000]\<rparr>"
  have q1: "mem_reach {} (iso_start, {0}, {}) (s1, {0}, {})"
    by (rule iso_step[OF iso_refl iso_quiet]) (simp_all add: s1_def iso_start_def mgr_init_def empty_slot_def mach_of_def)
  have i1: "?I s1 {0}" by (rule mem_reach_isolated[OF q1 iso_start_ok])
  have f1: "fresh_pages 4 (ms s1) (used {} s1 {0} {})" "slot_root (ms s1) = 0"
    by (simp_all add: s1_def empty_slot_ok in_use_def fresh_pages_def pg_ok_small)
  have im: "images_in {} usr_umi" by (simp add: images_in_def usr_umi_def one_region_def)
  obtain s2 where s2: "write_fault s1 = Inr s2" "m_status s2 = active" "getPML4Root (ms s2) = 0x1000" "slot_root (ms s2) \<noteq> 0"
      "pages (mem (ms s2)) (slot_root (ms s2)) \<subseteq> {0x5000, 0x6000, 0x7000, 0x8000}"
    using usr_fault_runs[OF _ _ i1 f1(2) _ f1(1), where p = "0x5000" and ps = "[0x6000, 0x7000, 0x8000]"] by (auto simp: s1_def empty_slot_ok)
  define t where "t = slot_root (ms s2)"
  have q2: "mem_reach {} (iso_start, {0}, {}) (s2, {t, 0}, {})"
    unfolding t_def by (rule iso_step[OF q1 iso_fault[OF s2(1) _ im f1(1)]]) (simp add: s1_def)
  define s3 where "s3 = s2\<lparr>m_status := idle\<rparr>"
  have q3: "mem_reach {} (iso_start, {0}, {}) (s3, {t, 0}, {})" by (rule iso_step[OF q2 iso_quiet]) (simp_all add: s3_def)
  note i3 = mem_reach_isolated[OF q3 iso_start_ok]
  have tn: "t \<noteq> 0" "mem (ms s3) (getSlotRoot (ms s3)) \<noteq> 0"
    using s2(4) slot_empty_root[of "ms s2"] by (auto simp: t_def s3_def)
  obtain s4 where un: "slot_unload_instance s3 = Inr (active_umi s3, s4)"
    using slot_unload_run[of s3] slot_okD(5)[OF isolatedD(1)[OF i3] tn(2)] by (auto simp: s3_def)
  note U = slot_unload_mem[OF un]
  have q4: "mem_reach {} (iso_start, {0}, {}) (s4, {t, 0}, {})" by (rule iso_step[OF q3 iso_unload[OF un]])
  define s5 where "s5 = s4\<lparr>m_status := active, active_umi := Some usr_umi, ms := (ms s4)\<lparr>answers := [0x9000, 0xa000, 0xb000, 0xc000]\<rparr>\<rparr>"
  have q5: "mem_reach {} (iso_start, {0}, {}) (s5, {t, 0}, {})" by (rule iso_step[OF q4 iso_quiet]) (simp_all add: s5_def)
  note i5 = mem_reach_isolated[OF q5 iso_start_ok]
  have R5: "getPML4Root (ms s5) = 0x1000" using U(2) s2(3) by (simp add: s5_def s3_def getPML4Root_def)
  have z5: "slot_root (ms s5) = 0" using U(3) by (simp add: s5_def slot_root_def getSlotRoot_def getPML4Root_def)
  note D3 = isolatedD[OF i3]
  have "same_cells (mem (ms s3)) (mem (ms s5)) (tbls (mem (ms s3)) 3 t)"
    using R_not_table[OF D3(4), of t] unfolding same_cells_def by (auto simp: s5_def U(1) slot_cell)
  then have "pages (mem (ms s5)) t = pages (mem (ms s3)) t"
    by (intro tree_same(3) tree_okD(1)[OF trees_okD(4)[OF D3(4)]]) auto
  then have sub: "used {} s5 {t, 0} {} \<subseteq> {0x1000, 0x5000, 0x6000, 0x7000, 0x8000}"
    using s2(5) R5 by (auto simp: in_use_def t_def s3_def)
  have "fresh_pages 4 (ms s5) {0x1000, 0x5000, 0x6000, 0x7000, 0x8000}" by (simp add: s5_def fresh_pages_def pg_ok_iff)
  then have f5: "fresh_pages 4 (ms s5) (used {} s5 {t, 0} {})" by (rule fresh_pages_mono[OF _ order_refl sub])
  obtain s6 where s6: "write_fault s5 = Inr s6" "slot_root (ms s6) \<noteq> 0"
      "pages (mem (ms s6)) (slot_root (ms s6)) \<subseteq> {0x9000, 0xa000, 0xb000, 0xc000}"
      "\<exists>e. pt_lookup (mem (ms s6)) 3 (slot_root (ms s6)) (lin_index 0xFFFFC00000403000) = Some e \<and> pte_RW e"
    using usr_fault_runs[OF _ _ i5 z5 _ f5, where p = "0x9000" and ps = "[0xa000, 0xb000, 0xc000]"] by (auto simp: s5_def)
  have q6: "mem_reach {} (iso_start, {0}, {}) (s6, {slot_root (ms s6), t, 0}, {})"
    by (rule iso_step[OF q5 iso_fault[OF s6(1) _ im f5]]) (simp add: s5_def)
  have "t \<in> {0x5000, 0x6000, 0x7000, 0x8000}" using s2(5) root_in_tree[OF tn(1)] by (auto simp: t_def pages_def)
  moreover have "slot_root (ms s6) \<in> {0x9000, 0xa000, 0xb000, 0xc000}" using s6(3) root_in_tree[OF s6(2)] by (auto simp: pages_def)
  ultimately have "t \<noteq> slot_root (ms s6)" by auto
  then show ?thesis using q6 tn(1) s6(2,4) by blast
qed

section \<open>Properties\<close>

text \<open>
  Instances are isolated. In every state a core reaches from an empty slot by page faults,
  checkpoints, new instances, loading, unloading and destroying them, stores of the running
  instance and the processor's marks, as long as the page allocator hands out unused pages: the
  slot's tree is well-formed, and what an instance can write, and the tables that translate for
  it, are disjoint from every page any other instance or any snapshot maps or uses as a table,
  from the pages of the images, and from the top-level table.
\<close>

theorem instances_isolated:
  assumes "mem_reach Im (s0, {0}, {}) (s, A, S)"
    and "slot_ok (ms s0)" "slot_root (ms s0) = 0" "\<forall>t \<in> Im. pg_ok t" "getPML4Root (ms s0) \<notin> Im"
    and "r \<in> A" "t \<in> A \<union> S" "t \<noteq> r"
  shows "slot_ok (ms s) \<and> slot_root (ms s) \<in> A \<and>
     (wframes (mem (ms s)) r \<union> tbls (mem (ms s)) 3 r) \<inter>
       (pages (mem (ms s)) t \<union> Im \<union> {getPML4Root (ms s)}) = {}"
  using isolated_apart[OF mem_reach_isolated[OF assms(1-5)] assms(6-8)] isolatedD(1,3)[OF mem_reach_isolated[OF assms(1-5)]] by blast

theorem instances_isolated_witness:
  "\<exists>(s :: mgr) t. t \<noteq> 0 \<and> slot_root (ms s) \<noteq> 0 \<and> t \<noteq> slot_root (ms s) \<and>
     (\<exists>e. pt_lookup (mem (ms s)) 3 (slot_root (ms s)) (lin_index 0xFFFFC00000403000) = Some e \<and> ent_addr e \<notin> pages (mem (ms s)) t)"
proof -
  obtain s t e where st: "mem_reach {} (iso_start, {0}, {}) (s, {slot_root (ms s), t, 0}, {})" "t \<noteq> 0" "t \<noteq> slot_root (ms s)"
      "slot_root (ms s) \<noteq> 0" "pt_lookup (mem (ms s)) 3 (slot_root (ms s)) (lin_index 0xFFFFC00000403000) = Some e" "pte_RW e"
    using two_instances by blast
  have w: "ent_addr e \<in> wframes (mem (ms s)) (slot_root (ms s))" unfolding wframes_def using st(5,6) lin_index_bound by blast
  have mem: "slot_root (ms s) \<in> {slot_root (ms s), t, 0}" "t \<in> {slot_root (ms s), t, 0} \<union> {}" by simp_all
  have "ent_addr e \<notin> pages (mem (ms s)) t"
    using instances_isolated[OF st(1) iso_start_ok mem st(3)] w by blast
  then show ?thesis using st(2-5) by (intro exI[of _ s] exI[of _ t] conjI exI[of _ e])
qed

text \<open>
  C3. A store of the running instance stays inside: whatever it writes where, every other
  instance and every snapshot has the same pages as before, mapped at the same places with the
  same entries, and none of their cells changed.
\<close>

theorem stores_stay_inside:
  assumes "mem_reach Im (s0, {0}, {}) (s, A, S)"
    and "slot_ok (ms s0)" "slot_root (ms s0) = 0" "\<forall>t \<in> Im. pg_ok t" "getPML4Root (ms s0) \<notin> Im"
    and "store va j x (ms s) = Some m'" "t \<in> A \<union> S" "t \<noteq> slot_root (ms s)"
  shows "pages (mem m') t = pages (mem (ms s)) t \<and>
     (\<forall>ix. small_ix ix \<longrightarrow> pt_lookup (mem m') 3 t ix = pt_lookup (mem (ms s)) 3 t ix) \<and>
     (\<forall>p \<in> pages (mem (ms s)) t. \<forall>i < 512. mem m' (pte_at p i) = mem (ms s) (pte_at p i))"
proof -
  note D = isolatedD[OF mem_reach_isolated[OF assms(1-5)]]
  obtain e where e: "pt_lookup (mem (ms s)) 3 (slot_root (ms s)) (lin_index va) = Some e" "pte_RW e" "j < 512"
    and m': "m' = st (pte_at (ent_addr e) j) x (ms s)"
    using assms(6) by (auto simp: store_def split: option.splits if_splits)
  have ix: "small_ix (lin_index va)" by simp
  note W = writable_not_table(3)[OF D(4,3) ix e(1,2) assms(7,8)]
  have wf: "wf_pt (mem (ms s)) 3 t" by (rule tree_okD(1)[OF trees_okD(4)[OF D(4) assms(7)]])
  have pg: "pg_ok p" if "p \<in> pages (mem (ms s)) t" for p
    using that tbls_pg_ok[OF wf] by (auto simp: pages_def frames_def)
  have cells: "\<forall>p \<in> pages (mem (ms s)) t. \<forall>i < 512. mem m' (pte_at p i) = mem (ms s) (pte_at p i)"
    using W pg e(3) by (auto simp: m' st_def)
  then have "same_cells (mem (ms s)) (mem m') (tbls (mem (ms s)) 3 t)" by (simp add: same_cells_def pages_def)
  then show ?thesis using tree_same(3)[OF wf] tree_frame(3)[OF wf] cells by blast
qed

theorem stores_stay_inside_witness:
  "\<exists>(s :: mgr) m' t. t \<noteq> 0 \<and> store 0xFFFFC00000403000 7 42 (ms s) = Some m' \<and> pages (mem m') t = pages (mem (ms s)) t"
proof -
  obtain s t e where st: "mem_reach {} (iso_start, {0}, {}) (s, {slot_root (ms s), t, 0}, {})" "t \<noteq> 0" "t \<noteq> slot_root (ms s)"
      "pt_lookup (mem (ms s)) 3 (slot_root (ms s)) (lin_index 0xFFFFC00000403000) = Some e" "pte_RW e"
    using two_instances by blast
  obtain m' where "store 0xFFFFC00000403000 7 42 (ms s) = Some m'" using st(4,5) by (simp add: store_def)
  note run = this
  have mem: "t \<in> {slot_root (ms s), t, 0} \<union> {}" by simp
  show ?thesis
    using stores_stay_inside[OF st(1) iso_start_ok run mem st(3)] run st(2)
    by (intro exI[of _ s] exI[of _ m'] exI[of _ t] conjI) blast+
qed

text \<open>
  C13. Destroying the page table of an instance frees what is its own and nothing else: exactly
  its tables and the pages it maps writable by an entry marked accessed, each once; none of
  these pages is used by another instance or a snapshot, belongs to an image, or is the top-level
  table.
\<close>

theorem destroy_frees_own:
  assumes "mem_reach Im (s0, {0}, {}) (s, A, S)"
    and "slot_ok (ms s0)" "slot_root (ms s0) = 0" "\<forall>t \<in> Im. pg_ok t" "getPML4Root (ms s0) \<notin> Im"
    and "r \<in> A" "r \<noteq> 0"
  shows "\<exists>ps. UmPth_destroy \<lparr>p_root = r, p_lvl = 3\<rparr> (ms s) = Inr ((ms s)\<lparr>freed := freed (ms s) @ map (\<lambda>p. (p, 0)) ps\<rparr>) \<and>
     distinct ps \<and>
     set ps = tbls (mem (ms s)) 3 r \<union>
       {ent_addr e | ix e. small_ix ix \<and> pt_lookup (mem (ms s)) 3 r ix = Some e \<and> isAccessed e \<and> pte_RW e} \<and>
     getPML4Root (ms s) \<notin> set ps \<and> set ps \<inter> Im = {} \<and>
     (\<forall>t \<in> A \<union> S. t \<noteq> r \<longrightarrow> set ps \<inter> pages (mem (ms s)) t = {})"
  by (rule destroy_frees[OF isolatedD(4)[OF mem_reach_isolated[OF assms(1-5)]] assms(6,7)])

theorem destroy_frees_own_witness:
  "\<exists>(s :: mgr) t ps. t \<noteq> 0 \<and> UmPth_destroy \<lparr>p_root = t, p_lvl = 3\<rparr> (ms s) = Inr ((ms s)\<lparr>freed := freed (ms s) @ map (\<lambda>p. (p, 0)) ps\<rparr>) \<and>
     t \<in> set ps \<and> set ps \<inter> pages (mem (ms s)) (slot_root (ms s)) = {}"
proof -
  obtain s t where st: "mem_reach {} (iso_start, {0}, {}) (s, {slot_root (ms s), t, 0}, {})" "t \<noteq> 0" "t \<noteq> slot_root (ms s)"
    using two_instances by blast
  have mem: "t \<in> {slot_root (ms s), t, 0}" "slot_root (ms s) \<in> {slot_root (ms s), t, 0} \<union> {}" by simp_all
  obtain ps where ps: "UmPth_destroy \<lparr>p_root = t, p_lvl = 3\<rparr> (ms s) = Inr ((ms s)\<lparr>freed := freed (ms s) @ map (\<lambda>p. (p, 0)) ps\<rparr>)"
      "set ps = tbls (mem (ms s)) 3 t \<union>
        {ent_addr e | ix e. small_ix ix \<and> pt_lookup (mem (ms s)) 3 t ix = Some e \<and> isAccessed e \<and> pte_RW e}" "\<forall>q \<in> {slot_root (ms s), t, 0} \<union> {}. q \<noteq> t \<longrightarrow> set ps \<inter> pages (mem (ms s)) q = {}"
    using destroy_frees_own[OF st(1) iso_start_ok mem(1) st(2)] by blast
  have "t \<in> set ps" using ps(2) root_in_tree[OF st(2), of "mem (ms s)"] by blast
  moreover have "set ps \<inter> pages (mem (ms s)) (slot_root (ms s)) = {}" using bspec[OF ps(3) mem(2)] st(3) by simp
  ultimately show ?thesis using ps(1) st(2) by (intro exI[of _ s] exI[of _ t] exI[of _ ps]) simp
qed

end
