(* ===== verification/Umm_Core.thy ===== *)
theory Umm_Core
  imports Umm_Isolation
begin

text \<open>
  The manager's operations and the memory of its core together (\<^verbatim>\<open>src/src/UmManager.cc\<close>): every
  step of the manager keeps the page tables of the instances it holds, in the slot or waiting,
  apart from each other and from the snapshots. The steps are those of \<open>mgr_step\<close>, new instances
  made from snapshots, destroyed page tables, and what the processor does.
\<close>

section \<open>What the manager holds\<close>

abbreviation uroot :: "umi \<Rightarrow> u64" where "uroot u \<equiv> Root (sv_pth (u_sv u))"

text \<open>The tree of an instance: the slot's, while it is in the slot, and otherwise its own.\<close>

definition tree_of :: "mgr \<Rightarrow> u32 \<Rightarrow> u64 option" where
  "tree_of s i =
     (case active_umi s of
        Some u \<Rightarrow> if u_id u = i then Some (slot_root (ms s)) else map_option uroot (inactive_umi_map s i)
      | None \<Rightarrow> map_option uroot (inactive_umi_map s i))"

definition waiting_ok :: "u64 set \<Rightarrow> u64 set \<Rightarrow> u64 \<Rightarrow> (u32 \<Rightarrow> umi option) \<Rightarrow> bool" where
  "waiting_ok Im A r inactive \<longleftrightarrow> (\<forall>i u. inactive i = Some u \<longrightarrow> images_in Im u \<and> uroot u \<in> A \<and>
     (uroot u \<noteq> 0 \<longrightarrow> uroot u \<noteq> r \<and> (\<forall>j w. inactive j = Some w \<longrightarrow> j \<noteq> i \<longrightarrow> uroot w \<noteq> uroot u)))"

definition core_ok :: "u64 set \<Rightarrow> u64 set \<Rightarrow> u64 set \<Rightarrow> mgr \<Rightarrow> bool" where
  "core_ok Im A S s \<longleftrightarrow> isolated Im s A S \<and> waiting_ok Im A (slot_root (ms s)) (inactive_umi_map s) \<and>
     (active_umi s = None \<longrightarrow> slot_root (ms s) = 0) \<and>
     (\<forall>u. active_umi s = Some u \<longrightarrow> images_in Im u \<and> uroot u \<in> {0, slot_root (ms s)})"

text \<open>An instance that may be given to the manager: its tree is its own.\<close>

definition entering :: "u64 set \<Rightarrow> u64 set \<Rightarrow> umi \<Rightarrow> mgr \<Rightarrow> bool" where
  "entering Im A u s \<longleftrightarrow> images_in Im u \<and> uroot u \<in> A \<and>
     (uroot u \<noteq> 0 \<longrightarrow> uroot u \<noteq> slot_root (ms s) \<and> (\<forall>j w. inactive_umi_map s j = Some w \<longrightarrow> uroot w \<noteq> uroot u))"

lemma images_in_cong: "u_sv u = u_sv u' \<Longrightarrow> images_in Im u = images_in Im u'"
  by (simp add: images_in_def)

lemma core_okD:
  assumes "core_ok Im A S s"
  shows "isolated Im s A S" "waiting_ok Im A (slot_root (ms s)) (inactive_umi_map s)"
    "active_umi s = None \<Longrightarrow> slot_root (ms s) = 0"
    "active_umi s = Some u \<Longrightarrow> images_in Im u" "active_umi s = Some u \<Longrightarrow> uroot u = 0 \<or> uroot u = slot_root (ms s)"
  using assms by (auto simp: core_ok_def)

lemma core_okI:
  assumes "isolated Im s A S" "images_in Im u" "slot_root (ms s) = r" "active_umi s = Some u"
    "waiting_ok Im A r (inactive_umi_map s)" "uroot u = 0 \<or> uroot u = r"
  shows "core_ok Im A S s"
  using assms by (simp add: core_ok_def)

section \<open>Steps that touch neither memory nor the state vectors\<close>

type_synonym view = "(u64 \<Rightarrow> u64) \<times> u64 \<times> (u32 \<times> sv) option \<times> (u32 \<Rightarrow> sv option)"

definition view :: "mgr \<Rightarrow> view" where
  "view s = (mem (ms s), cr3 (ms s), map_option (\<lambda>u. (u_id u, u_sv u)) (active_umi s), \<lambda>i. map_option u_sv (inactive_umi_map s i))"

lemma isolated_cong: "mem (ms s') = mem (ms s) \<Longrightarrow> cr3 (ms s') = cr3 (ms s) \<Longrightarrow> isolated Im s' A S = isolated Im s A S"
  using slot_root_cong[of "ms s'" "ms s"] by (simp add: isolated_def slot_ok_def getSlotRoot_def getPML4Root_def)

lemma waiting_ok_cong:
  assumes "\<And>i. map_option u_sv (f i) = map_option u_sv (g i)" "waiting_ok Im A r f"
  shows "waiting_ok Im A r g"
proof -
  have g: "\<exists>u'. f i = Some u' \<and> u_sv u' = u_sv u" if "g i = Some u" for i u
    using assms(1)[of i] that by (cases "f i") auto
  note W = assms(2)[unfolded waiting_ok_def, rule_format]
  show ?thesis unfolding waiting_ok_def
  proof (intro allI impI conjI)
    fix i u assume u: "g i = Some u"
    obtain u' where u': "f i = Some u'" "u_sv u' = u_sv u" using g[OF u] by blast
    note Wi = W[OF u'(1), unfolded images_in_cong[OF u'(2)] u'(2)]
    show "images_in Im u" "uroot u \<in> A" using Wi by blast+
    assume nz: "uroot u \<noteq> 0"
    show "uroot u \<noteq> r" using Wi nz by blast
    fix j w assume w: "g j = Some w" "j \<noteq> i"
    obtain w' where w': "f j = Some w'" "u_sv w' = u_sv w" using g[OF w(1)] by blast
    have "uroot w' \<noteq> uroot u" using Wi nz w'(1) w(2) by blast
    then show "uroot w \<noteq> uroot u" by (simp add: w'(2))
  qed
qed

lemma core_ok_view:
  assumes "view s' = view s" "core_ok Im A S s"
  shows "core_ok Im A S s'"
proof -
  have v: "mem (ms s') = mem (ms s)" "cr3 (ms s') = cr3 (ms s)" "\<And>i. map_option u_sv (inactive_umi_map s i) = map_option u_sv (inactive_umi_map s' i)"
    "map_option (\<lambda>u. (u_id u, u_sv u)) (active_umi s') = map_option (\<lambda>u. (u_id u, u_sv u)) (active_umi s)"
    using assms(1) by (auto simp: view_def fun_eq_iff)
  note r = slot_root_cong[OF v(1,2)]
  note D = core_okD[OF assms(2)]
  have w: "waiting_ok Im A (slot_root (ms s')) (inactive_umi_map s')"
    unfolding r by (rule waiting_ok_cong[OF v(3) D(2)])
  have none: "active_umi s' = None \<Longrightarrow> slot_root (ms s') = 0" using v(4) D(3) r by simp
  have "images_in Im u' \<and> uroot u' \<in> {0, slot_root (ms s')}" if a: "active_umi s' = Some u'" for u'
  proof -
    obtain u where u: "active_umi s = Some u" "u_sv u' = u_sv u"
      using v(4) unfolding a by (cases "active_umi s") simp_all
    show ?thesis unfolding images_in_cong[OF u(2)] u(2) r using D(4,5)[OF u(1)] by simp
  qed
  then show ?thesis using D(1) w none isolated_cong[OF v(1,2)] by (simp add: core_ok_def)
qed

named_theorems views \<open>the view after an operation\<close>

lemma view_upd [simp]:
  "view (s\<lparr>m_status := n\<rparr>) = view s" "view (s\<lparr>m_px := p\<rparr>) = view s" "view (s\<lparr>m_events := es\<rparr>) = view s"
  "view (s\<lparr>idle_umi_queue := q\<rparr>) = view s" "view (s\<lparr>inactive_umi_halt_map := h\<rparr>) = view s"
  "view (s\<lparr>activation_promise_map := a\<rparr>) = view s" "view (SpawnLocal e s) = view s" "view (slot_queue_push i s) = view s"
  by (simp_all add: view_def SpawnLocal_def slot_queue_push_def)

lemma view_active:
  "active_umi s = Some u \<Longrightarrow> u_id u' = u_id u \<Longrightarrow> u_sv u' = u_sv u \<Longrightarrow> view (s\<lparr>active_umi := Some u'\<rparr>) = view s"
  by (simp add: view_def)

lemma view_put_umi:
  assumes "held uid s = Some u" "u_id u' = u_id u" "u_sv u' = u_sv u"
  shows "view (put_umi uid u' s) = view s"
  using assms by (auto simp: held_def put_umi_def view_def split: if_splits)

lemma view_status [views]: "set_status n s = Inr s' \<Longrightarrow> view s' = view s"
  by (auto simp: set_status_eq_Inr)

lemma view_gateway [views]: "process_gateway ef s = Inr (fr, s') \<Longrightarrow> view s' = view s"
  by (auto simp: process_gateway_def Let_def with_active_def and_then_eq_Inr set_status_eq_Inr
      intro!: view_active split: if_splits option.splits)

lemma SetActive_sv [simp]: "u_sv (SetActive u) = u_sv u"
  by (simp add: SetActive_def)

lemma timer_sv [simp]: "u_sv (disable_timer u) = u_sv u"
  by (simp add: disable_timer_def)

lemma view_Halt [views]: "Halt qlen ef s = Inr (fr, s') \<Longrightarrow> view s' = view s"
  using view_active[of s]
  by (auto simp: Halt_def with_active_def and_then_eq_Inr kbugon_eq_Inr kassert_eq_Inr Let_def
      dest!: views split: option.splits if_splits)

lemma view_Start_enter [views]: "Start_enter uid ef s = Inr (fr, s') \<Longrightarrow> view s' = view s"
  by (auto simp: Start_enter_def with_active_def kassert_eq_Inr dest!: views split: option.splits)

lemma view_unblock [views]: "unblock_execution uid s = Inr s' \<Longrightarrow> view s' = view s"
  by (auto simp: unblock_execution_def with_umi_eq_Inr kassert_eq_Inr intro!: view_put_umi)

lemma view_Kick [views]: "Kick uid s = Inr s' \<Longrightarrow> view s' = view s"
  by (auto simp: Kick_def with_umi_eq_Inr dest!: views split: if_splits)

lemma view_block [views]: "block_execution uid s = Inr s' \<Longrightarrow> view s' = view s"
  by (auto simp: block_execution_def with_umi_eq_Inr intro!: view_put_umi)

lemma view_Sleep [views]: "Sleep uid now ns s = Inr (b, s') \<Longrightarrow> view s' = view s"
  using view_put_umi[of uid s] by (fastforce dest!: Sleep_run views split: if_splits)

lemma view_Block_return [views]: "Block_return s = Inr s' \<Longrightarrow> view s' = view s"
  by (auto simp: Block_return_def dest!: views split: if_splits)

lemma view_Block [views]: "Block now ns s = Inr (b, s') \<Longrightarrow> view s' = view s"
  by (auto simp: Block_def with_active_def and_then_eq_Inr dest!: views split: option.splits if_splits)

lemma view_context_resumed [views]: "context_resumed uid s = Inr s' \<Longrightarrow> view s' = view s"
  using view_put_umi[of uid s]
  by (auto simp: context_resumed_def with_umi_eq_Inr Let_def and_then_eq_Inr kassert_eq_Inr dest!: views split: if_splits)

lemma view_Fire [views]:
  assumes "Fire uid now s = Inr s'"
  shows "view s' = view s"
proof -
  obtain u where u: "held uid s = Some u" using assms by (auto simp: Fire_def with_umi_eq_Inr)
  let ?u = "u\<lparr>u_timer_set := False\<rparr>"
  let ?s = "put_umi uid ?u s"
  have v: "view ?s = view s" by (rule view_put_umi[OF u]) simp_all
  have "held uid ?s = Some ?u" using u by (auto simp: held_def put_umi_def is_active_instance_def Id_def split: if_splits option.splits)
  then have "view (put_umi uid (?u\<lparr>u_time_wait := 0\<rparr>) ?s) = view ?s" by (rule view_put_umi) simp_all
  then show ?thesis using assms u v
    by (auto simp: Fire_def with_umi_held Let_def and_then_eq_Inr kassert_eq_Inr dest!: views split: if_splits)
qed

lemma view_move_to_front [views]: "slot_queue_move_to_front uid s = Inr (b, s') \<Longrightarrow> view s' = view s"
  by (auto simp: slot_queue_move_to_front_eq split: if_splits)

section \<open>Loading and unloading\<close>

lemma load_core:
  assumes run: "slot_load_instance u s = Inr (i, s')" and C: "core_ok Im A S s" and u: "entering Im A u s"
  shows "core_ok Im A S s'"
proof -
  note D = core_okD[OF C]
  have rA: "uroot u \<in> A" "images_in Im u" using u by (simp_all add: entering_def)
  have I: "isolated Im s' A S" by (rule load_isolated[OF D(1) run rA(1)])
  have e: "m_status s = empty" "slot_root (ms s) = 0"
    using run by (auto simp: slot_load_instance_def kassert_eq_Inr and_then_eq_Inr mgr_getSlotPDPTRoot_eq)
  then have z: "mem (ms s) (getSlotRoot (ms s)) = 0" using slot_okD(4)[OF isolatedD(1)[OF D(1)]] by simp
  have rT: "uroot u \<in> A \<union> S" using rA by simp
  have pr: "uroot u = 0 \<or> pg_ok (uroot u)"
    using wf_pt_pg_ok[OF tree_okD(1)[OF trees_okD(4)[OF isolatedD(4)[OF D(1)] rT]]] by auto
  have root: "slot_root (ms s') = uroot u" using slot_load_run[OF e(1) z refl pr] run by auto
  note L = slot_load_spec[OF run]
  then have act: "active_umi s' = Some u" "inactive_umi_map s' = inactive_umi_map s" by (simp_all add: sched_def)
  have "waiting_ok Im A (uroot u) (inactive_umi_map s)"
    using D(2) u unfolding waiting_ok_def entering_def by metis
  then show ?thesis using I root act rA(2) by (simp add: core_ok_def)
qed

lemma unload_core:
  assumes run: "slot_unload_instance s = Inr (u, s')" and C: "core_ok Im A S s"
  shows "core_ok Im A S s'" "u = active_umi s" "inactive_umi_map s' = inactive_umi_map s" "slot_root (ms s') = 0"
proof -
  note D = core_okD[OF C]
  note U = slot_unload_spec[OF run]
  show "u = active_umi s" and i: "inactive_umi_map s' = inactive_umi_map s" using U by (simp_all add: sched_def)
  show r: "slot_root (ms s') = 0" by (rule slot_unload_mem(3)[OF run])
  have "waiting_ok Im A 0 (inactive_umi_map s)" using D(2) unfolding waiting_ok_def by simp
  then show "core_ok Im A S s'" using unload_isolated[OF D(1) run] r i U by (simp add: core_ok_def)
qed

text \<open>An instance joins those that wait.\<close>

lemma waiting_emplace:
  assumes "waiting_ok Im A r f" "images_in Im u" "uroot u \<in> A"
    "uroot u \<noteq> 0 \<Longrightarrow> uroot u \<noteq> r \<and> (\<forall>j w. f j = Some w \<longrightarrow> uroot w \<noteq> uroot u)"
  shows "waiting_ok Im A r (emplace f i u)"
proof (cases "i \<in> dom f")
  case False
  then show ?thesis using assms unfolding waiting_ok_def emplace_def by (auto split: if_splits; blast)
qed (use assms(1) in \<open>auto simp: emplace_def\<close>)

lemma yield_out_core:
  assumes run: "and_then (slot_unload_instance s) retire = Inr s'" and C: "core_ok Im A S s"
  shows "core_ok Im A S s'" "entering Im A u s \<Longrightarrow> entering Im A u s'"
proof -
  obtain o1 s1 where un: "slot_unload_instance s = Inr (o1, s1)" and re: "retire (o1, s1) = Inr s'"
    using run by (auto simp: and_then_eq_Inr)
  note U = unload_core[OF un C]
  note D = core_okD[OF C]
  obtain a where a: "active_umi s = Some a" using re unfolding U(2) by (cases "active_umi s") (simp_all add: retire_def)
  have s': "view s' = view (s1\<lparr>inactive_umi_map := emplace (inactive_umi_map s) (u_id a) a\<rparr>)" "ms s' = ms s1"
    "inactive_umi_map s' = emplace (inactive_umi_map s) (u_id a) a"
    using re U(2,3) a by (auto simp: retire_def Let_def kassert_eq_Inr Id_def slot_queue_push_def)
  have ra: "uroot a \<in> A" "images_in Im a" "uroot a = 0 \<or> uroot a = slot_root (ms s)"
    using D(4,5)[OF a] isolatedD(2,3)[OF D(1)] by auto
  have dist: "uroot a \<noteq> 0 \<Longrightarrow> (\<forall>j w. inactive_umi_map s j = Some w \<longrightarrow> uroot w \<noteq> uroot a)"
    using D(2) ra(3) unfolding waiting_ok_def by metis
  have "waiting_ok Im A 0 (emplace (inactive_umi_map s) (u_id a) a)"
    using core_okD(2)[OF U(1)] ra dist unfolding U(3,4) by (intro waiting_emplace) auto
  then have "core_ok Im A S (s1\<lparr>inactive_umi_map := emplace (inactive_umi_map s) (u_id a) a\<rparr>)"
    using U(1,4) isolated_cong[of "s1\<lparr>inactive_umi_map := emplace (inactive_umi_map s) (u_id a) a\<rparr>" s1] by (simp add: core_ok_def)
  then show "core_ok Im A S s'" by (rule core_ok_view[OF s'(1)])
  show "entering Im A u s'" if e: "entering Im A u s"
  proof -
    have "uroot w \<noteq> uroot u" if "emplace (inactive_umi_map s) (u_id a) a j = Some w" "uroot u \<noteq> 0" for j w
    proof -
      have "w = a \<or> inactive_umi_map s j = Some w" using that(1) by (auto simp: emplace_def split: if_splits)
      then show ?thesis using e ra(3) that(2) unfolding entering_def by metis
    qed
    then show ?thesis using e U(4) by (simp add: entering_def s'(2,3))
  qed
qed

lemma swap_core:
  assumes "slot_swap_instance u s = Inr (i, s')" "core_ok Im A S s" "entering Im A u s"
  shows "core_ok Im A S s'"
proof -
  obtain s1 where load: "slot_load_instance u s1 = Inr (i, s')"
    and out: "s1 = s \<or> and_then (slot_unload_instance s) retire = Inr s1"
    using assms(1) by (auto simp: slot_swap_instance_def and_then_eq_Inr[of _ "slot_load_instance u"] kassert_eq_Inr split: if_splits)
  show ?thesis using out
  proof
    assume un: "and_then (slot_unload_instance s) retire = Inr s1"
    show ?thesis by (rule load_core[OF load yield_out_core(1)[OF un assms(2)] yield_out_core(2)[OF un assms(2,3)]])
  qed (use load_core[OF load] assms(2,3) in simp)
qed

lemma queue_core:
  assumes "queue_instance_activation u s = Inr s'" "core_ok Im A S s" "entering Im A u s"
  shows "core_ok Im A S s'"
proof -
  note D = core_okD[OF assms(2)]
  let ?s = "s\<lparr>inactive_umi_map := emplace (inactive_umi_map s) (u_id u) u\<rparr>"
  have v: "view s' = view ?s"
    using assms(1) by (auto simp: queue_instance_activation_def kassert_eq_Inr Let_def Id_def slot_queue_push_def view_def)
  have "waiting_ok Im A (slot_root (ms s)) (emplace (inactive_umi_map s) (u_id u) u)"
    using D(2) assms(3) by (intro waiting_emplace) (auto simp: entering_def)
  then have "core_ok Im A S ?s" using assms(2) isolated_cong[of ?s s] by (simp add: core_ok_def)
  then show ?thesis by (rule core_ok_view[OF v])
qed

lemma Load_core: "Load u s = Inr (b, s') \<Longrightarrow> core_ok Im A S s \<Longrightarrow> entering Im A u s \<Longrightarrow> core_ok Im A S s'"
  using load_core[of u s] swap_core[of u s] queue_core[of u s]
  by (auto simp: Load_def and_then_eq_Inr kbugon_eq_Inr split: if_splits)

section \<open>The scheduler\<close>

text \<open>What is assumed of the continuations of clients.\<close>

definition keeps_core :: "u64 set \<Rightarrow> ('a \<Rightarrow> mgr \<Rightarrow> mgr res) \<Rightarrow> bool" where
  "keeps_core Im f \<longleftrightarrow> (\<forall>x A S s s'. core_ok Im A S s \<longrightarrow> f x s = Inr s' \<longrightarrow> core_ok Im A S s')"

lemma Run_enter_core:
  assumes "Run_enter u ef s = Inr (fr, s')" "core_ok Im A S s" "entering Im A u s"
  shows "core_ok Im A S s'"
proof -
  obtain i s1 where load: "slot_load_instance u s = Inr (i, s1)" and g: "process_gateway ef s1 = Inr (fr, s')"
    using assms(1) by (auto simp: Run_enter_def with_active_def and_then_eq_Inr kassert_eq_Inr split: if_splits option.splits)
  show ?thesis by (rule core_ok_view[OF view_gateway[OF g] load_core[OF load assms(2,3)]])
qed

lemma Start_return_core: "Start_return s = Inr (u, s') \<Longrightarrow> core_ok Im A S s \<Longrightarrow> core_ok Im A S s'"
  using unload_core(1) core_ok_view[of "SpawnLocal EvYield s" s]
  by (auto simp: Start_return_def Let_def split: if_splits)

lemma take_inactive_core:
  assumes run: "take_inactive i s = Inr (u, s')" and C: "core_ok Im A S s"
  shows "core_ok Im A S s'" "entering Im A u s'"
proof -
  note D = core_okD[OF C]
  note W = D(2)[unfolded waiting_ok_def, rule_format]
  have u: "inactive_umi_map s i = Some u"
    and s': "s' = s\<lparr>inactive_umi_map := (inactive_umi_map s)(i := None), idle_umi_queue := remove1 i (idle_umi_queue s)\<rparr>"
    using run by (auto simp: take_inactive_def slot_queue_remove_eq Let_def split: option.splits)
  have "waiting_ok Im A (slot_root (ms s)) ((inactive_umi_map s)(i := None))"
    using D(2) unfolding waiting_ok_def by auto
  then show "core_ok Im A S s'" using C isolated_cong[of s' s] by (simp add: core_ok_def s')
  show "entering Im A u s'" using W[OF u] by (auto simp: entering_def s' split: if_splits)
qed

lemma yield_load_core:
  "yield_load u s = Inr s' \<Longrightarrow> core_ok Im A S s \<Longrightarrow> entering Im A u s \<Longrightarrow> core_ok Im A S s'"
  using swap_core[of u s] load_core[of u s]
  by (auto simp: yield_load_def and_then_eq_Inr kassert_eq_Inr split: if_splits)

lemma yield_finish_core:
  assumes run: "yield_finish act qlen ef i s = Inr (fr, s')" and C: "core_ok Im A S s" and K: "keeps_core Im act"
  shows "core_ok Im A S s'"
proof (cases "activation_promise_map s i")
  case (Some p)
  have "core_ok Im A S (s\<lparr>activation_promise_map := (activation_promise_map s)(i := None)\<rparr>)"
    by (rule core_ok_view[OF _ C]) simp
  then show ?thesis using run Some K unfolding keeps_core_def
    by (auto simp: yield_finish_def and_then_eq_Inr kassert_eq_Inr)
next
  case None
  then show ?thesis using run
    by (auto simp: yield_finish_def with_active_def Let_def and_then_eq_Inr dest!: views
        intro!: core_ok_view[OF _ C] split: option.splits)
qed

lemma Yield_core:
  assumes "Yield act qlen ef s = Inr (fr, s')" "core_ok Im A S s" "keeps_core Im act"
  shows "core_ok Im A S s'"
proof -
  consider "s' = s" | "yield_out s = Inr s'"
    | i u s1 s2 where "take_inactive i s = Inr (u, s1)" "yield_load u s1 = Inr s2" "yield_finish act qlen ef i s2 = Inr (fr, s')"
    using assms(1) by (auto simp: Yield_def and_then_eq_Inr split: if_splits)
  then show ?thesis
  proof cases
    case 2
    then show ?thesis using yield_out_core(1) assms(2) by (auto simp: yield_out_def)
  next
    case 3
    note T = take_inactive_core[OF 3(1) assms(2)]
    show ?thesis by (rule yield_finish_core[OF 3(3) yield_load_core[OF 3(2) T] assms(3)])
  qed (use assms(2) in simp)
qed

lemma SignalHalt_core:
  assumes "SignalHalt act qlen ef uid s = Inr (fr, s')" "core_ok Im A S s" "keeps_core Im act"
  shows "core_ok Im A S s'"
proof (cases "is_active_instance uid s")
  case True
  then show ?thesis using assms(1,2) view_Halt core_ok_view by (auto simp: SignalHalt_def kassert_eq_Inr)
next
  case False
  then obtain b s1 where s1: "slot_queue_move_to_front uid s = Inr (b, s1)"
    and y: "Yield act qlen ef (s1\<lparr>inactive_umi_halt_map := emplace (inactive_umi_halt_map s1) uid True\<rparr>) = Inr (fr, s')"
    using assms(1) by (auto simp: SignalHalt_def kassert_eq_Inr and_then_eq_Inr)
  show ?thesis by (rule Yield_core[OF y core_ok_view[OF _ assms(2)] assms(3)]) (simp add: view_move_to_front[OF s1])
qed

lemma SignalResume_core:
  assumes "SignalResume act qlen ef uid s = Inr (fr, s')" "core_ok Im A S s" "keeps_core Im act"
  shows "core_ok Im A S s'"
proof (cases "ActiveInstanceId s = uid")
  case True
  then show ?thesis using assms(1,2) view_Kick core_ok_view by (auto simp: SignalResume_def and_then_eq_Inr split: option.splits)
next
  case False
  then obtain b s1 where s1: "slot_queue_move_to_front uid s = Inr (b, s1)" and y: "Yield act qlen ef s1 = Inr (fr, s')"
    using assms(1) by (auto simp: SignalResume_def and_then_eq_Inr)
  show ?thesis by (rule Yield_core[OF y core_ok_view[OF view_move_to_front[OF s1] assms(2)] assms(3)])
qed

lemma WritePacket_core:
  assumes "WritePacket act qlen ef uid buf s = Inr (fr, s')" "core_ok Im A S s" "keeps_core Im act"
  shows "core_ok Im A S s'"
proof -
  obtain s1 u where s1: "SignalResume act qlen ef uid s = Inr (fr, s1)" and u: "held uid s1 = Some u"
    and s': "s' = put_umi uid (u\<lparr>u_recv_queue := u_recv_queue u @ [buf]\<rparr>) s1"
    using assms(1) by (auto simp: WritePacket_def and_then_eq_Inr with_umi_eq_Inr)
  show ?thesis unfolding s'
    by (rule core_ok_view[OF view_put_umi[OF u] SignalResume_core[OF s1 assms(2,3)]]) simp_all
qed

lemma run_event_core:
  assumes "run_event act qlen ef e s = Inr (fr, s')" "core_ok Im A S s" "keeps_core Im act"
  shows "core_ok Im A S s'"
  using assms Yield_core[of act qlen ef s fr s' Im A S]
  by (auto simp: run_event_def and_then_eq_Inr dest!: views intro: core_ok_view split: event.splits)

section \<open>Faults and checkpoints\<close>

lemma resolve_fault_sv:
  assumes "resolve_fault va ec u m = Inr (u', m')"
  shows "uroot u' = uroot u" "images_in Im u \<Longrightarrow> images_in Im u'"
proof -
  obtain i where i: "GetRegionOfAddr (sv_regions (u_sv u)) (pfn_down va) = Inr i"
    and sv: "u_sv u' = (u_sv u)\<lparr>sv_regions := (sv_regions (u_sv u))
        [i := (sv_regions (u_sv u) ! i)\<lparr>r_count := r_count (sv_regions (u_sv u) ! i) + 1\<rparr>]\<rparr>"
    using assms by (auto simp: resolve_fault_def GetBackingPage_def Let_def and_then_eq_Inr kassert_eq_Inr split: if_splits)
  show "uroot u' = uroot u" by (simp add: sv)
  show "images_in Im u'" if im: "images_in Im u"
  proof -
    have "i < length (sv_regions (u_sv u))" using GetRegionOfAddr_Inr[of "sv_regions (u_sv u)" "pfn_down va" i] i by simp
    then have r: "sv_regions (u_sv u) ! i \<in> set (sv_regions (u_sv u))" by simp
    note im' = im[unfolded images_in_def, rule_format]
    show ?thesis unfolding images_in_def
    proof (intro ballI impI allI)
      fix reg v assume reg: "reg \<in> set (sv_regions (u_sv u'))" "\<not> r_writable reg" "AddrIsInRegion reg (pfn_down v)"
      let ?r = "sv_regions (u_sv u) ! i"
      have "reg = ?r\<lparr>r_count := r_count ?r + 1\<rparr> \<or> reg \<in> set (sv_regions (u_sv u))"
        using reg(1) set_update_subset_insert[of "sv_regions (u_sv u)" i] by (auto simp: sv)
      then show "r_data reg + GetOffset reg (pfn_down v) \<in> Im"
      proof
        assume "reg = ?r\<lparr>r_count := r_count ?r + 1\<rparr>"
        then show ?thesis using im'[OF r, of v] reg(2,3) by (simp add: AddrIsInRegion_def GetOffset_def)
      qed (use im' reg(2,3) in blast)
    qed
  qed
qed

lemma fault_events: "HandleFault ef va s = Inr s' \<Longrightarrow> m_events s' = m_events s"
  by (auto simp: HandleFault_def process_pagefault_def with_active_def and_then_eq_Inr kassert_eq_Inr split: option.splits)

lemma waiting_move:
  assumes "waiting_ok Im A r f" "r' = r \<or> r = 0 \<and> r' \<notin> A"
  shows "waiting_ok Im (insert r' A) r' f"
  unfolding waiting_ok_def
proof (intro allI impI conjI)
  note W = assms(1)[unfolded waiting_ok_def, rule_format]
  fix i u assume u: "f i = Some u"
  show "images_in Im u" "uroot u \<in> insert r' A" using W[OF u] by blast+
  assume nz: "uroot u \<noteq> 0"
  show "uroot u \<noteq> r'" using W[OF u] nz assms(2) by metis
  fix j w assume "f j = Some w" "j \<noteq> i"
  then show "uroot w \<noteq> uroot u" using W[OF u] nz by blast
qed

lemma fault_core:
  assumes run: "HandleFault ef va s = Inr s'" and C: "core_ok Im A S s" and fr: "fresh_pages 4 (ms s) (used Im s A S)"
  shows "core_ok Im (insert (slot_root (ms s')) A) S s'"
proof -
  note D = core_okD[OF C]
  obtain u u' m' where u: "active_umi s = Some u" and rf: "resolve_fault va (ef_error_code ef) u (ms s) = Inr (u', m')"
    and s': "s' = s\<lparr>active_umi := Some u', ms := m'\<rparr>"
    using run by (auto simp: HandleFault_def process_pagefault_def with_active_def and_then_eq_Inr kassert_eq_Inr split: option.splits)
  note F = fault_isolated[OF D(1) run u D(4)[OF u] fr]
  note R = resolve_fault_sv[OF rf]
  have "waiting_ok Im (insert (slot_root m') A) (slot_root m') (inactive_umi_map s)"
    by (rule waiting_move[OF D(2)]) (use F(2) in \<open>simp add: s'\<close>)
  moreover have "uroot u' = 0 \<or> uroot u' = slot_root m'" using R(1) D(5)[OF u] F(2) by (auto simp: s')
  ultimately show ?thesis using F(1) R(2)[OF D(4)[OF u]] by (simp add: core_ok_def s')
qed

lemma core_ok_mono: "core_ok Im A S s \<Longrightarrow> isolated Im s A' S' \<Longrightarrow> A \<subseteq> A' \<Longrightarrow> core_ok Im A' S' s"
  unfolding core_ok_def waiting_ok_def by blast

lemma checkpoint_core:
  assumes run: "process_checkpoint (\<lambda>_. Inr) ef s = Inr s'" and C: "core_ok Im A S s"
    and u: "active_umi s = Some u" "u_snap_addr u \<noteq> 0" "slot_root (ms s) \<noteq> 0"
    and fr: "fresh_pages (copy_budget (ms s) (slot_root (ms s))) (ms s) (used Im s A S)"
    and v: "active_umi s' = Some u'" "u_snap_p u' = Some [v]"
  shows "core_ok Im A (insert (Root (sv_pth v)) S) s'"
proof -
  note D = core_okD[OF C]
  obtain w m where s': "s' = s\<lparr>ms := m, active_umi := Some (u\<lparr>u_snap_p := Some [w]\<rparr>), m_status := active\<rparr>"
    using run u(1,2)
    by (cases "u_snap_p u"; cases "the (u_snap_p u)")
      (auto simp: process_checkpoint_def kassert_eq_Inr with_active_def and_then_eq_Inr Let_def set_status_eq_Inr)
  note I = checkpoint_isolated[OF D(1) run u fr v]
  have "images_in Im (u\<lparr>u_snap_p := Some [w]\<rparr>)" using D(4)[OF u(1)] images_in_cong[of "u\<lparr>u_snap_p := Some [w]\<rparr>" u] by simp
  from core_okI[OF I(1) this I(2)] show ?thesis using D(2) D(5)[OF u(1)] by (simp add: s')
qed

section \<open>Runs of a core\<close>

text \<open>
  A step of the manager, with the trees of the instances \<open>A\<close> and of the snapshots \<open>S\<close>. Instances
  that come in have a tree of their own, and the page allocator hands out pages nobody uses to
  the fault handler. Debug exceptions that take a snapshot are a step of their own, below.
\<close>

definition newcomers_ok :: "u64 set \<Rightarrow> u64 set \<Rightarrow> mgr \<Rightarrow> mgr \<Rightarrow> bool" where
  "newcomers_ok Im A s s' \<longleftrightarrow> (\<forall>u. fresh_umi u s \<longrightarrow>
     active_umi s' = Some u \<or> inactive_umi_map s' (u_id u) = Some u \<longrightarrow> entering Im A u s)"

definition supplied :: "u64 set \<Rightarrow> u64 set \<Rightarrow> u64 set \<Rightarrow> mgr \<Rightarrow> mgr \<Rightarrow> bool" where
  "supplied Im A S s s' \<longleftrightarrow> (\<forall>ef va. HandleFault ef va s = Inr s' \<longrightarrow> fresh_pages 4 (ms s) (used Im s A S))"

definition no_checkpoint :: "mgr \<Rightarrow> mgr \<Rightarrow> bool" where
  "no_checkpoint s s' \<longleftrightarrow> (\<forall>ef fr u. DebugException (\<lambda>_. Inr) ef s = Inr (fr, s') \<longrightarrow> active_umi s = Some u \<longrightarrow> u_snap_addr u = 0)"

lemma entering_cong: "u_sv u' = u_sv u \<Longrightarrow> entering Im A u' s = entering Im A u s"
  using images_in_cong[of u' u] by (simp add: entering_def)

lemma gateway_active: "process_gateway ef s = Inr (fr, s') \<Longrightarrow> active_umi s = Some u \<Longrightarrow>
    \<exists>u'. active_umi s' = Some u' \<and> u_id u' = u_id u \<and> u_sv u' = u_sv u"
  by (auto simp: process_gateway_def Let_def with_active_def and_then_eq_Inr set_status_eq_Inr split: if_splits)

lemma Run_enter_active:
  assumes "Run_enter u ef s = Inr (fr, s')"
  shows "\<exists>u'. active_umi s' = Some u' \<and> u_id u' = u_id u \<and> u_sv u' = u_sv u"
proof -
  obtain i s1 where load: "slot_load_instance u s = Inr (i, s1)" and g: "process_gateway ef s1 = Inr (fr, s')"
    using assms by (auto simp: Run_enter_def with_active_def and_then_eq_Inr kassert_eq_Inr split: if_splits option.splits)
  show ?thesis using gateway_active[OF g] slot_load_spec[OF load] by blast
qed

text \<open>An instance given to \<open>Load\<close> is held afterwards.\<close>

lemma Load_held:
  assumes "Load u s = Inr (b, s')" "mgr_inv s" "fresh_umi u s"
  shows "active_umi s' = Some u \<or> inactive_umi_map s' (u_id u) = Some u"
proof -
  have o: "outside u s" "\<forall>a. active_umi s = Some a \<longrightarrow> u_id a \<noteq> u_id u" using assms(3) by (simp_all add: fresh_umi_def)
  then have "inactive_umi_map s (u_id u) = None" by (simp add: outside_def)
  then show ?thesis
    using assms(1) slot_load_spec[of u s] slot_swap_inv(4)[OF _ assms(2) o]
    by (auto simp: Load_def and_then_eq_Inr kbugon_eq_Inr queue_instance_activation_def kassert_eq_Inr Let_def slot_queue_push_def
        emplace_def Id_def split: if_splits)
qed

lemma mgr_step_core:
  assumes step: "mgr_step act (\<lambda>_. Inr) s s'" and C: "core_ok Im A S s" and inv: "mgr_inv s" and K: "keeps_core Im act"
    and N: "newcomers_ok Im A s s'" and P: "supplied Im A S s s'" and X: "no_checkpoint s s'"
  shows "core_ok Im (insert (slot_root (ms s')) A) S s'"
proof -
  have same: ?thesis if "core_ok Im A S s'"
    using that isolatedD(3)[OF core_okD(1)[OF that]] by (simp add: insert_absorb)
  show ?thesis using step
  proof cases
    case (step_load u b)
    show ?thesis
      by (rule same, rule Load_core[OF step_load(1) C])
        (use N step_load(2) Load_held[OF step_load(1) inv step_load(2)] in \<open>unfold newcomers_ok_def, blast\<close>)
  next
    case (step_run u ef fr)
    obtain u' where u': "active_umi s' = Some u'" "u_id u' = u_id u" "u_sv u' = u_sv u" using Run_enter_active[OF step_run(1)] by blast
    have "fresh_umi u' s" using step_run(2) u'(2) by (simp add: fresh_umi_def outside_def)
    then have "entering Im A u s" using N u'(1) entering_cong[OF u'(3)] unfolding newcomers_ok_def by blast
    then show ?thesis using same Run_enter_core[OF step_run(1) C] by blast
  next
    case (step_fault ef v)
    show ?thesis using fault_core[OF step_fault C] P step_fault unfolding supplied_def by blast
  next
    case (step_checkpoint ef fr)
    obtain u where u: "active_umi s = Some u" using step_checkpoint
      by (auto simp: DebugException_def Let_def and_then_eq_Inr process_checkpoint_def kassert_eq_Inr with_active_def split: option.splits)
    then have "u_snap_addr u = 0" using X step_checkpoint unfolding no_checkpoint_def by blast
    then have "s' = s" using step_checkpoint u
      by (auto simp: DebugException_def Let_def and_then_eq_Inr process_checkpoint_def kassert_eq_Inr with_active_def)
    then show ?thesis using same C by simp
  next
    case (step_event e es qlen ef fr)
    show ?thesis by (rule same, rule run_event_core[OF step_event(2) core_ok_view[OF _ C] K]) simp
  next
    case (step_start_return u)
    show ?thesis using same Start_return_core[OF step_start_return(2) C] by blast
  next
    case (step_run_return u)
    show ?thesis using same unload_core(1)[OF _ C] step_run_return(2) by (auto simp: Run_return_def)
  next
    case (step_packet qlen ef uid buf fr)
    show ?thesis using same WritePacket_core[OF step_packet C K] by blast
  next
    case (step_signal_halt qlen ef uid fr)
    show ?thesis using same SignalHalt_core[OF step_signal_halt C K] by blast
  next
    case (step_signal_resume qlen ef uid fr)
    show ?thesis using same SignalResume_core[OF step_signal_resume C K] by blast
  next
    case (step_signal_yield uid)
    show ?thesis by (rule same, rule core_ok_view[OF _ C]) (simp add: step_signal_yield SignalYield_def)
  qed (use same core_ok_view[OF _ C] view_Start_enter view_Block view_Halt view_Fire in blast)+
qed

text \<open>
  The other things that happen to the memory of a core: an instance is made from a snapshot, the
  page table of an instance the manager does not hold is destroyed, the running instance stores
  to memory, the processor marks entries accessed and dirty, and the page allocator does its own
  business.
\<close>

inductive core_step :: "u64 set \<Rightarrow> (u32 \<Rightarrow> mgr \<Rightarrow> mgr res) \<Rightarrow> mgr \<times> u64 set \<times> u64 set \<Rightarrow> mgr \<times> u64 set \<times> u64 set \<Rightarrow> bool"
  for Im act where
  core_mgr: "mgr_step act (\<lambda>_. Inr) s s' \<Longrightarrow> newcomers_ok Im A s s' \<Longrightarrow> supplied Im A S s s' \<Longrightarrow> no_checkpoint s s' \<Longrightarrow>
    core_step Im act (s, A, S) (s', insert (slot_root (ms s')) A, S)"
| core_checkpoint: "DebugException (\<lambda>_. Inr) ef s = Inr (fr, s') \<Longrightarrow> active_umi s = Some u \<Longrightarrow> u_snap_addr u \<noteq> 0 \<Longrightarrow>
    slot_root (ms s) \<noteq> 0 \<Longrightarrow> fresh_pages (copy_budget (ms s) (slot_root (ms s))) (ms s) (used Im s A S) \<Longrightarrow>
    active_umi s' = Some u' \<Longrightarrow> u_snap_p u' = Some [v] \<Longrightarrow> core_step Im act (s, A, S) (s', A, insert (Root (sv_pth v)) S)"
| core_deploy: "UmInstance_new v n (ms s) = Inr (u, n', m') \<Longrightarrow> Root (sv_pth v) \<in> S \<Longrightarrow> Root (sv_pth v) \<noteq> 0 \<Longrightarrow>
    p_lvl (sv_pth v) = 3 \<Longrightarrow> fresh_pages (copy_budget (ms s) (Root (sv_pth v))) (ms s) (used Im s A S) \<Longrightarrow>
    core_step Im act (s, A, S) (s\<lparr>ms := m'\<rparr>, insert (uroot u) A, S)"
| core_destroy: "UmPth_destroy \<lparr>p_root = r, p_lvl = 3\<rparr> (ms s) = Inr m' \<Longrightarrow> r \<in> A \<Longrightarrow> r \<noteq> 0 \<Longrightarrow> (\<And>i. tree_of s i \<noteq> Some r) \<Longrightarrow>
    core_step Im act (s, A, S) (s\<lparr>ms := m'\<rparr>, A - {r}, S)"
| core_store: "store va j x (ms s) = Some m' \<Longrightarrow> core_step Im act (s, A, S) (s\<lparr>ms := m'\<rparr>, A, S)"
| core_marks: "only_marks (mem (ms s)) (mem m') \<Longrightarrow> cr3 m' = cr3 (ms s) \<Longrightarrow> core_step Im act (s, A, S) (s\<lparr>ms := m'\<rparr>, A, S)"
| core_allocator: "mem m' = mem (ms s) \<Longrightarrow> cr3 m' = cr3 (ms s) \<Longrightarrow> core_step Im act (s, A, S) (s\<lparr>ms := m'\<rparr>, A, S)"

inductive core_reach :: "u64 set \<Rightarrow> (u32 \<Rightarrow> mgr \<Rightarrow> mgr res) \<Rightarrow> mgr \<times> u64 set \<times> u64 set \<Rightarrow> mgr \<times> u64 set \<times> u64 set \<Rightarrow> bool"
  for Im act w where
  core_refl: "core_reach Im act w w"
| core_next: "core_reach Im act w v \<Longrightarrow> core_step Im act v v' \<Longrightarrow> core_reach Im act w v'"

text \<open>Memory changes, the manager and the slot's tree do not.\<close>

lemma core_ok_mem:
  assumes C: "core_ok Im A S s" and I: "isolated Im (s\<lparr>ms := m'\<rparr>) A' S'" and r: "slot_root m' = slot_root (ms s)"
    and A: "\<And>i u. inactive_umi_map s i = Some u \<Longrightarrow> uroot u \<in> A'"
  shows "core_ok Im A' S' (s\<lparr>ms := m'\<rparr>)"
proof -
  have "waiting_ok Im A' (slot_root (ms s)) (inactive_umi_map s)"
    using core_okD(2)[OF C] A unfolding waiting_ok_def by blast
  then show ?thesis using C I r by (simp add: core_ok_def)
qed

lemma waiting_root: "core_ok Im A S s \<Longrightarrow> inactive_umi_map s i = Some u \<Longrightarrow> uroot u \<in> A"
  using core_okD(2) unfolding waiting_ok_def by blast

lemma destroy_core:
  assumes C: "core_ok Im A S s" and inv: "mgr_inv s" and run: "UmPth_destroy \<lparr>p_root = r, p_lvl = 3\<rparr> (ms s) = Inr m'"
    and r: "r \<in> A" "r \<noteq> 0" "\<And>i. tree_of s i \<noteq> Some r"
  shows "core_ok Im (A - {r}) S (s\<lparr>ms := m'\<rparr>)"
proof (rule core_ok_mem[OF C])
  note D = core_okD[OF C]
  have sr: "r \<noteq> slot_root (ms s)"
  proof (cases "active_umi s")
    case None
    then show ?thesis using D(3) r(2) by simp
  next
    case (Some u)
    then show ?thesis using r(3)[of "u_id u"] by (simp add: tree_of_def)
  qed
  show "isolated Im (s\<lparr>ms := m'\<rparr>) (A - {r}) S" by (rule mem_step_isolated[OF iso_destroy[OF run r(1,2) sr] D(1)])
  obtain ps where "m' = (ms s)\<lparr>freed := freed (ms s) @ map (\<lambda>p. (p, 0)) ps\<rparr>"
    using destroy_frees[OF isolatedD(4)[OF D(1)] r(1,2)] run by auto
  then show "slot_root m' = slot_root (ms s)" by (intro slot_root_cong) simp_all
  fix i u assume u: "inactive_umi_map s i = Some u"
  have "active_umi s = Some a \<Longrightarrow> u_id a \<noteq> i" for a
    using inv u by (auto simp: mgr_inv_on_def outside_def)
  then have "tree_of s i = Some (uroot u)" using u by (simp add: tree_of_def split: option.split)
  then show "uroot u \<in> A - {r}" using waiting_root[OF C u] r(3)[of i] by auto
qed

lemma core_step_ok:
  assumes "core_step Im act (s, A, S) (s', A', S')" "core_ok Im A S s" "mgr_inv s" "keeps_core Im act" "keeps_inv act"
  shows "core_ok Im A' S' s' \<and> mgr_inv s'"
  using assms(1)
proof cases
  case core_mgr
  have "keeps_inv (\<lambda>_. Inr :: mgr \<Rightarrow> mgr res)" by (simp add: keeps_inv_def)
  then have "mgr_inv s'" by (rule mgr_step_inv[OF core_mgr(3) assms(3,5)])
  then show ?thesis using mgr_step_core[OF core_mgr(3) assms(2-4) core_mgr(4-6)] core_mgr(1,2) by simp
next
  case (core_checkpoint ef fr u u' v)
  have run: "process_checkpoint (\<lambda>_. Inr) (ef\<lparr>ef_rflags := ef_rflags ef OR push_bit 16 1\<rparr>) s = Inr s'"
    using core_checkpoint(3) by (auto simp: DebugException_def Let_def and_then_eq_Inr)
  have "keeps_inv (\<lambda>_. Inr :: mgr \<Rightarrow> mgr res)" by (simp add: keeps_inv_def)
  then have "mgr_inv s'" by (rule process_checkpoint_inv[OF run assms(3)])
  then show ?thesis using checkpoint_core[OF run assms(2) core_checkpoint(4-9)] core_checkpoint(1,2) by simp
next
  case (core_deploy v n u n' m')
  note I = deploy_isolated[OF core_okD(1)[OF assms(2)] core_deploy(4-8)]
  show ?thesis using core_ok_mem[OF assms(2) I] waiting_root[OF assms(2)] core_deploy(1-3) assms(3) by simp
next
  case (core_destroy r m')
  show ?thesis using destroy_core[OF assms(2,3) core_destroy(4-7)] core_destroy(1-3) assms(3) by simp
next
  case (core_store va j x m')
  note I = store_isolated[OF core_okD(1)[OF assms(2)] core_store(4)]
  show ?thesis using core_ok_mem[OF assms(2) I] waiting_root[OF assms(2)] core_store(1-3) assms(3) by simp
next
  case (core_marks m')
  note I = marks_isolated[OF core_okD(1)[OF assms(2)] core_marks(4,5)]
  show ?thesis using core_ok_mem[OF assms(2) I] waiting_root[OF assms(2)] core_marks(1-3) assms(3) by simp
next
  case (core_allocator m')
  have I: "isolated Im (s\<lparr>ms := m'\<rparr>) A S" using isolated_cong[of "s\<lparr>ms := m'\<rparr>" s] core_okD(1)[OF assms(2)] core_allocator(4,5) by simp
  show ?thesis using core_ok_mem[OF assms(2) I slot_root_cong[OF core_allocator(4,5)]] waiting_root[OF assms(2)] core_allocator(1-3) assms(3) by simp
qed

lemma core_reach_ok:
  assumes "core_reach Im act (s0, A0, S0) (s, A, S)" "core_ok Im A0 S0 s0" "mgr_inv s0" "keeps_core Im act" "keeps_inv act"
  shows "core_ok Im A S s \<and> mgr_inv s"
  using assms(1)
proof (induction "(s, A, S)" arbitrary: s A S rule: core_reach.induct)
  case core_refl
  then show ?case using assms(2,3) by simp
next
  case (core_next v)
  obtain s1 A1 S1 where v: "v = (s1, A1, S1)" by (cases v)
  show ?case using core_step_ok[OF core_next(3)[unfolded v]] core_next(2)[OF v] assms(4,5) by blast
qed

lemma core_init:
  assumes "slot_ok m" "slot_root m = 0" "\<forall>t \<in> Im. pg_ok t" "getPML4Root m \<notin> Im"
  shows "core_ok Im {0} {} (mgr_init m)"
  using isolated_init[of "mgr_init m" Im] assms by (simp add: core_ok_def waiting_ok_def mgr_init_def)

text \<open>The trees of the instances held are among \<open>A\<close>, and each is the tree of one instance.\<close>

lemma tree_of_own:
  assumes C: "core_ok Im A S s" and inv: "mgr_inv s" and r: "tree_of s i = Some r"
  shows "r \<in> A" "i \<noteq> j \<Longrightarrow> tree_of s j = Some t \<Longrightarrow> r = 0 \<or> t \<noteq> r"
proof -
  note D = core_okD[OF C]
  have w: "(\<exists>u. active_umi s = Some u \<and> u_id u = k \<and> q = slot_root (ms s)) \<or> (\<exists>u. inactive_umi_map s k = Some u \<and> q = uroot u)"
    if "tree_of s k = Some q" for k q
    using that by (auto simp: tree_of_def split: option.splits if_splits)
  show "r \<in> A" using w[OF r] waiting_root[OF C] isolatedD(3)[OF D(1)] by auto
  assume ij: "i \<noteq> j" and t: "tree_of s j = Some t"
  have W: "uroot u = 0 \<or> uroot u \<noteq> slot_root (ms s) \<and> (\<forall>l v. inactive_umi_map s l = Some v \<longrightarrow> l \<noteq> k \<longrightarrow> uroot v \<noteq> uroot u)"
    if "inactive_umi_map s k = Some u" for k u
    using D(2) that unfolding waiting_ok_def by blast
  from w[OF r] w[OF t] show "r = 0 \<or> t \<noteq> r"
  proof (elim disjE exE conjE)
    fix u v assume "active_umi s = Some u" "u_id u = i" "active_umi s = Some v" "u_id v = j"
    then show ?thesis using ij by simp
  next
    fix u v assume u: "r = slot_root (ms s)" and v: "inactive_umi_map s j = Some v" "t = uroot v"
    show ?thesis using W[OF v(1)] u v(2) by auto
  next
    fix u v assume u: "inactive_umi_map s i = Some u" "r = uroot u" and v: "t = slot_root (ms s)"
    show ?thesis using W[OF u(1)] u(2) v by auto
  next
    fix u v assume u: "inactive_umi_map s i = Some u" "r = uroot u" and v: "inactive_umi_map s j = Some v" "t = uroot v"
    show ?thesis using W[OF u(1)] u(2) v ij by metis
  qed
qed

section \<open>Properties\<close>

text \<open>
  C1. The manager keeps its instances isolated. From a core in order, such as an empty one, whatever the
  manager, its clients, the running instance and the processor do: of two instances the manager
  holds, in the slot or waiting, neither can write a page the other maps or a table that
  translates for it, nor a page of a snapshot or of an image, nor the top-level table.
\<close>

theorem manager_isolates:
  assumes "core_reach Im act (s0, A0, S0) (s, A, S)" "core_ok Im A0 S0 s0" "mgr_inv s0" "keeps_core Im act" "keeps_inv act"
    and "tree_of s i = Some r"
  shows "(\<forall>j t. i \<noteq> j \<longrightarrow> tree_of s j = Some t \<longrightarrow>
       (wframes (mem (ms s)) r \<union> tbls (mem (ms s)) 3 r) \<inter> pages (mem (ms s)) t = {}) \<and>
     (\<forall>t \<in> S. (wframes (mem (ms s)) r \<union> tbls (mem (ms s)) 3 r) \<inter> pages (mem (ms s)) t = {}) \<and>
     (wframes (mem (ms s)) r \<union> tbls (mem (ms s)) 3 r) \<inter> (Im \<union> {getPML4Root (ms s)}) = {} \<and>
     core_ok Im A S s \<and> mgr_inv s"
proof -
  have C: "core_ok Im A S s" and inv: "mgr_inv s" using core_reach_ok[OF assms(1-5)] by simp_all
  note I = core_okD(1)[OF C]
  note T = tree_of_own[OF C inv assms(6)]
  have z: "wframes (mem (ms s)) 0 \<union> tbls (mem (ms s)) 3 0 = {}" by (simp add: null_tree)
  have "r = 0 \<or> t \<noteq> r" if "t \<in> S" for t using trees_okD(3)[OF isolatedD(4)[OF I] T(1)] that by blast
  moreover have "r \<noteq> 0 \<Longrightarrow> (wframes (mem (ms s)) r \<union> tbls (mem (ms s)) 3 r) \<inter> (Im \<union> {getPML4Root (ms s)}) = {}"
    using isolated_apart[OF I T(1), of 0] isolatedD(2)[OF I] by blast
  ultimately show ?thesis
    using isolated_apart[OF I T(1)] T(2) tree_of_own(1)[OF C inv] C inv z by (cases "r = 0") blast+
qed

theorem manager_isolates_witness:
  "\<exists>(s :: mgr) t e. tree_of s 1 = Some (slot_root (ms s)) \<and> tree_of s 2 = Some t \<and> t \<noteq> 0 \<and>
     pt_lookup (mem (ms s)) 3 (slot_root (ms s)) (lin_index 0xFFFFC00000403000) = Some e \<and> pte_RW e \<and>
     ent_addr e \<notin> pages (mem (ms s)) t"
proof -
  obtain s t e where st: "mem_reach {} (iso_start, {0}, {}) (s, {slot_root (ms s), t, 0}, {})" "t \<noteq> 0" "t \<noteq> slot_root (ms s)"
      "pt_lookup (mem (ms s)) 3 (slot_root (ms s)) (lin_index 0xFFFFC00000403000) = Some e" "pte_RW e"
    using two_instances by blast
  note I = mem_reach_isolated[OF st(1) iso_start_ok]
  define w where "w = usr_umi\<lparr>u_id := 2, u_sv := (u_sv usr_umi)\<lparr>sv_pth := \<lparr>p_root = t, p_lvl = 3\<rparr>\<rparr>\<rparr>"
  define s1 where "s1 = (mgr_init (ms s))\<lparr>m_status := active, active_umi := Some usr_umi, inactive_umi_map := [2 \<mapsto> w], idle_umi_queue := [2]\<rparr>"
  have ms1: "ms s1 = ms s" by (simp add: s1_def mgr_init_def)
  have u: "u_id usr_umi = 1" "uroot usr_umi = 0" "uroot w = t" "u_id w = 2"
    by (simp_all add: usr_umi_def one_region_def w_def Root_def UmSV_init_def UmPth_init_def)
  have im: "images_in {} usr_umi" "images_in {} w" by (simp_all add: images_in_def usr_umi_def one_region_def w_def)
  have inv: "mgr_inv s1" by (simp add: s1_def mgr_inv_on_def sched_def sched_ok_def outside_def mgr_init_def u null_id_def)
  have C: "core_ok {} {slot_root (ms s), t, 0} {} s1"
    using I isolated_cong[of s1 s] im u(2,3) st(3) by (simp add: core_ok_def waiting_ok_def ms1) (simp add: s1_def)
  let ?s = "SpawnLocal EvYield s1"
  have act: "active_umi s1 = Some usr_umi" "ms ?s = ms s1" "m_events ?s \<noteq> m_events s1" by (simp_all add: s1_def SpawnLocal_def)
  have "SignalYield 1 s1 = ?s" by (simp add: SignalYield_def ActiveInstanceId_def act(1) Id_def u)
  then have step: "mgr_step (\<lambda>_. Inr) (\<lambda>_. Inr) s1 ?s" using step_signal_yield[of _ _ s1 1] by simp
  have new: "newcomers_ok {} {slot_root (ms s), t, 0} s1 ?s"
    by (auto simp: newcomers_ok_def fresh_umi_def outside_def SpawnLocal_def s1_def u split: if_splits)
  have sup: "supplied {} {slot_root (ms s), t, 0} {} s1 ?s"
    using act(3) fault_events unfolding supplied_def by blast
  have nc: "no_checkpoint s1 ?s" by (simp add: no_checkpoint_def act(1) usr_umi_def one_region_def)
  have reach: "core_reach {} (\<lambda>_. Inr) (s1, {slot_root (ms s), t, 0}, {}) (?s, {slot_root (ms s), t, 0}, {})"
    using core_next[OF core_refl core_mgr[OF step new sup nc]] by (simp add: act(2) ms1)
  have K: "keeps_core {} (\<lambda>_ :: u32. Inr)" "keeps_inv (\<lambda>_ :: u32. Inr :: mgr \<Rightarrow> mgr res)"
    by (simp_all add: keeps_core_def keeps_inv_def)
  have tr: "tree_of ?s 1 = Some (slot_root (ms s))" "tree_of ?s 2 = Some t"
    by (simp_all add: tree_of_def SpawnLocal_def s1_def u mgr_init_def)
  have mem: "ms ?s = ms s" and ne: "(1 :: u32) \<noteq> 2" using act(2) ms1 by simp_all
  have w: "ent_addr e \<in> wframes (mem (ms s)) (slot_root (ms s))" unfolding wframes_def using st(4,5) lin_index_bound by blast
  have "(wframes (mem (ms s)) (slot_root (ms s)) \<union> tbls (mem (ms s)) 3 (slot_root (ms s))) \<inter> pages (mem (ms s)) t = {}"
    using manager_isolates[OF reach C inv K tr(1)] tr(2) ne unfolding mem by blast
  then have "ent_addr e \<notin> pages (mem (ms s)) t" using w by blast
  then show ?thesis using tr st(2,4,5) by (intro exI[of _ ?s] exI[of _ t] exI[of _ e]) (simp add: mem)
qed

end
