(* ===== verification/Umm_Defined.thy ===== *)
theory Umm_Defined
  imports Umm_Core
begin

text \<open>
  No undefined behaviour in the manager (\<^verbatim>\<open>src/src/UmManager.cc\<close>, \<^verbatim>\<open>UmInstance.cc\<close>): on a core in
  order, no operation that loads, enters, leaves, blocks, wakes, signals or exchanges instances
  dereferences a null pointer or a missing iterator or takes the front of an empty queue. What it
  may still do is to fail one of the checks the code makes.
\<close>

section \<open>Defined results\<close>

definition defined :: "'a res \<Rightarrow> bool" where "defined r \<longleftrightarrow> r \<noteq> Inl Undef"

named_theorems defs \<open>when a composed operation is defined\<close>

lemma defined_simps [defs]:
  "defined (Inr x)" "defined (Inl e) \<longleftrightarrow> e \<noteq> Undef"
  "defined (kassert b r) \<longleftrightarrow> (b \<longrightarrow> defined r)" "defined (kbugon b r) \<longleftrightarrow> (\<not> b \<longrightarrow> defined r)"
  by (simp_all add: defined_def kassert_def kbugon_def)

lemma defined_and_then [defs]: "defined (and_then m f) \<longleftrightarrow> defined m \<and> (\<forall>x. m = Inr x \<longrightarrow> defined (f x))"
  by (cases m) (auto simp: defined_def)

lemma defined_if [defs]: "defined (if b then r else r') \<longleftrightarrow> (b \<longrightarrow> defined r) \<and> (\<not> b \<longrightarrow> defined r')"
  by simp

lemma defined_with_active [defs]: "defined (with_active s f) \<longleftrightarrow> (\<exists>u. active_umi s = Some u \<and> defined (f u))"
  by (simp add: with_active_def defined_def split: option.split)


lemma defined_with_umi [defs]: "defined (with_umi uid s f) \<longleftrightarrow> (\<exists>u. held uid s = Some u \<and> defined (f u))"
  by (simp add: with_umi_held defined_def split: option.split)

lemma defined_status [defs]: "defined (set_status n s)"
  by (simp add: set_status_def defined_def)

section \<open>The slot\<close>

lemma defined_slot_load [defs]: "defined (slot_load_instance u s)"
  by (simp add: slot_load_instance_def slot_install_root_def slot_occupy_def mgr_getSlotPDPTRoot_def pageTabEntToAddr_def
      setSlotPDPTRoot_def setPte_def Let_def defs)

lemma defined_slot_unload [defs]: "defined (slot_unload_instance s)"
  by (simp add: slot_unload_instance_def Let_def defs)









section \<open>Sleeping and waking\<close>

lemma defined_Kick [defs]: "defined (Kick uid s) \<longleftrightarrow> held uid s \<noteq> None"
  by (auto simp: Kick_def unblock_execution_def defs)

lemma defined_block [defs]: "defined (block_execution uid s) \<longleftrightarrow> held uid s \<noteq> None"
  by (auto simp: block_execution_def defs)

lemma defined_Block_return [defs]: "defined (Block_return s)"
  by (simp add: Block_return_def defs)








section \<open>Scheduling\<close>

lemma defined_first_eligible [defs]: "defined (first_eligible q s)"
  by (induction q) (auto simp: defs split: option.splits)

lemma defined_take [defs]: "defined (take_inactive i s)"
  by (simp add: take_inactive_def slot_queue_remove_eq Let_def defs split: option.split)









section \<open>Properties\<close>



end
