(* ===== verification/Umm_Fair.thy ===== *)
theory Umm_Fair
  imports Umm_Slot
begin

text \<open>
  Handing over the slot (\<open>UmManager::Yield\<close>, \<^verbatim>\<open>src/src/UmManager.cc\<close>): whom the slot goes to when
  its instance is not marked active any more, what becomes of the instance that had it, and what
  happens with the new one.
\<close>

section \<open>Loading and unloading\<close>

lemma set_snapshot_all [simp]:
  "m_status (set_snapshot v s) = m_status s" "idle_umi_queue (set_snapshot v s) = idle_umi_queue s"
  "inactive_umi_map (set_snapshot v s) = inactive_umi_map s" "inactive_umi_halt_map (set_snapshot v s) = inactive_umi_halt_map s"
  "activation_promise_map (set_snapshot v s) = activation_promise_map s"
  by (simp_all add: set_snapshot_def Let_def)

lemma slot_load_halt:
  assumes "slot_load_instance u s = Inr (i, s')"
  shows "inactive_umi_halt_map s' = inactive_umi_halt_map s"
proof -
  obtain s1 where s1: "slot_install_root (Root (sv_pth (u_sv u))) s = Inr s1" "slot_occupy u s1 = Inr (i, s')"
    using assms by (auto simp: slot_load_instance_def and_then_eq_Inr kassert_eq_Inr)
  have "inactive_umi_halt_map s1 = inactive_umi_halt_map s"
    using s1(1) by (auto simp: slot_install_root_def and_then_eq_Inr kassert_eq_Inr split: if_splits)
  moreover have "inactive_umi_halt_map s' = inactive_umi_halt_map s1"
    using s1(2) by (cases "valid_address (u_snap_addr u)") (auto simp: slot_occupy_def Let_def and_then_eq_Inr set_status_eq_Inr)
  ultimately show ?thesis by simp
qed

lemma slot_unload_halt: "slot_unload_instance s = Inr (u, s') \<Longrightarrow> inactive_umi_halt_map s' = inactive_umi_halt_map s"
  by (auto simp: slot_unload_instance_def Let_def and_then_eq_Inr kassert_eq_Inr set_status_eq_Inr)

text \<open>Swapping the instance of an idle slot for another.\<close>

lemma swap_run:
  assumes "m_status s = idle" "active_umi s = Some a" "pte_exists (mem (ms s) (getSlotRoot (ms s)))"
    and "inactive_umi_map s (u_id a) = None" "Root (sv_pth (u_sv u)) = r" "r \<noteq> 0" "pg_ok r"
  shows "\<exists>s'. slot_swap_instance u s = Inr (u_id u, s') \<and> m_status s' = loaded \<and> active_umi s' = Some u \<and>
     idle_umi_queue s' = idle_umi_queue s @ [u_id a] \<and> inactive_umi_map s' = (inactive_umi_map s)(u_id a \<mapsto> a) \<and>
     activation_promise_map s' = activation_promise_map s \<and> inactive_umi_halt_map s' = inactive_umi_halt_map s \<and>
     slot_root (ms s') = r \<and> pte_exists (mem (ms s') (getSlotRoot (ms s')))"
proof -
  obtain s1 where un: "slot_unload_instance s = Inr (Some a, s1)"
    using slot_unload_run[OF assms(3)] assms(1,2) by auto
  note U = slot_unload_spec[OF un] slot_unload_mem[OF un] slot_unload_halt[OF un]
  define s2 where "s2 = slot_queue_push (u_id a) (s1\<lparr>inactive_umi_map := emplace (inactive_umi_map s1) (u_id a) a\<rparr>)"
  have e: "m_status s1 = empty" and sc: "sched s1 = sched s" using U(1) by blast+
  have re: "retire (Some a, s1) = Inr s2" by (simp add: retire_def Let_def s2_def slot_queue_push_def Id_def e)
  have s2: "m_status s2 = empty" "ms s2 = ms s1" "idle_umi_queue s2 = idle_umi_queue s @ [u_id a]"
    "inactive_umi_map s2 = (inactive_umi_map s)(u_id a \<mapsto> a)" "activation_promise_map s2 = activation_promise_map s"
    "inactive_umi_halt_map s2 = inactive_umi_halt_map s"
    using e sc U(6) assms(4) by (simp_all add: s2_def slot_queue_push_def sched_def emplace_def)
  have sr: "getSlotRoot (ms s1) = getSlotRoot (ms s)" using U(3) by (simp add: getSlotRoot_def getPML4Root_def)
  have "mem (ms s2) (getSlotRoot (ms s2)) = 0" using U(2) s2(2) sr by simp
  from slot_load_run[OF s2(1) this assms(5)] assms(6,7) obtain s3 where
    ld: "slot_load_instance u s2 = Inr (u_id u, s3)" "slot_root (ms s3) = r"
    "mem (ms s3) = (mem (ms s2))(getSlotRoot (ms s2) := pte_build r False True True True False)" "cr3 (ms s3) = cr3 (ms s2)" by auto
  have "getSlotRoot (ms s3) = getSlotRoot (ms s2)" using ld(4) by (simp add: getSlotRoot_def getPML4Root_def)
  then have ex: "pte_exists (mem (ms s3) (getSlotRoot (ms s3)))" using ld(3) by (simp add: pte_simps)
  have "slot_swap_instance u s = Inr (u_id u, s3)"
    using assms(1) un re ld(1) by (simp add: slot_swap_instance_def)
  then show ?thesis using slot_load_spec[OF ld(1)] slot_load_halt[OF ld(1)] ld(2) s2 ex
    by (intro exI[of _ s3]) (simp add: sched_def)
qed

text \<open>The queue up to the first instance that is marked active.\<close>

definition marked :: "mgr \<Rightarrow> u32 \<Rightarrow> bool" where
  "marked s i \<longleftrightarrow> (\<exists>u. inactive_umi_map s i = Some u \<and> IsActive u)"

lemma queued_GetInstance:
  assumes "mgr_inv s" "i \<in> set (idle_umi_queue s)"
  shows "\<exists>u. GetInstance i s = Some u \<and> inactive_umi_map s i = Some u \<and> u_id u = i \<and> i \<noteq> null_id"
proof -
  have i: "i \<in> dom (inactive_umi_map s)" "i \<noteq> null_id"
    using assms by (auto simp: mgr_inv_on_def sched_ok_def sched_def)
  have "\<not> is_active_instance i s"
    using assms(1) i(1) by (auto simp: mgr_inv_on_def outside_def is_active_instance_def Id_def split: option.split)
  then show ?thesis using i assms(1) by (auto simp: GetInstance_def mgr_inv_on_def sched_ok_def sched_def)
qed

lemma first_eligible_unmarked:
  assumes "mgr_inv s" "set pre \<subseteq> set (idle_umi_queue s)" "\<forall>j \<in> set pre. \<not> marked s j"
  shows "first_eligible (pre @ q) s = first_eligible q s"
  using assms(2,3)
proof (induction pre)
  case (Cons j pre)
  then obtain u where "GetInstance j s = Some u" "inactive_umi_map s j = Some u" using queued_GetInstance[OF assms(1), of j] by auto
  then show ?case using Cons by (simp add: marked_def)
qed simp

lemma first_eligible_none:
  assumes "mgr_inv s" "\<forall>j \<in> set (idle_umi_queue s). \<not> marked s j"
  shows "first_eligible (idle_umi_queue s) s = Inr null_id"
  using first_eligible_unmarked[OF assms(1) subset_refl assms(2), of "[]"] by simp

text \<open>The part of \<open>Yield\<close> before it looks at what the new instance is to do.\<close>

lemma yield_run:
  assumes inv: "mgr_inv s" "m_status s = idle" "pte_exists (mem (ms s) (getSlotRoot (ms s)))"
    and a: "active_umi s = Some a" "\<not> IsActive a"
    and q: "idle_umi_queue s = pre @ i # post" "\<forall>j \<in> set pre. \<not> marked s j"
    and u: "inactive_umi_map s i = Some u" "IsActive u" "Root (sv_pth (u_sv u)) \<noteq> 0" "pg_ok (Root (sv_pth (u_sv u)))"
  shows "\<exists>s1. Yield act qlen ef s = yield_finish act qlen ef i s1 \<and> m_status s1 = loaded \<and> active_umi s1 = Some u \<and> u_id u = i \<and>
     idle_umi_queue s1 = pre @ post @ [u_id a] \<and> inactive_umi_map s1 = (inactive_umi_map s)(i := None, u_id a \<mapsto> a) \<and>
     activation_promise_map s1 = activation_promise_map s \<and> inactive_umi_halt_map s1 = inactive_umi_halt_map s \<and>
     slot_root (ms s1) = Root (sv_pth (u_sv u))"
proof -
  have ids: "u_id u = i" "i \<noteq> null_id" "GetInstance i s = Some u" "i \<notin> set pre"
    using queued_GetInstance[OF inv(1), of i] q u(1,2) by (auto simp: marked_def)
  have out: "inactive_umi_map s (u_id a) = None" "i \<noteq> u_id a"
    using inv(1) a(1) u(1) by (auto simp: mgr_inv_on_def outside_def)
  define s0 where "s0 = s\<lparr>inactive_umi_map := (inactive_umi_map s)(i := None), idle_umi_queue := pre @ post\<rparr>"
  have "remove1 i (idle_umi_queue s) = pre @ post" using q(1) ids(4) by (simp add: remove1_append)
  then have take: "take_inactive i s = Inr (u, s0)"
    using u(1) by (simp add: take_inactive_def s0_def slot_queue_remove_eq Let_def)
  obtain s1 where sw: "slot_swap_instance u s0 = Inr (u_id u, s1)" and s1: "m_status s1 = loaded" "active_umi s1 = Some u"
      "idle_umi_queue s1 = pre @ post @ [u_id a]" "inactive_umi_map s1 = (inactive_umi_map s)(i := None, u_id a \<mapsto> a)"
      "activation_promise_map s1 = activation_promise_map s" "inactive_umi_halt_map s1 = inactive_umi_halt_map s"
      "slot_root (ms s1) = Root (sv_pth (u_sv u))"
    using swap_run[of s0 a u] inv out a u by (auto simp: s0_def)
  have load: "yield_load u s0 = Inr s1" using sw s1(1) inv(2) by (simp add: yield_load_def s0_def)
  have "first_eligible (idle_umi_queue s) s = Inr i"
    using first_eligible_unmarked[OF inv(1) _ q(2), of "i # post"] ids u(2) by (auto simp: Id_def q(1))
  then have "Yield act qlen ef s = yield_finish act qlen ef i s1"
    using a inv(2) q(1) ids(2) take load by (simp add: Yield_def slot_queue_size_def)
  then show ?thesis using s1 ids(1) by blast
qed

section \<open>Properties\<close>

text \<open>
  C17. Whom the slot goes to when \<open>Yield\<close> runs while it is idle and its instance \<open>a\<close> is not marked active
  (with its memory in it). When nobody waits, \<open>a\<close> leaves the slot empty and is queued. When
  nobody who waits is marked active, nothing changes. Otherwise the first in the queue who
  is marked active gets the slot, its own memory in it (when it has a page table), and \<open>a\<close> is queued behind all others,
  whose order does not change. The new instance is then handled by what is pending for it: its
  activation is announced; or else it is halted; or else it becomes idle, and if it is blocked,
  it is unblocked and the context it blocked in is scheduled.
\<close>

theorem yield_serves_queue:
  assumes "mgr_inv s" "m_status s = idle" "pte_exists (mem (ms s) (getSlotRoot (ms s)))" "active_umi s = Some a" "\<not> IsActive a"
  shows "(idle_umi_queue s = [] \<longrightarrow> (\<exists>s'. Yield act qlen ef s = Inr (None, s') \<and> m_status s' = empty \<and> active_umi s' = None \<and>
       idle_umi_queue s' = [u_id a] \<and> inactive_umi_map s' = [u_id a \<mapsto> a])) \<and>
     (idle_umi_queue s \<noteq> [] \<longrightarrow> (\<forall>j \<in> set (idle_umi_queue s). \<not> marked s j) \<longrightarrow> Yield act qlen ef s = Inr (None, s)) \<and>
     (\<forall>pre i post u. idle_umi_queue s = pre @ i # post \<longrightarrow> (\<forall>j \<in> set pre. \<not> marked s j) \<longrightarrow>
        inactive_umi_map s i = Some u \<longrightarrow> IsActive u \<longrightarrow> Root (sv_pth (u_sv u)) \<noteq> 0 \<longrightarrow> pg_ok (Root (sv_pth (u_sv u))) \<longrightarrow>
        (\<exists>s1. m_status s1 = loaded \<and> active_umi s1 = Some u \<and> u_id u = i \<and> slot_root (ms s1) = Root (sv_pth (u_sv u)) \<and>
          idle_umi_queue s1 = pre @ post @ [u_id a] \<and> inactive_umi_map s1 = (inactive_umi_map s)(i := None, u_id a \<mapsto> a) \<and>
          (activation_promise_map s i \<noteq> None \<longrightarrow> Yield act qlen ef s =
             and_then (act i (s1\<lparr>activation_promise_map := (activation_promise_map s)(i := None)\<rparr>))
               (\<lambda>s'. kassert (m_status s' = loaded) (Inr (None, s')))) \<and>
          (activation_promise_map s i = None \<longrightarrow> inactive_umi_halt_map s i \<noteq> None \<longrightarrow> Yield act qlen ef s =
             Halt qlen ef (s1\<lparr>inactive_umi_halt_map := (inactive_umi_halt_map s)(i := None), m_status := idle\<rparr>)) \<and>
          (activation_promise_map s i = None \<longrightarrow> inactive_umi_halt_map s i = None \<longrightarrow> \<not> u_blocked u \<longrightarrow>
             Yield act qlen ef s = Inr (None, s1\<lparr>m_status := idle\<rparr>)) \<and>
          (activation_promise_map s i = None \<longrightarrow> inactive_umi_halt_map s i = None \<longrightarrow> u_blocked u \<longrightarrow> u_context u \<longrightarrow>
             Yield act qlen ef s = Inr (None, SpawnLocal (EvContext i)
               (s1\<lparr>m_status := idle, active_umi := Some (disable_timer (u\<lparr>u_blocked := False\<rparr>))\<rparr>)))))"
proof (intro conjI allI impI)
  assume e: "idle_umi_queue s = []"
  obtain s1 where un: "slot_unload_instance s = Inr (Some a, s1)"
    using slot_unload_run[OF assms(3)] assms(2,4) by auto
  note U = slot_unload_spec[OF un, unfolded sched_def]
  have "inactive_umi_map s j = None" for j
    using assms(1) e by (auto simp: mgr_inv_on_def sched_ok_def sched_def dom_def)
  then have m: "inactive_umi_map s1 = (\<lambda>_. None)" "idle_umi_queue s1 = []" using U e by auto
  let ?s = "slot_queue_push (u_id a) (s1\<lparr>inactive_umi_map := [u_id a \<mapsto> a]\<rparr>)"
  have "yield_out s = Inr ?s"
  proof -
    have "m_status s1 = empty" using slot_unload_spec[OF un] by blast
    then show ?thesis using m by (simp add: yield_out_def un retire_def Let_def Id_def emplace_def slot_queue_push_def)
  qed
  then have "Yield act qlen ef s = Inr (None, ?s)"
    using assms(2,4,5) e by (simp add: Yield_def slot_queue_size_def)
  then show "\<exists>s'. Yield act qlen ef s = Inr (None, s') \<and> m_status s' = empty \<and> active_umi s' = None \<and>
      idle_umi_queue s' = [u_id a] \<and> inactive_umi_map s' = [u_id a \<mapsto> a]"
    using U m by (intro exI[of _ ?s]) (simp add: slot_queue_push_def)
next
  assume "idle_umi_queue s \<noteq> []" "\<forall>j \<in> set (idle_umi_queue s). \<not> marked s j"
  then show "Yield act qlen ef s = Inr (None, s)"
    using first_eligible_none[OF assms(1)] assms(2,4,5) by (simp add: Yield_def slot_queue_size_def)
next
  fix pre i post u
  assume "idle_umi_queue s = pre @ i # post" "\<forall>j \<in> set pre. \<not> marked s j" "inactive_umi_map s i = Some u" "IsActive u"
    "Root (sv_pth (u_sv u)) \<noteq> 0" "pg_ok (Root (sv_pth (u_sv u)))"
  from yield_run[OF assms this, of act qlen ef] obtain s1 where y: "Yield act qlen ef s = yield_finish act qlen ef i s1"
    and s1: "m_status s1 = loaded" "active_umi s1 = Some u" "u_id u = i" "idle_umi_queue s1 = pre @ post @ [u_id a]"
      "inactive_umi_map s1 = (inactive_umi_map s)(i := None, u_id a \<mapsto> a)" "activation_promise_map s1 = activation_promise_map s"
      "inactive_umi_halt_map s1 = inactive_umi_halt_map s" "slot_root (ms s1) = Root (sv_pth (u_sv u))" by blast
  have k: "Kick i (s1\<lparr>m_status := idle\<rparr>) = (if u_blocked u
      then kassert (u_context u) (Inr (SpawnLocal (EvContext i) (s1\<lparr>m_status := idle, active_umi := Some (disable_timer (u\<lparr>u_blocked := False\<rparr>))\<rparr>)))
      else Inr (s1\<lparr>m_status := idle\<rparr>))"
    using s1(2,3) by (simp add: Kick_def unblock_execution_def with_umi_def is_active_instance_def with_active_def put_umi_def Id_def)
  show "\<exists>s1. m_status s1 = loaded \<and> active_umi s1 = Some u \<and> u_id u = i \<and> slot_root (ms s1) = Root (sv_pth (u_sv u)) \<and>
          idle_umi_queue s1 = pre @ post @ [u_id a] \<and> inactive_umi_map s1 = (inactive_umi_map s)(i := None, u_id a \<mapsto> a) \<and>
          (activation_promise_map s i \<noteq> None \<longrightarrow> Yield act qlen ef s =
             and_then (act i (s1\<lparr>activation_promise_map := (activation_promise_map s)(i := None)\<rparr>))
               (\<lambda>s'. kassert (m_status s' = loaded) (Inr (None, s')))) \<and>
          (activation_promise_map s i = None \<longrightarrow> inactive_umi_halt_map s i \<noteq> None \<longrightarrow> Yield act qlen ef s =
             Halt qlen ef (s1\<lparr>inactive_umi_halt_map := (inactive_umi_halt_map s)(i := None), m_status := idle\<rparr>)) \<and>
          (activation_promise_map s i = None \<longrightarrow> inactive_umi_halt_map s i = None \<longrightarrow> \<not> u_blocked u \<longrightarrow>
             Yield act qlen ef s = Inr (None, s1\<lparr>m_status := idle\<rparr>)) \<and>
          (activation_promise_map s i = None \<longrightarrow> inactive_umi_halt_map s i = None \<longrightarrow> u_blocked u \<longrightarrow> u_context u \<longrightarrow>
             Yield act qlen ef s = Inr (None, SpawnLocal (EvContext i)
               (s1\<lparr>m_status := idle, active_umi := Some (disable_timer (u\<lparr>u_blocked := False\<rparr>))\<rparr>)))"
    using s1 k by (intro exI[of _ s1] conjI impI)
      (auto simp: y yield_finish_def set_status_def status_change_def with_active_def Id_def)
qed

text \<open>Three instances on one core: the one in the slot and the first in the queue are not marked active.\<close>

definition sleeper :: "u32 \<Rightarrow> u64 \<Rightarrow> umi" where
  "sleeper i r = (one_region Region_init)\<lparr>u_id := i, u_sv := UmSV_init\<lparr>sv_pth := UmPth_of r 3\<rparr>, u_blocked := True, u_context := True\<rparr>"

definition three_waiting :: mgr where
  "three_waiting = idle_mapped\<lparr>active_umi := Some (SetInactive (one_region Region_init)), idle_umi_queue := [2, 3],
     inactive_umi_map := [2 \<mapsto> SetInactive (sleeper 2 0x5000), 3 \<mapsto> sleeper 3 0x6000]\<rparr>"

lemma three_waiting_ready:
  "mgr_inv three_waiting" "m_status three_waiting = idle"
  "pte_exists (mem (ms three_waiting) (getSlotRoot (ms three_waiting)))"
  "active_umi three_waiting = Some (SetInactive (one_region Region_init))" "\<not> IsActive (SetInactive (one_region Region_init))"
  by (auto simp: three_waiting_def idle_mapped_def one_loaded_def mgr_init_def mgr_inv_on_def sched_ok_def sched_def outside_def
      null_id_def sleeper_def one_region_def IsActive_def SetInactive_def Root_def UmPth_of_def mach_simps pte_simps)

theorem yield_serves_queue_witness:
  "\<exists>s'. Yield (\<lambda>_. Inr) 0 ef_zero three_waiting = Inr (None, s') \<and> idle_umi_queue s' = [2, 1] \<and> slot_root (ms s') = 0x6000 \<and>
     active_umi s' = Some (disable_timer ((sleeper 3 0x6000)\<lparr>u_blocked := False\<rparr>))"
proof -
  have q: "idle_umi_queue three_waiting = [2] @ 3 # []" "\<forall>j \<in> set [2]. \<not> marked three_waiting j"
    "inactive_umi_map three_waiting 3 = Some (sleeper 3 0x6000)" "IsActive (sleeper 3 0x6000)"
    "Root (sv_pth (u_sv (sleeper 3 0x6000))) \<noteq> 0" "pg_ok (Root (sv_pth (u_sv (sleeper 3 0x6000))))"
    "Root (sv_pth (u_sv (sleeper 3 0x6000))) = 0x6000"
    by (auto simp: three_waiting_def marked_def sleeper_def SetInactive_def IsActive_def one_region_def Root_def UmPth_of_def pg_ok_small)
  have m: "activation_promise_map three_waiting 3 = None" "inactive_umi_halt_map three_waiting 3 = None"
    "u_blocked (sleeper 3 0x6000)" "u_context (sleeper 3 0x6000)" "u_id (SetInactive (one_region Region_init)) = 1"
    by (simp_all add: three_waiting_def idle_mapped_def one_loaded_def mgr_init_def sleeper_def one_region_def SetInactive_def)
  let ?v = "disable_timer ((sleeper 3 0x6000)\<lparr>u_blocked := False\<rparr>)"
  note Y = yield_serves_queue[OF three_waiting_ready, of "\<lambda>_. Inr" 0 ef_zero, THEN conjunct2, THEN conjunct2, rule_format, OF q(1) _ q(3-6)]
  obtain s1 where "idle_umi_queue s1 = [2] @ [] @ [1]" "slot_root (ms s1) = 0x6000"
    "Yield (\<lambda>_. Inr) 0 ef_zero three_waiting = Inr (None, SpawnLocal (EvContext 3) (s1\<lparr>m_status := idle, active_umi := Some ?v\<rparr>))"
    using Y q(2,7) m by auto
  then show ?thesis by (intro exI[of _ "SpawnLocal (EvContext 3) (s1\<lparr>m_status := idle, active_umi := Some ?v\<rparr>)"]) (simp add: SpawnLocal_def)
qed

end
