(* ===== verification/Umm_Args.thy ===== *)
theory Umm_Args
  imports Umm_Syscall Umm_Slot
begin

text \<open>
  \<open>UmInstance::SetArguments\<close> (\<^verbatim>\<open>src/src/UmInstance.cc\<close>): the instance gets its own copy of the
  boot information and of the command line in it, in memory that is made accessible to user
  mode.

  The heap has the boot informations and the C strings by their address; the page tables are
  in the machine. The two addresses \<open>malloc\<close> returns, \<open>bi\<close> and \<open>tmp\<close>, and
  \<open>sizeof(ukvm_boot_info)\<close>, which is Solo5's, are arguments.
\<close>

section \<open>Operations\<close>

record heap =
  h_boot :: "u64 \<Rightarrow> boot_info"
  h_str :: "u64 \<Rightarrow> string"

definition hackSetPgUsr :: "u64 \<Rightarrow> int \<Rightarrow> mach \<Rightarrow> mach res" where
  "hackSetPgUsr vaddr bytes m =
     kassert (drop_bit 21 vaddr = drop_bit 21 (vaddr + of_int bytes))
       (setUserAllPTEsWalkLamb vaddr (getPML4Root m) PML4_LEVEL m)"

definition strlen :: "u64 \<Rightarrow> heap \<Rightarrow> int" where "strlen p h = int (length (h_str h p))"

definition strcpy :: "u64 \<Rightarrow> u64 \<Rightarrow> heap \<Rightarrow> heap" where "strcpy d p h = h\<lparr>h_str := (h_str h)(d := h_str h p)\<rparr>"

definition SetArguments ::
  "int \<Rightarrow> u64 \<Rightarrow> u64 \<Rightarrow> u64 \<Rightarrow> u64 \<Rightarrow> heap \<Rightarrow> umi \<Rightarrow> mach \<Rightarrow> (heap \<times> umi \<times> mach) res" where
  "SetArguments sizeof_boot bi tmp argc argv h u m =
     (let u = u\<lparr>u_bi := bi\<rparr> in
     and_then (hackSetPgUsr bi sizeof_boot m) (\<lambda>m.
     let h = h\<lparr>h_boot := (h_boot h)(bi := h_boot h argc)\<rparr>;
         cmdline = bi_cmdline (h_boot h bi)
     in and_then (hackSetPgUsr tmp (strlen cmdline h + 1) m) (\<lambda>m.
     let h = strcpy tmp cmdline h;
         h = h\<lparr>h_boot := (h_boot h)(bi := (h_boot h bi)\<lparr>bi_cmdline := tmp\<rparr>)\<rparr>;
         ef = (sv_ef (u_sv u))\<lparr>ef_rdi := bi\<rparr>;
         ef = (if argv \<noteq> 0 then ef\<lparr>ef_rsi := argv\<rparr> else ef)
     in Inr (h, u\<lparr>u_sv := (u_sv u)\<lparr>sv_ef := ef\<rparr>\<rparr>, m))))"

section \<open>Lemmas\<close>

text \<open>Setting user bits changes no translation.\<close>

definition user_more :: "(u64 \<Rightarrow> u64) \<Rightarrow> (u64 \<Rightarrow> u64) \<Rightarrow> bool" where
  "user_more h h' \<longleftrightarrow> (\<forall>c. h' c = h c \<or> h' c = set_user (h c))"

lemma user_more_shape: "user_more h h' \<Longrightarrow> same_shape h h'"
  unfolding same_shape_def user_more_def by (metis set_user_fields(1,2,4))

lemma user_more_tree:
  assumes "user_more h h'"
  shows "tbls h' l r = tbls h l r" "wf_pt h' l r = wf_pt h l r" "leaf_at h' l r ix = leaf_at h l r ix"
    "path_cells h' l r ix = path_cells h l r ix"
proof -
  note S = same_shapeD[OF user_more_shape[OF assms]]
  show "tbls h' l r = tbls h l r" "wf_pt h' l r = wf_pt h l r" "leaf_at h' l r ix = leaf_at h l r ix"
    by (rule same_shape_tree[OF user_more_shape[OF assms]])+
  show "path_cells h' l r ix = path_cells h l r ix"
    by (induction l arbitrary: r) (simp_all add: Let_def S cong: if_cong)
qed

lemma hackSetPgUsr_ok:
  assumes "drop_bit 21 va = drop_bit 21 (va + of_int n)" "wf_pt (mem m) 4 (getPML4Root m)" "getPML4Root m \<noteq> 0"
    and "leaf_at (mem m) 4 (getPML4Root m) (lin_index va) = Some a"
  shows "\<exists>m'. hackSetPgUsr va n m = Inr m' \<and> user_more (mem m) (mem m') \<and> getPML4Root m' = getPML4Root m \<and>
     (\<forall>c. mem m' c = (if c \<in> set (path_cells (mem m) 4 (getPML4Root m) (lin_index va)) then set_user (mem m c) else mem m c))"
  using assms setUserAllPTEsWalkLamb_correct[OF assms(2,3) _ assms(4)]
  by (auto simp: hackSetPgUsr_def PML4_LEVEL_def user_more_def getPML4Root_def)

section \<open>Properties\<close>

text \<open>User mode may access an address that is mapped when all entries of its walk have the user bit.\<close>

definition user_access :: "(u64 \<Rightarrow> u64) \<Rightarrow> u64 \<Rightarrow> u64 \<Rightarrow> bool" where
  "user_access h R va \<longleftrightarrow> leaf_at h 4 R (lin_index va) \<noteq> None \<and> (\<forall>c \<in> set (path_cells h 4 R (lin_index va)). pte_US (h c))"

lemma lin_index_page: "drop_bit 12 va = drop_bit 12 va' \<Longrightarrow> lin_index va = lin_index va'"
  by (simp add: lin_index_def fun_eq_iff)

text \<open>
  C29. The arguments of an instance are its own: after \<open>SetArguments\<close> the first argument
  register points to a copy of the boot information given, which differs only in that its
  command line is a copy of the string, and neither the original nor its string changed. The
  page table being one with small pages only, and the two copies starting in mapped pages, user mode may access the 4K page
  in which each copy starts; the entries of the walks to these two pages get the user bit, no other entry
  changes, and no translation does. (The following pages of a copy that crosses the end of its first page
  are not made accessible.)
\<close>

theorem arguments_are_own:
  assumes "wf_pt (mem m) 4 R" "R = getPML4Root m" "R \<noteq> 0"
    and "leaf_at (mem m) 4 R (lin_index bi) = Some a" "leaf_at (mem m) 4 R (lin_index tmp) = Some b"
    and "drop_bit 21 bi = drop_bit 21 (bi + of_int n)" "bi \<noteq> argc" "tmp \<noteq> bi_cmdline (h_boot h argc)"
    and "drop_bit 21 tmp = drop_bit 21 (tmp + of_int (strlen (bi_cmdline (h_boot h argc)) h + 1))"
  shows "\<exists>h' u' m'. SetArguments n bi tmp argc argv h u m = Inr (h', u', m') \<and>
     u' = u\<lparr>u_bi := bi, u_sv := (u_sv u)\<lparr>sv_ef := (sv_ef (u_sv u))\<lparr>ef_rdi := bi, ef_rsi := (if argv \<noteq> 0 then argv else ef_rsi (sv_ef (u_sv u)))\<rparr>\<rparr>\<rparr> \<and>
     h_boot h' bi = (h_boot h argc)\<lparr>bi_cmdline := tmp\<rparr> \<and> h_str h' tmp = h_str h (bi_cmdline (h_boot h argc)) \<and>
     h_boot h' argc = h_boot h argc \<and> h_str h' (bi_cmdline (h_boot h argc)) = h_str h (bi_cmdline (h_boot h argc)) \<and>
     (\<forall>c. let C = set (path_cells (mem m) 4 R (lin_index bi)) \<union> set (path_cells (mem m) 4 R (lin_index tmp))
          in if c \<in> C then mem m' c = set_user (mem m c) else mem m' c = mem m c) \<and>
     (\<forall>va. drop_bit 12 va = drop_bit 12 bi \<or> drop_bit 12 va = drop_bit 12 tmp \<longrightarrow> user_access (mem m') R va) \<and>
     (\<forall>va. mmu m' va = mmu m va)"
proof -
  obtain m1 where m1: "hackSetPgUsr bi n m = Inr m1" "user_more (mem m) (mem m1)" "getPML4Root m1 = R"
      "\<forall>c. mem m1 c = (if c \<in> set (path_cells (mem m) 4 R (lin_index bi)) then set_user (mem m c) else mem m c)"
    using hackSetPgUsr_ok[of bi n m a] assms by auto
  note U1 = user_more_tree[OF m1(2)]
  obtain m2 where m2: "hackSetPgUsr tmp (strlen (bi_cmdline (h_boot h argc)) h + 1) m1 = Inr m2" "user_more (mem m1) (mem m2)"
      "getPML4Root m2 = R"
      "\<forall>c. mem m2 c = (if c \<in> set (path_cells (mem m) 4 R (lin_index tmp)) then set_user (mem m1 c) else mem m1 c)"
    using hackSetPgUsr_ok[of tmp "strlen (bi_cmdline (h_boot h argc)) h + 1" m1 b] assms(1-5,9) by (auto simp: U1 m1(3))
  note U2 = user_more_tree[OF m2(2)]
  have su: "set_user (set_user e) = set_user e" for e by (rule bit_word_eqI) (simp add: bit_set_user)
  have cells: "if c \<in> set (path_cells (mem m) 4 R (lin_index bi)) \<union> set (path_cells (mem m) 4 R (lin_index tmp))
      then mem m2 c = set_user (mem m c) else mem m2 c = mem m c" for c
    using m1(4) m2(4) by (auto simp: su)
  have tr: "mmu m2 va = mmu m va" for va
    unfolding mmu_def pt_lookup_leaf_at m2(3) assms(2)[symmetric] U2 U1
    by (cases "leaf_at (mem m) 4 R (lin_index va)") (simp_all add: same_shapeD[OF user_more_shape[OF m2(2)]] same_shapeD[OF user_more_shape[OF m1(2)]])
  have us: "user_access (mem m2) R va" if "drop_bit 12 va = drop_bit 12 bi \<or> drop_bit 12 va = drop_bit 12 tmp" for va
  proof -
    have "lin_index va = lin_index bi \<or> lin_index va = lin_index tmp" using that lin_index_page by blast
    then have "leaf_at (mem m) 4 R (lin_index va) \<noteq> None"
      "set (path_cells (mem m) 4 R (lin_index va)) \<subseteq> set (path_cells (mem m) 4 R (lin_index bi)) \<union> set (path_cells (mem m) 4 R (lin_index tmp))"
      using assms(4,5) by auto
    then show ?thesis using cells set_user_fields(3) by (auto simp: user_access_def U1 U2 subset_iff)
  qed
  have sl: "strlen p (h\<lparr>h_boot := x\<rparr>) = strlen p h" for p x by (simp add: strlen_def)
  show ?thesis
    using m1(1) m2(1) cells tr us assms(7,8)
    by (simp add: SetArguments_def Let_def strcpy_def sl)
qed

text \<open>A top-level table with the tree of the checkpoint example below it, in which the two copies share a page.\<close>

lemma snap_top:
  "wf_pt snap_mem 4 0x9000" "getPML4Root (ms snap_ready) = 0x9000"
  "leaf_at snap_mem 4 0x9000 (lin_index 0xFFFFC00040403000) = Some (pte_at 0x3000 3)"
  "leaf_at snap_mem 4 0x9000 (lin_index 0xFFFFC00040403800) = Some (pte_at 0x3000 3)"
proof -
  let ?e = "pte_build 0x1000 False True True True False"
  have e: "pte_exists ?e" "ent_addr ?e = 0x1000" "\<not> pte_MAPS ?e" "\<not> isLeaf ?e (Suc 3)"
    by (simp_all add: pte_simps pg_ok_small isLeaf_above)
  have oe: "only_entry snap_mem 0x9000 0x180 ?e"
    by (simp add: only_entry_def snap_mem_def small_tree_def pg_ok_small)
  show "getPML4Root (ms snap_ready) = 0x9000" by (simp add: snap_ready_sel(3) getPML4Root_def cr3ToAddr_def) code_simp
  have "wf_pt snap_mem (Suc 3) 0x9000"
    by (rule only_entry_wf[OF oe e(1)]) (simp_all add: e snap_tree(1,2))
  then show "wf_pt snap_mem 4 0x9000" by simp
  have o3: "only_entry snap_mem 0x1000 1 (pte_build 0x2000 False True True True False)"
    "only_entry snap_mem 0x2000 2 (pte_build 0x3000 False True True True False)"
    "only_entry snap_mem 0x3000 3 (pte_build 0x4000 True True True True False)"
    by (simp_all add: only_entry_def snap_mem_def small_tree_def pg_ok_small)
  have leaf: "leaf_at snap_mem 4 0x9000 (lin_index va) = Some (pte_at 0x3000 3)"
    if "lin_index va 4 = 0x180" "lin_index va 3 = 1" "lin_index va 2 = 2" "lin_index va 1 = 3" for va
  proof -
    have n: "(4::nat) = Suc (Suc (Suc (Suc 0)))" "(3::nat) = Suc (Suc (Suc 0))" "(2::nat) = Suc (Suc 0)" by simp_all
    have ix: "lin_index va (Suc (Suc (Suc (Suc 0)))) = 0x180" "lin_index va (Suc (Suc (Suc 0))) = 1"
      "lin_index va (Suc (Suc 0)) = 2" "lin_index va (Suc 0) = 3"
      using that unfolding n[symmetric] by simp_all
    have "leaf_at snap_mem (Suc (Suc (Suc (Suc 0)))) 0x9000 (lin_index va) = Some (pte_at 0x3000 3)"
      using ix by (simp add: only_entry_leaf_at[OF oe] only_entry_leaf_at[OF o3(1)] only_entry_leaf_at[OF o3(2)] only_entry_leaf_at[OF o3(3)]
          pte_simps pg_ok_small isLeaf_above del: leaf_at.simps)
    then show ?thesis by (simp only: n(1))
  qed
  show "leaf_at snap_mem 4 0x9000 (lin_index 0xFFFFC00040403000) = Some (pte_at 0x3000 3)"
    by (rule leaf; code_simp)
  show "leaf_at snap_mem 4 0x9000 (lin_index 0xFFFFC00040403800) = Some (pte_at 0x3000 3)"
    by (rule leaf; code_simp)
qed

definition arg_boot :: boot_info where
  "arg_boot = \<lparr>bi_mem_size = 0x1000000, bi_kernel_end = 0, bi_cmdline = 0x77000, bi_tsc_freq = SOLO5_CPU_TSC_FREQ,
     bi_tsc_step = SOLO5_CPU_TSC_STEP, bi_hypercall_ptr = (\<lambda>_. None)\<rparr>"

definition arg_heap :: heap where
  "arg_heap = \<lparr>h_boot = (\<lambda>_. arg_boot), h_str = (\<lambda>_. ''bin/node'')\<rparr>"

theorem arguments_are_own_witness:
  "\<exists>h' u' m'. SetArguments 128 0xFFFFC00040403000 0xFFFFC00040403800 0x66000 0 arg_heap (one_region Region_init) (ms snap_ready) = Inr (h', u', m') \<and>
     ef_rdi (sv_ef (u_sv u')) = 0xFFFFC00040403000 \<and> h_boot h' 0xFFFFC00040403000 = arg_boot\<lparr>bi_cmdline := 0xFFFFC00040403800\<rparr> \<and>
     h_str h' 0xFFFFC00040403800 = ''bin/node''"
proof -
  have m: "mem (ms snap_ready) = snap_mem" by (simp add: snap_ready_sel(3))
  have l: "strlen (bi_cmdline (h_boot arg_heap 0x66000)) arg_heap = 8" by (simp add: strlen_def arg_heap_def)
  have d: "drop_bit 21 (0xFFFFC00040403000 :: u64) = drop_bit 21 (0xFFFFC00040403000 + of_int 128)"
    "drop_bit 21 (0xFFFFC00040403800 :: u64) = drop_bit 21 (0xFFFFC00040403800 + of_int (8 + 1))" by simp_all
  have hb: "h_boot arg_heap a = arg_boot" "h_str arg_heap a = ''bin/node''" "bi_cmdline arg_boot = 0x77000" for a
    by (simp_all add: arg_heap_def arg_boot_def)
  have ne: "(0x9000 :: u64) \<noteq> 0" "(0xFFFFC00040403000 :: u64) \<noteq> 0x66000" "(0xFFFFC00040403800 :: u64) \<noteq> 0x77000" by simp_all
  obtain h' u' m' where "SetArguments 128 0xFFFFC00040403000 0xFFFFC00040403800 0x66000 0 arg_heap (one_region Region_init) (ms snap_ready) = Inr (h', u', m')"
    "u' = (one_region Region_init)\<lparr>u_bi := 0xFFFFC00040403000, u_sv := (u_sv (one_region Region_init))\<lparr>sv_ef := (sv_ef (u_sv (one_region Region_init)))
       \<lparr>ef_rdi := 0xFFFFC00040403000, ef_rsi := (if (0::u64) \<noteq> 0 then 0 else ef_rsi (sv_ef (u_sv (one_region Region_init))))\<rparr>\<rparr>\<rparr>"
    "h_boot h' 0xFFFFC00040403000 = arg_boot\<lparr>bi_cmdline := 0xFFFFC00040403800\<rparr>" "h_str h' 0xFFFFC00040403800 = ''bin/node''"
    using arguments_are_own[where m = "ms snap_ready" and R = "0x9000" and bi = "0xFFFFC00040403000" and tmp = "0xFFFFC00040403800"
        and n = 128 and argc = "0x66000" and h = arg_heap and u = "one_region Region_init" and argv = 0, unfolded m l, unfolded hb,
        OF snap_top(1) snap_top(2)[symmetric] ne(1) snap_top(3,4) d(1) ne(2,3) d(2)]
    by blast
  then show ?thesis by (intro exI[of _ h'] exI[of _ u'] exI[of _ m']) simp
qed

end
