(* ===== verification/Umm_Loader.thy ===== *)
theory Umm_Loader
  imports Umm_Manager
begin

text \<open>
  The ELF loader (\<^verbatim>\<open>src/src/UmLoader.h\<close>, \<^verbatim>\<open>UmLoader.cc\<close>): checking the header, turning the
  sections of an image into the regions of a state vector, and finding a symbol.

  The code casts the image's memory to the structures of the header file. An image is given by
  what these casts read: the header, the section headers by index (also past the last, which the
  code reads), the strings by address and the symbols by table address and index. Printed
  messages are left out.
\<close>

section \<open>Images\<close>

record ehdr =
  e_ident :: "u8 list"
  e_type :: u16
  e_machine :: u16
  e_version :: u32
  e_entry :: u64
  e_phoff :: u64
  e_shoff :: u64
  e_flags :: u32
  e_ehsize :: u16
  e_phentsize :: u16
  e_phnum :: u16
  e_shentsize :: u16
  e_shnum :: u16
  e_shstrndx :: u16

record shdr =
  sh_name :: u32
  sh_type :: u32
  sh_flags :: u64
  sh_addr :: u64
  sh_offset :: u64
  sh_size :: u64
  sh_link :: u32
  sh_info :: u32
  sh_addralign :: u64
  sh_entsize :: u64

record elf_sym =
  st_name :: u32
  st_info :: u8
  st_other :: u8
  st_shndx :: u16
  st_value :: u64
  st_size :: u64

record image =
  im_start :: u64
  im_eh :: ehdr
  im_sht :: "nat \<Rightarrow> shdr"
  im_cstr :: "u64 \<Rightarrow> string"
  im_sym :: "u64 \<Rightarrow> nat \<Rightarrow> elf_sym"

definition sizeof_Elf64_Sym :: u64 where "sizeof_Elf64_Sym = 24"

definition ELFMAG0 :: u8 where "ELFMAG0 = 0x7F"
definition ELFMAG1 :: u8 where "ELFMAG1 = 0x45"
definition ELFMAG2 :: u8 where "ELFMAG2 = 0x4C"
definition ELFMAG3 :: u8 where "ELFMAG3 = 0x46"
definition ELFDATA2LSB :: u8 where "ELFDATA2LSB = 1"
definition ELFCLASS64 :: u8 where "ELFCLASS64 = 2"
definition EV_CURRENT :: u8 where "EV_CURRENT = 1"
definition ET_REL :: u16 where "ET_REL = 1"
definition ET_EXEC :: u16 where "ET_EXEC = 2"
definition SHF_WRITE :: u64 where "SHF_WRITE = 0x1"
definition SHF_ALLOC :: u64 where "SHF_ALLOC = 0x02"
definition SHT_SYMTAB :: u32 where "SHT_SYMTAB = 2"
definition SHT_STRTAB :: u32 where "SHT_STRTAB = 3"
definition SHT_NOBITS :: u32 where "SHT_NOBITS = 8"

definition shnum :: "image \<Rightarrow> nat" where "shnum im = unat (e_shnum (im_eh im))"

text \<open>\<open>get_section_name\<close>; the test for a null string table never holds for a real image.\<close>

definition get_section_name :: "image \<Rightarrow> shdr \<Rightarrow> string" where
  "get_section_name im sh =
     (let strSec = im_sht im (unat (e_shstrndx (im_eh im)));
          strTab = im_start im + sh_offset strSec
      in im_cstr im (strTab + ucast (sh_name sh)))"

definition elf_check_file :: "image \<Rightarrow> bool" where
  "elf_check_file im =
     (if im_start im = 0 then False
      else if e_ident (im_eh im) ! 0 \<noteq> ELFMAG0 then False
      else if e_ident (im_eh im) ! 1 \<noteq> ELFMAG1 then False
      else if e_ident (im_eh im) ! 2 \<noteq> ELFMAG2 then False
      else if e_ident (im_eh im) ! 3 \<noteq> ELFMAG3 then False
      else True)"

definition elf_check_supported :: "image \<Rightarrow> bool" where
  "elf_check_supported im =
     (if e_ident (im_eh im) ! 4 \<noteq> ELFCLASS64 then False
      else if e_ident (im_eh im) ! 5 \<noteq> ELFDATA2LSB then False
      else if e_ident (im_eh im) ! 6 \<noteq> EV_CURRENT then False
      else if e_type (im_eh im) \<noteq> ET_REL \<and> e_type (im_eh im) \<noteq> ET_EXEC then False
      else if e_type (im_eh im) = ET_REL then False
      else True)"

section \<open>Loading\<close>

text \<open>The globals: where the symbol and string tables are.\<close>

record elf_tables =
  elf_symtab :: u64
  elf_symtab_size :: u64
  elf_strtab :: u64
  elf_strtab_size :: u64

definition elf_tables_init :: elf_tables where
  "elf_tables_init = \<lparr>elf_symtab = 0, elf_symtab_size = 0, elf_strtab = 0, elf_strtab_size = 0\<rparr>"

record loading =
  l_sv :: sv
  l_tables :: elf_tables
  l_next_page :: u64

text \<open>\<open>Pfn::Up(a).ToAddr()\<close>\<close>

definition pfn_up :: "u64 \<Rightarrow> u64" where "pfn_up a = pfn_down (a + 4095)"

definition extra_name :: "string \<Rightarrow> bool" where
  "extra_name n \<longleftrightarrow> n \<noteq> [] \<and> \<not> (take 8 n \<noteq> ''link_set'' \<and> take 5 n \<noteq> ''.gcc_'')"

text \<open>The inner loop: sections that are appended to the region of the one before them.\<close>

function extend_region :: "image \<Rightarrow> nat \<Rightarrow> nat \<Rightarrow> region \<Rightarrow> nat \<times> region" where
  "extend_region im i_ptr i reg =
     (if i_ptr < shnum im then
        (let i_ptr = Suc i_ptr; nxt_sh = im_sht im i_ptr in
         if \<not> extra_name (get_section_name im nxt_sh) then (i, reg)
         else
           (let reg = (if r_start reg + r_length reg < sh_addr nxt_sh
                       then reg\<lparr>r_length := r_length reg + (sh_addr nxt_sh - (r_start reg + r_length reg))\<rparr> else reg)
            in extend_region im i_ptr (Suc i) (reg\<lparr>r_length := r_length reg + sh_size nxt_sh\<rparr>)))
      else (i, reg))"
  by pat_completeness auto
termination by (relation "measure (\<lambda>(im, i_ptr, i, reg). shnum im - i_ptr)") auto

declare extend_region.simps [simp del]

definition section_region :: "image \<Rightarrow> shdr \<Rightarrow> region" where
  "section_region im sh =
     (let reg = Region_init;
          reg = reg\<lparr>r_start := sh_addr sh\<rparr>;
          reg = reg\<lparr>r_length := sh_size sh\<rparr>;
          reg = reg\<lparr>r_name := get_section_name im sh\<rparr>;
          reg = reg\<lparr>r_writable := (sh_flags sh AND SHF_WRITE \<noteq> 0)\<rparr>
      in if sh_type sh \<noteq> SHT_NOBITS then reg\<lparr>r_data := im_start im + sh_offset sh\<rparr> else reg)"

text \<open>One round of the section loop: the index it ends with and the state.\<close>

definition section_step :: "image \<Rightarrow> nat \<Rightarrow> loading \<Rightarrow> (nat \<times> loading) res" where
  "section_step im i l =
     (let sh = im_sht im i in
      if sh_size sh = 0 then Inr (i, l)
      else if sh_type sh = SHT_SYMTAB \<and> get_section_name im sh = ''.symtab'' then
        Inr (i, l\<lparr>l_tables := (l_tables l)\<lparr>elf_symtab := im_start im + sh_offset sh,
                     elf_symtab_size := sh_size sh div sizeof_Elf64_Sym\<rparr>\<rparr>)
      else if sh_type sh = SHT_STRTAB \<and> get_section_name im sh = ''.strtab'' then
        Inr (i, l\<lparr>l_tables := (l_tables l)\<lparr>elf_strtab := im_start im + sh_offset sh, elf_strtab_size := sh_size sh\<rparr>\<rparr>)
      else if sh_flags sh AND SHF_ALLOC = 0 then Inr (i, l)
      else kassert (sh_addr sh mod kPageSize = 0)
        (let (i, reg) = extend_region im i i (section_region im sh);
             l = (if r_name reg = ''.bss'' then l\<lparr>l_next_page := pfn_up (r_start reg + r_length reg)\<rparr> else l)
         in Inr (i, l\<lparr>l_sv := AddRegion reg (l_sv l)\<rparr>)))"

lemma extend_region_ge: "i \<le> fst (extend_region im p i reg)"
proof (induction im p i reg rule: extend_region.induct)
  case (1 im p i reg)
  show ?case using 1 by (subst extend_region.simps) (fastforce simp: Let_def)
qed

lemma section_step_ge: "section_step im i l = Inr (j, l') \<Longrightarrow> i \<le> j"
  using extend_region_ge[of i im i "section_region im (im_sht im i)"]
  by (auto simp: section_step_def Let_def kassert_eq_Inr split: if_splits prod.splits)

function sections :: "image \<Rightarrow> nat \<Rightarrow> loading \<Rightarrow> loading res" where
  "sections im i l =
     (if i < shnum im then
        (case section_step im i l of
           Inl e \<Rightarrow> Inl e
         | Inr (i, l) \<Rightarrow> sections im (Suc i) l)
      else Inr l)"
  by pat_completeness auto
termination
  by (relation "measure (\<lambda>(im, i, l). shnum im - i)") (auto dest: section_step_ge)

declare sections.simps [simp del]

definition usr_region :: "u64 \<Rightarrow> region" where
  "usr_region next_page_ptr =
     (let usr_len = (kSlotEndVAddr + 1) - next_page_ptr
      in Region_init\<lparr>r_start := next_page_ptr, r_length := usr_len, r_name := ''usr'', r_writable := True\<rparr>)"

definition createSVFromElf :: "image \<Rightarrow> elf_tables \<Rightarrow> (sv \<times> elf_tables) res" where
  "createSVFromElf im t =
     (if \<not> elf_check_file im \<or> \<not> elf_check_supported im then Inl KAbort
      else
        and_then (sections im 0 \<lparr>l_sv = UmSV_entry (e_entry (im_eh im)), l_tables = t, l_next_page = 0\<rparr>) (\<lambda>l.
        kassert (l_next_page l \<noteq> 0)
          (Inr (AddRegion (usr_region (l_next_page l)) (l_sv l), l_tables l))))"

section \<open>Symbols\<close>

definition get_symbol_name :: "image \<Rightarrow> elf_tables \<Rightarrow> u64 \<Rightarrow> string res" where
  "get_symbol_name im t tbl_idx =
     kassert (elf_strtab t \<noteq> 0) (kassert (elf_strtab_size t \<noteq> 0) (Inr (im_cstr im (elf_strtab t + tbl_idx))))"

text \<open>The loop over the symbols from \<open>i\<close> on, \<open>n\<close> of them.\<close>

primrec find_symbol :: "image \<Rightarrow> elf_tables \<Rightarrow> string \<Rightarrow> nat \<Rightarrow> nat \<Rightarrow> u64 res" where
  "find_symbol im t symb i 0 = Inr 0"
| "find_symbol im t symb i (Suc n) =
     (let s = im_sym im (elf_symtab t) i in
      and_then (get_symbol_name im t (ucast (st_name s))) (\<lambda>nm.
        if nm = symb then Inr (st_value s) else find_symbol im t symb (Suc i) n))"

definition GetSymbolAddress :: "image \<Rightarrow> elf_tables \<Rightarrow> string \<Rightarrow> u64 res" where
  "GetSymbolAddress im t symb =
     kassert (elf_symtab t \<noteq> 0) (kassert (elf_symtab_size t \<noteq> 0)
       (find_symbol im t symb 0 (unat (elf_symtab_size t))))"

section \<open>What the loop builds\<close>

text \<open>
  A section that gives a region of its own, unless it is appended to an earlier one: not empty,
  in the address space, none of the two tables. The sections appended to the region of section
  \<open>j\<close> are those that follow it with the names of extra sections, whatever their flags (with
  the header behind the table looked at too).
\<close>

definition region_section :: "image \<Rightarrow> nat \<Rightarrow> bool" where
  "region_section im j \<longleftrightarrow>
     (let sh = im_sht im j; nm = get_section_name im sh in
      sh_size sh \<noteq> 0 \<and> sh_flags sh AND SHF_ALLOC \<noteq> 0 \<and>
      \<not> (sh_type sh = SHT_SYMTAB \<and> nm = ''.symtab'') \<and> \<not> (sh_type sh = SHT_STRTAB \<and> nm = ''.strtab''))"

definition extras :: "image \<Rightarrow> nat \<Rightarrow> nat list" where
  "extras im j = takeWhile (\<lambda>k. extra_name (get_section_name im (im_sht im k))) [Suc j ..< Suc (shnum im)]"

text \<open>
  The length of a region that starts at \<open>start\<close>, after another section is appended: the gap before
  the section, if there is one, and the section's size are added.
\<close>

definition with_extra :: "image \<Rightarrow> u64 \<Rightarrow> nat \<Rightarrow> u64 \<Rightarrow> u64" where
  "with_extra im start k len =
     (if start + len < sh_addr (im_sht im k) then sh_addr (im_sht im k) - start else len) + sh_size (im_sht im k)"

definition region_len :: "image \<Rightarrow> nat \<Rightarrow> u64" where
  "region_len im j = fold (with_extra im (sh_addr (im_sht im j))) (extras im j) (sh_size (im_sht im j))"

definition region_of :: "image \<Rightarrow> nat \<Rightarrow> region" where
  "region_of im j =
     Region_init\<lparr>r_start := sh_addr (im_sht im j), r_length := region_len im j, r_name := get_section_name im (im_sht im j),
       r_writable := (sh_flags (im_sht im j) AND SHF_WRITE \<noteq> 0),
       r_data := (if sh_type (im_sht im j) = SHT_NOBITS then 0 else im_start im + sh_offset (im_sht im j))\<rparr>"

lemma extend_region_eq:
  "extend_region im p i reg =
     (let xs = takeWhile (\<lambda>k. extra_name (get_section_name im (im_sht im k))) [Suc p ..< Suc (shnum im)]
      in (i + length xs, reg\<lparr>r_length := fold (with_extra im (r_start reg)) xs (r_length reg)\<rparr>))"
proof (induction im p i reg rule: extend_region.induct)
  case (1 im p i reg)
  let ?P = "\<lambda>k. extra_name (get_section_name im (im_sht im k))"
  let ?nxt = "im_sht im (Suc p)"
  show ?case
  proof (cases "p < shnum im")
    case False
    then have "[Suc p ..< Suc (shnum im)] = []" by simp
    then show ?thesis using False by (subst extend_region.simps) simp
  next
    case True
    then have up: "[Suc p ..< Suc (shnum im)] = Suc p # [Suc (Suc p) ..< Suc (shnum im)]" by (simp add: upt_conv_Cons)
    show ?thesis
    proof (cases "?P (Suc p)")
      case False
      then show ?thesis using True unfolding up by (subst extend_region.simps) (simp add: Let_def)
    next
      case F: True
      define reg2 where "reg2 = (let reg = (if r_start reg + r_length reg < sh_addr ?nxt
          then reg\<lparr>r_length := r_length reg + (sh_addr ?nxt - (r_start reg + r_length reg))\<rparr> else reg)
        in reg\<lparr>r_length := r_length reg + sh_size ?nxt\<rparr>)"
      have r2: "reg2 = reg\<lparr>r_length := with_extra im (r_start reg) (Suc p) (r_length reg)\<rparr>"
        by (simp add: reg2_def Let_def with_extra_def)
      have "extend_region im p i reg = extend_region im (Suc p) (Suc i) reg2"
        using True F by (subst extend_region.simps) (simp add: Let_def reg2_def)
      also have "\<dots> = (let xs = takeWhile ?P [Suc (Suc p) ..< Suc (shnum im)]
          in (Suc i + length xs, reg2\<lparr>r_length := fold (with_extra im (r_start reg2)) xs (r_length reg2)\<rparr>))"
        unfolding reg2_def Let_def by (rule "1.IH"[OF True refl refl _ refl, unfolded Let_def]) (use F in simp)
      finally show ?thesis unfolding up using F by (simp add: Let_def r2)
    qed
  qed
qed

lemma section_step_region:
  assumes "region_section im i"
  shows "section_step im i l =
     kassert (sh_addr (im_sht im i) mod kPageSize = 0)
       (Inr (i + length (extras im i),
          l\<lparr>l_next_page := (if get_section_name im (im_sht im i) = ''.bss''
               then pfn_up (sh_addr (im_sht im i) + region_len im i) else l_next_page l),
            l_sv := AddRegion (region_of im i) (l_sv l)\<rparr>))"
proof -
  let ?sh = "im_sht im i"
  have ext: "extend_region im i i (section_region im ?sh) = (i + length (extras im i), region_of im i)"
    unfolding extend_region_eq
    by (simp add: Let_def extras_def region_of_def region_len_def section_region_def Region_init_def)
  have r: "r_name (region_of im i) = get_section_name im ?sh" "r_start (region_of im i) = sh_addr ?sh"
    "r_length (region_of im i) = region_len im i" by (simp_all add: region_of_def)
  have sh: "sh_size ?sh \<noteq> 0" "\<not> (sh_type ?sh = SHT_SYMTAB \<and> get_section_name im ?sh = ''.symtab'')"
    "\<not> (sh_type ?sh = SHT_STRTAB \<and> get_section_name im ?sh = ''.strtab'')" "sh_flags ?sh AND SHF_ALLOC \<noteq> 0"
    using assms unfolding region_section_def Let_def by blast+
  show ?thesis
    unfolding section_step_def Let_def if_not_P[OF sh(1)] if_not_P[OF sh(2)] if_not_P[OF sh(3)] if_not_P[OF sh(4)] ext prod.case r
    by (cases "get_section_name im ?sh = ''.bss''") simp_all
qed

lemma section_step_skips:
  "section_step im i l = Inr (i', l') \<Longrightarrow> \<not> region_section im i \<Longrightarrow> i' = i \<and> l_sv l' = l_sv l \<and> l_next_page l' = l_next_page l"
  by (auto simp: section_step_def region_section_def Let_def split: if_splits)

text \<open>The sections before \<open>i\<close> that have become regions.\<close>

definition regions_ok :: "image \<Rightarrow> nat \<Rightarrow> loading \<Rightarrow> nat list \<Rightarrow> bool" where
  "regions_ok im i l js \<longleftrightarrow>
     sorted_wrt (<) js \<and> set js \<subseteq> {..<shnum im} \<and>
     (\<forall>j \<in> set js. j < i \<and> region_section im j \<and> sh_addr (im_sht im j) mod kPageSize = 0 \<and> set (extras im j) \<subseteq> {..<i} - set js) \<and>
     (\<forall>j < min i (shnum im). region_section im j \<longrightarrow> (\<exists>h \<in> set js. j = h \<or> j \<in> set (extras im h))) \<and>
     sv_regions (l_sv l) = map (region_of im) js \<and>
     (l_next_page l \<noteq> 0 \<longrightarrow> (\<exists>pre b post. js = pre @ b # post \<and> get_section_name im (im_sht im b) = ''.bss'' \<and>
        (\<forall>k \<in> set post. get_section_name im (im_sht im k) \<noteq> ''.bss'') \<and> l_next_page l = pfn_up (sh_addr (im_sht im b) + region_len im b))) \<and>
     sv_ef (l_sv l) = sv_ef (UmSV_entry (e_entry (im_eh im))) \<and> sv_pth (l_sv l) = UmPth_init"

lemma set_extras: "k \<in> set (extras im j) \<Longrightarrow> j < k \<and> k \<le> j + length (extras im j)"
proof -
  assume "k \<in> set (extras im j)"
  then obtain n where n: "n < length (extras im j)" "extras im j ! n = k" by (metis in_set_conv_nth)
  have "n < length [Suc j ..< Suc (shnum im)]"
    using n(1) length_takeWhile_le[of _ "[Suc j ..< Suc (shnum im)]"] unfolding extras_def by (rule less_le_trans)
  then have "extras im j ! n = Suc j + n" using n(1) by (simp add: extras_def takeWhile_nth del: upt_Suc)
  then show ?thesis using n by simp
qed

lemma extras_all: "j < k \<Longrightarrow> k \<le> j + length (extras im j) \<Longrightarrow> k \<in> set (extras im j)"
proof -
  assume k: "j < k" "k \<le> j + length (extras im j)"
  then have n: "k - Suc j < length (extras im j)" by simp
  have "k - Suc j < length [Suc j ..< Suc (shnum im)]"
    using n length_takeWhile_le[of _ "[Suc j ..< Suc (shnum im)]"] unfolding extras_def by (rule less_le_trans)
  then have "extras im j ! (k - Suc j) = k" using n k(1) by (simp add: extras_def takeWhile_nth del: upt_Suc)
  then show ?thesis using n by (metis nth_mem)
qed

lemma section_step_ok:
  assumes run: "section_step im i l = Inr (i', l')" and i: "i < shnum im" and ok: "regions_ok im i l js"
  shows "\<exists>js. regions_ok im (Suc i') l' js"
proof (cases "region_section im i")
  case False
  then have l': "i' = i" "l_sv l' = l_sv l" "l_next_page l' = l_next_page l"
    using section_step_skips[OF run] by blast+
  then have "regions_ok im (Suc i') l' js"
    using ok False by (fastforce simp: regions_ok_def less_Suc_eq)
  then show ?thesis ..
next
  case True
  let ?sh = "im_sht im i"
  have al: "sh_addr ?sh mod kPageSize = 0" and i': "i' = i + length (extras im i)"
    and l': "l_sv l' = AddRegion (region_of im i) (l_sv l)"
      "l_next_page l' = (if get_section_name im ?sh = ''.bss'' then pfn_up (sh_addr ?sh + region_len im i) else l_next_page l)"
    using run unfolding section_step_region[OF True] by (auto simp: kassert_eq_Inr)
  note O = ok[unfolded regions_ok_def]
  let ?js = "js @ [i]"
  have before: "j < i \<and> region_section im j \<and> sh_addr (im_sht im j) mod kPageSize = 0 \<and> set (extras im j) \<subseteq> {..<i} - set js"
    if "j \<in> set js" for j
    using O that by blast
  have "sorted_wrt (<) ?js" using O by (auto simp: sorted_wrt_append)
  moreover have "set ?js \<subseteq> {..<shnum im}" using O i by auto
  moreover have "\<forall>j \<in> set ?js. j < Suc i' \<and> region_section im j \<and> sh_addr (im_sht im j) mod kPageSize = 0 \<and>
      set (extras im j) \<subseteq> {..<Suc i'} - set ?js"
  proof
    fix j assume j: "j \<in> set ?js"
    show "j < Suc i' \<and> region_section im j \<and> sh_addr (im_sht im j) mod kPageSize = 0 \<and> set (extras im j) \<subseteq> {..<Suc i'} - set ?js"
    proof (cases "j = i")
      case T: True
      have "k < Suc i' \<and> k \<notin> set ?js" if "k \<in> set (extras im i)" for k
        using set_extras[OF that] before i' by fastforce
      then show ?thesis using T al True i' by auto
    next
      case False
      then have "j \<in> set js" using j by simp
      note B = before[OF this]
      then have "set (extras im j) \<subseteq> {..<Suc i'} - set ?js" using i' by fastforce
      then show ?thesis using B i' by simp
    qed
  qed
  moreover have "\<exists>h \<in> set ?js. j = h \<or> j \<in> set (extras im h)" if j: "j < min (Suc i') (shnum im)" "region_section im j" for j
  proof -
    consider "j < i" | "j = i" | "i < j" by linarith
    then show ?thesis
    proof cases
      case 1
      then show ?thesis using O j by auto
    next
      case 3
      then show ?thesis using extras_all[of i j im] j i' by auto
    qed simp
  qed
  moreover have "sv_regions (l_sv l') = map (region_of im) ?js" using O by (simp add: l' AddRegion_def)
  moreover have "\<exists>pre b post. ?js = pre @ b # post \<and> get_section_name im (im_sht im b) = ''.bss'' \<and>
      (\<forall>k \<in> set post. get_section_name im (im_sht im k) \<noteq> ''.bss'') \<and> l_next_page l' = pfn_up (sh_addr (im_sht im b) + region_len im b)"
    if nz: "l_next_page l' \<noteq> 0"
  proof (cases "get_section_name im ?sh = ''.bss''")
    case b: True
    then show ?thesis using l'(2) by (intro exI[of _ js] exI[of _ i] exI[of _ "[]"]) simp
  next
    case b: False
    then have same: "l_next_page l' = l_next_page l" using l'(2) by simp
    have "l_next_page l \<noteq> 0 \<longrightarrow> (\<exists>pre b post. js = pre @ b # post \<and> get_section_name im (im_sht im b) = ''.bss'' \<and>
        (\<forall>k \<in> set post. get_section_name im (im_sht im k) \<noteq> ''.bss'') \<and> l_next_page l = pfn_up (sh_addr (im_sht im b) + region_len im b))"
      using O by (elim conjE)
    then obtain pre h post where "js = pre @ h # post" "get_section_name im (im_sht im h) = ''.bss''"
      "\<forall>k \<in> set post. get_section_name im (im_sht im k) \<noteq> ''.bss''" "l_next_page l = pfn_up (sh_addr (im_sht im h) + region_len im h)"
      using nz unfolding same by blast
    then show ?thesis using b same by (intro exI[of _ pre] exI[of _ h] exI[of _ "post @ [i]"]) auto
  qed
  moreover have "sv_ef (l_sv l') = sv_ef (UmSV_entry (e_entry (im_eh im)))" "sv_pth (l_sv l') = UmPth_init"
    using O by (simp_all add: l' AddRegion_def)
  ultimately have "regions_ok im (Suc i') l' ?js" unfolding regions_ok_def by blast
  then show ?thesis ..
qed

lemma sections_ok: "sections im i l = Inr l' \<Longrightarrow> regions_ok im i l js \<Longrightarrow> \<exists>js i'. shnum im \<le> i' \<and> regions_ok im i' l' js"
proof (induction im i l arbitrary: js rule: sections.induct)
  case (1 im i l)
  show ?case
  proof (cases "i < shnum im")
    case True
    then obtain i1 l1 where s: "section_step im i l = Inr (i1, l1)" and r: "sections im (Suc i1) l1 = Inr l'"
      using "1.prems"(1) by (subst (asm) sections.simps) (auto split: sum.splits)
    obtain js1 where "regions_ok im (Suc i1) l1 js1" using section_step_ok[OF s True "1.prems"(2)] by blast
    then show ?thesis by (rule "1.IH"[OF True s refl r])
  next
    case False
    then have "l' = l" using "1.prems"(1) by (subst (asm) sections.simps) simp
    then show ?thesis using "1.prems"(2) False by (intro exI[of _ js] exI[of _ i]) simp
  qed
qed

lemma usr_region_covers: "next \<le> a \<Longrightarrow> a \<le> kSlotEndVAddr \<Longrightarrow> AddrIsInRegion (usr_region next) a"
proof -
  assume a: "next \<le> a" "a \<le> kSlotEndVAddr"
  have "r_start (usr_region next) + r_length (usr_region next) = kSlotEndVAddr + 1" "r_start (usr_region next) = next"
    by (simp_all add: usr_region_def Let_def)
  moreover have "a < kSlotEndVAddr + 1" using a(2) by (simp add: kSlotEndVAddr_def word_le_nat_alt word_less_nat_alt)
  ultimately show ?thesis using a(1) by (simp add: AddrIsInRegion_def)
qed

section \<open>Properties\<close>

text \<open>
  C21. What loading an image gives: the header was valid, execution starts at the image's
  entry, and the regions are those of certain sections, in the order of the table, and last \<open>usr\<close>.
  The sections are not empty, allocated, page aligned and none of the symbol and string tables; each such
  section of the image is one of them or is appended to one of them, and none is both. A region has its section's start, name,
  rights and data, and as its length the section's size and that of the sections appended to it (those
  that follow it with the name of an extra section, allocated or not), with the gaps between them. \<open>usr\<close> is writable, starts at the page after
  the last region named \<open>.bss\<close> and reaches the end of the slot, so that no address behind is
  without a region.
\<close>

theorem loader_regions:
  assumes "createSVFromElf im t = Inr (s, t')"
  shows "elf_check_file im \<and> elf_check_supported im \<and> ef_rip (sv_ef s) = e_entry (im_eh im) \<and> Root (sv_pth s) = 0 \<and>
     (\<exists>js pre b post next. sv_regions s = map (region_of im) js @
         [Region_init\<lparr>r_start := next, r_length := kSlotEndVAddr + 1 - next, r_name := ''usr'', r_writable := True\<rparr>] \<and>
       sorted_wrt (<) js \<and> set js \<subseteq> {..<shnum im} \<and>
       (\<forall>j \<in> set js. region_section im j \<and> sh_addr (im_sht im j) mod kPageSize = 0 \<and> set (extras im j) \<inter> set js = {}) \<and>
       (\<forall>j < shnum im. region_section im j \<longrightarrow> (\<exists>h \<in> set js. j = h \<or> j \<in> set (extras im h))) \<and>
       js = pre @ b # post \<and> get_section_name im (im_sht im b) = ''.bss'' \<and>
       (\<forall>k \<in> set post. get_section_name im (im_sht im k) \<noteq> ''.bss'') \<and> next = pfn_up (sh_addr (im_sht im b) + region_len im b) \<and>
       (\<forall>a. next \<le> a \<and> a \<le> kSlotEndVAddr \<longrightarrow> (\<exists>i. GetRegionOfAddr (sv_regions s) a = Inr i)))"
proof -
  let ?l0 = "\<lparr>l_sv = UmSV_entry (e_entry (im_eh im)), l_tables = t, l_next_page = 0\<rparr>"
  obtain l where chk: "elf_check_file im" "elf_check_supported im" and run: "sections im 0 ?l0 = Inr l"
    and nz: "l_next_page l \<noteq> 0" and s: "s = AddRegion (usr_region (l_next_page l)) (l_sv l)"
    using assms by (auto simp: createSVFromElf_def and_then_eq_Inr kassert_eq_Inr split: if_splits)
  have "regions_ok im 0 ?l0 []" by (simp add: regions_ok_def UmSV_entry_def SetEntry_def UmSV_init_def)
  from sections_ok[OF run this] obtain js n where n: "shnum im \<le> n" and ok: "regions_ok im n l js" by blast
  note O = ok[unfolded regions_ok_def]
  have bss: "\<exists>pre b post. js = pre @ b # post \<and> get_section_name im (im_sht im b) = ''.bss'' \<and>
      (\<forall>k \<in> set post. get_section_name im (im_sht im k) \<noteq> ''.bss'') \<and> l_next_page l = pfn_up (sh_addr (im_sht im b) + region_len im b)"
    using O nz by blast
  have rs: "sv_regions s = map (region_of im) js @ [usr_region (l_next_page l)]" using O by (simp add: s AddRegion_def)
  have u: "usr_region (l_next_page l) =
      Region_init\<lparr>r_start := l_next_page l, r_length := kSlotEndVAddr + 1 - l_next_page l, r_name := ''usr'', r_writable := True\<rparr>"
    by (simp add: usr_region_def)
  have cover: "\<exists>i. GetRegionOfAddr (sv_regions s) a = Inr i" if "l_next_page l \<le> a \<and> a \<le> kSlotEndVAddr" for a
  proof -
    have "\<exists>r \<in> set (sv_regions s). AddrIsInRegion r a" using usr_region_covers[of "l_next_page l" a] that by (simp add: rs)
    then show ?thesis using GetRegionOfAddr_Inl by (cases "GetRegionOfAddr (sv_regions s) a") blast+
  qed
  have "ef_rip (sv_ef s) = e_entry (im_eh im)" "Root (sv_pth s) = 0"
    using O by (simp_all add: s AddRegion_def UmSV_entry_def SetEntry_def Root_def UmPth_init_def)
  moreover have "sorted_wrt (<) js" "set js \<subseteq> {..<shnum im}" using O by blast+
  moreover have "\<forall>j \<in> set js. region_section im j \<and> sh_addr (im_sht im j) mod kPageSize = 0 \<and> set (extras im j) \<inter> set js = {}"
    using O by blast
  moreover have "\<forall>j < shnum im. region_section im j \<longrightarrow> (\<exists>h \<in> set js. j = h \<or> j \<in> set (extras im h))"
    using O n by auto
  ultimately show ?thesis using chk bss rs[unfolded u] cover by blast
qed

text \<open>The example: a null section, \<open>.text\<close> and \<open>.bss\<close>, and the header \<open>past\<close> behind the table.\<close>

definition null_shdr :: shdr where
  "null_shdr = \<lparr>sh_name = 0, sh_type = 0, sh_flags = 0, sh_addr = 0, sh_offset = 0, sh_size = 0, sh_link = 0,
     sh_info = 0, sh_addralign = 0, sh_entsize = 0\<rparr>"

definition small_sht :: "shdr \<Rightarrow> nat \<Rightarrow> shdr" where
  "small_sht past j =
     (if j = 1 then null_shdr\<lparr>sh_name := 1, sh_type := 1, sh_flags := 6, sh_addr := 0xFFFFC00000001000, sh_offset := 0x1000, sh_size := 0x2000\<rparr>
      else if j = 2 then null_shdr\<lparr>sh_name := 2, sh_type := 8, sh_flags := 3, sh_addr := 0xFFFFC00000003000, sh_size := 0x1800\<rparr>
      else if j = 3 then past else null_shdr)"

definition small_elf :: "shdr \<Rightarrow> image" where
  "small_elf past =
     \<lparr>im_start = 0x100000,
      im_eh = \<lparr>e_ident = [0x7F, 0x45, 0x4C, 0x46, 2, 1, 1, 0, 0, 0, 0, 0, 0, 0, 0, 0], e_type = 2, e_machine = 62, e_version = 1,
        e_entry = 0xFFFFC00000001000, e_phoff = 0, e_shoff = 0x8000, e_flags = 0, e_ehsize = 64, e_phentsize = 0, e_phnum = 0,
        e_shentsize = 64, e_shnum = 3, e_shstrndx = 0\<rparr>,
      im_sht = small_sht past,
      im_cstr = (\<lambda>a. if a = 0x100001 then ''.text'' else if a = 0x100002 then ''.bss'' else if a = 0x100003 then ''link_set_x'' else []),
      im_sym = (\<lambda>_ _. \<lparr>st_name = 0, st_info = 0, st_other = 0, st_shndx = 0, st_value = 0, st_size = 0\<rparr>)\<rparr>"

definition region_lengths :: "(sv \<times> elf_tables) res \<Rightarrow> u64 list" where
  "region_lengths r = (case r of Inl _ \<Rightarrow> [] | Inr (s, _) \<Rightarrow> map r_length (sv_regions s))"

lemma small_elf_lengths:
  "region_lengths (createSVFromElf (small_elf null_shdr) elf_tables_init) = [0x2000, 0x1800, 0x7FFFFFB000]"
  "region_lengths (createSVFromElf (small_elf (null_shdr\<lparr>sh_name := 3, sh_size := 0x5000\<rparr>)) elf_tables_init)
     = [0x2000, 0x6800, 0x7FFFFF6000]"
  by code_simp+

lemma small_elf_loads: "\<exists>s t. createSVFromElf (small_elf null_shdr) elf_tables_init = Inr (s, t)"
  using small_elf_lengths(1)
  by (cases "createSVFromElf (small_elf null_shdr) elf_tables_init") (auto simp: region_lengths_def)

theorem loader_regions_witness:
  "\<exists>s t js. createSVFromElf (small_elf null_shdr) elf_tables_init = Inr (s, t) \<and> ef_rip (sv_ef s) = 0xFFFFC00000001000 \<and>
     sv_regions s = map (region_of (small_elf null_shdr)) js @ [last (sv_regions s)] \<and> set js = {1, 2} \<and>
     r_name (last (sv_regions s)) = ''usr''"
proof -
  let ?im = "small_elf null_shdr"
  obtain s t where run: "createSVFromElf ?im elf_tables_init = Inr (s, t)" using small_elf_loads by blast
  have "e_entry (im_eh ?im) = 0xFFFFC00000001000" "shnum ?im = 3" by (simp_all add: small_elf_def shnum_def)
  with loader_regions[OF run] obtain js end_bss where js: "ef_rip (sv_ef s) = 0xFFFFC00000001000"
    "sv_regions s = map (region_of ?im) js @
         [Region_init\<lparr>r_start := end_bss, r_length := kSlotEndVAddr + 1 - end_bss, r_name := ''usr'', r_writable := True\<rparr>]"
    "set js \<subseteq> {..<3}" "\<forall>j \<in> set js. region_section ?im j"
    "\<forall>j < 3. region_section ?im j \<longrightarrow> (\<exists>h \<in> set js. j = h \<or> j \<in> set (extras ?im h))" by metis
  have r: "\<not> region_section ?im 0" "region_section ?im 1" "region_section ?im 2" by code_simp+
  have e: "extras ?im 1 = []" "extras ?im 2 = []" by code_simp+
  have sub: "set js \<subseteq> {1, 2}"
  proof
    fix j assume "j \<in> set js"
    then have "j < 3" "j \<noteq> 0" using js(3,4) r(1) by (auto intro: ccontr)
    then show "j \<in> {1, 2}" by auto
  qed
  have "1 \<in> set js" "2 \<in> set js" using js(5)[rule_format, of 1] js(5)[rule_format, of 2] r sub e by auto
  then have "set js = {1, 2}" using sub by auto
  then show ?thesis using run js(1,2) by (intro exI[of _ s] exI[of _ t] exI[of _ js]) (simp add: Region_init_def)
qed

text \<open>
  The loader looks one header past the section table: two images that differ only in
  the bytes behind their table of three headers are loaded differently.
\<close>

theorem loader_reads_past_table:
  "shnum (small_elf past) = 3 \<and> im_sht (small_elf past) = (im_sht (small_elf null_shdr))(3 := past) \<and>
   region_lengths (createSVFromElf (small_elf null_shdr) elf_tables_init) \<noteq>
   region_lengths (createSVFromElf (small_elf (null_shdr\<lparr>sh_name := 3, sh_size := 0x5000\<rparr>)) elf_tables_init)"
  by (simp add: small_elf_lengths) (simp add: small_elf_def shnum_def small_sht_def fun_eq_iff)

text \<open>
  Looking up a symbol by name is a linear search: the value of the first symbol with
  that name, and 0 when there is none.
\<close>

theorem GetSymbolAddress_first:
  assumes "elf_symtab t \<noteq> 0" "elf_symtab_size t \<noteq> 0" "elf_strtab t \<noteq> 0" "elf_strtab_size t \<noteq> 0"
  shows "GetSymbolAddress im t symb =
     Inr (case find (\<lambda>i. im_cstr im (elf_strtab t + ucast (st_name (im_sym im (elf_symtab t) i))) = symb)
            [0 ..< unat (elf_symtab_size t)] of
       None \<Rightarrow> 0 | Some i \<Rightarrow> st_value (im_sym im (elf_symtab t) i))"
proof -
  have "find_symbol im t symb i n =
     Inr (case find (\<lambda>i. im_cstr im (elf_strtab t + ucast (st_name (im_sym im (elf_symtab t) i))) = symb) [i ..< i + n] of
       None \<Rightarrow> 0 | Some i \<Rightarrow> st_value (im_sym im (elf_symtab t) i))" for i n
  proof (induction n arbitrary: i)
    case (Suc n)
    have "[i ..< i + Suc n] = i # [Suc i ..< Suc i + n]" by (simp add: upt_conv_Cons)
    then show ?case using assms Suc[of "Suc i"] by (simp add: get_symbol_name_def Let_def)
  qed simp
  from this[of 0 "unat (elf_symtab_size t)"] show ?thesis using assms by (simp add: GetSymbolAddress_def)
qed

theorem GetSymbolAddress_first_witness:
  "GetSymbolAddress
     ((small_elf null_shdr)\<lparr>im_sym := (\<lambda>_ i. \<lparr>st_name = 1, st_info = 0, st_other = 0, st_shndx = 1, st_value = of_nat i + 7, st_size = 0\<rparr>)\<rparr>)
     \<lparr>elf_symtab = 0x200000, elf_symtab_size = 2, elf_strtab = 0x100000, elf_strtab_size = 9\<rparr> ''.text'' = Inr 7"
  by (subst GetSymbolAddress_first) (simp_all add: small_elf_def upt_rec)

end
