(* ===== verification/Umm_Session.thy ===== *)
theory Umm_Session
  imports Umm_Prelude "HOL-Library.Char_ord"
begin

text \<open>
  The session that sends one function invocation to an instance over TCP and reads the reply
  (\<^verbatim>\<open>src/src/InvocationSession.h\<close>, \<^verbatim>\<open>InvocationSession.cc\<close>, \<^verbatim>\<open>Seuss.h\<close>).

  A promise is whether its value was set; setting it again is outside the contract of EbbRT's
  promises and has no model (\<open>Undef\<close>). What is spawned on the event
  manager, sent on the connection or asked of it is recorded. The wall clock, in milliseconds,
  is the argument \<open>now\<close>. Strings are lists of characters; \<open>std::string::substr\<close> throws when its
  start is behind the end.
\<close>

section \<open>State\<close>

record exec_stats =
  run_time :: nat
  init_time :: nat
  ex_status :: bool

record invocation_stats =
  transaction_id :: nat
  function_id :: nat
  args_size :: nat
  exec :: exec_stats

datatype session_event = SetConnected | SetClosed | SetAborted | SetInitialized

record session =
  when_aborted :: bool
  when_closed :: bool
  when_connected :: bool
  when_initialized :: bool
  when_finished :: bool
  is_connected :: bool
  is_initialized :: bool
  istats :: invocation_stats
  command_clock :: nat
  previous_request :: string
  disconnects :: nat
  sent :: "string list"
  spawned :: "session_event list"

definition session_init :: "invocation_stats \<Rightarrow> session" where
  "session_init st =
     \<lparr>when_aborted = False, when_closed = False, when_connected = False, when_initialized = False, when_finished = False,
      is_connected = False, is_initialized = False, istats = st, command_clock = 0, previous_request = [],
      disconnects = 0, sent = [], spawned = []\<rparr>"

section \<open>Connection events\<close>

definition spawn :: "session_event \<Rightarrow> session \<Rightarrow> session" where
  "spawn e s = s\<lparr>spawned := spawned s @ [e]\<rparr>"

definition Disconnect :: "session \<Rightarrow> session" where
  "Disconnect s = s\<lparr>disconnects := Suc (disconnects s)\<rparr>"

definition Connected :: "session \<Rightarrow> session" where
  "Connected s = spawn SetConnected (s\<lparr>is_connected := True\<rparr>)"

definition Close :: "session \<Rightarrow> session" where
  "Close s = spawn SetClosed (Disconnect (s\<lparr>is_connected := False\<rparr>))"

definition Abort :: "session \<Rightarrow> session" where
  "Abort s = spawn SetAborted (s\<lparr>is_connected := False\<rparr>)"

text \<open>The body of \<open>Finish\<close> is commented out.\<close>

definition Finish :: "string \<Rightarrow> session \<Rightarrow> session" where "Finish response s = s"

definition set_once :: "bool \<Rightarrow> session \<Rightarrow> session res" where
  "set_once already s = (if already then Inl Undef else Inr s)"

definition run_spawned :: "session_event \<Rightarrow> session \<Rightarrow> session res" where
  "run_spawned e s =
     (case e of
        SetConnected \<Rightarrow> set_once (when_connected s) (s\<lparr>when_connected := True\<rparr>)
      | SetClosed \<Rightarrow> set_once (when_closed s) (s\<lparr>when_closed := True\<rparr>)
      | SetAborted \<Rightarrow> set_once (when_aborted s) (s\<lparr>when_aborted := True\<rparr>)
      | SetInitialized \<Rightarrow>
          (let s = s\<lparr>is_initialized := True\<rparr> in set_once (when_initialized s) (s\<lparr>when_initialized := True\<rparr>)))"

section \<open>Replies\<close>

text \<open>\<open>find_first_of\<close> of one character; \<open>None\<close> is \<open>npos\<close>.\<close>

fun find_first_of :: "char \<Rightarrow> string \<Rightarrow> nat option" where
  "find_first_of c [] = None"
| "find_first_of c (x # xs) = (if x = c then Some 0 else map_option Suc (find_first_of c xs))"

definition ok_reply :: string where
  "ok_reply = ''{'' @ [CHR 0x22] @ ''OK'' @ [CHR 0x22] @ '':true}''"

definition set_exec :: "(exec_stats \<Rightarrow> exec_stats) \<Rightarrow> session \<Rightarrow> session" where
  "set_exec f s = s\<lparr>istats := (istats s)\<lparr>exec := f (exec (istats s))\<rparr>\<rparr>"

definition Receive :: "nat \<Rightarrow> string \<Rightarrow> session \<Rightarrow> session res" where
  "Receive now reply s =
     (let response_time = now - command_clock s in
      case find_first_of CHR ''{'' reply of
        None \<Rightarrow> Inl Uncaught
      | Some p \<Rightarrow>
          (let response = drop p reply;
               http_status = (case find_first_of CHR 0x0D reply of None \<Rightarrow> reply | Some q \<Rightarrow> take q reply)
           in and_then
                (if http_status \<noteq> ''HTTP/1.1 200 OK'' then
                   (let s = set_exec (\<lambda>e. e\<lparr>ex_status := True\<rparr>) s in
                    and_then (set_once (when_aborted s) (s\<lparr>when_aborted := True\<rparr>)) (\<lambda>s.
                      Inr (Finish response (Disconnect s))))
                 else Inr s)
                (\<lambda>s.
                   if response = ok_reply \<and> \<not> is_initialized s then
                     Inr (spawn SetInitialized (set_exec (\<lambda>e. e\<lparr>init_time := response_time\<rparr>) s))
                   else
                     and_then (set_once (when_finished s) (s\<lparr>when_finished := True\<rparr>)) (\<lambda>s.
                       let s = set_exec (\<lambda>e. e\<lparr>run_time := response_time\<rparr>) s;
                           s = set_exec (\<lambda>e. e\<lparr>ex_status := False\<rparr>) s
                       in Inr (Finish response s)))))"

section \<open>Requests\<close>

definition digit :: "nat \<Rightarrow> char" where "digit d = char_of (48 + d)"

fun show_nat :: "nat \<Rightarrow> string" where
  "show_nat n = (if n < 10 then [digit n] else show_nat (n div 10) @ [digit (n mod 10)])"

declare show_nat.simps [simp del]

definition crlf :: string where "crlf = [CHR 0x0D, CHR 0x0A]"
definition quote :: "string \<Rightarrow> string" where "quote x = CHR 0x22 # x @ [CHR 0x22]"

definition http_body :: "string \<Rightarrow> string \<Rightarrow> string" where
  "http_body path msg =
     (let msg = filter (\<lambda>c. c \<noteq> CHR 0x0A) msg in
      ''{'' @ quote ''value'' @ '': '' @
      (if path = ''/init'' \<or> path = ''/preInit''
       then ''{'' @ quote ''main'' @ '':'' @ quote ''main'' @ '', '' @ quote ''code'' @ '':'' @ quote msg @ ''}}''
       else msg @ ''}''))"

definition http_header :: "string \<Rightarrow> bool \<Rightarrow> nat \<Rightarrow> string" where
  "http_header path keep_alive len =
     ''POST '' @ path @ '' HTTP/1.0'' @ crlf @
     ''Content-Type: application/json'' @ crlf @
     (if keep_alive then ''Connection: keep-alive'' @ crlf else []) @
     ''content-length: '' @ show_nat len @ crlf @ crlf"

definition http_post_request :: "string \<Rightarrow> string \<Rightarrow> bool \<Rightarrow> session \<Rightarrow> string \<times> session" where
  "http_post_request path msg keep_alive s =
     (let body = http_body path msg;
          return_val = http_header path keep_alive (length body) @ body
      in (return_val, s\<lparr>previous_request := return_val\<rparr>))"

definition SendHttpRequest :: "nat \<Rightarrow> string \<Rightarrow> string \<Rightarrow> bool \<Rightarrow> session \<Rightarrow> session res" where
  "SendHttpRequest now path payload keep_alive s =
     kassert (length payload > 0)
       (let (msg, s) = http_post_request path payload keep_alive s;
            s = s\<lparr>command_clock := now\<rparr>
        in Inr (s\<lparr>sent := sent s @ [msg]\<rparr>))"

section \<open>Lemmas\<close>

definition parse_nat :: "string \<Rightarrow> nat" where
  "parse_nat = foldl (\<lambda>a c. 10 * a + (of_char c - 48)) 0"

lemma digit_value: "d < 10 \<Longrightarrow> of_char (digit d) - 48 = d"
  by (simp add: digit_def)

lemma parse_show: "parse_nat (show_nat n) = n"
proof (induction n rule: show_nat.induct)
  case (1 n)
  show ?case
  proof (cases "n < 10")
    case True
    then show ?thesis by (subst show_nat.simps) (simp add: parse_nat_def digit_value)
  next
    case False
    then have "parse_nat (show_nat (n div 10)) = n div 10" by (rule 1)
    then show ?thesis using False by (subst show_nat.simps) (simp add: parse_nat_def digit_value)
  qed
qed

definition is_digit :: "char \<Rightarrow> bool" where "is_digit c \<longleftrightarrow> 48 \<le> (of_char c :: nat) \<and> (of_char c :: nat) < 58"

lemma show_nat_digits: "set (show_nat n) \<subseteq> {c. is_digit c}"
proof (induction n rule: show_nat.induct)
  case (1 n)
  have d: "is_digit (digit d)" if "d < 10" for d using that by (simp add: is_digit_def digit_def)
  show ?case using 1 d[of n] d[of "n mod 10"] by (cases "n < 10") (auto simp: show_nat.simps[of n])
qed

lemma show_nat_no_cr: "CHR 0x0D \<notin> set (show_nat n)"
  using show_nat_digits[of n] by (auto simp: is_digit_def)

text \<open>
  A reader of requests, as a server has: it takes lines up to the first empty one, at most
  \<open>n\<close>; what follows is the body.
\<close>

fun read_line :: "string \<Rightarrow> string \<times> string" where
  "read_line [] = ([], [])"
| "read_line (c # cs) =
     (if c = CHR 0x0D then ([], drop 1 cs) else (let (l, r) = read_line cs in (c # l, r)))"

primrec read_request :: "nat \<Rightarrow> string \<Rightarrow> string list \<times> string" where
  "read_request 0 s = ([], s)"
| "read_request (Suc n) s =
     (let (l, r) = read_line s
      in if l = [] then ([], r) else (let (ls, b) = read_request n r in (l # ls, b)))"

lemma read_line_crlf: "CHR 0x0D \<notin> set l \<Longrightarrow> read_line (l @ crlf @ r) = (l, r)"
  by (induction l) (auto simp: crlf_def)

lemma read_request_lines:
  "\<forall>l \<in> set ls. CHR 0x0D \<notin> set l \<and> l \<noteq> [] \<Longrightarrow> length ls < n \<Longrightarrow>
   read_request n (concat (map (\<lambda>l. l @ crlf) ls) @ crlf @ b) = (ls, b)"
proof (induction ls arbitrary: n)
  case Nil
  then show ?case using read_line_crlf[of "[]" b] by (cases n) simp_all
next
  case (Cons l ls)
  then obtain k where n: "n = Suc k" "length ls < k" by (cases n) auto
  have "read_line (l @ crlf @ (concat (map (\<lambda>l. l @ crlf) ls) @ crlf @ b)) = (l, concat (map (\<lambda>l. l @ crlf) ls) @ crlf @ b)"
    using Cons.prems(1) by (intro read_line_crlf) simp
  then show ?case using Cons.IH[OF _ n(2)] Cons.prems(1) n(1) by simp
qed

definition request_lines :: "string \<Rightarrow> bool \<Rightarrow> nat \<Rightarrow> string list" where
  "request_lines path keep_alive len =
     [''POST '' @ path @ '' HTTP/1.0'', ''Content-Type: application/json''] @
     (if keep_alive then [''Connection: keep-alive''] else []) @ [''content-length: '' @ show_nat len]"

lemma http_header_lines:
  "http_header path keep_alive len = concat (map (\<lambda>l. l @ crlf) (request_lines path keep_alive len)) @ crlf"
  by (simp add: http_header_def request_lines_def)

lemma request_lines_ok:
  "CHR 0x0D \<notin> set path \<Longrightarrow> l \<in> set (request_lines path keep_alive len) \<Longrightarrow> CHR 0x0D \<notin> set l \<and> l \<noteq> []"
  using show_nat_no_cr[of len] by (auto simp: request_lines_def split: if_splits)

lemma http_body_no_newline: "CHR 0x0A \<notin> set (http_body path msg)"
  by (auto simp: http_body_def quote_def Let_def)

definition no_stats :: invocation_stats where
  "no_stats = \<lparr>transaction_id = 1, function_id = 2, args_size = 0,
     exec = \<lparr>run_time = 0, init_time = 0, ex_status = False\<rparr>\<rparr>"

section \<open>Properties\<close>

text \<open>
  C28. A request can be read back: a reader that takes lines up to the first empty one finds
  the request line with the path, the content type, the wish to keep the connection if there is
  one, and a length line whose number is the length of what remains, the body; and the body
  has no line breaks.
\<close>

theorem request_round_trip:
  assumes "CHR 0x0D \<notin> set path"
  shows "\<exists>digits. read_request 5 (fst (http_post_request path msg keep_alive s)) =
     ([''POST '' @ path @ '' HTTP/1.0'', ''Content-Type: application/json''] @
      (if keep_alive then [''Connection: keep-alive''] else []) @ [''content-length: '' @ digits], http_body path msg) \<and>
     parse_nat digits = length (http_body path msg) \<and> CHR 0x0A \<notin> set (http_body path msg)"
proof -
  let ?b = "http_body path msg"
  let ?ls = "request_lines path keep_alive (length ?b)"
  have "length ?ls < 5" by (simp add: request_lines_def)
  then have "read_request 5 (fst (http_post_request path msg keep_alive s)) = (?ls, ?b)"
    using read_request_lines[of ?ls 5 ?b] request_lines_ok[OF assms]
    by (simp add: http_post_request_def http_header_lines Let_def)
  then show ?thesis using parse_show http_body_no_newline
    by (intro exI[of _ "show_nat (length ?b)"]) (simp add: request_lines_def)
qed

theorem request_round_trip_witness:
  "\<exists>digits. read_request 5 (fst (http_post_request ''/run'' ''{}'' True (session_init no_stats))) =
     ([''POST /run HTTP/1.0'', ''Content-Type: application/json'', ''Connection: keep-alive'', ''content-length: '' @ digits],
      http_body ''/run'' ''{}'') \<and> parse_nat digits = 13"
proof -
  have "CHR 0x0D \<notin> set ''/run''" by simp
  moreover have "length (http_body ''/run'' ''{}'') = 13" by (simp add: http_body_def quote_def)
  ultimately show ?thesis using request_round_trip[of "''/run''" "''{}''" True "session_init no_stats"] by simp blast
qed

text \<open>
  C39. A failed request is recorded as a success: after a reply whose status line is not 200
  and that is not the answer to an initialisation, the session has aborted and disconnected,
  and yet the run is finished and its status says success.
\<close>

theorem failed_reply_counts_as_success:
  assumes "find_first_of CHR ''{'' reply = Some p" "drop p reply \<noteq> ok_reply"
    and "(case find_first_of CHR 0x0D reply of None \<Rightarrow> reply | Some q \<Rightarrow> take q reply) \<noteq> ''HTTP/1.1 200 OK''"
    and "Receive now reply s = Inr s'"
  shows "when_aborted s' \<and> disconnects s' = Suc (disconnects s) \<and> when_finished s' \<and> \<not> ex_status (exec (istats s'))"
  using assms
  by (auto simp: Receive_def Let_def and_then_eq_Inr set_once_def set_exec_def Disconnect_def Finish_def split: if_splits)

definition failed_reply :: string where
  "failed_reply = ''HTTP/1.1 500 Error'' @ crlf @ crlf @ ''{no}''"

theorem failed_reply_counts_as_success_witness:
  "\<exists>s'. Receive 5 failed_reply (session_init no_stats) = Inr s' \<and>
     when_aborted s' \<and> \<not> ex_status (exec (istats s'))"
proof -
  let ?s = "session_init no_stats"
  have f: "find_first_of CHR ''{'' failed_reply = Some 22" "find_first_of CHR 0x0D failed_reply = Some 18"
    "drop 22 failed_reply \<noteq> ok_reply" "take 18 failed_reply \<noteq> ''HTTP/1.1 200 OK''"
    by (simp_all add: failed_reply_def crlf_def ok_reply_def)
  then obtain s' where r: "Receive 5 failed_reply ?s = Inr s'"
    by (auto simp: Receive_def session_init_def set_once_def set_exec_def Disconnect_def Finish_def)
  show ?thesis using failed_reply_counts_as_success[OF f(1,3) _ r] f(2,4) r by auto
qed

end
