(* ===== verification/Umm_Print.thy ===== *)
theory Umm_Print
  imports Umm_Syscall Umm_Session "HOL-Library.Sublist"
begin

text \<open>
  The printers: the dumps of page tables and their entries (\<^verbatim>\<open>src/src/UmPgTblMgr.cc\<close>), of the
  descriptor table (\<^verbatim>\<open>UmSyscall.cc\<close>), of faults (\<^verbatim>\<open>UmManager.cc\<close>), counters (\<^verbatim>\<open>UmInstance.cc\<close>)
  and state vectors (\<^verbatim>\<open>UmRegion.cc\<close>, \<^verbatim>\<open>UmSV.cc\<close>).

  A printer returns the text it prints; the text of a loop is the concatenation of the texts of
  its iterations. How \<open>%p\<close> writes a pointer is left to the C library: the parameter \<open>ptr\<close>.
  \<open>%d\<close> reads the low 32 bits of its argument.
\<close>

section \<open>Text\<close>

definition esc :: "string \<Rightarrow> string" where "esc s = CHR 0x1B # s"
definition RESET :: string where "RESET = esc ''[0m''"
definition RED :: string where "RED = esc ''[31m''"
definition GREEN :: string where "GREEN = esc ''[32m''"
definition YELLOW :: string where "YELLOW = esc ''[33m''"
definition MAGENTA :: string where "MAGENTA = esc ''[35m''"
definition CYAN :: string where "CYAN = esc ''[36m''"

abbreviation nl :: string where "nl \<equiv> [CHR 0x0A]"
abbreviation tab :: string where "tab \<equiv> [CHR 0x09]"

definition hexdig :: "nat \<Rightarrow> char" where
  "hexdig d = (if d < 10 then char_of (48 + d) else char_of (87 + d))"

fun show_hex :: "nat \<Rightarrow> string" where
  "show_hex n = (if n < 16 then [hexdig n] else show_hex (n div 16) @ [hexdig (n mod 16)])"

declare show_hex.simps [simp del]

definition show_int :: "u32 \<Rightarrow> string" where
  "show_int i = (if sint i < 0 then ''-'' @ show_nat (nat (- sint i)) else show_nat (nat (sint i)))"

definition show_d :: "u64 \<Rightarrow> string" where "show_d n = show_int (ucast n)"

primrec outs :: "string res list \<Rightarrow> string res" where
  "outs [] = Inr []"
| "outs (x # xs) = and_then x (\<lambda>a. and_then (outs xs) (\<lambda>b. Inr (a @ b)))"

section \<open>Entries of page tables\<close>

primrec printBits_loop :: "u64 \<Rightarrow> nat \<Rightarrow> string" where
  "printBits_loop val 0 = []"
| "printBits_loop val (Suc n) = (if bit val (Suc n) then RED @ ''1 '' @ RESET else ''0 '') @ printBits_loop val n"

text \<open>A shift by a negative amount or by 64 and more is undefined.\<close>

definition printBits :: "u64 \<Rightarrow> int \<Rightarrow> string res" where
  "printBits val len =
     (if len < 0 then Inr []
      else if len = 0 \<or> 64 < len then Inl Undef
      else Inr (printBits_loop val (nat (len - 1)) @ (if bit val 0 then RED @ ''1'' @ RESET else ''0'')))"

definition underlineNibbles :: string where
  "underlineNibbles =
     tab @ '' '' @ concat (map (\<lambda>i. if i mod 8 < 4 then CYAN @ ''__'' @ RESET else YELLOW @ ''__'' @ RESET) [0..<64]) @ nl"

definition printNibblesHex :: "u64 \<Rightarrow> string" where
  "printNibblesHex raw =
     ''     '' @
     concat (map (\<lambda>i. ''       '' @ show_hex (unat (drop_bit (60 - 4 * i) (raw AND drop_bit (4 * i) (push_bit 60 0xf))))) [0..<16]) @ nl"

definition pte_fields :: "u64 \<Rightarrow> (u64 \<times> int) list" where
  "pte_fields e =
     [(bf_get 52 11 e, 12), (bf_get 12 40 e, 40), (bf_get 8 4 e, 4), (bf_get 7 1 e, 1), (bf_get 6 1 e, 1), (bf_get 5 1 e, 1),
      (bf_get 4 1 e, 1), (bf_get 3 1 e, 1), (bf_get 2 1 e, 1), (bf_get 1 1 e, 1), (bf_get 0 1 e, 1)]"

definition print_fields :: "(u64 \<times> int) list \<Rightarrow> string res" where
  "print_fields fs = outs (map (\<lambda>(v, n). and_then (printBits v n) (\<lambda>s. Inr (s @ ''|''))) fs)"

definition pte_header :: string where
  "pte_header =
     tab @ ''|                       |     1G                                    |                                 |P|     | |M| | |P|P|U|R|S|'' @ nl @
     tab @ ''|       Reserved        |               2M          Address of PTE Table              |               |A| IGN |G|A|D|A|C|W|/|/|E|'' @ nl @
     tab @ ''|                       |                                  4K                                         |T|     | |P| | |D|T|S|W|L|'' @ nl"

definition printCommon :: "u64 \<Rightarrow> string res" where
  "printCommon e =
     and_then (print_fields (pte_fields e)) (\<lambda>row.
       Inr (pte_header @ tab @ ''|'' @ row @ nl @ underlineNibbles @ printNibblesHex e))"

section \<open>Page tables\<close>

definition level_names :: "string list" where
  "level_names = [''NO_LEVEL'', ''TBL_LEVEL'', ''DIR_LEVEL'', ''PDPT_LEVEL'', ''PML4_LEVEL'']"

definition level_name :: "nat \<Rightarrow> string res" where
  "level_name lvl = (if lvl < length level_names then Inr (level_names ! lvl) else Inl Undef)"

definition alignToLvl :: "nat \<Rightarrow> string" where
  "alignToLvl lvl = concat (map (\<lambda>j. tab) [0..<4 - lvl])"

definition leaf_line :: "(u64 \<Rightarrow> string) \<Rightarrow> nat \<Rightarrow> nat \<Rightarrow> u64 \<Rightarrow> string" where
  "leaf_line ptr lvl i a = alignToLvl lvl @ RED @ show_nat i @ '' -> '' @ ptr a @ nl @ RESET"

definition dump_entry :: "(u64 \<Rightarrow> string) \<Rightarrow> (u64 \<Rightarrow> string res) \<Rightarrow> nat \<Rightarrow> u64 \<Rightarrow> mach \<Rightarrow> nat \<Rightarrow> string res" where
  "dump_entry ptr rec lvl root m i =
     (let e = ld m (pte_at root i) in
      if \<not> pte_exists e then Inr []
      else if isLeaf e lvl then
        and_then (pageTabEntToAddr e lvl) (\<lambda>a. and_then (printCommon e) (\<lambda>s. Inr (leaf_line ptr lvl i a @ s)))
      else
        and_then (nextTableOrFrame m root i lvl) (\<lambda>t. and_then (rec t) (\<lambda>s.
          Inr (alignToLvl lvl @ CYAN @ show_nat i @ '' ->'' @ nl @ RESET @ s))))"

definition dump_table :: "(u64 \<Rightarrow> string) \<Rightarrow> (u64 \<Rightarrow> string res) \<Rightarrow> nat \<Rightarrow> u64 \<Rightarrow> mach \<Rightarrow> string res" where
  "dump_table ptr rec lvl root m =
     (if root = 0 then Inl KAbort
      else and_then (level_name lvl) (\<lambda>name.
        and_then (outs (map (dump_entry ptr rec lvl root m) [0..<512])) (\<lambda>s.
          Inr (alignToLvl lvl @ name @ '' '' @ CYAN @ ''@ '' @ ptr root @ RESET @ ''['' @ nl @ s @
               alignToLvl lvl @ tab @ '']'' @ nl))))"

primrec dumpFullTableAddrsHelper :: "(u64 \<Rightarrow> string) \<Rightarrow> mach \<Rightarrow> nat \<Rightarrow> u64 \<Rightarrow> string res" where
  "dumpFullTableAddrsHelper ptr m 0 root = dump_table ptr (\<lambda>_. Inl KAssert) 0 root m"
| "dumpFullTableAddrsHelper ptr m (Suc l) root = dump_table ptr (dumpFullTableAddrsHelper ptr m l) (Suc l) root m"

definition dumpFullTableAddrs :: "(u64 \<Rightarrow> string) \<Rightarrow> mach \<Rightarrow> u64 \<Rightarrow> nat \<Rightarrow> string res" where
  "dumpFullTableAddrs ptr m root lvl =
     and_then (level_name lvl) (\<lambda>name. and_then (dumpFullTableAddrsHelper ptr m lvl root) (\<lambda>s.
       Inr (GREEN @ ''Root at '' @ name @ '': '' @ ptr root @ nl @ RESET @ s)))"

definition dumpTableAddrs :: "(u64 \<Rightarrow> string) \<Rightarrow> mach \<Rightarrow> u64 \<Rightarrow> nat \<Rightarrow> string res" where
  "dumpTableAddrs ptr m root lvl =
     outs (map (\<lambda>i. and_then (pageTabEntToAddr (ld m (pte_at root i)) lvl) (\<lambda>val.
       Inr (if val = 0 then [] else concat (map (\<lambda>j. tab) [0..<4 - lvl]) @ CYAN @ show_nat i @ '' -> '' @ ptr val @ nl @ RESET))) [0..<512])"

text \<open>\<open>printTraversalLamb\<close>, an example client of the traversal: its state is the text.\<close>

definition say :: "string \<Rightarrow> string tstate \<Rightarrow> string tstate res" where
  "say t s = Inr (fst s @ t @ nl, snd s)"

definition printTraversalLamb :: "u64 \<Rightarrow> nat \<Rightarrow> mach \<Rightarrow> string res" where
  "printTraversalLamb root lvl m =
     and_then (traversePageTable existsPred (\<lambda>curPte lvl. say ''Before Recursion'') (\<lambda>childPte curPte lvl. say ''After Recursion'')
        (\<lambda>curPte lvl. say ''At leaf'') (\<lambda>root lvl. say ''About to return'') lvl root ([], m)) (\<lambda>(out, _). Inr out)"

section \<open>Faults, counters, descriptors and state vectors\<close>

definition errorCodePrinter :: "(u64 \<Rightarrow> string) \<Rightarrow> u64 \<Rightarrow> u64 \<Rightarrow> string" where
  "errorCodePrinter ptr vaddr ec =
     MAGENTA @ ''fault addr is '' @ ptr vaddr @ '', err: '' @ show_hex (unat (take_bit 32 ec)) @ '' '' @
     (if ec_P ec then ''[Pres] '' else []) @ (if ec_WR ec then ''[Write ] '' else []) @
     (if ec_US ec then ''[User ] '' else []) @ (if bit ec 3 then ''[Res bits ] '' else []) @
     (if ec_ID ec then ''[Ins Fetch ] '' else []) @ nl @ RESET"

definition printPTWalk :: "u64 \<Rightarrow> u64 \<Rightarrow> nat \<Rightarrow> mach \<Rightarrow> mach res" where
  "printPTWalk virt root lvl m = dumpAllPTEsWalkLamb virt root lvl m"

definition dump_ctrs :: "pfc \<Rightarrow> string" where
  "dump_ctrs c =
     ''total: '' @ show_nat (unat (pgFaults c)) @ nl @ ''rd:    '' @ show_nat (unat (rdFaults c)) @ nl @
     ''wr:    '' @ show_nat (unat (wrFaults c)) @ nl @ ''cow:   '' @ show_nat (unat (cowFaults c)) @ nl"

definition gdt_fields :: "u64 \<Rightarrow> (u64 \<times> int) list" where
  "gdt_fields d =
     [(bf_get 56 8 d, 8), (bf_get 55 1 d, 1), (bf_get 54 1 d, 1), (bf_get 53 1 d, 1), (bf_get 52 1 d, 1), (bf_get 48 4 d, 4),
      (bf_get 47 1 d, 1), (bf_get 45 2 d, 2), (bf_get 44 1 d, 1), (bf_get 40 4 d, 4), (bf_get 16 24 d, 24), (bf_get 0 16 d, 16)]"

definition gdt_header :: string where
  "gdt_header =
     ''|'' @ ''hi_base        '' @ ''|'' @ ''g'' @ ''|'' @ ''s'' @ ''|'' @ ''l'' @ ''|'' @ ''a'' @ ''|'' @ ''hi_lim '' @ ''|'' @ ''p'' @ ''|'' @
     ''prv'' @ ''|'' @ ''d'' @ ''|'' @ ''type   '' @ ''|'' @ ''lo_base                                        '' @ ''|'' @
     ''lo_limit                       '' @ ''|'' @ '' '' @ nl"

definition printGDTEnt :: "cpu \<Rightarrow> int \<Rightarrow> string res" where
  "printGDTEnt c offset =
     kassert (offset \<ge> 0)
       (and_then (print_fields (gdt_fields (gdt c (nat offset)))) (\<lambda>row.
          Inr ((if offset = 0 then RED @ ''Why are you printing the null entry?'' @ nl @ RESET else []) @
               MAGENTA @ ''Printing GDT['' @ show_int (of_int offset) @ '']:'' @ nl @ RESET @ gdt_header @ ''|'' @ row @ nl)))"

definition Region_Print :: "(u64 \<Rightarrow> string) \<Rightarrow> region \<Rightarrow> string" where
  "Region_Print ptr r =
     ''Region name: '' @ r_name r @ nl @
     ''      start: '' @ ptr (r_start r) @ nl @
     ''       size: '' @ show_nat (unat (r_length r)) @ nl @
     ''  read-only: '' @ show_d (of_bool (\<not> r_writable r)) @ nl @
     ''  page size: '' @ show_d (push_bit (unat (r_page_order r)) kPageSize) @ nl @
     ''page faults: '' @ show_d (r_count r) @ nl @
     ''       data: '' @ show_hex (unat (r_data r)) @ nl"

definition UmSV_Print :: "(u64 \<Rightarrow> string) \<Rightarrow> sv \<Rightarrow> string" where
  "UmSV_Print ptr s =
     concat (map (\<lambda>reg. Region_Print ptr reg @ nl) (sv_regions s)) @ ''--'' @ nl @
     ''Aggregating page faults across regions: '' @
     show_int (fold (\<lambda>reg totalFaults. ucast (ucast totalFaults + r_count reg)) (sv_regions s) (0 :: u32)) @ nl @ ''--'' @ nl"

section \<open>What a reader sees\<close>

text \<open>The text without the sequences that set the colour, and the binary number in it.\<close>

function visible :: "string \<Rightarrow> string" where
  "visible [] = []"
| "visible (c # s) = (if c = CHR 0x1B then visible (drop 1 (dropWhile (\<lambda>x. x \<noteq> CHR ''m'') s)) else c # visible s)"
  by pat_completeness auto

termination
proof (relation "measure length")
  fix c :: char and s :: string
  have "length (dropWhile (\<lambda>x. x \<noteq> CHR ''m'') s) \<le> length s" by (rule length_dropWhile_le)
  then show "(drop 1 (dropWhile (\<lambda>x. x \<noteq> CHR ''m'') s), c # s) \<in> measure length" by simp
qed simp_all

lemma visible_colour [simp]: "visible (RESET @ s) = visible s" "visible (RED @ s) = visible s"
  by (simp_all add: RESET_def RED_def esc_def)

definition binary :: "string \<Rightarrow> bool list" where
  "binary s = map (\<lambda>c. c = CHR ''1'') (filter (\<lambda>c. c = CHR ''0'' \<or> c = CHR ''1'') (visible s))"

definition number :: "bool list \<Rightarrow> u64" where "number = foldl (\<lambda>a b. 2 * a + of_bool b) 0"

lemma binary_simps [simp]:
  "binary [] = []" "binary (RESET @ s) = binary s" "binary (RED @ s) = binary s"
  "c \<noteq> CHR 0x1B \<Longrightarrow> binary (c # s) = (if c = CHR ''1'' then [True] else if c = CHR ''0'' then [False] else []) @ binary s"
  by (simp_all add: binary_def)

lemma binary_loop: "binary (printBits_loop val n @ s) = map (bit val) (rev [1..<Suc n]) @ binary s"
  by (induction n) simp_all

lemma printBits_run:
  assumes "0 < n" "n \<le> 64"
  shows "\<exists>t. printBits val (int n) = Inr t \<and> (\<forall>s. binary (t @ s) = map (bit val) (rev [0..<n]) @ binary s)"
proof -
  obtain k where n: "n = Suc k" using assms(1) by (cases n) auto
  have r: "rev [0..<Suc k] = rev [1..<Suc k] @ [0]" by (simp add: upt_conv_Cons)
  show ?thesis unfolding n r using assms(2)
    by (intro exI[of _ "printBits_loop val k @ (if bit val 0 then RED @ ''1'' @ RESET else ''0'')"])
      (auto simp: printBits_def n binary_loop simp del: upt_Suc)
qed

lemma print_fields_run:
  assumes "\<forall>(v, n) \<in> set fs. 0 < n \<and> n \<le> 64"
  shows "\<exists>t. print_fields (map (\<lambda>(v, n). (v, int n)) fs) = Inr t \<and>
     (\<forall>s. binary (t @ s) = concat (map (\<lambda>(v, n). map (bit v) (rev [0..<n])) fs) @ binary s)"
  using assms
proof (induction fs)
  case (Cons f fs)
  obtain v n where f: "f = (v, n)" by (cases f)
  obtain t where t: "printBits v (int n) = Inr t" "\<forall>s. binary (t @ s) = map (bit v) (rev [0..<n]) @ binary s"
    using printBits_run[of n v] Cons.prems f by auto
  obtain u where u: "print_fields (map (\<lambda>(v, n). (v, int n)) fs) = Inr u"
    "\<forall>s. binary (u @ s) = concat (map (\<lambda>(v, n). map (bit v) (rev [0..<n])) fs) @ binary s"
    using Cons by auto
  show ?case using t u by (intro exI[of _ "(t @ ''|'') @ u"]) (simp add: f print_fields_def)
qed (simp add: print_fields_def)

lemma take_bit_field: "take_bit (n + k) (w :: u64) = push_bit n (bf_get n k w) + take_bit n w"
proof -
  have "take_bit (n + k) w = push_bit n (bf_get n k w) OR take_bit n w"
    by (rule bit_word_eqI) (auto simp: bit_take_bit_iff bit_or_iff bit_push_bit_iff bit_bf_get)
  also have "\<dots> = push_bit n (bf_get n k w) + take_bit n w"
    by (rule disjunctive_add [symmetric]) (auto simp: bit_take_bit_iff bit_push_bit_iff)
  finally show ?thesis .
qed

lemma take_bit_top: "take_bit (Suc n) (w :: u64) = 2 ^ n * of_bool (bit w n) + take_bit n w"
proof -
  have "bf_get n 1 w = of_bool (bit w n)" by (rule bit_word_eqI) (auto simp: bit_bf_get bit_of_bool_iff)
  then show ?thesis using take_bit_field[of n 1 w] by (simp add: push_bit_eq_mult mult.commute)
qed

lemma number_append_bits: "foldl (\<lambda>a b. 2 * a + of_bool b) a (map (bit w) (rev [0..<n])) = 2 ^ n * a + take_bit n (w :: u64)"
proof (induction n arbitrary: a)
  case (Suc n)
  show ?case using Suc[of "2 * a + of_bool (bit w n)"] by (simp add: take_bit_top algebra_simps)
qed simp

text \<open>The bits of a field are a slice of the word it is taken from.\<close>

lemma slice: "map (bit (bf_get p n w)) (rev [0..<n]) = map (bit w) (rev [p..<p + n])"
proof -
  have "map (bit (bf_get p n w)) [0..<n] = map (bit w) (map (\<lambda>i. i + p) [0..<n])" by (simp add: bit_bf_get add.commute)
  also have "map (\<lambda>i. i + p) [0..<n] = [p..<p + n]" by (simp add: map_add_upt add.commute)
  finally show ?thesis by (simp add: rev_map[symmetric])
qed

text \<open>Fields that follow each other from bit \<open>t\<close> down to bit 0 print the word.\<close>

primrec tiles :: "nat \<Rightarrow> (nat \<times> nat) list \<Rightarrow> bool" where
  "tiles t [] = (t = 0)"
| "tiles t (f # fs) = (t = fst f + snd f \<and> tiles (fst f) fs)"

lemma tiles_bits:
  "tiles t fs \<Longrightarrow> concat (map (\<lambda>(p, n). map (bit (bf_get p n w)) (rev [0..<n])) fs) = map (bit w) (rev [0..<t])"
proof (induction fs arbitrary: t)
  case (Cons f fs)
  obtain p n where f: "f = (p, n)" by (cases f)
  have "[0..<p + n] = [0..<p] @ [p..<p + n]" by (rule upt_add_eq_append) simp
  then have "map (bit w) (rev [0..<p + n]) = map (bit w) (rev [p..<p + n]) @ map (bit w) (rev [0..<p])" by simp
  moreover have "tiles p fs" "t = p + n" using Cons.prems by (simp_all add: f)
  ultimately show ?case using Cons.IH[of p] slice[of p n w] by (simp add: f)
qed simp

lemma number_bits: "number (map (bit w) (rev [0..<n])) = take_bit n w"
  using number_append_bits[of 0 w n] by (simp add: number_def)

text \<open>
  The binary row of an entry is the entry, but for its top bit, XD: the field \<open>RES\<close> printed
  for the top twelve bits has only eleven.
\<close>

lemma printed_fields:
  assumes "\<forall>(p, n) \<in> set fs. 0 < n \<and> n \<le> 64" "tiles t fs"
  shows "\<exists>row. print_fields (map (\<lambda>(p, n). (bf_get p n w, int n)) fs) = Inr row \<and> (\<forall>s. binary (row @ s) = map (bit w) (rev [0..<t]) @ binary s)"
proof -
  let ?fs = "map (\<lambda>(p, n). (bf_get p n w, n)) fs"
  have "\<forall>(v, n) \<in> set ?fs. 0 < n \<and> n \<le> 64" using assms(1) by auto
  from print_fields_run[OF this] show ?thesis
    using tiles_bits[OF assms(2), of w] by (simp add: comp_def case_prod_unfold)
qed

lemma bits_63: "map (bit (bf_set 63 1 0 (e :: u64))) (rev [0..<64]) = False # map (bit e) (rev [0..<63])"
proof -
  have "[0..<64] = [0..<63] @ [63 :: nat]" using upt_Suc_append[of 0 63] by simp
  then show ?thesis by (auto simp: bit_bf_set)
qed

lemma printCommon_row:
  "\<exists>row. printCommon e = Inr (pte_header @ tab @ ''|'' @ row @ nl @ underlineNibbles @ printNibblesHex e) \<and>
     number (binary row) = bf_set 63 1 0 e"
proof -
  let ?fs = "[(12, 40), (8, 4), (7, 1), (6, 1), (5, 1), (4, 1), (3, 1), (2, 1), (1, 1), (0, 1)] :: (nat \<times> nat) list"
  obtain u where u: "print_fields (map (\<lambda>(p, n). (bf_get p n e, int n)) ?fs) = Inr u"
    "\<forall>s. binary (u @ s) = map (bit e) (rev [0..<52]) @ binary s"
    using printed_fields[of ?fs 52 e] by auto
  obtain t where t: "printBits (bf_get 52 11 e) (int 12) = Inr t"
    "\<forall>s. binary (t @ s) = map (bit (bf_get 52 11 e)) (rev [0..<12]) @ binary s"
    using printBits_run[of 12 "bf_get 52 11 e"] by auto
  have l: "[0..<12] = [0..<11] @ [11 :: nat]" using upt_Suc_append[of 0 11] by simp
  have m: "[0..<63] = [0..<52] @ [52..<63 :: nat]" using upt_add_eq_append[of 0 52 11] by simp
  let ?row = "(t @ ''|'') @ u"
  have "binary ?row = map (bit (bf_get 52 11 e)) (rev [0..<12]) @ map (bit e) (rev [0..<52])"
    using t(2)[rule_format, of "''|'' @ u"] u(2)[rule_format, of "[]"] by simp
  also have "\<dots> = False # map (bit e) (rev [0..<63])"
    using slice[of 52 11 e] by (simp add: l m bit_bf_get)
  also have "\<dots> = map (bit (bf_set 63 1 0 e)) (rev [0..<64])" by (simp only: bits_63)
  finally have "number (binary ?row) = bf_set 63 1 0 e" by (simp only: number_bits) (simp add: take_bit_word_eq_self)
  moreover have "printCommon e = Inr (pte_header @ tab @ ''|'' @ ?row @ nl @ underlineNibbles @ printNibblesHex e)"
    using t(1) u(1) by (simp add: printCommon_def pte_fields_def print_fields_def)
  ultimately show ?thesis by blast
qed

text \<open>The line of hexadecimal digits, below the binary row, is the whole entry.\<close>

definition unhex :: "char \<Rightarrow> nat" where
  "unhex c = (if (of_char c :: nat) < 58 then of_char c - 48 else of_char c - 87)"

definition hex_number :: "string \<Rightarrow> u64" where
  "hex_number s = foldl (\<lambda>a c. 16 * a + of_nat (unhex c)) 0 (filter (\<lambda>c. c \<noteq> CHR '' '' \<and> c \<noteq> CHR 0x0A) s)"

lemma unhex_hexdig: "d < 16 \<Longrightarrow> unhex (hexdig d) = d"
  by (simp add: unhex_def hexdig_def)

lemma hexdig_printed: "d < 16 \<Longrightarrow> hexdig d \<noteq> CHR '' '' \<and> hexdig d \<noteq> CHR 0x0A"
  by (auto simp: hexdig_def dest: arg_cong[where f = "of_char :: char \<Rightarrow> nat"])

lemma nibble:
  "i < 16 \<Longrightarrow> drop_bit (60 - 4 * i) (raw AND drop_bit (4 * i) (push_bit 60 0xf)) = bf_get (4 * (15 - i)) 4 (raw :: u64)"
proof (rule bit_word_eqI)
  fix k assume i: "i < 16" and k: "k < LENGTH(64)"
  have f: "push_bit 60 0xf = push_bit 60 (mask 4 :: u64)" by (simp add: mask_eq_exp_minus_1)
  have e: "4 * (15 - i) = 60 - 4 * i" using i by simp
  have "60 - 4 * i + k + 4 * i = 60 + k" using i by simp
  then show "bit (drop_bit (60 - 4 * i) (raw AND drop_bit (4 * i) (push_bit 60 0xf))) k = bit (bf_get (4 * (15 - i)) 4 raw) k"
    unfolding f e by (auto simp: bit_drop_bit_eq bit_and_iff bit_push_bit_iff bit_bf_get bit_mask_iff add.commute add.left_commute
        dest: bit_imp_le_length)
qed

lemma hex_fold:
  "foldl (\<lambda>a d. 16 * a + of_nat d) a (map (\<lambda>i. unat (bf_get (4 * i) 4 w)) (rev [0..<n])) = 2 ^ (4 * n) * a + take_bit (4 * n) (w :: u64)"
proof (induction n arbitrary: a)
  case (Suc n)
  have "take_bit (4 * Suc n) w = push_bit (4 * n) (bf_get (4 * n) 4 w) + take_bit (4 * n) w"
    using take_bit_field[of "4 * n" 4 w] by (simp add: add.commute)
  then show ?case using Suc[of "16 * a + bf_get (4 * n) 4 w"]
    by (simp add: push_bit_eq_mult power_add algebra_simps)
qed simp

lemma printNibblesHex_number: "hex_number (printNibblesHex e) = e"
proof -
  let ?d = "\<lambda>j. unat (bf_get (4 * j) 4 e)"
  have d: "?d j < 16" for j using bf_get_bound[of "4 * j" 4 e] by simp
  have sp: "filter (\<lambda>c. c \<noteq> CHR '' '' \<and> c \<noteq> CHR 0x0A) (concat (map (\<lambda>i. ''       '' @ show_hex (?d (15 - i))) xs)) = map (\<lambda>i. hexdig (?d (15 - i))) xs" for xs
    using d hexdig_printed by (induction xs) (simp_all add: show_hex.simps)
  have "map (\<lambda>i. ''       '' @ show_hex (unat (drop_bit (60 - 4 * i) (e AND drop_bit (4 * i) (push_bit 60 0xf))))) [0..<16] =
      map (\<lambda>i. ''       '' @ show_hex (?d (15 - i))) [0..<16]"
    by (rule map_cong[OF refl]) (simp only: nibble atLeastLessThan_iff set_upt)
  then have "filter (\<lambda>c. c \<noteq> CHR '' '' \<and> c \<noteq> CHR 0x0A) (printNibblesHex e) = map (\<lambda>i. hexdig (?d (15 - i))) [0..<16]"
    by (simp only: printNibblesHex_def filter_append sp) simp
  moreover have "rev [0..<16] = map (\<lambda>i. 15 - i) [0..<16 :: nat]" by code_simp
  then have "map (\<lambda>i. hexdig (?d (15 - i))) [0..<16] = map (\<lambda>j. hexdig (?d j)) (rev [0..<16])" by simp
  ultimately have "hex_number (printNibblesHex e) = foldl (\<lambda>a d. 16 * a + of_nat d) 0 (map ?d (rev [0..<16]))"
    by (simp only: hex_number_def foldl_map unhex_hexdig[OF d])
  then show ?thesis using hex_fold[of 0 e 16] by (simp only:) (simp add: take_bit_word_eq_self)
qed

text \<open>The row printed of a descriptor is the descriptor.\<close>

lemma printGDTEnt_row:
  assumes "0 \<le> i"
  shows "\<exists>pre row. printGDTEnt c i = Inr (pre @ gdt_header @ ''|'' @ row @ nl) \<and> number (binary row) = gdt c (nat i)"
proof -
  let ?fs = "[(56, 8), (55, 1), (54, 1), (53, 1), (52, 1), (48, 4), (47, 1), (45, 2), (44, 1), (40, 4), (16, 24), (0, 16)] :: (nat \<times> nat) list"
  obtain row where row: "print_fields (map (\<lambda>(p, n). (bf_get p n (gdt c (nat i)), int n)) ?fs) = Inr row"
    "\<forall>s. binary (row @ s) = map (bit (gdt c (nat i))) (rev [0..<64]) @ binary s"
    using printed_fields[of ?fs 64 "gdt c (nat i)"] by auto
  have "number (binary row) = gdt c (nat i)"
    using row(2)[rule_format, of "[]"] number_bits[of "gdt c (nat i)" 64] by (simp add: take_bit_word_eq_self)
  moreover have "print_fields (gdt_fields (gdt c (nat i))) = Inr row" using row(1) by (simp add: gdt_fields_def)
  ultimately show ?thesis using assms
    by (intro exI[of _ "(if i = 0 then RED @ ''Why are you printing the null entry?'' @ nl @ RESET else []) @
          MAGENTA @ ''Printing GDT['' @ show_int (of_int i) @ '']:'' @ nl @ RESET"] exI[of _ row]) (simp add: printGDTEnt_def)
qed

section \<open>The dump of a page table\<close>

lemma outs_run: "\<forall>x \<in> set xs. \<exists>s. x = Inr s \<Longrightarrow> outs xs = Inr (concat (map projr xs))"
  by (induction xs) auto

lemma sublist_pre: "sublist xs s \<Longrightarrow> sublist xs (p @ s)"
  by (rule sublist_order.order.trans[OF _ sublist_append_leftI]) simp_all

text \<open>What one line of a table prints is part of what the table prints.\<close>

lemma dump_table_run:
  assumes "root \<noteq> 0" "lvl \<le> 4" "\<And>i. i < 512 \<Longrightarrow> \<exists>s. dump_entry ptr rec lvl root m i = Inr s"
  shows "\<exists>out. dump_table ptr rec lvl root m = Inr out \<and> (\<forall>i s. i < 512 \<longrightarrow> dump_entry ptr rec lvl root m i = Inr s \<longrightarrow> sublist s out)"
proof -
  let ?d = "dump_entry ptr rec lvl root m"
  let ?pre = "alignToLvl lvl @ level_names ! lvl @ '' '' @ CYAN @ ''@ '' @ ptr root @ RESET @ ''['' @ nl"
  let ?post = "alignToLvl lvl @ tab @ '']'' @ nl"
  define body where "body = concat (map projr (map ?d [0..<512]))"
  have name: "level_name lvl = Inr (level_names ! lvl)" using assms(2) by (simp add: level_name_def level_names_def)
  have "outs (map ?d [0..<512]) = Inr body" unfolding body_def by (rule outs_run) (use assms(3) in auto)
  then have run: "dump_table ptr rec lvl root m = Inr (?pre @ body @ ?post)" using assms(1) name by (simp add: dump_table_def)
  have "sublist s (?pre @ body @ ?post)" if i: "i < 512" and s: "?d i = Inr s" for i s
  proof -
    have "[0..<512] = [0..<i] @ [i..<512]" using i upt_add_eq_append[of 0 i "512 - i"] by simp
    then have "[0..<512] = [0..<i] @ i # [Suc i..<512]" by (simp only: upt_conv_Cons[OF i])
    then have "body = concat (map projr (map ?d [0..<i])) @ s @ concat (map projr (map ?d [Suc i..<512]))"
      using s by (simp only: body_def map_append list.map concat_append concat.simps sum.sel)
    then have "sublist s body" by (simp add: sublist_appendI)
    then have "sublist s (body @ ?post)" by (rule sublist_order.order.trans[OF _ sublist_append_rightI])
    then show ?thesis by (rule sublist_pre)
  qed
  then show ?thesis using run by blast
qed

lemma dump_all_leaves:
  assumes "wf_pt (mem m) lvl root" "root \<noteq> 0" "lvl \<le> 4" "0 < lvl"
  shows "\<exists>out. dumpFullTableAddrsHelper ptr m lvl root = Inr out \<and>
     (\<forall>ix e. (\<forall>j. ix j < 512) \<longrightarrow> pt_lookup (mem m) lvl root ix = Some e \<longrightarrow> sublist (leaf_line ptr 1 (ix 1) (ent_addr e)) out)"
  using assms
proof (induction lvl arbitrary: root)
  case (Suc l)
  let ?rec = "dumpFullTableAddrsHelper ptr m l"
  let ?e = "\<lambda>i. mem m (pte_at root i)"
  have ent: "\<exists>s. dump_entry ptr ?rec (Suc l) root m i = Inr s \<and>
      (\<forall>ix e. (\<forall>j. ix j < 512) \<longrightarrow> ix (Suc l) = i \<longrightarrow> pt_lookup (mem m) (Suc l) root ix = Some e \<longrightarrow>
         sublist (leaf_line ptr 1 (ix 1) (ent_addr e)) s)" if i: "i < 512" for i
  proof (cases "pte_exists (?e i)")
    case ex: True
    note leaf = wf_isLeaf[OF Suc.prems(1,2) i ex]
    show ?thesis
    proof (cases "l = 0")
      case True
      obtain s where "printCommon (?e i) = Inr s" using printCommon_row by blast
      then show ?thesis using ex leaf True Suc.prems(2) pageTabEntToAddr_small[of 1 "?e i"]
        by (auto simp: dump_entry_def ld_def Let_def pt_simps)
    next
      case False
      note w = wf_pt_entry[OF Suc.prems(1,2) _ i ex]
      obtain s where s: "?rec (ent_addr (?e i)) = Inr s"
        "\<forall>ix e. (\<forall>j. ix j < 512) \<longrightarrow> pt_lookup (mem m) l (ent_addr (?e i)) ix = Some e \<longrightarrow> sublist (leaf_line ptr 1 (ix 1) (ent_addr e)) s"
        using Suc.IH[OF w(3,2)] Suc.prems(3) False by auto
      have nx: "nextTableOrFrame m root i (Suc l) = Inr (ent_addr (?e i))"
        using w(1) False Suc.prems(3) ex by (intro nextTableOrFrame_small) auto
      let ?pre = "alignToLvl (Suc l) @ CYAN @ show_nat i @ '' ->'' @ nl @ RESET"
      have "dump_entry ptr ?rec (Suc l) root m i = Inr (?pre @ s)"
        using ex leaf False nx s(1) by (simp add: dump_entry_def ld_def Let_def)
      moreover have "sublist (leaf_line ptr 1 (ix 1) (ent_addr e)) (?pre @ s)"
        if ix: "\<forall>j. ix j < 512" "ix (Suc l) = i" "pt_lookup (mem m) (Suc l) root ix = Some e" for ix e
      proof -
        have "pt_lookup (mem m) l (ent_addr (?e i)) ix = Some e" using ix(2,3) ex leaf False Suc.prems(2) by (simp add: pt_simps Let_def)
        then show ?thesis using s(2) ix(1) by (intro sublist_pre) blast
      qed
      ultimately show ?thesis by blast
    qed
  next
    case False
    then show ?thesis by (auto simp: dump_entry_def ld_def Let_def pt_simps)
  qed
  have "\<exists>s. dump_entry ptr ?rec (Suc l) root m i = Inr s" if "i < 512" for i using ent[OF that] by blast
  from dump_table_run[OF Suc.prems(2,3) this] obtain out where out: "dump_table ptr ?rec (Suc l) root m = Inr out"
    "\<And>i s. i < 512 \<Longrightarrow> dump_entry ptr ?rec (Suc l) root m i = Inr s \<Longrightarrow> sublist s out" by metis
  have "sublist (leaf_line ptr 1 (ix 1) (ent_addr e)) out"
    if ix: "\<forall>j. ix j < 512" "pt_lookup (mem m) (Suc l) root ix = Some e" for ix e
  proof -
    have i: "ix (Suc l) < 512" using ix(1) by blast
    obtain s where s: "dump_entry ptr ?rec (Suc l) root m (ix (Suc l)) = Inr s"
      "\<forall>jx f. (\<forall>j. jx j < 512) \<longrightarrow> jx (Suc l) = ix (Suc l) \<longrightarrow> pt_lookup (mem m) (Suc l) root jx = Some f \<longrightarrow>
         sublist (leaf_line ptr 1 (jx 1) (ent_addr f)) s"
      using ent[OF i] by blast
    have "sublist (leaf_line ptr 1 (ix 1) (ent_addr e)) s" using s(2)[rule_format, of ix e] ix by blast
    then show ?thesis by (rule sublist_order.order.trans[OF _ out(2)[OF i s(1)]])
  qed
  then show ?case using out(1) by (intro exI[of _ out]) simp
qed simp

section \<open>Properties\<close>

text \<open>
  C34. Dumping a well-formed page table ends without an abort, and its text has a line for every
  page the table maps, with the index of its entry and the address of its frame.
\<close>

theorem dump_complete:
  assumes "wf_pt (mem m) lvl root" "root \<noteq> 0" "lvl \<le> 4" "0 < lvl"
  shows "\<exists>out. dumpFullTableAddrs ptr m root lvl = Inr out \<and>
     (\<forall>ix e. (\<forall>j. ix j < 512) \<longrightarrow> pt_lookup (mem m) lvl root ix = Some e \<longrightarrow>
        sublist (leaf_line ptr 1 (ix 1) (ent_addr e)) out)"
proof -
  obtain out where out: "dumpFullTableAddrsHelper ptr m lvl root = Inr out"
    "\<forall>ix e. (\<forall>j. ix j < 512) \<longrightarrow> pt_lookup (mem m) lvl root ix = Some e \<longrightarrow> sublist (leaf_line ptr 1 (ix 1) (ent_addr e)) out"
    using dump_all_leaves[OF assms] by blast
  let ?pre = "GREEN @ ''Root at '' @ level_names ! lvl @ '': '' @ ptr root @ nl @ RESET"
  have "level_name lvl = Inr (level_names ! lvl)" using assms(3) by (simp add: level_name_def level_names_def)
  then have "dumpFullTableAddrs ptr m root lvl = Inr (?pre @ out)" using out(1) by (simp add: dumpFullTableAddrs_def)
  then show ?thesis using out(2) sublist_pre by blast
qed

theorem dump_complete_witness:
  "\<exists>out. dumpFullTableAddrs (\<lambda>a. ''0x'' @ show_hex (unat a)) (mach_of (small_tree (pte_build 0x4000 False True True True False)) []) 0x1000 3 = Inr out \<and>
     sublist (leaf_line (\<lambda>a. ''0x'' @ show_hex (unat a)) 1 3 0x4000) out"
proof -
  let ?e = "pte_build 0x4000 False True True True False" and ?ix = "\<lambda>l :: nat. if l = 3 then 1 else if l = 2 then 2 else 3 :: nat"
  have wf: "wf_pt (mem (mach_of (small_tree ?e) [])) 3 0x1000" by (simp add: small_tree_wf pte_simps)
  have lk: "pt_lookup (mem (mach_of (small_tree ?e) [])) 3 0x1000 ?ix = Some ?e" by (simp add: small_tree_lookup pte_simps)
  have a: "ent_addr ?e = 0x4000" by (simp add: pte_simps pg_ok_small)
  have ix: "\<forall>j. ?ix j < 512" by simp
  obtain out where "dumpFullTableAddrs (\<lambda>a. ''0x'' @ show_hex (unat a)) (mach_of (small_tree ?e) []) 0x1000 3 = Inr out"
    "\<forall>ix e. (\<forall>j. ix j < 512) \<longrightarrow> pt_lookup (mem (mach_of (small_tree ?e) [])) 3 0x1000 ix = Some e \<longrightarrow>
       sublist (leaf_line (\<lambda>a. ''0x'' @ show_hex (unat a)) 1 (ix 1) (ent_addr e)) out"
    using dump_complete[OF wf, of "\<lambda>a. ''0x'' @ show_hex (unat a)"] by auto
  note out = this(1) this(2)[rule_format, OF ix[rule_format] lk]
  have "sublist (leaf_line (\<lambda>a. ''0x'' @ show_hex (unat a)) 1 3 0x4000) out" using out(2) unfolding a by simp
  then show ?thesis using out(1) by blast
qed

text \<open>
  What is printed of a page table entry can be read back: the hexadecimal digits give the
  entry; the binary row gives it with the top bit, XD, cleared.
\<close>

theorem printCommon_reads_back:
  "\<exists>row hex. printCommon e = Inr (pte_header @ tab @ ''|'' @ row @ nl @ underlineNibbles @ hex) \<and>
     number (binary row) = bf_set 63 1 0 e \<and> hex_number hex = e"
  using printCommon_row printNibblesHex_number by blast

end
