(* ===== verification/Umm_Packet_Print.thy ===== *)
theory Umm_Packet_Print
  imports Umm_Print
begin

text \<open>
  \<open>UmProxy::DebugPrint\<close> of \<^verbatim>\<open>src/src/UmProxy.cc\<close>: the text it prints of a packet. The build
  switches \<open>DEBUG_PRINT_ETH\<close> to \<open>DEBUG_PRINT_UDP\<close> are the fields of a record, and \<open>dbg_file\<close> is their
  setting in the file. A read or an advance past the end of the packet has no model (\<open>Undef\<close>). The
  flags of a TCP header and their masks are EbbRT's: the parameter \<open>T\<close>.
\<close>

section \<open>Definitions\<close>

record dbg =
  DEBUG_PRINT_ETH :: bool
  DEBUG_PRINT_ARP :: bool
  DEBUG_PRINT_IP :: bool
  DEBUG_PRINT_TCP :: bool
  DEBUG_PRINT_UDP :: bool

definition dbg_file :: dbg where
  "dbg_file = \<lparr>DEBUG_PRINT_ETH = False, DEBUG_PRINT_ARP = False, DEBUG_PRINT_IP = False,
     DEBUG_PRINT_TCP = False, DEBUG_PRINT_UDP = False\<rparr>"

record tcp_ext =
  t_Flags :: "u8 list \<Rightarrow> u16"
  kTcpFin :: u16
  kTcpSyn :: u16
  kTcpRst :: u16
  kTcpPsh :: u16
  kTcpAck :: u16
  kTcpUrg :: u16
  kTcpEce :: u16
  kTcpCwr :: u16

definition sizeof_UdpHeader :: nat where "sizeof_UdpHeader = 8"

definition ntohl :: "u32 \<Rightarrow> u32" where
  "ntohl v = push_bit 24 (take_bit 8 v) OR push_bit 16 (take_bit 8 (drop_bit 8 v)) OR
     push_bit 8 (take_bit 8 (drop_bit 16 v)) OR drop_bit 24 v"

fun joined :: "string \<Rightarrow> string list \<Rightarrow> string" where
  "joined s [] = []"
| "joined s [x] = x"
| "joined s (x # y # xs) = x @ s @ joined s (y # xs)"

text \<open>\<open>%x\<close> of a byte and \<open>%hhd\<close>, which reads it as a signed number.\<close>

definition show_hhd :: "u8 \<Rightarrow> string" where
  "show_hhd b = (if sint b < 0 then ''-'' @ show_nat (nat (- sint b)) else show_nat (nat (sint b)))"

definition show_mac :: "u8 list \<Rightarrow> string" where "show_mac bs = joined '':'' (map (\<lambda>b. show_hex (unat b)) bs)"
definition show_ip :: "u8 list \<Rightarrow> string" where "show_ip bs = joined ''.'' (map show_hhd bs)"

definition debug_eth :: "u8 list \<Rightarrow> string" where
  "debug_eth buf =
     ''  eth type=0x'' @ show_hex (unat (eth_type buf)) @ nl @
     ''  eth src_mac='' @ show_mac (eth_src buf) @ nl @
     ''  eth dst_mac='' @ show_mac (eth_dst buf) @ nl"

definition debug_arp :: "u8 list \<Rightarrow> string" where
  "debug_arp buf =
     ''  arp hardware type 0x'' @ show_hex (unat (ntohs (ld16 14 buf))) @ nl @
     ''  arp proto type 0x'' @ show_hex (unat (ntohs (ld16 16 buf))) @ nl @
     ''  arp opcode 0x'' @ show_hex (unat (arp_oper buf)) @ nl @
     ''  arp sender mac '' @ show_mac (ld_bytes 22 6 buf) @ nl @
     ''  arp target mac '' @ show_mac (ld_bytes 32 6 buf) @ nl @
     ''  arp sender ip '' @ show_ip (arp_spa buf) @ '' '' @ nl @
     ''  arp target ip '' @ show_ip (arp_tpa buf) @ '' '' @ nl"

definition debug_ip :: "u8 list \<Rightarrow> string" where
  "debug_ip buf =
     ''  ip proto type 0x'' @ show_hex (unat (ip_proto buf)) @ nl @
     ''  ip sender ip '' @ show_ip (ip_src buf) @ '' '' @ nl @
     ''  ip target ip '' @ show_ip (ip_dst buf) @ '' '' @ nl @
     ''  ip checksum 0x'' @ show_hex (unat (ld16 24 buf)) @ nl"

definition debug_tcp :: "tcp_ext \<Rightarrow> u8 list \<Rightarrow> string" where
  "debug_tcp T buf =
     (let fl = t_Flags T (drop 34 buf) in
       ''  tcp src port '' @ show_nat (unat (tcp_src_port buf)) @ nl @
       ''  tcp dst port '' @ show_nat (unat (tcp_dst_port buf)) @ nl @
       ''  tcp seqno 0x'' @ show_hex (unat (ntohl_at 38 buf)) @ nl @
       ''  tcp ackno 0x'' @ show_hex (unat (ntohl_at 42 buf)) @ nl @
       ''  tcp checksum 0x'' @ show_hex (unat (ntohl (ucast (ld16 50 buf)))) @ nl @
       ''  tcp FLAGS 0x'' @ show_hex (unat fl) @ nl @
       (if fl AND kTcpFin T \<noteq> 0 then RED @ ''  tcp type FIN'' @ nl @ RESET else []) @
       (if fl AND kTcpSyn T \<noteq> 0 then ''  tcp type SYN'' @ nl else []) @
       (if fl AND kTcpRst T \<noteq> 0 then RED @ ''  tcp type RST'' @ nl @ RESET else []) @
       (if fl AND kTcpPsh T \<noteq> 0 then ''  tcp type PSH'' @ nl else []) @
       (if fl AND kTcpAck T \<noteq> 0 then ''  tcp type ACK'' @ nl else []) @
       (if fl AND kTcpUrg T \<noteq> 0 then ''  tcp type URG'' @ nl else []) @
       (if fl AND kTcpEce T \<noteq> 0 then ''  tcp type ECE'' @ nl else []) @
       (if fl AND kTcpCwr T \<noteq> 0 then ''  tcp type CWR'' @ nl else []))"

definition debug_udp :: "u8 list \<Rightarrow> string" where
  "debug_udp buf =
     ''  udp src port '' @ show_nat (unat (ntohs (ld16 34 buf))) @ nl @
     ''  udp dst port '' @ show_nat (unat (ntohs (ld16 36 buf))) @ nl @
     ''  udp len '' @ show_nat (unat (ntohs (ld16 38 buf))) @ nl @
     ''  udp checksum 0x'' @ show_hex (unat (ntohs (ld16 40 buf))) @ nl"

text \<open>\<open>Get\<close> has already passed the UDP header when \<open>Advance\<close> passes it once more.\<close>

definition DebugPrint :: "dbg \<Rightarrow> tcp_ext \<Rightarrow> u8 list \<Rightarrow> string res" where
  "DebugPrint D T buf =
     in_pkt sizeof_EthernetHeader buf
       (let e = (if DEBUG_PRINT_ETH D then debug_eth buf else []) in
        if eth_type buf = kEthTypeArp then
          in_pkt (14 + sizeof_ArpPacket) buf (Inr (e @ (if DEBUG_PRINT_ARP D then debug_arp buf else [])))
        else if eth_type buf = kEthTypeIp then
          in_pkt (14 + sizeof_Ipv4Header) buf
            (let i = e @ (if DEBUG_PRINT_IP D then debug_ip buf else []) in
             if ip_proto buf = 0x6 then
               in_pkt (34 + sizeof_TcpHeader) buf (Inr (i @ (if DEBUG_PRINT_TCP D then debug_tcp T buf else [])))
             else if ip_proto buf = 0x11 then
               if DEBUG_PRINT_UDP D then in_pkt (34 + sizeof_UdpHeader + sizeof_UdpHeader) buf (Inr (i @ debug_udp buf)) else Inr i
             else Inr i)
        else Inr e)"

section \<open>Facts\<close>

text \<open>The length a packet needs for its headers to be read.\<close>

definition headers_len :: "dbg \<Rightarrow> u8 list \<Rightarrow> nat" where
  "headers_len D buf =
     (if eth_type buf = kEthTypeArp then 42
      else if eth_type buf = kEthTypeIp then
        (if ip_proto buf = 6 then 54 else if ip_proto buf = 0x11 \<and> DEBUG_PRINT_UDP D then 50 else 34)
      else 14)"

lemmas debug_defs = DebugPrint_def headers_len_def in_pkt_def Let_def
  sizeof_EthernetHeader_def sizeof_ArpPacket_def sizeof_Ipv4Header_def sizeof_TcpHeader_def sizeof_UdpHeader_def

lemma DebugPrint_returns: "(\<exists>out. DebugPrint D T buf = Inr out) \<longleftrightarrow> headers_len D buf \<le> length buf"
  by (simp add: debug_defs)

lemma DebugPrint_silent: "DebugPrint dbg_file T buf = Inr out \<Longrightarrow> out = []"
  by (simp add: debug_defs dbg_file_def split: if_splits)

text \<open>The lines of the ports of a TCP segment give the ports the address translation uses.\<close>

definition port_lines :: "u8 list \<Rightarrow> string" where
  "port_lines buf =
     ''  tcp src port '' @ show_nat (unat (tcp_src_port buf)) @ nl @ ''  tcp dst port '' @ show_nat (unat (tcp_dst_port buf)) @ nl"

lemma DebugPrint_ports:
  assumes "DebugPrint D T buf = Inr out" "DEBUG_PRINT_TCP D" "eth_type buf = kEthTypeIp" "ip_proto buf = 6"
  shows "sublist (port_lines buf) out"
proof -
  have "prefix (port_lines buf) (debug_tcp T buf)" by (simp only: debug_tcp_def port_lines_def Let_def append_assoc same_prefix_prefix prefixI)
  then have "sublist (port_lines buf) (debug_tcp T buf)" by (rule prefix_imp_sublist)
  moreover have "kEthTypeIp \<noteq> kEthTypeArp" by (simp add: kEthTypeIp_def kEthTypeArp_def)
  then have "out = ((if DEBUG_PRINT_ETH D then debug_eth buf else []) @ (if DEBUG_PRINT_IP D then debug_ip buf else [])) @ debug_tcp T buf"
    using assms(1) by (simp add: assms(2-4) DebugPrint_def in_pkt_def Let_def split: if_split_asm)
  ultimately show ?thesis by (simp only: sublist_pre)
qed

text \<open>
  A UDP packet of less than eight bytes of data is complete, and printing it passes the end of it.
\<close>

lemma DebugPrint_short_udp:
  assumes "eth_type buf = kEthTypeIp" "ip_proto buf = 0x11" "42 \<le> length buf" "length buf < 50"
  shows "DebugPrint D T buf = Inl Undef \<longleftrightarrow> DEBUG_PRINT_UDP D"
  using assms by (simp add: debug_defs kEthTypeIp_def kEthTypeArp_def)

text \<open>The internal address 169.254.1.0 is printed with negative numbers.\<close>

lemma show_ip_negative: "show_ip client_internal_ipv4 = ''-87.-2.1.0''"
  by (simp add: show_ip_def client_internal_ipv4_def show_hhd_def show_nat.simps digit_def char_of_def bit_0)

text \<open>The checksum of a TCP header is 16 bits wide and converted with the function for 32 bits.\<close>

lemma ntohl_short: "ntohl (ucast (c :: u16)) = push_bit 16 (ucast (ntohs c))"
  by (rule bit_word_eqI)
    (auto simp: ntohl_def ntohs_def bit_or_iff bit_push_bit_iff bit_take_bit_iff bit_drop_bit_eq bit_unsigned_iff
      dest: bit_imp_le_length)

end
