(* ===== verification/Umm_Counter.thy ===== *)
theory Umm_Counter
  imports Umm_Prelude
begin

text \<open>
  The cycle, instruction and reference-cycle counters of a core, \<open>count::Counter\<close>
  (\<^verbatim>\<open>src/src/Counter.h\<close>). The hardware counters are EbbRT's \<open>PerfCounter\<close>; what its operations
  do to a counter, and what it reads, is the parameter \<open>P\<close>. Time records are printed nowhere
  in the model.
\<close>

section \<open>State\<close>

datatype perf_event = cycles_event | instructions_event | reference_cycles_event

record 'c perf =
  p_new :: "perf_event \<Rightarrow> 'c"
  p_Start :: "'c \<Rightarrow> 'c"
  p_Stop :: "'c \<Rightarrow> 'c"
  p_Clear :: "'c \<Rightarrow> 'c"
  p_Read :: "'c \<Rightarrow> u64"

record time_record =
  t_s :: string
  t_cycles :: u64
  t_ins :: u64
  t_ref_cycles :: u64

record 'c counter =
  init_done :: bool
  c_cycles :: 'c
  c_ins :: 'c
  c_ref_cycles :: 'c

section \<open>Operations\<close>

definition each_counter :: "('c \<Rightarrow> 'c) \<Rightarrow> 'c counter \<Rightarrow> 'c counter" where
  "each_counter f c = c\<lparr>c_cycles := f (c_cycles c), c_ins := f (c_ins c), c_ref_cycles := f (c_ref_cycles c)\<rparr>"

definition start_all :: "'c perf \<Rightarrow> 'c counter \<Rightarrow> 'c counter" where "start_all P = each_counter (p_Start P)"
definition stop_all :: "'c perf \<Rightarrow> 'c counter \<Rightarrow> 'c counter" where "stop_all P = each_counter (p_Stop P)"
definition clear_all :: "'c perf \<Rightarrow> 'c counter \<Rightarrow> 'c counter" where "clear_all P = each_counter (p_Clear P)"

definition init_ctrs :: "'c perf \<Rightarrow> 'c counter \<Rightarrow> 'c counter res" where
  "init_ctrs P c =
     (if init_done c then Inl KAbort
      else
        (let c = c\<lparr>init_done := True\<rparr>;
             c = c\<lparr>c_cycles := p_new P cycles_event\<rparr>;
             c = c\<lparr>c_ins := p_new P instructions_event\<rparr>;
             c = c\<lparr>c_ref_cycles := p_new P reference_cycles_event\<rparr>
         in Inr (start_all P (clear_all P (stop_all P c)))))"

definition reset_all :: "'c perf \<Rightarrow> 'c counter \<Rightarrow> 'c counter" where
  "reset_all P c = clear_all P (stop_all P c)"

definition CreateTimeRecord :: "'c perf \<Rightarrow> string \<Rightarrow> 'c counter \<Rightarrow> time_record" where
  "CreateTimeRecord P str c =
     \<lparr>t_s = str, t_cycles = p_Read P (c_cycles c), t_ins = p_Read P (c_ins c), t_ref_cycles = p_Read P (c_ref_cycles c)\<rparr>"

definition add_to_list :: "'c perf \<Rightarrow> 'c counter \<Rightarrow> time_record \<Rightarrow> time_record list \<Rightarrow> time_record list" where
  "add_to_list P c r ctr_list =
     (if \<not> init_done c then ctr_list
      else
        (let r = r\<lparr>t_cycles := p_Read P (c_cycles c) - t_cycles r\<rparr>;
             r = r\<lparr>t_ins := p_Read P (c_ins c) - t_ins r\<rparr>;
             r = r\<lparr>t_ref_cycles := p_Read P (c_ref_cycles c) - t_ref_cycles r\<rparr>
         in ctr_list @ [r]))"

text \<open>The totals \<open>dump_list\<close> prints.\<close>

definition cycles_total :: "time_record list \<Rightarrow> u64" where
  "cycles_total ctr_list = fold (\<lambda>e t. t + t_cycles e) ctr_list 0"

section \<open>Lemmas\<close>

text \<open>
  Records taken back to back, each created where the one before was added, add up to the whole
  interval, in the arithmetic of the 64-bit counters.
\<close>

primrec measured :: "'c perf \<Rightarrow> 'c counter \<Rightarrow> 'c counter list \<Rightarrow> time_record list \<Rightarrow> time_record list" where
  "measured P c [] l = l"
| "measured P c (d # ds) l = measured P d ds (add_to_list P d (CreateTimeRecord P [] c) l)"

lemma cycles_total_append: "cycles_total (l @ [r]) = cycles_total l + t_cycles r"
  by (simp add: cycles_total_def)

lemma measured_total:
  "\<forall>d \<in> set ds. init_done d \<Longrightarrow>
   cycles_total (measured P c ds l) = cycles_total l + (p_Read P (c_cycles (last (c # ds))) - p_Read P (c_cycles c))"
proof (induction ds arbitrary: c l)
  case (Cons d ds)
  let ?l = "add_to_list P d (CreateTimeRecord P [] c) l"
  have "cycles_total ?l = cycles_total l + (p_Read P (c_cycles d) - p_Read P (c_cycles c))"
    using Cons.prems by (simp add: add_to_list_def CreateTimeRecord_def Let_def cycles_total_append)
  moreover have "cycles_total (measured P d ds ?l) = cycles_total ?l + (p_Read P (c_cycles (last (d # ds))) - p_Read P (c_cycles d))"
    using Cons.prems by (intro Cons.IH) simp
  ultimately show ?case by simp
qed simp

end
